(* ===== verification/Prelude.thy ===== *)
theory Prelude
  imports Main "HOL-Library.Word" "HOL-Library.Sublist" "HOL-Library.Code_Target_Numeral"
begin

text \<open>
  Shared ground of the development. It holds
  \<^item> the named collections that the component proofs pass to the simplifier:
    \<open>std_simps\<close> (standard-library combinators), \<open>inv_defs\<close> (the components'
    invariants, unfolded on demand) and \<open>step_defs\<close> (their transition functions);
  \<^item> Rust's \<^verbatim>\<open>Result\<close> as a sum with the error on the left, the combinators the
    sources use on it (\<^verbatim>\<open>?\<close>, \<^verbatim>\<open>map_err\<close>, \<^verbatim>\<open>ok_or\<close>, \<^verbatim>\<open>transpose\<close>)
    and the loop \<^verbatim>\<open>for x in xs { ...? }\<close>;
  \<^item> checked and saturating integer arithmetic at the widths the sources use;
  \<^item> generic lemmas on lists, options and finite maps.
\<close>

named_theorems std_simps \<open>rewrite rules for the modelled standard-library combinators\<close>
named_theorems inv_defs \<open>definitions of component invariants\<close>
named_theorems step_defs \<open>definitions of component operations\<close>

section \<open>Results\<close>

type_synonym ('a, 'e) result = "'e + 'a"

abbreviation Ok :: "'a \<Rightarrow> ('a, 'e) result" where
  "Ok \<equiv> Inr"

abbreviation Err :: "'e \<Rightarrow> ('a, 'e) result" where
  "Err \<equiv> Inl"

text \<open>\<open>and_then r f\<close> is the \<^verbatim>\<open>?\<close> operator followed by the rest of the function.\<close>

fun and_then :: "('a, 'e) result \<Rightarrow> ('a \<Rightarrow> ('b, 'e) result) \<Rightarrow> ('b, 'e) result" where
  "and_then (Inl e) f = Err e"
| "and_then (Inr x) f = f x"

fun map_err :: "('e \<Rightarrow> 'f) \<Rightarrow> ('a, 'e) result \<Rightarrow> ('a, 'f) result" where
  "map_err g (Inl e) = Err (g e)"
| "map_err g (Inr x) = Ok x"

fun map_ok :: "('a \<Rightarrow> 'b) \<Rightarrow> ('a, 'e) result \<Rightarrow> ('b, 'e) result" where
  "map_ok g (Inl e) = Err e"
| "map_ok g (Inr x) = Ok (g x)"

fun ok_or :: "'e \<Rightarrow> 'a option \<Rightarrow> ('a, 'e) result" where
  "ok_or e None = Err e"
| "ok_or e (Some x) = Ok x"

fun opt_transpose :: "('a, 'e) result option \<Rightarrow> ('a option, 'e) result" where
  "opt_transpose None = Ok None"
| "opt_transpose (Some r) = map_ok Some r"

fun is_ok :: "('a, 'e) result \<Rightarrow> bool" where
  "is_ok (Inl e) = False"
| "is_ok (Inr x) = True"

text \<open>\<open>fold_res f xs a\<close> is \<^verbatim>\<open>for x in xs { a = f(x, a)?; }\<close>.\<close>

fun fold_res :: "('x \<Rightarrow> 'a \<Rightarrow> ('a, 'e) result) \<Rightarrow> 'x list \<Rightarrow> 'a \<Rightarrow> ('a, 'e) result" where
  "fold_res f [] a = Ok a"
| "fold_res f (x # xs) a = and_then (f x a) (fold_res f xs)"

text \<open>\<open>traverse f xs\<close> is \<^verbatim>\<open>xs.map(f).collect::<Result<Vec<_>, _>>()\<close>.\<close>

fun traverse :: "('x \<Rightarrow> ('a, 'e) result) \<Rightarrow> 'x list \<Rightarrow> ('a list, 'e) result" where
  "traverse f [] = Ok []"
| "traverse f (x # xs) = and_then (f x) (\<lambda>y. map_ok (Cons y) (traverse f xs))"

lemma and_then_Ok [simp]: "and_then r f = Inr y \<longleftrightarrow> (\<exists>x. r = Inr x \<and> f x = Inr y)"
  by (cases r) auto

lemma and_then_Err [simp]:
  "and_then r f = Inl e \<longleftrightarrow> r = Inl e \<or> (\<exists>x. r = Inr x \<and> f x = Inl e)"
  by (cases r) auto

lemma and_then_no_Ok: "\<forall>x. r \<noteq> Inr x \<Longrightarrow> and_then r f = Inl (projl r)"
  by (cases r) auto

lemma map_err_Ok [simp]: "map_err g r = Inr y \<longleftrightarrow> r = Inr y"
  by (cases r) auto

lemma map_err_Err [simp]: "map_err g r = Inl e \<longleftrightarrow> (\<exists>d. r = Inl d \<and> e = g d)"
  by (cases r) auto

lemma map_ok_Ok [simp]: "map_ok g r = Inr y \<longleftrightarrow> (\<exists>x. r = Inr x \<and> y = g x)"
  by (cases r) auto

lemma map_ok_Err [simp]: "map_ok g r = Inl e \<longleftrightarrow> r = Inl e"
  by (cases r) auto

lemma ok_or_Ok [simp]: "ok_or e v = Inr y \<longleftrightarrow> v = Some y"
  by (cases v) auto

lemma ok_or_Err [simp]: "ok_or e v = Inl d \<longleftrightarrow> v = None \<and> d = e"
  by (cases v) auto

lemma opt_transpose_Ok [simp]:
  "opt_transpose v = Inr y \<longleftrightarrow>
     (v = None \<and> y = None) \<or> (\<exists>x. v = Some (Inr x) \<and> y = Some x)"
  by (cases v) auto

lemma is_ok_iff: "is_ok r \<longleftrightarrow> (\<exists>x. r = Inr x)"
  by (cases r) auto

lemma and_then_cong [fundef_cong]:
  "r = r' \<Longrightarrow> (\<And>x. r' = Inr x \<Longrightarrow> f x = g x) \<Longrightarrow> and_then r f = and_then r' g"
  by (cases r') auto

lemma fold_res_append:
  "fold_res f (xs @ ys) a = and_then (fold_res f xs a) (fold_res f ys)"
proof (induction xs arbitrary: a)
  case Nil
  then show ?case by simp
next
  case (Cons x xs)
  then show ?case by (cases "f x a") auto
qed

text \<open>An invariant that each iteration keeps holds at the end of a loop that returns.\<close>

lemma fold_res_invariant:
  assumes "fold_res f xs a = Inr b" and "P a"
    and "\<And>x a b. x \<in> set xs \<Longrightarrow> P a \<Longrightarrow> f x a = Inr b \<Longrightarrow> P b"
  shows "P b"
  using assms by (induction xs arbitrary: a) auto

lemma traverse_Ok_iff:
  "traverse f xs = Inr ys \<longleftrightarrow> list_all2 (\<lambda>x y. f x = Inr y) xs ys"
proof (induction xs arbitrary: ys)
  case Nil
  then show ?case by auto
next
  case (Cons x xs)
  then show ?case by (cases ys) auto
qed

lemma traverse_Ok_length: "traverse f xs = Inr ys \<Longrightarrow> length ys = length xs"
  by (simp add: traverse_Ok_iff list_all2_lengthD)

lemma traverse_map_Ok: "(\<And>x. x \<in> set xs \<Longrightarrow> f x = Inr (g x)) \<Longrightarrow> traverse f xs = Inr (map g xs)"
  by (induction xs) auto

section \<open>Machine integers\<close>

text \<open>
  Unsigned 64-bit counters are natural numbers whose operations check the width
  explicitly; \<^verbatim>\<open>i64\<close> columns are integers with the same treatment. Where the code
  computes on raw words (HTTP byte ranges, the base64 accumulator) the components use
  \<^typ>\<open>64 word\<close> and \<^typ>\<open>32 word\<close> directly.
\<close>

definition u64_max :: nat where
  "u64_max = 2 ^ 64 - 1"

definition i64_max :: int where
  "i64_max = 2 ^ 63 - 1"

definition i64_min :: int where
  "i64_min = - (2 ^ 63)"

definition checked_add_u64 :: "nat \<Rightarrow> nat \<Rightarrow> nat option" where
  "checked_add_u64 a b = (if a + b \<le> u64_max then Some (a + b) else None)"

definition checked_add_i64 :: "int \<Rightarrow> int \<Rightarrow> int option" where
  "checked_add_i64 a b = (if i64_min \<le> a + b \<and> a + b \<le> i64_max then Some (a + b) else None)"

definition saturating_add_i64 :: "int \<Rightarrow> int \<Rightarrow> int" where
  "saturating_add_i64 a b = min i64_max (max i64_min (a + b))"

text \<open>\<^verbatim>\<open>u64::try_from(i64)\<close> and \<^verbatim>\<open>i64::try_from(u64)\<close>.\<close>

definition u64_try_from :: "int \<Rightarrow> nat option" where
  "u64_try_from v = (if 0 \<le> v then Some (nat v) else None)"

definition i64_try_from :: "nat \<Rightarrow> int option" where
  "i64_try_from n = (if int n \<le> i64_max then Some (int n) else None)"

lemma unat64_less: "unat (w :: 64 word) < 2 ^ 64"
proof -
  have "(unsigned w :: nat) < 2 ^ LENGTH(64)" by (rule unsigned_less)
  then show ?thesis by simp
qed

lemma unat64_le_max: "unat (w :: 64 word) \<le> u64_max"
  using unat64_less [of w] by (simp add: u64_max_def)

lemma checked_add_u64_Some [simp]:
  "checked_add_u64 a b = Some c \<longleftrightarrow> c = a + b \<and> a + b \<le> u64_max"
  by (auto simp: checked_add_u64_def)

lemma checked_add_u64_None [simp]: "checked_add_u64 a b = None \<longleftrightarrow> u64_max < a + b"
  by (auto simp: checked_add_u64_def)

lemma checked_add_i64_Some [simp]:
  "checked_add_i64 a b = Some c \<longleftrightarrow> c = a + b \<and> i64_min \<le> a + b \<and> a + b \<le> i64_max"
  by (auto simp: checked_add_i64_def)

lemma u64_try_from_Some [simp]: "u64_try_from v = Some n \<longleftrightarrow> v = int n"
  by (auto simp: u64_try_from_def)

lemma u64_try_from_int [simp]: "u64_try_from (int n) = Some n"
  by (simp add: u64_try_from_def)

lemma i64_try_from_Some [simp]: "i64_try_from n = Some v \<longleftrightarrow> v = int n \<and> int n \<le> i64_max"
  by (auto simp: i64_try_from_def)

lemma i64_try_from_None [simp]: "i64_try_from n = None \<longleftrightarrow> i64_max < int n"
  by (auto simp: i64_try_from_def)

lemma i64_max_le_u64_max: "int n \<le> i64_max \<Longrightarrow> n < u64_max"
  by (simp add: i64_max_def u64_max_def)

section \<open>Lists and maps\<close>

lemma filter_take_drop_split:
  "filter P (take n xs) @ filter P (drop n xs) = filter P xs"
  by (metis append_take_drop_id filter_append)

lemma find_Some_in: "List.find P xs = Some x \<Longrightarrow> x \<in> set xs \<and> P x"
  by (auto simp: find_Some_iff)

lemma find_map_key_eq:
  assumes "distinct (map k xs)" and "x \<in> set xs"
  shows "List.find (\<lambda>y. k y = k x) xs = Some x"
  using assms by (induction xs) (auto simp: rev_image_eqI)

lemma find_None_conv: "List.find P xs = None \<longleftrightarrow> (\<forall>x. x \<in> set xs \<longrightarrow> \<not> P x)"
  by (auto simp: find_None_iff)

lemma finite_dom_restrict: "finite (dom m) \<Longrightarrow> finite (dom (m |` A))"
  by (simp add: dom_restrict)

section \<open>Codecs\<close>

text \<open>
  An encoder and a partial decoder that agree on the values satisfying \<open>good\<close>. The
  sources have several such pairs: base64url tokens, decimal numbers, enumeration columns.
\<close>

locale codec =
  fixes enc :: "'a \<Rightarrow> 'b" and dec :: "'b \<Rightarrow> 'a option" and good :: "'a \<Rightarrow> bool"
  assumes dec_enc: "good x \<Longrightarrow> dec (enc x) = Some x"
begin

lemma enc_inject: "good x \<Longrightarrow> good y \<Longrightarrow> enc x = enc y \<longleftrightarrow> x = y"
  by (metis dec_enc option.inject)

lemma dec_enc_iff: "good x \<Longrightarrow> good y \<Longrightarrow> dec (enc x) = Some y \<longleftrightarrow> x = y"
  by (auto simp: dec_enc)

lemma inj_on_enc: "inj_on enc {x. good x}"
  by (auto simp: inj_on_def enc_inject)

end

end
