(* ===== verification/Rust_Std.thy ===== *)
theory Rust_Std
  imports Prelude
begin

text \<open>
  The part of Rust's standard library on text that the sources use. A \<^verbatim>\<open>String\<close> or
  \<^verbatim>\<open>&str\<close> is the list of its UTF-8 bytes (\<^typ>\<open>string\<close>), so \<^verbatim>\<open>len()\<close> is
  \<^const>\<open>length\<close> and byte-wise search for an ASCII separator agrees with
  \<^verbatim>\<open>char\<close>-wise search. \<^verbatim>\<open>char::is_whitespace\<close> is Unicode's White_Space
  property, given by the UTF-8 encodings of its 25 code points.
\<close>

section \<open>Searching and splitting\<close>

definition strip_prefix :: "string \<Rightarrow> string \<Rightarrow> string option" where
  "strip_prefix p s = (if prefix p s then Some (drop (length p) s) else None)"

definition starts_with :: "string \<Rightarrow> string \<Rightarrow> bool" where
  "starts_with p s = prefix p s"

definition contains_char :: "char \<Rightarrow> string \<Rightarrow> bool" where
  "contains_char c s = (c \<in> set s)"

fun split_once_char :: "char \<Rightarrow> string \<Rightarrow> (string \<times> string) option" where
  "split_once_char c [] = None"
| "split_once_char c (x # xs) =
     (if x = c then Some ([], xs)
      else (case split_once_char c xs of None \<Rightarrow> None | Some (a, b) \<Rightarrow> Some (x # a, b)))"

text \<open>\<open>find_sub p s\<close>: the text before and after the first occurrence of \<open>p\<close>.\<close>

fun split_once_str :: "string \<Rightarrow> string \<Rightarrow> (string \<times> string) option" where
  "split_once_str p [] = (if p = [] then Some ([], []) else None)"
| "split_once_str p (x # xs) =
     (if prefix p (x # xs) then Some ([], drop (length p) (x # xs))
      else (case split_once_str p xs of None \<Rightarrow> None | Some (a, b) \<Rightarrow> Some (x # a, b)))"

definition rsplit_once_char :: "char \<Rightarrow> string \<Rightarrow> (string \<times> string) option" where
  "rsplit_once_char c s =
     (case split_once_char c (rev s) of None \<Rightarrow> None | Some (a, b) \<Rightarrow> Some (rev b, rev a))"

lemma split_once_str_length:
  "split_once_str p s = Some (a, b) \<Longrightarrow> p \<noteq> [] \<Longrightarrow> length b < length s"
proof (induction p s arbitrary: a b rule: split_once_str.induct)
  case (1 p)
  then show ?case by simp
next
  case (2 p x xs)
  show ?case
  proof (cases "prefix p (x # xs)")
    case True
    with "2.prems" show ?thesis by (cases p) auto
  next
    case False
    with "2.prems" obtain a' where "split_once_str p xs = Some (a', b)"
      by (auto split: option.splits)
    with False "2.IH" "2.prems"(2) show ?thesis by fastforce
  qed
qed

text \<open>\<^verbatim>\<open>str::split\<close> on a non-empty separator; never empty.\<close>

function split_str :: "string \<Rightarrow> string \<Rightarrow> string list" where
  "split_str p s =
     (if p = [] then [s]
      else (case split_once_str p s of None \<Rightarrow> [s] | Some (a, b) \<Rightarrow> a # split_str p b))"
  by pat_completeness auto
termination
  by (relation "measure (\<lambda>(p, s). length s)") (auto dest: split_once_str_length)

declare split_str.simps [simp del]

lemma split_once_char_Some:
  "split_once_char c s = Some (a, b) \<longleftrightarrow> s = a @ c # b \<and> c \<notin> set a"
proof (induction s arbitrary: a)
  case Nil
  then show ?case by simp
next
  case (Cons x xs)
  show ?case
  proof (cases "x = c")
    case True
    then show ?thesis by (cases a) auto
  next
    case False
    have "split_once_char c (x # xs) = Some (a, b) \<longleftrightarrow>
        (\<exists>a'. a = x # a' \<and> split_once_char c xs = Some (a', b))"
      using False by (auto split: option.splits)
    also have "\<dots> \<longleftrightarrow> (\<exists>a'. a = x # a' \<and> xs = a' @ c # b \<and> c \<notin> set a')"
      by (simp add: Cons.IH)
    also have "\<dots> \<longleftrightarrow> x # xs = a @ c # b \<and> c \<notin> set a"
      using False by (cases a) auto
    finally show ?thesis .
  qed
qed

lemma split_once_char_None: "split_once_char c s = None \<longleftrightarrow> c \<notin> set s"
  by (induction s) (auto split: option.splits)

lemma split_once_char_append [simp]:
  "c \<notin> set a \<Longrightarrow> split_once_char c (a @ c # b) = Some (a, b)"
  by (simp add: split_once_char_Some)

lemma strip_prefix_Some: "strip_prefix p s = Some r \<longleftrightarrow> s = p @ r"
  by (auto simp: strip_prefix_def prefix_def)

lemma strip_prefix_append [simp]: "strip_prefix p (p @ r) = Some r"
  by (simp add: strip_prefix_Some)

section \<open>White space and ASCII case\<close>

text \<open>The UTF-8 encodings of the code points with Unicode property White_Space.\<close>

definition unicode_ws :: "nat list list" where
  "unicode_ws =
     map (\<lambda>n. [n]) [9, 10, 11, 12, 13, 32]
     @ [[194, 133], [194, 160], [225, 154, 128]]
     @ map (\<lambda>n. [226, 128, n]) [128, 129, 130, 131, 132, 133, 134, 135, 136, 137, 138, 168, 169, 175]
     @ [[226, 129, 159], [227, 128, 128]]"

definition ws_strings :: "string list" where
  "ws_strings = map (map char_of) unicode_ws"

definition ws_at :: "string \<Rightarrow> string option" where
  "ws_at s = List.find (\<lambda>w. prefix w s) ws_strings"

definition ws_at_end :: "string \<Rightarrow> string option" where
  "ws_at_end s = List.find (\<lambda>w. suffix w s) ws_strings"

lemma ws_strings_nonempty: "w \<in> set ws_strings \<Longrightarrow> w \<noteq> []"
  by (auto simp: ws_strings_def unicode_ws_def)

lemma ws_at_length: "ws_at s = Some w \<Longrightarrow> length (drop (length w) s) < length s"
  using ws_strings_nonempty
  by (auto simp: ws_at_def find_Some_iff prefix_def)

lemma ws_at_end_length:
  "ws_at_end s = Some w \<Longrightarrow> length (take (length s - length w) s) < length s"
  using ws_strings_nonempty
  by (auto simp: ws_at_end_def find_Some_iff suffix_def)

function trim_start :: "string \<Rightarrow> string" where
  "trim_start s = (case ws_at s of None \<Rightarrow> s | Some w \<Rightarrow> trim_start (drop (length w) s))"
  by pat_completeness auto
termination
  by (relation "measure length") (use ws_at_length in auto)

function trim_end :: "string \<Rightarrow> string" where
  "trim_end s =
     (case ws_at_end s of None \<Rightarrow> s | Some w \<Rightarrow> trim_end (take (length s - length w) s))"
  by pat_completeness auto
termination
  by (relation "measure length") (use ws_at_end_length in auto)

declare trim_start.simps [simp del] trim_end.simps [simp del]

definition trim :: "string \<Rightarrow> string" where
  "trim s = trim_end (trim_start s)"

fun contains_ws :: "string \<Rightarrow> bool" where
  "contains_ws [] = False"
| "contains_ws (x # xs) = (ws_at (x # xs) \<noteq> None \<or> contains_ws xs)"

text \<open>\<open>take_word s\<close>: the longest prefix without white space, and the rest.\<close>

fun take_word :: "string \<Rightarrow> string \<times> string" where
  "take_word [] = ([], [])"
| "take_word (x # xs) =
     (if ws_at (x # xs) \<noteq> None then ([], x # xs)
      else (case take_word xs of (w, r) \<Rightarrow> (x # w, r)))"

lemma take_word_length: "length (snd (take_word s)) \<le> length s"
  by (induction s) (auto split: prod.splits)

lemma trim_start_length: "length (trim_start s) \<le> length s"
proof (induction s rule: trim_start.induct)
  case (1 s)
  show ?case
  proof (cases "ws_at s")
    case None
    then show ?thesis by (simp add: trim_start.simps)
  next
    case (Some w)
    with "1.IH" have "length (trim_start (drop (length w) s)) \<le> length (drop (length w) s)" by simp
    with Some show ?thesis by (subst trim_start.simps) simp
  qed
qed

lemma trim_start_no_ws: "ws_at (trim_start s) = None"
proof (induction s rule: trim_start.induct)
  case (1 s)
  then show ?case by (cases "ws_at s") (simp_all add: trim_start.simps [of s])
qed

lemma trim_start_word_length:
  assumes "trim_start s = x # xs"
  shows "length (snd (take_word (trim_start s))) < length s"
proof -
  have "ws_at (x # xs) = None" using trim_start_no_ws [of s] assms by simp
  then have "snd (take_word (x # xs)) = snd (take_word xs)"
    by (simp split: prod.splits)
  with take_word_length [of xs] trim_start_length [of s] assms show ?thesis by simp
qed

function split_whitespace :: "string \<Rightarrow> string list" where
  "split_whitespace s =
     (case trim_start s of
        [] \<Rightarrow> []
      | _ \<Rightarrow> fst (take_word (trim_start s)) # split_whitespace (snd (take_word (trim_start s))))"
  by pat_completeness auto
termination
  by (relation "measure length") (use trim_start_word_length in auto)

declare split_whitespace.simps [simp del]

definition ascii_lower :: "char \<Rightarrow> char" where
  "ascii_lower c = (if 65 \<le> (of_char c :: nat) \<and> (of_char c :: nat) \<le> 90
                    then char_of ((of_char c :: nat) + 32) else c)"

definition to_ascii_lowercase :: "string \<Rightarrow> string" where
  "to_ascii_lowercase s = map ascii_lower s"

definition eq_ignore_ascii_case :: "string \<Rightarrow> string \<Rightarrow> bool" where
  "eq_ignore_ascii_case a b = (to_ascii_lowercase a = to_ascii_lowercase b)"

definition trim_end_matches_char :: "char \<Rightarrow> string \<Rightarrow> string" where
  "trim_end_matches_char c s = rev (dropWhile (\<lambda>x. x = c) (rev s))"

lemma to_ascii_lowercase_length [simp]: "length (to_ascii_lowercase s) = length s"
  by (simp add: to_ascii_lowercase_def)

section \<open>Decimal numbers\<close>

definition is_digit :: "char \<Rightarrow> bool" where
  "is_digit c = (48 \<le> (of_char c :: nat) \<and> (of_char c :: nat) \<le> 57)"

definition digit_val :: "char \<Rightarrow> nat" where
  "digit_val c = (of_char c :: nat) - 48"

definition digit_char :: "nat \<Rightarrow> char" where
  "digit_char d = char_of (d + 48)"

text \<open>\<^verbatim>\<open>str::parse\<close> for an unsigned type with largest value \<open>mx\<close>: an optional
  plus sign, then at least one digit, every step checked for overflow.\<close>

fun parse_digits :: "nat \<Rightarrow> nat \<Rightarrow> string \<Rightarrow> nat option" where
  "parse_digits mx acc [] = Some acc"
| "parse_digits mx acc (c # cs) =
     (if is_digit c
      then (let n = acc * 10 + digit_val c in if n \<le> mx then parse_digits mx n cs else None)
      else None)"

definition parse_unsigned :: "nat \<Rightarrow> string \<Rightarrow> nat option" where
  "parse_unsigned mx s =
     (let ds = (case s of c # cs \<Rightarrow> if c = CHR ''+'' \<and> cs \<noteq> [] then cs else s | [] \<Rightarrow> [])
      in if ds = [] then None else parse_digits mx 0 ds)"

definition parse_u64 :: "string \<Rightarrow> 64 word option" where
  "parse_u64 s = map_option of_nat (parse_unsigned u64_max s)"

definition parse_u16 :: "string \<Rightarrow> nat option" where
  "parse_u16 s = parse_unsigned (2 ^ 16 - 1) s"

text \<open>\<^verbatim>\<open>str::parse::<i64>\<close>: a minus sign is accepted too.\<close>

definition parse_i64 :: "string \<Rightarrow> int option" where
  "parse_i64 s =
     (case s of
        [] \<Rightarrow> None
      | c # cs \<Rightarrow>
          if c = CHR ''-'' then
            (if cs = [] then None
             else map_option (\<lambda>n. - int n) (parse_digits (2 ^ 63) 0 cs))
          else map_option int (parse_unsigned (2 ^ 63 - 1) s))"

text \<open>\<^verbatim>\<open>to_string\<close> of an unsigned number.\<close>

fun dec_of_nat :: "nat \<Rightarrow> string" where
  "dec_of_nat n = (if n < 10 then [digit_char n] else dec_of_nat (n div 10) @ [digit_char (n mod 10)])"

declare dec_of_nat.simps [simp del]

lemma digit_char_facts:
  assumes "d < 10"
  shows "is_digit (digit_char d)" and "digit_val (digit_char d) = d"
  using assms by (auto simp: is_digit_def digit_val_def digit_char_def)

lemma dec_of_nat_digits: "c \<in> set (dec_of_nat n) \<Longrightarrow> is_digit c"
proof (induction n arbitrary: c rule: dec_of_nat.induct)
  case (1 n)
  show ?case
  proof (cases "n < 10")
    case True
    with "1.prems" show ?thesis by (simp add: dec_of_nat.simps [of n] digit_char_facts)
  next
    case False
    with "1.prems" have "c \<in> set (dec_of_nat (n div 10)) \<or> c = digit_char (n mod 10)"
      by (auto simp: dec_of_nat.simps [of n])
    with False "1.IH" show ?thesis by (auto simp: digit_char_facts)
  qed
qed

lemma dec_of_nat_nonempty: "dec_of_nat n \<noteq> []"
  by (subst dec_of_nat.simps) simp

lemma parse_digits_append:
  "parse_digits mx acc (xs @ ys) =
     (case parse_digits mx acc xs of None \<Rightarrow> None | Some n \<Rightarrow> parse_digits mx n ys)"
  by (induction mx acc xs rule: parse_digits.induct) (auto simp: Let_def)

lemma parse_digits_dec_of_nat: "n \<le> mx \<Longrightarrow> parse_digits mx 0 (dec_of_nat n) = Some n"
proof (induction n rule: dec_of_nat.induct)
  case (1 n)
  show ?case
  proof (cases "n < 10")
    case True
    with "1.prems" show ?thesis
      by (simp add: dec_of_nat.simps [of n] digit_char_facts)
  next
    case False
    have "n div 10 \<le> mx" using "1.prems" by (meson div_le_dividend le_trans)
    with False "1.IH" have "parse_digits mx 0 (dec_of_nat (n div 10)) = Some (n div 10)" by simp
    moreover have "n div 10 * 10 + n mod 10 = n" by simp
    ultimately show ?thesis using False "1.prems"
      by (simp add: dec_of_nat.simps [of n] parse_digits_append digit_char_facts Let_def)
  qed
qed

lemma parse_unsigned_dec_of_nat: "n \<le> mx \<Longrightarrow> parse_unsigned mx (dec_of_nat n) = Some n"
proof -
  assume "n \<le> mx"
  obtain c cs where s: "dec_of_nat n = c # cs" using dec_of_nat_nonempty by (cases "dec_of_nat n") auto
  have "is_digit c" using dec_of_nat_digits [of c n] s by simp
  then have "c \<noteq> CHR ''+''" by (auto simp: is_digit_def)
  with s parse_digits_dec_of_nat [OF \<open>n \<le> mx\<close>] show ?thesis
    by (simp add: parse_unsigned_def)
qed

lemma parse_u64_dec_of_nat: "parse_u64 (dec_of_nat (unat w)) = Some w"
  using unat64_le_max [of w] by (simp add: parse_u64_def parse_unsigned_dec_of_nat)

interpretation dec_u64: codec "\<lambda>w :: 64 word. dec_of_nat (unat w)" parse_u64 "\<lambda>_. True"
  by unfold_locales (simp add: parse_u64_dec_of_nat)

lemma parse_digits_bound: "parse_digits mx acc s = Some n \<Longrightarrow> acc \<le> mx \<Longrightarrow> n \<le> mx"
  by (induction mx acc s rule: parse_digits.induct) (auto simp: Let_def split: if_splits)

lemma parse_unsigned_bound: "parse_unsigned mx s = Some n \<Longrightarrow> n \<le> mx"
  by (auto simp: parse_unsigned_def Let_def split: if_splits intro: parse_digits_bound)

section \<open>UTF-8 validity\<close>

text \<open>\<^verbatim>\<open>std::str::from_utf8\<close> accepts exactly the well-formed sequences of the
  Unicode standard (no overlong form, no surrogate, nothing above U+10FFFF).\<close>

definition cont_byte :: "nat \<Rightarrow> bool" where
  "cont_byte b = (128 \<le> b \<and> b \<le> 191)"

fun utf8_valid_bytes :: "nat list \<Rightarrow> bool" where
  "utf8_valid_bytes [] = True"
| "utf8_valid_bytes (a # r) =
     (if a < 128 then utf8_valid_bytes r
      else (case r of
         [] \<Rightarrow> False
       | b # r2 \<Rightarrow>
         if 194 \<le> a \<and> a \<le> 223 then cont_byte b \<and> utf8_valid_bytes r2
         else (case r2 of
            [] \<Rightarrow> False
          | c # r3 \<Rightarrow>
            if 224 \<le> a \<and> a \<le> 239
            then cont_byte b \<and> cont_byte c \<and> (a = 224 \<longrightarrow> 160 \<le> b) \<and> (a = 237 \<longrightarrow> b \<le> 159)
                 \<and> utf8_valid_bytes r3
            else (case r3 of
               [] \<Rightarrow> False
             | d # r4 \<Rightarrow>
               240 \<le> a \<and> a \<le> 244 \<and> cont_byte b \<and> cont_byte c \<and> cont_byte d
               \<and> (a = 240 \<longrightarrow> 144 \<le> b) \<and> (a = 244 \<longrightarrow> b \<le> 143) \<and> utf8_valid_bytes r4))))"

definition utf8_valid :: "string \<Rightarrow> bool" where
  "utf8_valid s = utf8_valid_bytes (map of_char s)"

end
