(* ===== verification/Sqlite.thy ===== *)
theory Sqlite
  imports Rust_Std
begin

text \<open>
  What the three storage crates use of SQLite. A table is the list of its rows, in insertion
  order; the statements of the sources become operations on that list. The engine itself is
  not part of the repository: a call may fail at any time, so every operation takes a fault
  plan that says, for the call site (named by the message the source attaches to it) and
  the row of a cursor it is reading, whether the engine reports an error there. A
  transaction that is not committed leaves the table as it was.
\<close>

datatype sqlite_error = DatabaseBusy | DatabaseLocked | OtherSqliteError

type_synonym sql_faults = "string \<Rightarrow> nat \<Rightarrow> sqlite_error option"

definition no_faults :: sql_faults where
  "no_faults = (\<lambda>_ _. None)"

lemma no_faults_apply [simp]: "no_faults msg n = None"
  by (simp add: no_faults_def)

text \<open>\<^verbatim>\<open>matches!(error.code, ErrorCode::DatabaseBusy | ErrorCode::DatabaseLocked)\<close>\<close>

fun is_contention :: "sqlite_error \<Rightarrow> bool" where
  "is_contention DatabaseBusy = True"
| "is_contention DatabaseLocked = True"
| "is_contention OtherSqliteError = False"

text \<open>A call that returns \<open>v\<close> unless the engine fails, \<open>wrap\<close> being the site's error mapping.\<close>

definition sql_call ::
  "sql_faults \<Rightarrow> string \<Rightarrow> (string \<Rightarrow> sqlite_error \<Rightarrow> 'e) \<Rightarrow> 'a \<Rightarrow> ('a, 'e) result" where
  "sql_call flt msg wrap v = (case flt msg 0 of None \<Rightarrow> Ok v | Some e \<Rightarrow> Err (wrap msg e))"

definition sql_row ::
  "sql_faults \<Rightarrow> string \<Rightarrow> nat \<Rightarrow> (string \<Rightarrow> sqlite_error \<Rightarrow> 'e) \<Rightarrow> 'a \<Rightarrow> ('a, 'e) result" where
  "sql_row flt msg n wrap v = (case flt msg n of None \<Rightarrow> Ok v | Some e \<Rightarrow> Err (wrap msg e))"

lemma sql_call_no_faults [simp]: "sql_call no_faults msg wrap v = Ok v"
  by (simp add: sql_call_def)

lemma sql_row_no_faults [simp]: "sql_row no_faults msg n wrap v = Ok v"
  by (simp add: sql_row_def)

lemma sql_call_Ok [simp]: "sql_call flt msg wrap v = Inr x \<longleftrightarrow> flt msg 0 = None \<and> x = v"
  by (auto simp: sql_call_def split: option.splits)

lemma sql_row_Ok [simp]: "sql_row flt msg n wrap v = Inr x \<longleftrightarrow> flt msg n = None \<and> x = v"
  by (auto simp: sql_row_def split: option.splits)

lemma sql_call_Err: "sql_call flt msg wrap v = Inl x \<longleftrightarrow> (\<exists>e. flt msg 0 = Some e \<and> x = wrap msg e)"
  by (auto simp: sql_call_def split: option.splits)

text \<open>\<^verbatim>\<open>SELECT MAX(column)\<close> is \<open>NULL\<close> on an empty table.\<close>

definition sql_max :: "int list \<Rightarrow> int option" where
  "sql_max vs = (if vs = [] then None else Some (Max (set vs)))"

lemma sql_max_upt: "sql_max (map int [0..<n]) = (if n = 0 then None else Some (int n - 1))"
proof (cases n)
  case 0
  then show ?thesis by (simp add: sql_max_def)
next
  case (Suc m)
  have "Max (set (map int [0..<Suc m])) = int m"
    by (rule Max_eqI) auto
  with Suc show ?thesis by (simp add: sql_max_def del: upt_Suc set_map)
qed

text \<open>\<^verbatim>\<open>ORDER BY\<close> on rows that are already in order changes nothing.\<close>

lemma sort_key_sorted: "sorted (map k xs) \<Longrightarrow> sort_key k xs = xs"
  by (induction xs) (auto intro!: insort_key_left_comm simp: insort_is_Cons)

section \<open>Faults only turn results into errors\<close>

text \<open>
  \<open>res_le r r'\<close>: whatever \<open>r\<close> returns, \<open>r'\<close> returns too. An operation under a fault plan
  is below the same operation without faults, by the structure of its definition.
\<close>

definition res_le :: "('a, 'e) result \<Rightarrow> ('a, 'e) result \<Rightarrow> bool" where
  "res_le r r' \<longleftrightarrow> (\<forall>x. r = Inr x \<longrightarrow> r' = Inr x)"

named_theorems fault_intros \<open>structural rules for the order on results\<close>

lemma res_leD: "res_le r r' \<Longrightarrow> r = Inr x \<Longrightarrow> r' = Inr x"
  by (simp add: res_le_def)

lemma res_le_refl [fault_intros]: "res_le r r"
  by (simp add: res_le_def)

lemma res_le_and_then [fault_intros]:
  "res_le r r' \<Longrightarrow> (\<And>x. res_le (f x) (f' x)) \<Longrightarrow> res_le (and_then r f) (and_then r' f')"
  by (fastforce simp: res_le_def)

lemma res_le_sql_call [fault_intros]: "res_le (sql_call flt m w v) (sql_call no_faults m w v)"
  by (simp add: res_le_def)

lemma res_le_sql_row [fault_intros]: "res_le (sql_row flt m n w v) (sql_row no_faults m n w v)"
  by (simp add: res_le_def)

lemma res_le_if [fault_intros]:
  "res_le a a' \<Longrightarrow> res_le b b' \<Longrightarrow> res_le (if P then a else b) (if P then a' else b')"
  by simp

lemma res_le_case_prod [fault_intros]:
  "(\<And>a b. res_le (f a b) (f' a b)) \<Longrightarrow> res_le (case p of (a, b) \<Rightarrow> f a b) (case p of (a, b) \<Rightarrow> f' a b)"
  by (simp split: prod.split)

lemma res_le_case_option [fault_intros]:
  "res_le a a' \<Longrightarrow> (\<And>x. res_le (f x) (f' x)) \<Longrightarrow> res_le (case v of None \<Rightarrow> a | Some x \<Rightarrow> f x) (case v of None \<Rightarrow> a' | Some x \<Rightarrow> f' x)"
  by (simp split: option.split)

lemma res_le_map_ok [fault_intros]: "res_le r r' \<Longrightarrow> res_le (map_ok f r) (map_ok f r')"
  by (auto simp: res_le_def)

lemma res_le_traverse [fault_intros]:
  "(\<And>x. res_le (f x) (f' x)) \<Longrightarrow> res_le (traverse f xs) (traverse f' xs)"
  by (induction xs) (auto intro!: res_le_and_then res_le_map_ok res_le_refl)

lemma res_le_fold_res [fault_intros]:
  "(\<And>x a. res_le (f x a) (f' x a)) \<Longrightarrow> res_le (fold_res f xs a) (fold_res f' xs a)"
  by (induction xs arbitrary: a) (auto intro!: res_le_and_then res_le_refl)

lemma res_le_Let [fault_intros]: "(\<And>x. res_le (f x) (f' x)) \<Longrightarrow> res_le (Let v f) (Let v f')"
  by simp

end
