(* ===== verification/Event_Log.thy ===== *)
theory Event_Log
  imports Rust_Std
begin

text \<open>
  The contract of OrbitRelay's EventStore port, as the server and the SQLite adapter share
  it: the values that cross the port and the abstract log behind it. The events of a log
  have distinct identities; an append adds at the end unless the identity is known; a
  position of the log is what cursors and checkpoints stand for. The locale \<open>event_port\<close>
  states what a store promises its clients, and proves once what they get from it.

  \<^verbatim>\<open>Event\<close>, \<^verbatim>\<open>EventQuery\<close>, \<^verbatim>\<open>EventPage\<close> and \<^verbatim>\<open>StorageError\<close> are types of the kernel
  crates. Each is the record of the values its accessors return; a query carries the result
  of its \<^verbatim>\<open>validate\<close> and its \<^verbatim>\<open>matches\<close> predicate.
\<close>

section \<open>Values of the port\<close>

record ('id, 'v) event =
  ev_id :: 'id
  ev_session_id :: 'id
  ev_actor_id :: 'id
  ev_action_id :: 'id
  ev_event_type :: string
  ev_occurred_at :: 'v
  ev_payload :: 'v
  ev_metadata :: 'v

datatype 'id storage_error =
    InvalidQuery string
  | BackendUnavailable string
  | BackendFailure string
  | EventConflict 'id
  | InvalidCheckpoint string
  | InvalidCursor string

text \<open>\<^verbatim>\<open>StoredEvent\<close>, \<^verbatim>\<open>EventPage\<close> and \<^verbatim>\<open>EventQuery\<close>.\<close>

record ('id, 'v, 'cur) stored_event =
  se_cursor :: 'cur
  se_event :: "('id, 'v) event"

record ('id, 'v, 'cur) event_page =
  page_events :: "('id, 'v, 'cur) stored_event list"
  next_cursor :: "'cur option"

record ('id, 'v, 'cur, 'cp) event_query =
  q_validate :: "(unit, 'id storage_error) result"
  q_session_id :: "'id option"
  q_actor_id :: "'id option"
  q_event_types :: "string list"
  q_after_cursor :: "'cur option"
  q_upper_bound :: "'cp option"
  q_limit :: nat
  q_matches :: "('id, 'v) event \<Rightarrow> bool"

text \<open>The query's own predicate implies the three columns the SQL text filters on.\<close>

definition query_ok :: "('id, 'v, 'cur, 'cp) event_query \<Rightarrow> bool" where
  "query_ok q \<longleftrightarrow> (\<forall>e. q_matches q e \<longrightarrow>
     (\<forall>i. q_session_id q = Some i \<longrightarrow> ev_session_id e = i) \<and>
     (\<forall>i. q_actor_id q = Some i \<longrightarrow> ev_actor_id e = i) \<and>
     (q_event_types q = [] \<or> ev_event_type e \<in> set (q_event_types q)))"

section \<open>The abstract log\<close>

definition find_event :: "'id \<Rightarrow> ('id, 'v) event list \<Rightarrow> (nat \<times> ('id, 'v) event) option" where
  "find_event i log = List.find (\<lambda>(n, e). ev_id e = i) (List.enumerate 0 log)"

definition spec_append ::
  "('id, 'v) event \<Rightarrow> ('id, 'v) event list \<Rightarrow> (nat, 'id storage_error) result \<times> ('id, 'v) event list" where
  "spec_append e log =
     (case find_event (ev_id e) log of
        Some (n, x) \<Rightarrow> (if x = e then Ok n else Err (EventConflict (ev_id e)), log)
      | None \<Rightarrow> (Ok (length log), log @ [e]))"

definition spec_hits ::
  "('id, 'v, 'cur, 'cp) event_query \<Rightarrow> nat \<Rightarrow> nat \<Rightarrow> ('id, 'v) event list \<Rightarrow> (nat \<times> ('id, 'v) event) list" where
  "spec_hits q start upper log =
     filter (\<lambda>(n, e). q_matches q e) (drop start (take upper (List.enumerate 0 log)))"

definition spec_page ::
  "(nat \<Rightarrow> 'cur) \<Rightarrow> nat \<Rightarrow> (nat \<times> ('id, 'v) event) list \<Rightarrow> ('id, 'v, 'cur) event_page" where
  "spec_page cursor limit hits =
     (let page = take limit hits
      in \<lparr>page_events = map (\<lambda>(n, e). \<lparr>se_cursor = cursor (n + 1), se_event = e\<rparr>) page,
          next_cursor = (if limit < length hits \<and> page \<noteq> [] then Some (cursor (fst (last page) + 1)) else None)\<rparr>)"

section \<open>Lookup and append\<close>

lemma find_event_Some:
  "find_event i log = Some (n, e) \<Longrightarrow> n < length log \<and> log ! n = e \<and> ev_id e = i"
  by (auto simp: find_event_def in_set_enumerate_eq dest!: find_Some_in)

lemma find_event_None: "find_event i log = None \<longleftrightarrow> i \<notin> ev_id ` set log"
proof -
  have "e \<in> set log \<longleftrightarrow> (\<exists>n. (n, e) \<in> set (List.enumerate 0 log))" for e
  proof -
    have "e \<in> set log \<longleftrightarrow> e \<in> snd ` set (List.enumerate 0 log)"
      by (simp flip: set_map)
    then show ?thesis by force
  qed
  then show ?thesis by (auto simp: find_event_def find_None_conv)
qed

lemma find_event_nth:
  assumes "distinct (map ev_id log)" and "n < length log"
  shows "find_event (ev_id (log ! n)) log = Some (n, log ! n)"
proof (cases "find_event (ev_id (log ! n)) log")
  case None
  with assms(2) show ?thesis by (auto simp: find_event_None)
next
  case (Some x)
  obtain m e where x: "x = (m, e)" by fastforce
  from find_event_Some [OF Some [unfolded x]] have "m < length log" "log ! m = e" "ev_id e = ev_id (log ! n)"
    by auto
  with assms have "m = n" by (metis length_map nth_eq_iff_index_eq nth_map)
  with x Some \<open>log ! m = e\<close> show ?thesis by simp
qed

lemma find_append_list: "List.find P (xs @ ys) = (case List.find P xs of None \<Rightarrow> List.find P ys | Some x \<Rightarrow> Some x)"
  by (induction xs) auto

lemma find_event_append:
  assumes "spec_append e log = (Ok n, log')"
  shows "find_event (ev_id e) log' = Some (n, e)"
proof (cases "find_event (ev_id e) log")
  case None
  with assms show ?thesis
    by (auto simp: spec_append_def find_event_def enumerate_append_eq find_append_list)
next
  case (Some z)
  with assms show ?thesis by (auto simp: spec_append_def split: prod.splits if_splits)
qed

lemma spec_append_again: "spec_append e log = (Ok n, log') \<Longrightarrow> spec_append e log' = (Ok n, log')"
  by (simp add: spec_append_def [of e log'] find_event_append)

lemma spec_append_prefix: "spec_append e log = (r, log') \<Longrightarrow> prefix log log'"
  by (auto simp: spec_append_def split: option.splits)


section \<open>Query hits\<close>

lemma drop_enumerate_filter:
  "drop m (List.enumerate k xs) = filter (\<lambda>(n, e). k + m \<le> n) (List.enumerate k xs)"
proof (induction xs arbitrary: m k)
  case (Cons x xs)
  show ?case
  proof (cases m)
    case 0
    have "filter (\<lambda>(n, e). k \<le> n) (List.enumerate (Suc k) xs) = List.enumerate (Suc k) xs"
      by (rule filter_True) (auto simp: in_set_enumerate_eq)
    with 0 show ?thesis by simp
  next
    case (Suc j)
    with Cons [of j "Suc k"] show ?thesis by simp
  qed
qed simp

lemma take_enumerate_filter:
  "take m (List.enumerate k xs) = filter (\<lambda>(n, e). n < k + m) (List.enumerate k xs)"
proof (induction xs arbitrary: m k)
  case (Cons x xs)
  show ?case
  proof (cases m)
    case 0
    have "filter (\<lambda>(n, e). n < k) (List.enumerate (Suc k) xs) = []"
      by (auto simp: filter_empty_conv in_set_enumerate_eq)
    with 0 show ?thesis by simp
  next
    case (Suc j)
    with Cons [of j "Suc k"] show ?thesis by simp
  qed
qed simp

lemma take_enumerate: "take m (List.enumerate k xs) = List.enumerate k (take m xs)"
  by (induction xs arbitrary: m k) (auto simp: take_Cons split: nat.split)

lemma spec_hits_filter:
  "spec_hits q start upper log =
   filter (\<lambda>(n, e). start \<le> n \<and> n < upper \<and> q_matches q e) (List.enumerate 0 log)"
proof -
  have "drop start (take upper (List.enumerate 0 log)) =
    filter (\<lambda>(n, e). start \<le> n) (filter (\<lambda>(n, e). n < upper) (List.enumerate 0 log))"
    by (simp add: take_enumerate drop_enumerate_filter flip: take_enumerate_filter [of _ 0, simplified])
  then show ?thesis
    by (auto simp: spec_hits_def intro!: filter_cong)
qed

lemma sorted_wrt_filter_after:
  assumes "sorted_wrt (<) (map k xs)" and "0 < m" and "m \<le> length xs"
  shows "filter (\<lambda>x. k (xs ! (m - 1)) < (k x :: nat)) xs = drop m xs"
proof -
  have split: "xs = take m xs @ drop m xs" by simp
  have less: "k (xs ! i) < k (xs ! j)" if "i < j" "j < length xs" for i j
    using sorted_wrt_nth_less [OF assms(1), of i j] that by simp
  have "filter (\<lambda>x. k (xs ! (m - 1)) < k x) (take m xs) = []"
  proof (subst filter_empty_conv, intro ballI)
    fix x assume "x \<in> set (take m xs)"
    then obtain i where "i < m" "x = xs ! i" using assms(3) by (auto simp: in_set_conv_nth)
    then show "\<not> k (xs ! (m - 1)) < k x"
      using less [of i "m - 1"] assms(2,3) by (cases "i = m - 1") (auto, linarith)
  qed
  moreover have "filter (\<lambda>x. k (xs ! (m - 1)) < k x) (drop m xs) = drop m xs"
  proof (rule filter_True, intro ballI)
    fix x assume "x \<in> set (drop m xs)"
    then obtain i where "i < length xs - m" "x = xs ! (m + i)" by (auto simp: in_set_conv_nth)
    then show "k (xs ! (m - 1)) < k x" using less [of "m - 1" "m + i"] assms by simp
  qed
  ultimately show ?thesis
    by (metis append_self_conv2 filter_append split)
qed

lemma strict_sorted_hits: "sorted_wrt (<) (map fst (spec_hits q start upper log))"
proof -
  have "sorted_wrt (<) (map fst (filter P (List.enumerate k log)))" for P :: "nat \<times> ('a, 'b) event \<Rightarrow> bool" and k
  proof (induction log arbitrary: k)
    case (Cons e log)
    then show ?case by (auto simp: in_set_enumerate_eq)
  qed simp
  then show ?thesis unfolding spec_hits_filter .
qed

text \<open>A continuation after the last hit of a page yields exactly the remaining hits.\<close>

lemma spec_hits_continue:
  assumes "0 < limit" and "limit < length (spec_hits q start upper log)"
  shows "spec_hits q (fst (last (take limit (spec_hits q start upper log))) + 1) upper log =
    drop limit (spec_hits q start upper log)"
proof -
  let ?h = "spec_hits q start upper log"
  have last: "last (take limit ?h) = ?h ! (limit - 1)"
    using assms by (subst last_conv_nth) auto
  let ?n = "fst (?h ! (limit - 1))"
  have "?h ! (limit - 1) \<in> set ?h" using assms by simp
  then have "start \<le> ?n" by (auto simp: spec_hits_filter)
  then have "spec_hits q (?n + 1) upper log = filter (\<lambda>x. ?n < fst x) ?h"
    unfolding spec_hits_filter by (auto intro!: filter_cong)
  also have "\<dots> = drop limit ?h"
    using assms by (intro sorted_wrt_filter_after strict_sorted_hits) auto
  finally show ?thesis by (simp add: last)
qed

text \<open>Later appends do not change what lies below a boundary.\<close>

lemma spec_hits_prefix:
  assumes "prefix log log'" and "upper \<le> length log"
  shows "spec_hits q start upper log' = spec_hits q start upper log"
  using assms by (auto simp: spec_hits_def take_enumerate prefix_def)

lemma spec_hits_cong:
  "q_matches q = q_matches q' \<Longrightarrow> spec_hits q start upper log = spec_hits q' start upper log"
  by (simp add: spec_hits_def)

lemma spec_hits_all:
  "map snd (spec_hits q 0 upper log) = filter (q_matches q) (take upper log)"
proof -
  have "map snd (filter (\<lambda>(n, e). P e) (List.enumerate k xs)) = filter P xs" for P k and xs :: "('a, 'b) event list"
    by (induction xs arbitrary: k) auto
  then show ?thesis by (simp add: spec_hits_def take_enumerate)
qed

lemma spec_page_events:
  "map se_event (page_events (spec_page cursor limit hits)) = map snd (take limit hits)"
  by (auto simp: spec_page_def Let_def)

lemma spec_page_next:
  "0 < limit \<Longrightarrow> next_cursor (spec_page cursor limit hits) =
     (if limit < length hits then Some (cursor (fst (last (take limit hits)) + 1)) else None)"
  by (auto simp: spec_page_def Let_def)

section \<open>The port\<close>

text \<open>
  A client that follows the continuation cursors of a query. The store serves other clients
  in between: the list gives the state it is in at each request, and \<open>None\<close> means the
  client wanted another page after the last of them.
\<close>

fun drain ::
  "(('id, 'v, 'cur, 'cp) event_query \<Rightarrow> 's \<Rightarrow> (('id, 'v, 'cur) event_page, 'id storage_error) result)
   \<Rightarrow> ('id, 'v, 'cur, 'cp) event_query \<Rightarrow> 's list
   \<Rightarrow> (('id, 'v, 'cur) stored_event list, 'id storage_error) result option" where
  "drain query q [] = None"
| "drain query q (s # ss) =
     (case query q s of
        Inl x \<Rightarrow> Some (Err x)
      | Inr page \<Rightarrow>
          (case next_cursor page of
             None \<Rightarrow> Some (Ok (page_events page))
           | Some cursor \<Rightarrow>
               map_option (map_ok (\<lambda>rest. page_events page @ rest))
                 (drain query (q\<lparr>q_after_cursor := Some cursor\<rparr>) ss)))"

locale event_reader =
  fixes inv :: "'s \<Rightarrow> bool"
    and log :: "'s \<Rightarrow> ('id, 'v) event list"
    and query :: "('id, 'v, 'cur, 'cp) event_query \<Rightarrow> 's \<Rightarrow> (('id, 'v, 'cur) event_page, 'id storage_error) result"
    and cursor_at :: "nat \<Rightarrow> 'cur"
    and checkpoint_at :: "nat \<Rightarrow> 'cp"
  assumes query_Ok: "inv s \<Longrightarrow> query_ok q \<Longrightarrow> query q s = Inr page \<Longrightarrow>
      q_after_cursor q = (if start = 0 then None else Some (cursor_at start)) \<Longrightarrow>
      q_upper_bound q = Some (checkpoint_at upper) \<or> q_upper_bound q = None \<and> upper = length (log s) \<Longrightarrow>
      upper \<le> length (log s) \<and> page = spec_page cursor_at (q_limit q) (spec_hits q start upper (log s))"
begin

text \<open>
  A drained query that is bounded by a checkpoint yields exactly the matching events below
  it, in order and without repetition, whatever is appended between its pages.
\<close>

lemma drain_checkpointed:
  assumes "query_ok q" and "0 < q_limit q" and "q_upper_bound q = Some (checkpoint_at b)"
    and "b \<le> length base" and "\<forall>s \<in> set ss. inv s \<and> prefix base (log s)"
    and "q_after_cursor q = (if start = 0 then None else Some (cursor_at start))"
    and "drain query q ss = Some (Inr evs)"
  shows "map se_event evs = map snd (spec_hits q start b base)"
  using assms
proof (induction ss arbitrary: q start evs)
  case (Cons s ss)
  let ?h = "spec_hits q start b base"
  from Cons.prems(5) have s: "inv s" "prefix base (log s)" by auto
  from Cons.prems(7) obtain page where page: "query q s = Inr page"
    by (auto split: sum.splits)
  have "spec_hits q start b (log s) = ?h"
    using s(2) Cons.prems(4) by (rule spec_hits_prefix)
  with query_Ok [OF s(1) Cons.prems(1) page Cons.prems(6)] Cons.prems(3)
  have eq: "page = spec_page cursor_at (q_limit q) ?h" by auto
  show ?case
  proof (cases "q_limit q < length ?h")
    case False
    with Cons.prems(2,7) page eq have "evs = page_events page" by (simp add: spec_page_next)
    with eq False show ?thesis by (simp add: spec_page_events)
  next
    case True
    let ?n = "fst (last (take (q_limit q) ?h))"
    let ?q = "q\<lparr>q_after_cursor := Some (cursor_at (?n + 1))\<rparr>"
    have nc: "next_cursor page = Some (cursor_at (?n + 1))"
      using True Cons.prems(2) eq by (simp add: spec_page_next)
    with Cons.prems(7) page obtain rest where rest: "drain query ?q ss = Some (Inr rest)"
      "evs = page_events page @ rest" by auto
    have "map se_event rest = map snd (spec_hits ?q (?n + 1) b base)"
      using Cons.prems rest(1) by (intro Cons.IH) (auto simp: query_ok_def)
    also have "spec_hits ?q (?n + 1) b base = spec_hits q (?n + 1) b base" by (rule spec_hits_cong) simp
    also have "\<dots> = drop (q_limit q) ?h" using spec_hits_continue [OF Cons.prems(2) True] .
    finally have "map se_event evs = map snd (take (q_limit q) ?h) @ map snd (drop (q_limit q) ?h)"
      using rest(2) eq by (simp add: spec_page_events)
    then show ?thesis by (metis append_take_drop_id map_append)
  qed
qed simp

text \<open>It ends: one more request than there are matching events is enough.\<close>

lemma drain_ends:
  assumes "query_ok q" and "0 < q_limit q" and "\<forall>s \<in> set ss. inv s \<and> prefix base (log s)"
    and "q_upper_bound q = Some (checkpoint_at b) \<or> (q_upper_bound q = None \<and> (\<forall>s \<in> set ss. length (log s) = b))"
    and "b \<le> length base"
    and "q_after_cursor q = (if start = 0 then None else Some (cursor_at start))"
    and "length (spec_hits q start b base) < length ss"
  shows "drain query q ss \<noteq> None"
  using assms
proof (induction ss arbitrary: q start)
  case (Cons s ss)
  let ?h = "spec_hits q start b base"
  from Cons.prems(3) have s: "inv s" "prefix base (log s)" by auto
  show ?case
  proof (cases "query q s")
    case (Inr page)
    have "spec_hits q start b (log s) = ?h"
      using s(2) Cons.prems(5) by (rule spec_hits_prefix)
    with query_Ok [OF s(1) Cons.prems(1) Inr Cons.prems(6), of b] Cons.prems(4)
    have eq: "page = spec_page cursor_at (q_limit q) ?h" by auto
    show ?thesis
    proof (cases "q_limit q < length ?h")
      case True
      let ?n = "fst (last (take (q_limit q) ?h))"
      let ?q = "q\<lparr>q_after_cursor := Some (cursor_at (?n + 1))\<rparr>"
      have "spec_hits ?q (?n + 1) b base = drop (q_limit q) ?h"
        using spec_hits_continue [OF Cons.prems(2) True] spec_hits_cong [of ?q q "?n + 1" b base] by simp
      then have "drain query ?q ss \<noteq> None"
        using Cons.prems True by (intro Cons.IH [of ?q "?n + 1"]) (auto simp: query_ok_def)
      with Inr eq True Cons.prems(2) show ?thesis by (simp add: spec_page_next)
    qed (use Inr eq Cons.prems(2) in \<open>simp add: spec_page_next\<close>)
  qed simp
qed simp

end

text \<open>A reader whose queries return whenever their bounds are in range.\<close>

locale live_event_reader = event_reader +
  assumes query_total: "inv s \<Longrightarrow> query_ok q \<Longrightarrow> q_validate q = Inr () \<Longrightarrow>
      q_after_cursor q = (if start = 0 then None else Some (cursor_at start)) \<Longrightarrow>
      q_upper_bound q = Some (checkpoint_at upper) \<or> q_upper_bound q = None \<and> upper = length (log s) \<Longrightarrow>
      start \<le> upper \<Longrightarrow> upper \<le> length (log s) \<Longrightarrow> \<exists>page. query q s = Inr page"
begin

lemma drain_total:
  assumes "query_ok q" and "q_validate q = Inr ()" and "0 < q_limit q"
    and "q_upper_bound q = Some (checkpoint_at b)" and "b \<le> length base" and "start \<le> b"
    and "\<forall>s \<in> set ss. inv s \<and> prefix base (log s)"
    and "q_after_cursor q = (if start = 0 then None else Some (cursor_at start))"
  shows "drain query q ss \<noteq> Some (Inl x)"
  using assms
proof (induction ss arbitrary: q start)
  case (Cons s ss)
  let ?h = "spec_hits q start b base"
  from Cons.prems(7) have s: "inv s" "prefix base (log s)" by auto
  then have b: "b \<le> length (log s)" using Cons.prems(5) prefix_length_le [OF s(2)] by simp
  obtain page where page: "query q s = Inr page"
    using query_total [OF s(1) Cons.prems(1,2,8) _ Cons.prems(6) b] Cons.prems(4) by blast
  have "spec_hits q start b (log s) = ?h"
    using s(2) Cons.prems(5) by (rule spec_hits_prefix)
  with query_Ok [OF s(1) Cons.prems(1) page Cons.prems(8)] Cons.prems(4)
  have eq: "page = spec_page cursor_at (q_limit q) ?h" by auto
  show ?case
  proof (cases "q_limit q < length ?h")
    case True
    let ?n = "fst (last (take (q_limit q) ?h))"
    let ?q = "q\<lparr>q_after_cursor := Some (cursor_at (?n + 1))\<rparr>"
    have "last (take (q_limit q) ?h) \<in> set (take (q_limit q) ?h)"
      using Cons.prems(3) True by (intro last_in_set) auto
    then have "last (take (q_limit q) ?h) \<in> set ?h" by (rule in_set_takeD)
    then have "?n + 1 \<le> b" by (auto simp: spec_hits_filter)
    then have "drain query ?q ss \<noteq> Some (Inl x)"
      using Cons.prems by (intro Cons.IH [of ?q "?n + 1"]) (auto simp: query_ok_def)
    with page eq True Cons.prems(3) show ?thesis by (auto simp: spec_page_next)
  qed (use page eq Cons.prems(3) in \<open>simp add: spec_page_next\<close>)
qed simp

end

text \<open>A store: what the writing side of the port adds.\<close>

locale event_port = event_reader inv log query cursor_at checkpoint_at
  for inv :: "'s \<Rightarrow> bool"
    and log :: "'s \<Rightarrow> ('id, 'v) event list"
    and query :: "('id, 'v, 'cur, 'cp) event_query \<Rightarrow> 's \<Rightarrow> (('id, 'v, 'cur) event_page, 'id storage_error) result"
    and cursor_at :: "nat \<Rightarrow> 'cur"
    and checkpoint_at :: "nat \<Rightarrow> 'cp" +
  fixes append :: "('id, 'v) event \<Rightarrow> 's \<Rightarrow> (('id, 'v, 'cur) stored_event, 'id storage_error) result \<times> 's"
    and capture :: "'s \<Rightarrow> ('cp, 'id storage_error) result"
  assumes append_Ok: "inv s \<Longrightarrow> append e s = (Inr se, s') \<Longrightarrow>
      inv s' \<and> (\<exists>n. spec_append e (log s) = (Inr n, log s') \<and> se = \<lparr>se_cursor = cursor_at (n + 1), se_event = e\<rparr>)"
    and append_Err: "inv s \<Longrightarrow> append e s = (Inl x, s') \<Longrightarrow> inv s' \<and> log s' = log s"
    and capture_Ok: "inv s \<Longrightarrow> capture s = Inr cp \<Longrightarrow> cp = checkpoint_at (length (log s))"
begin

lemma append_inv: "inv s \<Longrightarrow> inv (snd (append e s)) \<and> prefix (log s) (log (snd (append e s)))"
proof -
  assume s: "inv s"
  obtain r s' where r: "append e s = (r, s')" by fastforce
  show ?thesis
  proof (cases r)
    case (Inl x)
    with append_Err [OF s] r show ?thesis by simp
  next
    case (Inr se)
    with append_Ok [OF s] r spec_append_prefix show ?thesis by fastforce
  qed
qed

lemma append_all_inv:
  "inv s \<Longrightarrow> inv (fold (\<lambda>e s. snd (append e s)) es s) \<and> prefix (log s) (log (fold (\<lambda>e s. snd (append e s)) es s))"
proof (induction es arbitrary: s)
  case (Cons e es)
  from append_inv [OF Cons.prems, of e] Cons.IH [of "snd (append e s)"] show ?case
    by (auto intro: prefix_order.trans)
qed simp

end

lemma spec_hits_grow:
  assumes "prefix log log'"
  shows "prefix (spec_hits q start (length log) log) (spec_hits q start (length log') log')"
proof -
  obtain ext where ext: "log' = log @ ext" using assms by (auto simp: prefix_def)
  then show ?thesis by (simp add: spec_hits_def enumerate_append_eq)
qed

lemma spec_hits_resume:
  assumes "prefix log log'" and "0 < limit" and "limit < length (spec_hits q start (length log) log)"
    and "h = spec_hits q start (length log) log"
  shows "take limit h @ spec_hits q (fst (last (take limit h)) + 1) (length log') log' =
    spec_hits q start (length log') log'"
proof -
  obtain more where more: "spec_hits q start (length log') log' = h @ more"
    using spec_hits_grow [OF assms(1), of q start] assms(4) by (auto simp: prefix_def)
  then have t: "take limit (spec_hits q start (length log') log') = take limit h"
    using assms(3,4) by simp
  have "spec_hits q (fst (last (take limit h)) + 1) (length log') log' =
      drop limit (spec_hits q start (length log') log')"
    using spec_hits_continue [OF assms(2), of q start "length log'" log'] more t assms(3,4) by simp
  then show ?thesis using t by (metis append_take_drop_id)
qed

context event_reader
begin

text \<open>
  Without an upper bound the log may grow between the pages; what a drained query yields is
  the matching part of the log as it was at one of the requests.
\<close>

lemma drain_growing:
  assumes "query_ok q" and "0 < q_limit q" and "q_upper_bound q = None"
    and "sorted_wrt (\<lambda>s t. prefix (log s) (log t)) ss" and "\<forall>s \<in> set ss. inv s"
    and "q_after_cursor q = (if start = 0 then None else Some (cursor_at start))"
    and "drain query q ss = Some (Inr evs)"
  shows "\<exists>s \<in> set ss. map se_event evs = map snd (spec_hits q start (length (log s)) (log s))"
  using assms
proof (induction ss arbitrary: q start evs)
  case (Cons s ss)
  let ?h = "spec_hits q start (length (log s)) (log s)"
  from Cons.prems(5) have s: "inv s" by auto
  from Cons.prems(7) obtain page where page: "query q s = Inr page"
    by (auto split: sum.splits)
  from query_Ok [OF s Cons.prems(1) page Cons.prems(6)] Cons.prems(3)
  have eq: "page = spec_page cursor_at (q_limit q) ?h" by auto
  show ?case
  proof (cases "q_limit q < length ?h")
    case False
    with Cons.prems(2,7) page eq have "evs = page_events page" by (simp add: spec_page_next)
    with eq False show ?thesis by (auto simp: spec_page_events)
  next
    case True
    let ?n = "fst (last (take (q_limit q) ?h))"
    let ?q = "q\<lparr>q_after_cursor := Some (cursor_at (?n + 1))\<rparr>"
    have "next_cursor page = Some (cursor_at (?n + 1))"
      using True Cons.prems(2) eq by (simp add: spec_page_next)
    with Cons.prems(7) page obtain rest where rest: "drain query ?q ss = Some (Inr rest)"
      "evs = page_events page @ rest" by auto
    have "\<exists>t \<in> set ss. map se_event rest = map snd (spec_hits ?q (?n + 1) (length (log t)) (log t))"
      using Cons.prems rest(1) by (intro Cons.IH) (auto simp: query_ok_def)
    then obtain t where t: "t \<in> set ss"
      "map se_event rest = map snd (spec_hits q (?n + 1) (length (log t)) (log t))"
      using spec_hits_cong [of ?q q] by auto
    then have "prefix (log s) (log t)" using Cons.prems(4) by auto
    note r = spec_hits_resume [OF this Cons.prems(2) True refl]
    have "map se_event evs = map snd (take (q_limit q) ?h) @ map snd (spec_hits q (?n + 1) (length (log t)) (log t))"
      using t(2) rest(2) eq by (simp add: spec_page_events)
    also have "\<dots> = map snd (spec_hits q start (length (log t)) (log t))" by (metis map_append r)
    finally have "map se_event evs = map snd (spec_hits q start (length (log t)) (log t))" .
    with t(1) show ?thesis by auto
  qed
qed simp

end

end
