(* ===== verification/Worker.thy ===== *)
theory Worker
  imports Prelude
begin

text \<open>
  The worker thread that owns a SQLite connection. The three storage crates carry the same
  code: a handle with an atomic \<^verbatim>\<open>closed\<close> flag and the channel's sender, a bounded queue of
  commands each with its reply channel, and a loop that executes commands until it takes a
  \<^verbatim>\<open>Shutdown\<close> or every sender is gone. The model is polymorphic in the commands, the
  replies and the database; \<open>exec\<close> is what the loop does for one command.

  A client call is two atomic steps, as in the code: it clones the sender and then tries to
  send, so a call that has its clone may still queue a command after the store was closed.
  Reply channels are numbered by tickets. \<open>wk_done\<close> and \<open>wk_replies\<close> record the executed
  commands and the replies sent, in order.
\<close>

record ('c, 'r, 'db) worker =
  wk_closed :: bool
  wk_sender :: bool
  wk_clones :: nat
  wk_closing :: bool
  wk_capacity :: nat
  wk_queue :: "(nat \<times> 'c option) list"
  wk_running :: bool
  wk_next :: nat
  wk_db :: 'db
  wk_done :: "(nat \<times> 'c) list"
  wk_replies :: "(nat \<times> 'r) list"

datatype dispatch_error = StoreClosed | SenderTaken | QueueFull | WorkerGone | ResponseLost

definition worker_open :: "nat \<Rightarrow> 'db \<Rightarrow> ('c, 'r, 'db) worker" where
  "worker_open capacity db =
     \<lparr>wk_closed = False, wk_sender = True, wk_clones = 0, wk_closing = False,
      wk_capacity = capacity, wk_queue = [], wk_running = True, wk_next = 0, wk_db = db,
      wk_done = [], wk_replies = []\<rparr>"

text \<open>\<^verbatim>\<open>WorkerHandle::sender\<close>\<close>

definition worker_sender ::
  "('c, 'r, 'db) worker \<Rightarrow> (unit, dispatch_error) result \<times> ('c, 'r, 'db) worker" where
  "worker_sender w =
     (if wk_closed w then (Err StoreClosed, w)
      else if \<not> wk_sender w then (Err SenderTaken, w)
      else (Ok (), w\<lparr>wk_clones := wk_clones w + 1\<rparr>))"

text \<open>\<^verbatim>\<open>try_send\<close> on a cloned sender, which is dropped with the call.\<close>

definition worker_try_send ::
  "'c \<Rightarrow> ('c, 'r, 'db) worker \<Rightarrow> (nat, dispatch_error) result \<times> ('c, 'r, 'db) worker" where
  "worker_try_send c w =
     (let w' = w\<lparr>wk_clones := wk_clones w - 1\<rparr> in
      if \<not> wk_running w then (Err WorkerGone, w')
      else if wk_capacity w \<le> length (wk_queue w) then (Err QueueFull, w')
      else (Ok (wk_next w),
            w'\<lparr>wk_queue := wk_queue w @ [(wk_next w, Some c)], wk_next := wk_next w + 1\<rparr>))"

text \<open>
  What the caller reads from its reply channel: nothing yet, the reply, or the error of a
  channel whose sender was dropped unused.
\<close>

definition worker_reply ::
  "nat \<Rightarrow> ('c, 'r, 'db) worker \<Rightarrow> ('r, dispatch_error) result option" where
  "worker_reply t w =
     (case map_of (wk_replies w) t of
        Some r \<Rightarrow> Some (Ok r)
      | None \<Rightarrow> if t < wk_next w \<and> t \<notin> fst ` set (wk_queue w) then Some (Err ResponseLost) else None)"

text \<open>One iteration of \<^verbatim>\<open>run_worker\<close>; a blocked receive leaves the state as it is.\<close>

definition run_worker_step ::
  "('c \<Rightarrow> 'db \<Rightarrow> 'r \<times> 'db) \<Rightarrow> ('c, 'r, 'db) worker \<Rightarrow> ('c, 'r, 'db) worker" where
  "run_worker_step exec w =
     (if \<not> wk_running w then w
      else case wk_queue w of
        [] \<Rightarrow> if \<not> wk_sender w \<and> wk_clones w = 0 then w\<lparr>wk_running := False\<rparr> else w
      | (t, None) # q \<Rightarrow> w\<lparr>wk_running := False, wk_queue := []\<rparr>
      | (t, Some c) # q \<Rightarrow>
          (case exec c (wk_db w) of (r, db') \<Rightarrow>
             w\<lparr>wk_queue := q, wk_db := db', wk_done := wk_done w @ [(t, c)],
               wk_replies := wk_replies w @ [(t, r)]\<rparr>))"

text \<open>
  \<^verbatim>\<open>close\<close>: the flag is swapped and the sender taken; then \<^verbatim>\<open>Shutdown\<close> is sent, which
  waits while the queue is full. \<^verbatim>\<open>Drop\<close> does the first half and drops the sender.
\<close>

definition worker_close_begin :: "('c, 'r, 'db) worker \<Rightarrow> ('c, 'r, 'db) worker" where
  "worker_close_begin w =
     (if wk_closed w then w
      else if wk_sender w
      then w\<lparr>wk_closed := True, wk_sender := False, wk_clones := wk_clones w + 1, wk_closing := True\<rparr>
      else w\<lparr>wk_closed := True\<rparr>)"

definition worker_close_send :: "('c, 'r, 'db) worker \<Rightarrow> ('c, 'r, 'db) worker" where
  "worker_close_send w =
     (if \<not> wk_closing w then w
      else if \<not> wk_running w then w\<lparr>wk_closing := False, wk_clones := wk_clones w - 1\<rparr>
      else if wk_capacity w \<le> length (wk_queue w) then w
      else w\<lparr>wk_closing := False, wk_clones := wk_clones w - 1,
             wk_queue := wk_queue w @ [(wk_next w, None)], wk_next := wk_next w + 1\<rparr>)"

definition worker_drop :: "('c, 'r, 'db) worker \<Rightarrow> ('c, 'r, 'db) worker" where
  "worker_drop w = (if wk_closed w then w else w\<lparr>wk_closed := True, wk_sender := False\<rparr>)"

section \<open>Reachable states\<close>

inductive worker_step ::
  "('c \<Rightarrow> 'db \<Rightarrow> 'r \<times> 'db) \<Rightarrow> ('c, 'r, 'db) worker \<Rightarrow> ('c, 'r, 'db) worker \<Rightarrow> bool"
  for exec where
  ws_sender: "worker_step exec w (snd (worker_sender w))"
| ws_send: "0 < wk_clones w \<Longrightarrow> worker_step exec w (snd (worker_try_send c w))"
| ws_run: "worker_step exec w (run_worker_step exec w)"
| ws_close: "worker_step exec w (worker_close_begin w)"
| ws_shutdown: "worker_step exec w (worker_close_send w)"
| ws_drop: "worker_step exec w (worker_drop w)"

lemmas worker_ops = worker_sender_def worker_try_send_def run_worker_step_def worker_close_begin_def
  worker_close_send_def worker_drop_def

definition worker_steps ::
  "('c \<Rightarrow> 'db \<Rightarrow> 'r \<times> 'db) \<Rightarrow> ('c, 'r, 'db) worker \<Rightarrow> ('c, 'r, 'db) worker \<Rightarrow> bool" where
  "worker_steps exec = (worker_step exec)\<^sup>*\<^sup>*"

text \<open>Executing a list of commands one after the other.\<close>

fun run_commands :: "('c \<Rightarrow> 'db \<Rightarrow> 'r \<times> 'db) \<Rightarrow> 'c list \<Rightarrow> 'db \<Rightarrow> 'r list \<times> 'db" where
  "run_commands exec [] db = ([], db)"
| "run_commands exec (c # cs) db =
     (case exec c db of (r, db1) \<Rightarrow> case run_commands exec cs db1 of (rs, db2) \<Rightarrow> (r # rs, db2))"

lemma run_commands_snoc:
  "run_commands exec (cs @ [c]) db =
     (case run_commands exec cs db of (rs, db1) \<Rightarrow> case exec c db1 of (r, db2) \<Rightarrow> (rs @ [r], db2))"
  by (induction cs arbitrary: db) (auto split: prod.splits)

definition worker_inv :: "('c \<Rightarrow> 'db \<Rightarrow> 'r \<times> 'db) \<Rightarrow> 'db \<Rightarrow> ('c, 'r, 'db) worker \<Rightarrow> bool" where
  [inv_defs]: "worker_inv exec db0 w \<longleftrightarrow>
     run_commands exec (map snd (wk_done w)) db0 = (map snd (wk_replies w), wk_db w) \<and>
     map fst (wk_replies w) = map fst (wk_done w) \<and>
     sorted_wrt (<) (map fst (wk_done w) @ map fst (wk_queue w)) \<and>
     (\<forall>t \<in> set (map fst (wk_done w) @ map fst (wk_queue w)). t < wk_next w) \<and>
     length (wk_queue w) \<le> wk_capacity w \<and>
     (wk_closed w \<longrightarrow> \<not> wk_sender w) \<and> (\<not> wk_running w \<longrightarrow> wk_queue w = [])"

lemma worker_inv_open: "worker_inv exec db (worker_open capacity db)"
  by (simp add: inv_defs worker_open_def)

lemma run_worker_step_inv:
  assumes "worker_inv exec db0 w"
  shows "worker_inv exec db0 (run_worker_step exec w)"
proof (cases "wk_running w \<and> wk_queue w \<noteq> []")
  case True
  then obtain t oc q where q: "wk_queue w = (t, oc) # q" by (cases "wk_queue w") auto
  show ?thesis
  proof (cases oc)
    case None
    with True q assms show ?thesis by (auto simp: inv_defs run_worker_step_def sorted_wrt_append)
  next
    case (Some c)
    with True q assms show ?thesis
      by (auto simp: inv_defs run_worker_step_def run_commands_snoc sorted_wrt_append split: prod.splits)
  qed
next
  case False
  with assms show ?thesis by (auto simp: inv_defs run_worker_step_def)
qed

lemma worker_inv_push:
  assumes "worker_inv exec db0 w" and "wk_running w" and "length (wk_queue w) < wk_capacity w"
  shows "worker_inv exec db0
    (w\<lparr>wk_queue := wk_queue w @ [(wk_next w, x)], wk_next := wk_next w + 1\<rparr>)"
  using assms unfolding worker_inv_def by (auto simp: sorted_wrt_append less_Suc_eq)

lemma worker_inv_clones [simp]:
  "worker_inv exec db0 (w\<lparr>wk_clones := n\<rparr>) = worker_inv exec db0 w"
  "worker_inv exec db0 (w\<lparr>wk_closing := b\<rparr>) = worker_inv exec db0 w"
  by (simp_all add: inv_defs)

lemma worker_try_send_inv: "worker_inv exec db0 w \<Longrightarrow> worker_inv exec db0 (snd (worker_try_send c w))"
  using worker_inv_push [of exec db0 "w\<lparr>wk_clones := wk_clones w - 1\<rparr>" "Some c"]
  by (auto simp: worker_try_send_def Let_def)

lemma worker_close_send_inv: "worker_inv exec db0 w \<Longrightarrow> worker_inv exec db0 (worker_close_send w)"
  using worker_inv_push [of exec db0 "w\<lparr>wk_closing := False, wk_clones := wk_clones w - 1\<rparr>" None]
  by (auto simp: worker_close_send_def)

lemma worker_step_inv: "worker_step exec w w' \<Longrightarrow> worker_inv exec db0 w \<Longrightarrow> worker_inv exec db0 w'"
proof (induction rule: worker_step.induct)
  case (ws_run w)
  then show ?case by (rule run_worker_step_inv)
next
  case (ws_close w)
  then show ?case by (auto simp: inv_defs worker_close_begin_def)
next
  case (ws_drop w)
  then show ?case by (auto simp: inv_defs worker_drop_def)
qed (auto simp: worker_sender_def worker_try_send_inv worker_close_send_inv)

lemma worker_steps_inv:
  "worker_steps exec w w' \<Longrightarrow> worker_inv exec db0 w \<Longrightarrow> worker_inv exec db0 w'"
  unfolding worker_steps_def by (induction rule: rtranclp_induct) (auto intro: worker_step_inv)

text \<open>
  C20. Whatever calls, closes and drops interleave with the worker loop, the store behaves as
  if the accepted commands had been executed one at a time: the database is the result of
  running the executed commands in the order in which they were accepted, each reply is the
  result of its command at its place in that order, and the queue never exceeds its capacity.
\<close>

theorem worker_linearizable:
  assumes "worker_steps exec (worker_open capacity db) w"
  shows "run_commands exec (map snd (wk_done w)) db = (map snd (wk_replies w), wk_db w) \<and>
    map fst (wk_replies w) = map fst (wk_done w) \<and>
    sorted_wrt (<) (map fst (wk_done w) @ map fst (wk_queue w)) \<and>
    length (wk_queue w) \<le> wk_capacity w"
  using worker_steps_inv [OF assms worker_inv_open] by (simp add: inv_defs)

text \<open>
  What a store served by a worker owes its clients: every command it is given keeps the
  store's invariant and only moves the tables forward. Then so does every interleaving of
  calls, closes and steps of the loop.
\<close>

locale served_tables =
  fixes exec :: "'c \<Rightarrow> 'db \<Rightarrow> 'r \<times> 'db" and allowed :: "'c \<Rightarrow> bool" and inv :: "'db \<Rightarrow> bool" and grows :: "'db \<Rightarrow> 'db \<Rightarrow> bool"
  assumes exec_keeps: "inv db \<Longrightarrow> allowed c \<Longrightarrow> exec c db = (r, db') \<Longrightarrow> inv db' \<and> grows db db'"
    and grows_refl: "grows db db"
    and grows_trans: "grows a b \<Longrightarrow> grows b d \<Longrightarrow> grows a d"
begin

lemma run_commands_keep:
  "inv db \<Longrightarrow> \<forall>c \<in> set cs. allowed c \<Longrightarrow> run_commands exec cs db = (rs, db') \<Longrightarrow> inv db' \<and> grows db db'"
proof (induction cs arbitrary: db rs)
  case Nil
  then show ?case by (simp add: grows_refl)
next
  case (Cons c cs)
  obtain r db1 where x: "exec c db = (r, db1)" by fastforce
  then obtain rs' where "run_commands exec cs db1 = (rs', db')" using Cons.prems(3) by (auto split: prod.splits)
  with Cons.IH [of db1 rs'] exec_keeps [OF Cons.prems(1) _ x] Cons.prems(2) show ?case by (auto intro: grows_trans)
qed

lemma served_keep:
  assumes "inv db" and "worker_steps exec (worker_open capacity db) w" and "\<forall>c \<in> set (map snd (wk_done w)). allowed c"
  shows "inv (wk_db w) \<and> grows db (wk_db w)"
proof -
  have "worker_inv exec db w" by (rule worker_steps_inv [OF assms(2) worker_inv_open])
  then have "run_commands exec (map snd (wk_done w)) db = (map snd (wk_replies w), wk_db w)" by (simp add: inv_defs)
  with run_commands_keep [OF assms(1,3)] show ?thesis by blast
qed

end

text \<open>A caller that is told its response was lost knows that its command was never executed and never will be.\<close>

definition never_executed :: "nat \<Rightarrow> ('c, 'r, 'db) worker \<Rightarrow> bool" where
  "never_executed t w \<longleftrightarrow> t < wk_next w \<and> t \<notin> fst ` set (wk_queue w) \<and> t \<notin> fst ` set (wk_done w)"

lemma never_executed_step: "worker_step exec w w' \<Longrightarrow> never_executed t w \<Longrightarrow> never_executed t w'"
  by (induction rule: worker_step.induct)
    (auto simp: never_executed_def worker_ops Let_def split: prod.splits list.splits option.splits)

lemma lost_response_never_executed:
  assumes "worker_steps exec (worker_open capacity db) w" and "worker_reply t w = Some (Err ResponseLost)"
    and "worker_steps exec w w'"
  shows "t \<notin> fst ` set (wk_done w')"
proof -
  have "worker_inv exec db w" by (rule worker_steps_inv [OF assms(1) worker_inv_open])
  then have "fst ` set (wk_replies w) = fst ` set (wk_done w)" by (metis list.set_map worker_inv_def)
  with assms(2) have "never_executed t w"
    by (auto simp: worker_reply_def never_executed_def map_of_eq_None_iff split: option.splits if_splits)
  with assms(3) have "never_executed t w'"
    unfolding worker_steps_def by (induction rule: rtranclp_induct) (auto intro: never_executed_step)
  then show ?thesis by (simp add: never_executed_def)
qed

section \<open>Closing\<close>

lemma worker_closed_step: "worker_step exec w w' \<Longrightarrow> wk_closed w \<Longrightarrow> wk_closed w'"
  by (induction rule: worker_step.induct)
    (auto simp: worker_ops Let_def split: prod.splits list.splits option.splits)

lemma worker_stopped_step:
  "worker_step exec w w' \<Longrightarrow> \<not> wk_running w \<Longrightarrow> \<not> wk_running w' \<and> wk_db w' = wk_db w \<and> wk_done w' = wk_done w"
  by (induction rule: worker_step.induct) (auto simp: worker_ops Let_def)

lemma worker_stopped_steps:
  "worker_steps exec w w' \<Longrightarrow> \<not> wk_running w \<Longrightarrow> \<not> wk_running w' \<and> wk_db w' = wk_db w \<and> wk_done w' = wk_done w"
  unfolding worker_steps_def
  by (induction rule: rtranclp_induct) (auto dest: worker_stopped_step)

lemma worker_closed_steps: "worker_steps exec w w' \<Longrightarrow> wk_closed w \<Longrightarrow> wk_closed w'"
  unfolding worker_steps_def by (induction rule: rtranclp_induct) (auto intro: worker_closed_step)

text \<open>
  The commands queued ahead of a \<^verbatim>\<open>Shutdown\<close> are all executed before the worker stops.
\<close>

lemma run_worker_drains:
  assumes "wk_running w" and "wk_queue w = map (\<lambda>(t, c). (t, Some c)) pre @ (t0, None) # post"
  shows "\<not> wk_running ((run_worker_step exec ^^ Suc (length pre)) w) \<and>
    wk_done ((run_worker_step exec ^^ Suc (length pre)) w) = wk_done w @ pre"
  using assms
proof (induction pre arbitrary: w)
  case Nil
  then show ?case by (simp add: run_worker_step_def)
next
  case (Cons tc pre)
  obtain t c where tc: "tc = (t, c)" by fastforce
  let ?w = "run_worker_step exec w"
  have "wk_running ?w" "wk_queue ?w = map (\<lambda>(t, c). (t, Some c)) pre @ (t0, None) # post"
    "wk_done ?w = wk_done w @ [(t, c)]"
    using Cons.prems tc by (auto simp: run_worker_step_def split: prod.splits)
  from Cons.IH [OF this(1,2)] this(3) tc show ?case
    by (simp add: funpow_swap1)
qed

text \<open>
  Closing is graceful and final: when \<^verbatim>\<open>Shutdown\<close> has been queued, running the loop
  executes every command accepted before it and then stops the worker; from then on, in
  every later state, new calls are refused and the database is not touched any more.
\<close>

theorem close_drains_then_stops:
  assumes "wk_running w" and "wk_closed w"
    and "wk_queue w = map (\<lambda>(t, c). (t, Some c)) pre @ (t0, None) # post"
    and "worker_steps exec ((run_worker_step exec ^^ Suc (length pre)) w) w'"
  shows "wk_done w' = wk_done w @ pre \<and>
    wk_db w' = wk_db ((run_worker_step exec ^^ Suc (length pre)) w) \<and>
    fst (worker_sender w') = Err StoreClosed \<and> fst (worker_try_send c w') = Err WorkerGone"
proof -
  let ?s = "(run_worker_step exec ^^ Suc (length pre)) w"
  note drained = run_worker_drains [OF assms(1,3), of exec]
  have "worker_steps exec w ((run_worker_step exec ^^ n) w)" for n
    unfolding worker_steps_def
    by (induction n) (auto intro: rtranclp.rtrancl_into_rtrancl worker_step.ws_run)
  with assms(2) have "wk_closed ?s" by (metis worker_closed_steps)
  with assms(4) have "wk_closed w'" by (metis worker_closed_steps)
  moreover from worker_stopped_steps [OF assms(4)] drained
  have "\<not> wk_running w'" "wk_db w' = wk_db ?s" "wk_done w' = wk_done w @ pre" by auto
  ultimately show ?thesis by (simp add: worker_sender_def worker_try_send_def)
qed

text \<open>A run on a small instance: two calls, a close, and the worker draining both.\<close>

definition add_exec :: "nat \<Rightarrow> nat \<Rightarrow> nat \<times> nat" where
  "add_exec c db = (db, db + c)"

definition busy_worker :: "(nat, nat, nat) worker" where
  "busy_worker = worker_close_send (worker_close_begin
     (snd (worker_try_send 7 (snd (worker_sender (snd (worker_try_send 5 (snd (worker_sender (worker_open 4 1))))))))))"

lemma busy_worker_steps: "worker_steps add_exec (worker_open 4 1) busy_worker"
proof -
  let ?a = "snd (worker_sender (worker_open 4 1)) :: (nat, nat, nat) worker"
  let ?b = "snd (worker_try_send 5 ?a)" and ?c = "snd (worker_sender (snd (worker_try_send 5 ?a)))"
  have "worker_step add_exec (worker_open 4 1) ?a" by (rule ws_sender)
  moreover have "worker_step add_exec ?a ?b"
    by (rule ws_send) (simp add: worker_sender_def worker_open_def)
  moreover have "worker_step add_exec ?b ?c" by (rule ws_sender)
  moreover have "worker_step add_exec ?c (snd (worker_try_send 7 ?c))"
    by (rule ws_send) (simp add: worker_sender_def worker_open_def worker_try_send_def)
  moreover have "worker_step add_exec (snd (worker_try_send 7 ?c)) (worker_close_begin (snd (worker_try_send 7 ?c)))"
    by (rule ws_close)
  moreover have "worker_step add_exec (worker_close_begin (snd (worker_try_send 7 ?c))) busy_worker"
    unfolding busy_worker_def by (rule ws_shutdown)
  ultimately show ?thesis
    unfolding worker_steps_def by (meson converse_rtranclp_into_rtranclp rtranclp.rtrancl_refl)
qed

lemma busy_worker_eq:
  "wk_running busy_worker" "wk_closed busy_worker"
  "wk_queue busy_worker = map (\<lambda>(t, c). (t, Some c)) [(0, 5), (1, 7)] @ (2, None) # []"
  by (simp_all add: busy_worker_def worker_ops worker_open_def)

theorem worker_linearizable_witness:
  "map fst (wk_replies busy_worker) = map fst (wk_done busy_worker) \<and>
   length (wk_queue busy_worker) = 3 \<and> length (wk_queue busy_worker) \<le> wk_capacity busy_worker"
  using worker_linearizable [OF busy_worker_steps] busy_worker_eq(3) by simp

theorem close_drains_then_stops_witness:
  "wk_done ((run_worker_step add_exec ^^ 3) busy_worker) = [(0, 5), (1, 7)] \<and>
   fst (worker_sender ((run_worker_step add_exec ^^ 3) busy_worker)) = Err StoreClosed"
proof -
  have r: "worker_steps add_exec ((run_worker_step add_exec ^^ Suc (length [(0, 5::nat), (1::nat, 7)])) busy_worker)
      ((run_worker_step add_exec ^^ 3) busy_worker)"
    by (simp add: worker_steps_def numeral_3_eq_3)
  have "wk_done busy_worker = []" by (simp add: busy_worker_def worker_ops worker_open_def)
  with close_drains_then_stops [OF busy_worker_eq(1,2,3) r] show ?thesis by simp
qed

end
