(* ===== verification/Event_Store.thy ===== *)
theory Event_Store
  imports Sqlite Event_Log Worker
begin

text \<open>
  The SQLite EventStore, \<^verbatim>\<open>orbitrelay-storage-sqlite/src/lib.rs\<close>: the rows of its
  \<^verbatim>\<open>events\<close> table, their encoding and decoding, the four operations the worker thread
  executes, the integrity gate that runs when a database is opened, and the abstract log
  they implement.

  Identities, timestamps, payloads, metadata, cursors, checkpoints and queries come from
  OrbitRelay's kernel crates. An \<^verbatim>\<open>Event\<close> is the record of the values its accessors
  return, a query the record of what the store reads of it; the conversions to and from
  text and the storage tokens are the operations of two records, with the laws the store
  relies on stated as predicates of those records.
\<close>

section \<open>Data\<close>

text \<open>\<^verbatim>\<open>StoredRow\<close>\<close>

record stored_row =
  append_sequence :: int
  row_event_id :: string
  row_session_id :: string
  row_actor_id :: string
  row_action_id :: string
  occurred_at_json :: string
  row_event_type :: string
  payload_json :: string
  metadata_json :: string

text \<open>
  The kernel's text conversions: \<^verbatim>\<open>to_string\<close> and \<^verbatim>\<open>parse\<close> of identities and the
  serde conversions of the three JSON columns.
\<close>

record ('id, 'v) event_codec =
  id_to_string :: "'id \<Rightarrow> string"
  id_parse :: "string \<Rightarrow> 'id option"
  timestamp_to_json :: "'v \<Rightarrow> string option"
  timestamp_from_json :: "string \<Rightarrow> 'v option"
  payload_to_json :: "'v \<Rightarrow> string option"
  payload_from_json :: "string \<Rightarrow> 'v option"
  metadata_to_json :: "'v \<Rightarrow> string option"
  metadata_from_json :: "string \<Rightarrow> 'v option"

text \<open>\<^verbatim>\<open>EventCursor\<close> and \<^verbatim>\<open>EventStoreCheckpoint\<close>: opaque positions bound to a store and an epoch.\<close>

record ('id, 'cur, 'cp) token_ops =
  cursor_for_storage :: "'id \<Rightarrow> 'id \<Rightarrow> nat \<Rightarrow> 'cur"
  cursor_position :: "'cur \<Rightarrow> 'id \<Rightarrow> 'id \<Rightarrow> nat option"
  checkpoint_for_storage :: "'id \<Rightarrow> 'id \<Rightarrow> nat \<Rightarrow> 'cp"
  checkpoint_position :: "'cp \<Rightarrow> 'id \<Rightarrow> 'id \<Rightarrow> nat option"

section \<open>Errors and rows\<close>

definition unavailable :: "string \<Rightarrow> 'id storage_error" where
  "unavailable message = BackendUnavailable message"

definition failure :: "string \<Rightarrow> 'id storage_error" where
  "failure message = BackendFailure message"

definition map_sqlite_error :: "string \<Rightarrow> sqlite_error \<Rightarrow> 'id storage_error" where
  "map_sqlite_error message error =
     (if is_contention error then unavailable ''SQLite EventStore is busy'' else failure message)"

text \<open>A row-reading error is mapped without looking at its code.\<close>

definition row_failure :: "string \<Rightarrow> sqlite_error \<Rightarrow> 'id storage_error" where
  "row_failure message error = failure message"

definition decode_row ::
  "('id, 'v) event_codec \<Rightarrow> stored_row \<Rightarrow> (nat \<times> ('id, 'v) event, 'id storage_error) result" where
  "decode_row c row =
     and_then (ok_or (failure ''SQLite EventStore append sequence is invalid'')
                 (u64_try_from (append_sequence row))) (\<lambda>sequence.
     and_then (ok_or (failure ''SQLite EventStore EventId is invalid'')
                 (id_parse c (row_event_id row))) (\<lambda>event_id.
     and_then (ok_or (failure ''SQLite EventStore SessionId is invalid'')
                 (id_parse c (row_session_id row))) (\<lambda>session_id.
     and_then (ok_or (failure ''SQLite EventStore ActorId is invalid'')
                 (id_parse c (row_actor_id row))) (\<lambda>actor_id.
     and_then (ok_or (failure ''SQLite EventStore ActionId is invalid'')
                 (id_parse c (row_action_id row))) (\<lambda>action_id.
     and_then (ok_or (failure ''SQLite EventStore timestamp is invalid'')
                 (timestamp_from_json c (occurred_at_json row))) (\<lambda>occurred_at.
     and_then (ok_or (failure ''SQLite EventStore payload is invalid'')
                 (payload_from_json c (payload_json row))) (\<lambda>payload.
     and_then (ok_or (failure ''SQLite EventStore metadata is invalid'')
                 (metadata_from_json c (metadata_json row))) (\<lambda>metadata.
     Ok (sequence, \<lparr>ev_id = event_id, ev_session_id = session_id, ev_actor_id = actor_id,
                    ev_action_id = action_id, ev_event_type = row_event_type row,
                    ev_occurred_at = occurred_at, ev_payload = payload,
                    ev_metadata = metadata\<rparr>)))))))))"

definition current_count ::
  "sql_faults \<Rightarrow> stored_row list \<Rightarrow> (nat, 'id storage_error) result" where
  "current_count flt rows =
     and_then (sql_call flt ''SQLite EventStore sequence read failed'' map_sqlite_error
                 (sql_max (map append_sequence rows))) (\<lambda>mx.
     case mx of
       None \<Rightarrow> Ok 0
     | Some value \<Rightarrow>
         if value < 0 then Err (failure ''SQLite EventStore append sequence is negative'')
         else ok_or (failure ''SQLite EventStore append sequence overflow'')
                (Option.bind (u64_try_from value) (\<lambda>v. checked_add_u64 v 1)))"

definition stored_event_of ::
  "('id, 'cur, 'cp) token_ops \<Rightarrow> nat \<Rightarrow> ('id, 'v) event \<Rightarrow> 'id \<Rightarrow> 'id
   \<Rightarrow> (('id, 'v, 'cur) stored_event, 'id storage_error) result" where
  "stored_event_of tk sequence e store_id epoch =
     and_then (ok_or (failure ''SQLite EventStore cursor overflow'') (checked_add_u64 sequence 1))
       (\<lambda>position. Ok \<lparr>se_cursor = cursor_for_storage tk store_id epoch position, se_event = e\<rparr>)"

section \<open>The worker's operations\<close>

definition capture_checkpoint ::
  "sql_faults \<Rightarrow> ('id, 'cur, 'cp) token_ops \<Rightarrow> 'id \<Rightarrow> 'id \<Rightarrow> stored_row list
   \<Rightarrow> ('cp, 'id storage_error) result" where
  "capture_checkpoint flt tk store_id epoch rows =
     and_then (current_count flt rows) (\<lambda>boundary. Ok (checkpoint_for_storage tk store_id epoch boundary))"

text \<open>\<^verbatim>\<open>INSERT INTO events\<close>, with the two uniqueness constraints of the schema.\<close>

definition insert_event_row ::
  "sql_faults \<Rightarrow> stored_row \<Rightarrow> stored_row list \<Rightarrow> (stored_row list, 'id storage_error) result" where
  "insert_event_row flt row rows =
     and_then (sql_call flt ''SQLite EventStore append failed'' map_sqlite_error ()) (\<lambda>_.
     if append_sequence row \<in> append_sequence ` set rows \<or> row_event_id row \<in> row_event_id ` set rows
     then Err (map_sqlite_error ''SQLite EventStore append failed'' OtherSqliteError)
     else Ok (rows @ [row]))"

definition select_event_id ::
  "sql_faults \<Rightarrow> string \<Rightarrow> stored_row list \<Rightarrow> (stored_row option, 'id storage_error) result" where
  "select_event_id flt key rows =
     sql_call flt ''SQLite EventId lookup failed'' map_sqlite_error
       (List.find (\<lambda>r. row_event_id r = key) rows)"

text \<open>
  The body of \<^verbatim>\<open>append_event\<close> up to its commit: the sequence number and Event to report
  and the table the transaction commits. Leaving it early drops the transaction.
\<close>

definition append_tx ::
  "sql_faults \<Rightarrow> ('id, 'v) event_codec \<Rightarrow> ('id, 'v) event \<Rightarrow> stored_row list
   \<Rightarrow> (nat \<times> ('id, 'v) event \<times> stored_row list, 'id storage_error) result" where
  "append_tx flt c e rows =
     and_then (ok_or (failure ''event payload serialization failed'')
                 (payload_to_json c (ev_payload e))) (\<lambda>pj.
     and_then (ok_or (failure ''event metadata serialization failed'')
                 (metadata_to_json c (ev_metadata e))) (\<lambda>mj.
     and_then (ok_or (failure ''event timestamp serialization failed'')
                 (timestamp_to_json c (ev_occurred_at e))) (\<lambda>oj.
     and_then (sql_call flt ''SQLite EventStore transaction could not start'' map_sqlite_error ()) (\<lambda>_.
     and_then (select_event_id flt (id_to_string c (ev_id e)) rows) (\<lambda>existing.
     case existing of
       Some row \<Rightarrow>
         and_then (decode_row c row) (\<lambda>(sequence, existing_event).
         if existing_event = e
         then and_then (sql_call flt ''SQLite EventStore transaction commit failed'' map_sqlite_error ())
                (\<lambda>_. Ok (sequence, existing_event, rows))
         else Err (EventConflict (ev_id e)))
     | None \<Rightarrow>
         and_then (current_count flt rows) (\<lambda>sequence.
         and_then (ok_or (failure ''SQLite EventStore append sequence overflow'') (i64_try_from sequence))
           (\<lambda>sequence_i64.
         and_then (insert_event_row flt
             \<lparr>append_sequence = sequence_i64, row_event_id = id_to_string c (ev_id e),
              row_session_id = id_to_string c (ev_session_id e),
              row_actor_id = id_to_string c (ev_actor_id e),
              row_action_id = id_to_string c (ev_action_id e), occurred_at_json = oj,
              row_event_type = ev_event_type e, payload_json = pj, metadata_json = mj\<rparr> rows) (\<lambda>rows'.
         and_then (sql_call flt ''SQLite EventStore transaction commit failed'' map_sqlite_error ())
           (\<lambda>_. Ok (sequence, e, rows'))))))))))"

definition append_event ::
  "sql_faults \<Rightarrow> ('id, 'v) event_codec \<Rightarrow> ('id, 'cur, 'cp) token_ops \<Rightarrow> 'id \<Rightarrow> 'id
   \<Rightarrow> ('id, 'v) event \<Rightarrow> stored_row list
   \<Rightarrow> (('id, 'v, 'cur) stored_event, 'id storage_error) result \<times> stored_row list" where
  "append_event flt c tk store_id epoch e rows =
     (case append_tx flt c e rows of
        Inl err \<Rightarrow> (Err err, rows)
      | Inr (sequence, e', rows') \<Rightarrow> (stored_event_of tk sequence e' store_id epoch, rows'))"

definition get_event ::
  "sql_faults \<Rightarrow> ('id, 'v) event_codec \<Rightarrow> ('id, 'cur, 'cp) token_ops \<Rightarrow> 'id \<Rightarrow> 'id
   \<Rightarrow> 'id \<Rightarrow> stored_row list
   \<Rightarrow> (('id, 'v, 'cur) stored_event option, 'id storage_error) result" where
  "get_event flt c tk store_id epoch event_id rows =
     and_then (select_event_id flt (id_to_string c event_id) rows) (\<lambda>row.
     opt_transpose (map_option (\<lambda>r.
       and_then (decode_row c r) (\<lambda>(sequence, e). stored_event_of tk sequence e store_id epoch)) row))"

text \<open>The three \<^verbatim>\<open>WHERE\<close> clauses the query text is extended with.\<close>

definition row_selected ::
  "('id, 'v) event_codec \<Rightarrow> ('id, 'v, 'cur, 'cp) event_query \<Rightarrow> int \<Rightarrow> int \<Rightarrow> stored_row \<Rightarrow> bool" where
  "row_selected c q start upper r \<longleftrightarrow>
     start \<le> append_sequence r \<and> append_sequence r < upper \<and>
     (case q_session_id q of None \<Rightarrow> True | Some i \<Rightarrow> row_session_id r = id_to_string c i) \<and>
     (case q_actor_id q of None \<Rightarrow> True | Some i \<Rightarrow> row_actor_id r = id_to_string c i) \<and>
     (q_event_types q = [] \<or> row_event_type r \<in> set (q_event_types q))"

text \<open>The loop over the cursor: \<open>n\<close> counts the rows read so far.\<close>

fun collect_rows ::
  "sql_faults \<Rightarrow> ('id, 'v) event_codec \<Rightarrow> ('id, 'cur, 'cp) token_ops \<Rightarrow> 'id \<Rightarrow> 'id
   \<Rightarrow> ('id, 'v, 'cur, 'cp) event_query \<Rightarrow> nat \<Rightarrow> stored_row list
   \<Rightarrow> ('id, 'v, 'cur) stored_event list
   \<Rightarrow> (('id, 'v, 'cur) stored_event list \<times> bool, 'id storage_error) result" where
  "collect_rows flt c tk store_id epoch q n [] events = Ok (events, False)"
| "collect_rows flt c tk store_id epoch q n (r # rs) events =
     and_then (sql_row flt ''SQLite EventStore row read failed'' n row_failure r) (\<lambda>row.
     and_then (decode_row c row) (\<lambda>(sequence, e).
     if \<not> q_matches q e then collect_rows flt c tk store_id epoch q (Suc n) rs events
     else if length events = q_limit q then Ok (events, True)
     else and_then (stored_event_of tk sequence e store_id epoch) (\<lambda>s.
            collect_rows flt c tk store_id epoch q (Suc n) rs (events @ [s]))))"

definition query_upper ::
  "('id, 'cur, 'cp) token_ops \<Rightarrow> 'id \<Rightarrow> 'id \<Rightarrow> ('id, 'v, 'cur, 'cp) event_query \<Rightarrow> nat
   \<Rightarrow> (nat, 'id storage_error) result" where
  "query_upper tk store_id epoch q count =
     and_then (case q_upper_bound q of
         Some cp \<Rightarrow> ok_or (InvalidCheckpoint ''checkpoint does not belong to this SQLite store epoch'')
                     (checkpoint_position tk cp store_id epoch)
       | None \<Rightarrow> Ok count) (\<lambda>upper.
     if count < upper then Err (InvalidCheckpoint ''checkpoint is beyond the stored event range'')
     else Ok upper)"

definition query_start ::
  "('id, 'cur, 'cp) token_ops \<Rightarrow> 'id \<Rightarrow> 'id \<Rightarrow> ('id, 'v, 'cur, 'cp) event_query \<Rightarrow> nat \<Rightarrow> nat
   \<Rightarrow> (nat, 'id storage_error) result" where
  "query_start tk store_id epoch q count upper =
     and_then (case q_after_cursor q of
         Some cursor \<Rightarrow>
           and_then (ok_or (InvalidCursor ''cursor does not belong to this SQLite store epoch'')
                       (cursor_position tk cursor store_id epoch)) (\<lambda>position.
           if position = 0 then Err (InvalidCursor ''cursor position must be greater than zero'')
           else Ok position)
       | None \<Rightarrow> Ok 0) (\<lambda>start.
     if upper < start \<or> (0 < start \<and> count < start)
     then Err (InvalidCursor ''cursor is beyond the query checkpoint'')
     else Ok start)"

definition query_events ::
  "sql_faults \<Rightarrow> ('id, 'v) event_codec \<Rightarrow> ('id, 'cur, 'cp) token_ops \<Rightarrow> 'id \<Rightarrow> 'id
   \<Rightarrow> ('id, 'v, 'cur, 'cp) event_query \<Rightarrow> stored_row list
   \<Rightarrow> (('id, 'v, 'cur) event_page, 'id storage_error) result" where
  "query_events flt c tk store_id epoch q rows =
     and_then (q_validate q) (\<lambda>_.
     and_then (current_count flt rows) (\<lambda>count.
     and_then (query_upper tk store_id epoch q count) (\<lambda>upper.
     and_then (query_start tk store_id epoch q count upper) (\<lambda>start.
     and_then (ok_or (failure ''query cursor overflow'') (i64_try_from start)) (\<lambda>start_value.
     and_then (ok_or (failure ''query bound overflow'') (i64_try_from upper)) (\<lambda>upper_value.
     and_then (sql_call flt ''SQLite EventStore query preparation failed'' map_sqlite_error ()) (\<lambda>_.
     and_then (sql_call flt ''SQLite EventStore query failed'' map_sqlite_error
                 (sort_key append_sequence (filter (row_selected c q start_value upper_value) rows)))
       (\<lambda>selected.
     and_then (collect_rows flt c tk store_id epoch q 0 selected []) (\<lambda>(events, has_more).
     Ok \<lparr>page_events = events,
         next_cursor = (if has_more then map_option se_cursor (if events = [] then None else Some (last events))
                        else None)\<rparr>)))))))))"

section \<open>Opening a database\<close>

text \<open>A database file: the two tables of the schema. A file that does not exist yet is empty.\<close>

record event_db =
  storage_metadata :: "(string \<times> string) list"
  events_table :: "stored_row list"

definition empty_event_db :: event_db where
  "empty_event_db = \<lparr>storage_metadata = [], events_table = []\<rparr>"

definition SUPPORTED_SCHEMA_VERSION :: int where
  "SUPPORTED_SCHEMA_VERSION = 1"

definition metadata_value ::
  "sql_faults \<Rightarrow> string \<Rightarrow> event_db \<Rightarrow> (string option, 'id storage_error) result" where
  "metadata_value flt key db =
     sql_call flt ''SQLite metadata read failed'' map_sqlite_error (map_of (storage_metadata db) key)"

fun verify_rows ::
  "sql_faults \<Rightarrow> ('id, 'v) event_codec \<Rightarrow> nat \<Rightarrow> int \<Rightarrow> stored_row list
   \<Rightarrow> (unit, 'id storage_error) result" where
  "verify_rows flt c n expected [] = Ok ()"
| "verify_rows flt c n expected (r # rs) =
     and_then (sql_row flt ''SQLite EventStore row read failed'' n row_failure r) (\<lambda>row.
     if append_sequence row \<noteq> expected
     then Err (failure ''SQLite EventStore append sequence is not contiguous'')
     else and_then (decode_row c row) (\<lambda>_.
          and_then (ok_or (failure ''SQLite EventStore append sequence overflow'')
                      (checked_add_i64 expected 1)) (\<lambda>expected'.
          verify_rows flt c (Suc n) expected' rs)))"

definition verify_all_events ::
  "sql_faults \<Rightarrow> ('id, 'v) event_codec \<Rightarrow> event_db \<Rightarrow> (unit, 'id storage_error) result" where
  "verify_all_events flt c db =
     and_then (sql_call flt ''SQLite EventStore integrity query failed'' map_sqlite_error
                 (sort_key append_sequence (events_table db))) (verify_rows flt c 0 0)"

definition insert_metadata :: "string \<Rightarrow> string \<Rightarrow> event_db \<Rightarrow> event_db" where
  "insert_metadata key value db = db\<lparr>storage_metadata := storage_metadata db @ [(key, value)]\<rparr>"

text \<open>
  The schema version step and the identity step of \<^verbatim>\<open>initialize_connection\<close>. Both run
  outside a transaction, so what they write stays even when a later step fails.
\<close>

definition init_schema_version ::
  "sql_faults \<Rightarrow> event_db \<Rightarrow> (unit, 'id storage_error) result \<times> event_db" where
  "init_schema_version flt db =
     (case metadata_value flt ''schema_version'' db of
        Inl e \<Rightarrow> (Err e, db)
      | Inr None \<Rightarrow>
          (case sql_call flt ''SQLite schema metadata creation failed'' map_sqlite_error () of
             Inl e \<Rightarrow> (Err e, db)
           | Inr _ \<Rightarrow> (Ok (), insert_metadata ''schema_version'' (dec_of_nat (nat SUPPORTED_SCHEMA_VERSION)) db))
      | Inr (Some value) \<Rightarrow>
          (case parse_i64 value of
             None \<Rightarrow> (Err (failure ''SQLite schema version is malformed''), db)
           | Some parsed \<Rightarrow>
               if parsed \<noteq> SUPPORTED_SCHEMA_VERSION
               then (Err (failure (if SUPPORTED_SCHEMA_VERSION < parsed
                                   then ''SQLite schema version is newer than this adapter''
                                   else ''SQLite schema migration is required'')), db)
               else (Ok (), db)))"

definition init_store_id ::
  "sql_faults \<Rightarrow> ('id, 'v) event_codec \<Rightarrow> 'id \<Rightarrow> event_db
   \<Rightarrow> ('id, 'id storage_error) result \<times> event_db" where
  "init_store_id flt c fresh_id db =
     (case metadata_value flt ''physical_store_id'' db of
        Inl e \<Rightarrow> (Err e, db)
      | Inr (Some value) \<Rightarrow>
          (ok_or (failure ''SQLite physical store identity is malformed'') (id_parse c value), db)
      | Inr None \<Rightarrow>
          (case sql_call flt ''SQLite physical store identity creation failed'' map_sqlite_error () of
             Inl e \<Rightarrow> (Err e, db)
           | Inr _ \<Rightarrow> (Ok fresh_id, insert_metadata ''physical_store_id'' (id_to_string c fresh_id) db)))"

text \<open>
  \<open>dir_ok\<close> is the outcome of creating the parent directory, \<open>quick_check\<close> the text (or
  failure) of \<^verbatim>\<open>PRAGMA quick_check\<close>, \<open>fresh_id\<close> the identity a new store draws.
\<close>

definition initialize_connection ::
  "sql_faults \<Rightarrow> ('id, 'v) event_codec \<Rightarrow> bool \<Rightarrow> string option \<Rightarrow> 'id \<Rightarrow> event_db
   \<Rightarrow> ('id, 'id storage_error) result \<times> event_db" where
  "initialize_connection flt c dir_ok quick_check fresh_id db =
     (if \<not> dir_ok then (Err (failure ''SQLite database directory could not be created''), db)
      else case traverse (\<lambda>msg. sql_call flt msg map_sqlite_error ())
          [''SQLite database open failed'', ''SQLite foreign key configuration failed'',
           ''SQLite WAL configuration failed'', ''SQLite synchronous configuration failed'',
           ''SQLite busy timeout configuration failed'', ''SQLite schema creation failed''] of
        Inl e \<Rightarrow> (Err e, db)
      | Inr _ \<Rightarrow>
          (case init_schema_version flt db of
             (Inl e, db1) \<Rightarrow> (Err e, db1)
           | (Inr _, db1) \<Rightarrow>
               (case init_store_id flt c fresh_id db1 of
                  (Inl e, db2) \<Rightarrow> (Err e, db2)
                | (Inr store_id, db2) \<Rightarrow>
                    (if quick_check \<noteq> Some ''ok''
                     then (Err (failure ''SQLite physical integrity check failed''), db2)
                     else case verify_all_events flt c db2 of
                            Inl e \<Rightarrow> (Err e, db2)
                          | Inr _ \<Rightarrow> (Ok store_id, db2)))))"

section \<open>Laws of the kernel's conversions\<close>

definition codec_ok :: "('id, 'v) event_codec \<Rightarrow> bool" where
  "codec_ok c \<longleftrightarrow>
     (\<forall>i. id_parse c (id_to_string c i) = Some i) \<and>
     (\<forall>v t. timestamp_to_json c v = Some t \<longrightarrow> timestamp_from_json c t = Some v) \<and>
     (\<forall>v t. payload_to_json c v = Some t \<longrightarrow> payload_from_json c t = Some v) \<and>
     (\<forall>v t. metadata_to_json c v = Some t \<longrightarrow> metadata_from_json c t = Some v)"

definition tokens_ok :: "('id, 'cur, 'cp) token_ops \<Rightarrow> bool" where
  "tokens_ok tk \<longleftrightarrow>
     (\<forall>s e p s' e'. cursor_position tk (cursor_for_storage tk s e p) s' e' =
        (if s' = s \<and> e' = e then Some p else None)) \<and>
     (\<forall>s e p s' e'. checkpoint_position tk (checkpoint_for_storage tk s e p) s' e' =
        (if s' = s \<and> e' = e then Some p else None))"

section \<open>The abstract log\<close>

text \<open>
  What the EventStore promises: a list of events with distinct identities, to which an
  append adds at the end, and whose positions are the cursors. \<open>encode_event\<close> is the row
  the store writes for the event at a position; the invariant of the table is that it is
  the encoding of some log.
\<close>

definition encodable :: "('id, 'v) event_codec \<Rightarrow> ('id, 'v) event \<Rightarrow> bool" where
  "encodable c e \<longleftrightarrow> payload_to_json c (ev_payload e) \<noteq> None \<and>
     metadata_to_json c (ev_metadata e) \<noteq> None \<and> timestamp_to_json c (ev_occurred_at e) \<noteq> None"

definition encode_event :: "('id, 'v) event_codec \<Rightarrow> nat \<times> ('id, 'v) event \<Rightarrow> stored_row" where
  "encode_event c ne = (case ne of (n, e) \<Rightarrow>
     \<lparr>append_sequence = int n, row_event_id = id_to_string c (ev_id e),
      row_session_id = id_to_string c (ev_session_id e),
      row_actor_id = id_to_string c (ev_actor_id e),
      row_action_id = id_to_string c (ev_action_id e),
      occurred_at_json = the (timestamp_to_json c (ev_occurred_at e)),
      row_event_type = ev_event_type e,
      payload_json = the (payload_to_json c (ev_payload e)),
      metadata_json = the (metadata_to_json c (ev_metadata e))\<rparr>)"

definition encode_log :: "('id, 'v) event_codec \<Rightarrow> ('id, 'v) event list \<Rightarrow> stored_row list" where
  "encode_log c log = map (encode_event c) (List.enumerate 0 log)"

definition log_ok :: "('id, 'v) event_codec \<Rightarrow> ('id, 'v) event list \<Rightarrow> bool" where
  "log_ok c log \<longleftrightarrow> distinct (map ev_id log) \<and> (\<forall>e \<in> set log. encodable c e) \<and>
     int (length log) \<le> i64_max + 1"

text \<open>The log a table holds, read back through \<open>decode_row\<close>.\<close>

definition table_log :: "('id, 'v) event_codec \<Rightarrow> stored_row list \<Rightarrow> ('id, 'v) event list" where
  "table_log c rows = concat (map (\<lambda>r. case decode_row c r of Inl _ \<Rightarrow> [] | Inr (_, e) \<Rightarrow> [e]) rows)"

definition table_inv :: "('id, 'v) event_codec \<Rightarrow> stored_row list \<Rightarrow> bool" where
  [inv_defs]: "table_inv c rows \<longleftrightarrow> rows = encode_log c (table_log c rows) \<and> log_ok c (table_log c rows)"

section \<open>Rows and logs\<close>

lemma decode_encode:
  assumes "codec_ok c" and "encodable c e"
  shows "decode_row c (encode_event c (n, e)) = Ok (n, e)"
  using assms by (auto simp: decode_row_def encode_event_def codec_ok_def encodable_def)

lemma encode_log_simps [simp]: "encode_log c [] = []" "length (encode_log c log) = length log"
  by (simp_all add: encode_log_def)

lemma encode_log_snoc [simp]:
  "encode_log c (log @ [e]) = encode_log c log @ [encode_event c (length log, e)]"
  by (simp add: encode_log_def enumerate_append_eq)

lemma encode_log_sequence: "map append_sequence (encode_log c log) = map int [0..<length log]"
  by (induction log rule: rev_induct) (auto simp: encode_event_def)

lemma encode_log_event_id: "map row_event_id (encode_log c log) = map (\<lambda>e. id_to_string c (ev_id e)) log"
  by (induction log rule: rev_induct) (auto simp: encode_event_def)

lemma table_log_append [simp]: "table_log c (xs @ ys) = table_log c xs @ table_log c ys"
  by (simp add: table_log_def)

lemma table_log_encode:
  assumes "codec_ok c" and "\<forall>e \<in> set log. encodable c e"
  shows "table_log c (encode_log c log) = log"
  using assms(2) by (induction log rule: rev_induct)
    (simp_all add: table_log_def decode_encode assms(1))

lemma table_invI: "codec_ok c \<Longrightarrow> log_ok c log \<Longrightarrow> table_inv c (encode_log c log)"
  by (simp add: inv_defs table_log_encode log_ok_def)

lemma table_inv_log: "codec_ok c \<Longrightarrow> table_inv c rows \<longleftrightarrow> (\<exists>log. log_ok c log \<and> rows = encode_log c log)"
  using table_invI [of c] by (auto simp: inv_defs)

lemma id_to_string_inject: "codec_ok c \<Longrightarrow> id_to_string c i = id_to_string c j \<longleftrightarrow> i = j"
  by (metis codec_ok_def option.inject)

lemma current_count_encode:
  assumes "log_ok c log"
  shows "current_count flt (encode_log c log) =
    sql_call flt ''SQLite EventStore sequence read failed'' map_sqlite_error (length log)"
proof (cases "flt ''SQLite EventStore sequence read failed'' 0")
  case None
  then have call: "sql_call flt ''SQLite EventStore sequence read failed'' map_sqlite_error v = Ok v" for v
    by (simp add: sql_call_def)
  from assms have "length log \<noteq> 0 \<Longrightarrow> u64_try_from (int (length log) - 1) = Some (length log - 1)"
    "length log \<noteq> 0 \<Longrightarrow> checked_add_u64 (length log - 1) 1 = Some (length log)"
    by (cases log; auto simp: log_ok_def i64_max_def u64_max_def)+
  then show ?thesis
    by (auto simp: current_count_def call encode_log_sequence sql_max_upt)
next
  case (Some e)
  then show ?thesis by (simp add: current_count_def sql_call_def)
qed

lemma find_map_comp: "List.find P (map f xs) = map_option f (List.find (P \<circ> f) xs)"
  by (induction xs) auto

lemma select_encode:
  assumes "codec_ok c"
  shows "select_event_id flt (id_to_string c i) (encode_log c log) =
    sql_call flt ''SQLite EventId lookup failed'' map_sqlite_error (map_option (encode_event c) (find_event i log))"
proof -
  have "(\<lambda>r. row_event_id r = id_to_string c i) \<circ> encode_event c = (\<lambda>(n, e). ev_id e = i)"
    using assms by (auto simp: encode_event_def fun_eq_iff id_to_string_inject)
  then show ?thesis
    by (simp add: select_event_id_def encode_log_def find_map_comp find_event_def)
qed

section \<open>Appending\<close>

lemma log_ok_snoc:
  assumes "log_ok c log" and "encodable c e" and "find_event (ev_id e) log = None"
    and "int (length log) \<le> i64_max"
  shows "log_ok c (log @ [e])"
  using assms by (auto simp: log_ok_def find_event_None)

lemma insert_encode:
  assumes "codec_ok c" and "find_event (ev_id e) log = None"
  shows "insert_event_row flt (encode_event c (length log, e)) (encode_log c log) =
    sql_call flt ''SQLite EventStore append failed'' map_sqlite_error (encode_log c (log @ [e]))"
proof -
  have "append_sequence (encode_event c (length log, e)) \<notin> append_sequence ` set (encode_log c log)"
    unfolding set_map [symmetric] encode_log_sequence by (auto simp: encode_event_def)
  moreover have "row_event_id (encode_event c (length log, e)) \<notin> row_event_id ` set (encode_log c log)"
    using assms unfolding set_map [symmetric] encode_log_event_id
    by (auto simp: encode_event_def id_to_string_inject find_event_None)
  ultimately show ?thesis by (simp add: insert_event_row_def sql_call_def split: option.splits)
qed

lemma encode_event_row:
  "payload_to_json c (ev_payload e) = Some pj \<Longrightarrow> metadata_to_json c (ev_metadata e) = Some mj \<Longrightarrow>
   timestamp_to_json c (ev_occurred_at e) = Some oj \<Longrightarrow>
   \<lparr>append_sequence = int n, row_event_id = id_to_string c (ev_id e),
      row_session_id = id_to_string c (ev_session_id e),
      row_actor_id = id_to_string c (ev_actor_id e),
      row_action_id = id_to_string c (ev_action_id e), occurred_at_json = oj,
      row_event_type = ev_event_type e, payload_json = pj, metadata_json = mj\<rparr> = encode_event c (n, e)"
  by (simp add: encode_event_def)

text \<open>The three ways a transaction of \<^verbatim>\<open>append_event\<close> can go, over the abstract log.\<close>

lemma append_tx_new:
  assumes "codec_ok c" and "log_ok c log" and "encodable c e" and "find_event (ev_id e) log = None"
  shows "append_tx flt c e (encode_log c log) =
    and_then (sql_call flt ''SQLite EventStore transaction could not start'' map_sqlite_error ()) (\<lambda>_.
    and_then (sql_call flt ''SQLite EventId lookup failed'' map_sqlite_error ()) (\<lambda>_.
    and_then (sql_call flt ''SQLite EventStore sequence read failed'' map_sqlite_error ()) (\<lambda>_.
    if i64_max < int (length log) then Err (failure ''SQLite EventStore append sequence overflow'')
    else and_then (sql_call flt ''SQLite EventStore append failed'' map_sqlite_error ()) (\<lambda>_.
    and_then (sql_call flt ''SQLite EventStore transaction commit failed'' map_sqlite_error ()) (\<lambda>_.
    Ok (length log, e, encode_log c (log @ [e])))))))"
proof -
  obtain pj mj oj where j: "payload_to_json c (ev_payload e) = Some pj"
    "metadata_to_json c (ev_metadata e) = Some mj" "timestamp_to_json c (ev_occurred_at e) = Some oj"
    using assms(3) by (auto simp: encodable_def)
  show ?thesis
  proof (cases "int (length log) \<le> i64_max")
    case True
    then have "i64_try_from (length log) = Some (int (length log))" by simp
    with j assms True show ?thesis
      by (simp add: append_tx_def select_encode current_count_encode sql_call_def insert_encode
          encode_event_row [OF j] split: option.split)
  next
    case False
    then have "i64_try_from (length log) = None" by simp
    with j assms False show ?thesis
      by (simp add: append_tx_def select_encode current_count_encode sql_call_def split: option.split)
  qed
qed

lemma append_tx_existing:
  assumes "codec_ok c" and "log_ok c log" and "encodable c e" and "find_event (ev_id e) log = Some (n, x)"
  shows "append_tx flt c e (encode_log c log) =
    and_then (sql_call flt ''SQLite EventStore transaction could not start'' map_sqlite_error ()) (\<lambda>_.
    and_then (sql_call flt ''SQLite EventId lookup failed'' map_sqlite_error ()) (\<lambda>_.
    if x = e then and_then (sql_call flt ''SQLite EventStore transaction commit failed'' map_sqlite_error ())
      (\<lambda>_. Ok (n, e, encode_log c log))
    else Err (EventConflict (ev_id e))))"
proof -
  obtain pj mj oj where j: "payload_to_json c (ev_payload e) = Some pj"
    "metadata_to_json c (ev_metadata e) = Some mj" "timestamp_to_json c (ev_occurred_at e) = Some oj"
    using assms(3) by (auto simp: encodable_def)
  from find_event_Some [OF assms(4)] have "encodable c x"
    using assms(2) nth_mem unfolding log_ok_def by blast
  with j assms show ?thesis
    by (simp add: append_tx_def select_encode sql_call_def decode_encode split: option.split)
qed

lemma append_tx_unencodable:
  "\<not> encodable c e \<Longrightarrow> \<exists>m. append_tx flt c e rows = Err (failure m)"
  by (cases "payload_to_json c (ev_payload e)"; cases "metadata_to_json c (ev_metadata e)")
    (auto simp: append_tx_def encodable_def)


lemma stored_event_of_Ok:
  "int n \<le> i64_max \<Longrightarrow> stored_event_of tk n e sid ep =
     Ok \<lparr>se_cursor = cursor_for_storage tk sid ep (n + 1), se_event = e\<rparr>"
proof -
  assume "int n \<le> i64_max"
  then have "checked_add_u64 n 1 = Some (n + 1)" using i64_max_le_u64_max [of n] by simp
  then show ?thesis by (simp add: stored_event_of_def)
qed

lemma spec_append_position:
  assumes "log_ok c log" and "spec_append e log = (Ok n, log')" and "int (length log) \<le> i64_max \<or> log' = log"
  shows "int n \<le> i64_max \<and> n < length log' \<and> log' ! n = e"
proof (cases "find_event (ev_id e) log")
  case None
  with assms show ?thesis by (auto simp: spec_append_def)
next
  case (Some x)
  obtain m y where x: "x = (m, y)" by fastforce
  from find_event_Some [OF Some [unfolded x]] have "m < length log" "log ! m = y" by auto
  with Some x assms show ?thesis by (auto simp: spec_append_def log_ok_def split: if_splits)
qed

text \<open>The error-free behaviour, in one equation per outcome of the specification.\<close>

lemma append_event_spec:
  assumes "codec_ok c" and "log_ok c log"
    and "append_event flt c tk sid ep e (encode_log c log) = (r, rows')"
  shows "(\<exists>x. r = Err x \<and> rows' = encode_log c log) \<or>
    (\<exists>n log'. log_ok c log' \<and> rows' = encode_log c log' \<and> spec_append e log = (Ok n, log') \<and>
       r = Ok \<lparr>se_cursor = cursor_for_storage tk sid ep (n + 1), se_event = e\<rparr>)"
proof (cases "append_tx flt c e (encode_log c log)")
  case (Inl x)
  with assms(3) show ?thesis by (auto simp: append_event_def)
next
  case (Inr y)
  obtain n e' rows'' where y: "y = (n, e', rows'')" by (metis prod_cases3)
  have enc: "encodable c e"
    using Inr append_tx_unencodable [of c e flt "encode_log c log"] by auto
  show ?thesis
  proof (cases "find_event (ev_id e) log")
    case None
    have eq: "n = length log" "e' = e" "rows'' = encode_log c (log @ [e])" "int (length log) \<le> i64_max"
      using Inr y unfolding append_tx_new [OF assms(1,2) enc None] by (auto split: if_splits)
    from eq(4) None assms(2) enc have "log_ok c (log @ [e])" by (intro log_ok_snoc)
    with Inr y eq None assms(3) show ?thesis
      by (auto simp: append_event_def stored_event_of_Ok spec_append_def)
  next
    case (Some z)
    obtain m x where z: "z = (m, x)" by fastforce
    have eq: "n = m" "e' = e" "rows'' = encode_log c log" "x = e"
      using Inr y unfolding append_tx_existing [OF assms(1,2) enc Some [unfolded z]]
      by (auto split: if_splits)
    with Some z have spec: "spec_append e log = (Ok m, log)" by (simp add: spec_append_def)
    with spec_append_position [OF assms(2) this] have "int m \<le> i64_max" by simp
    with Inr y eq spec assms show ?thesis
      by (auto simp: append_event_def stored_event_of_Ok)
  qed
qed

lemma append_event_no_faults:
  assumes "codec_ok c" and "log_ok c log" and "encodable c e" and "int (length log) \<le> i64_max"
  shows "append_event no_faults c tk sid ep e (encode_log c log) =
    (case spec_append e log of
       (Inl x, _) \<Rightarrow> (Err x, encode_log c log)
     | (Inr n, log') \<Rightarrow> (Ok \<lparr>se_cursor = cursor_for_storage tk sid ep (n + 1), se_event = e\<rparr>, encode_log c log'))"
proof (cases "find_event (ev_id e) log")
  case None
  with assms append_tx_new [OF assms(1-3) None, of no_faults] show ?thesis
    by (simp add: append_event_def spec_append_def stored_event_of_Ok)
next
  case (Some z)
  obtain m x where z: "z = (m, x)" by fastforce
  with Some find_event_Some [of "ev_id e" log m x] assms(4) have "int m \<le> i64_max" by auto
  with Some z append_tx_existing [OF assms(1-3) Some [unfolded z], of no_faults] show ?thesis
    by (simp add: append_event_def spec_append_def stored_event_of_Ok)
qed

lemma get_event_encode:
  assumes "codec_ok c" and "log_ok c log" and "int (length log) \<le> i64_max"
  shows "get_event no_faults c tk sid ep i (encode_log c log) =
    Ok (map_option (\<lambda>(n, e). \<lparr>se_cursor = cursor_for_storage tk sid ep (n + 1), se_event = e\<rparr>) (find_event i log))"
proof (cases "find_event i log")
  case None
  with assms show ?thesis by (simp add: get_event_def select_encode)
next
  case (Some z)
  obtain n e where z: "z = (n, e)" by fastforce
  from find_event_Some [OF Some [unfolded z]] have n: "n < length log" "e \<in> set log" by auto
  with assms have "encodable c e" "int n \<le> i64_max" by (auto simp: log_ok_def)
  with assms(1) z Some show ?thesis by (simp add: get_event_def select_encode decode_encode stored_event_of_Ok)
qed

section \<open>Queries\<close>

lemma row_selected_encode:
  assumes "codec_ok c"
  shows "row_selected c q (int start) (int upper) (encode_event c (n, e)) \<longleftrightarrow>
    start \<le> n \<and> n < upper \<and> (\<forall>i. q_session_id q = Some i \<longrightarrow> ev_session_id e = i) \<and>
    (\<forall>i. q_actor_id q = Some i \<longrightarrow> ev_actor_id e = i) \<and>
    (q_event_types q = [] \<or> ev_event_type e \<in> set (q_event_types q))"
  using assms by (auto simp: row_selected_def encode_event_def id_to_string_inject split: option.splits)

lemma collect_rows_encode:
  assumes "codec_ok c" and "\<forall>(n, e) \<in> set nes. encodable c e \<and> int n \<le> i64_max"
    and "length acc \<le> q_limit q"
  shows "collect_rows no_faults c tk sid ep q k (map (encode_event c) nes) acc =
    (let hits = filter (\<lambda>(n, e). q_matches q e) nes; room = q_limit q - length acc
     in Ok (acc @ map (\<lambda>(n, e). \<lparr>se_cursor = cursor_for_storage tk sid ep (n + 1), se_event = e\<rparr>) (take room hits),
            room < length hits))"
  using assms(2,3)
proof (induction nes arbitrary: k acc)
  case Nil
  then show ?case by simp
next
  case (Cons ne nes)
  obtain n e where ne: "ne = (n, e)" by fastforce
  from Cons.prems have e: "encodable c e" "int n \<le> i64_max" using ne by auto
  show ?case
  proof (cases "q_matches q e \<and> length acc < q_limit q")
    case True
    then have "q_limit q - length acc = Suc (q_limit q - Suc (length acc))"
      by (simp add: Suc_diff_Suc)
    with True Cons e assms(1) ne show ?thesis
      by (simp add: decode_encode stored_event_of_Ok Let_def)
  next
    case False
    with Cons e assms(1) ne show ?thesis
      by (auto simp: decode_encode stored_event_of_Ok Let_def)
  qed
qed

lemma sorted_enumerate: "sorted (map fst (filter P (List.enumerate k xs)))"
proof -
  have "map fst (List.enumerate k xs) = [k..<k + length xs]" by (rule map_fst_enumerate)
  then have "sorted (map fst (List.enumerate k xs))" by simp
  then show ?thesis by (rule sorted_filter)
qed

lemma select_sorted:
  "sort_key append_sequence (filter P (encode_log c log)) =
   map (encode_event c) (filter (P \<circ> encode_event c) (List.enumerate 0 log))"
proof -
  let ?s = "filter (P \<circ> encode_event c) (List.enumerate 0 log)"
  have "map append_sequence (map (encode_event c) ?s) = map int (map fst ?s)"
    by (auto simp: encode_event_def)
  moreover have "sorted (map int (map fst ?s))"
    using sorted_enumerate [of "P \<circ> encode_event c" 0 log] by (intro sorted_map_mono) (auto simp: mono_on_def)
  ultimately have "sorted (map append_sequence (map (encode_event c) ?s))" by (simp only:)
  then show ?thesis
    by (simp add: encode_log_def filter_map sort_key_sorted)
qed

lemma collect_selected:
  assumes "codec_ok c" and "query_ok q"
    and "\<forall>(n, e) \<in> set (filter (row_selected c q (int start) (int upper) \<circ> encode_event c)
        (List.enumerate 0 log)). encodable c e \<and> int n \<le> i64_max"
  shows "collect_rows no_faults c tk sid ep q 0 (map (encode_event c)
     (filter (row_selected c q (int start) (int upper) \<circ> encode_event c) (List.enumerate 0 log))) [] =
   Ok (map (\<lambda>(n, e). \<lparr>se_cursor = cursor_for_storage tk sid ep (n + 1), se_event = e\<rparr>)
         (take (q_limit q) (spec_hits q start upper log)),
       q_limit q < length (spec_hits q start upper log))"
proof -
  have "filter (\<lambda>(n, e). q_matches q e)
     (filter (row_selected c q (int start) (int upper) \<circ> encode_event c) (List.enumerate 0 log)) =
   spec_hits q start upper log"
    using assms(1,2) by (auto simp: spec_hits_filter row_selected_encode query_ok_def intro!: filter_cong)
  with collect_rows_encode [OF assms(1,3), of "[]" q tk sid ep 0] show ?thesis
    by (simp only: Let_def) simp
qed

lemma query_page_encode:
  assumes "codec_ok c" and "query_ok q" and "log_ok c log" and "int upper \<le> i64_max"
    and "q_validate q = Ok u" and "query_upper tk sid ep q (length log) = Ok upper"
    and "query_start tk sid ep q (length log) upper = Ok start"
  shows "query_events no_faults c tk sid ep q (encode_log c log) =
     Ok (spec_page (cursor_for_storage tk sid ep) (q_limit q) (spec_hits q start upper log))"
proof -
  have "start \<le> upper" using assms(7) by (auto simp: query_start_def split: if_splits)
  then have "i64_try_from start = Some (int start)" "i64_try_from upper = Some (int upper)"
    using assms(4) by auto
  moreover have "\<forall>(n, e) \<in> set (filter (row_selected c q (int start) (int upper) \<circ> encode_event c)
      (List.enumerate 0 log)). encodable c e \<and> int n \<le> i64_max"
    using assms(3) by (auto simp: in_set_enumerate_eq log_ok_def)
  ultimately show ?thesis
    using assms(1-3,5-7)
    by (simp add: query_events_def current_count_encode select_sorted collect_selected
        spec_page_def Let_def last_map case_prod_unfold)
qed

text \<open>Without faults a query returns the specified page, or the error of its own checks.\<close>

lemma query_events_encode:
  assumes "codec_ok c" and "query_ok q" and "log_ok c log" and "int (length log) \<le> i64_max"
  shows "query_events no_faults c tk sid ep q (encode_log c log) =
    and_then (q_validate q) (\<lambda>_.
    and_then (query_upper tk sid ep q (length log)) (\<lambda>upper.
    and_then (query_start tk sid ep q (length log) upper) (\<lambda>start.
    Ok (spec_page (cursor_for_storage tk sid ep) (q_limit q) (spec_hits q start upper log)))))"
proof (cases "\<exists>u upper start. q_validate q = Ok u \<and> query_upper tk sid ep q (length log) = Ok upper \<and>
      query_start tk sid ep q (length log) upper = Ok start")
  case True
  then obtain u upper start where v: "q_validate q = Ok u" "query_upper tk sid ep q (length log) = Ok upper"
    "query_start tk sid ep q (length log) upper = Ok start" by blast
  then have "int upper \<le> i64_max" using assms(4) by (auto simp: query_upper_def split: if_splits)
  from query_page_encode [OF assms(1-3) this v] v show ?thesis by simp
next
  case False
  then show ?thesis
    by (cases "q_validate q"; cases "query_upper tk sid ep q (length log)")
      (auto simp: query_events_def current_count_encode [OF assms(3)] and_then_no_Ok)
qed

lemma current_count_faults [fault_intros]:
  "res_le (current_count flt rows :: (nat, 'id storage_error) result) (current_count no_faults rows)"
  unfolding current_count_def by (intro fault_intros)

lemma collect_rows_faults [fault_intros]:
  "res_le (collect_rows flt c tk sid ep q k rows acc) (collect_rows no_faults c tk sid ep q k rows acc)"
proof (induction rows arbitrary: k acc)
  case (Cons r rows)
  then show ?case unfolding collect_rows.simps by (intro fault_intros)
qed (simp add: res_le_def)

lemma query_events_faults:
  "res_le (query_events flt c tk sid ep q rows) (query_events no_faults c tk sid ep q rows)"
  unfolding query_events_def by (intro fault_intros)

lemma query_events_Ok:
  assumes "codec_ok c" and "query_ok q" and "log_ok c log"
    and "query_events flt c tk sid ep q (encode_log c log) = Inr page"
  obtains upper start where "query_upper tk sid ep q (length log) = Inr upper"
    "query_start tk sid ep q (length log) upper = Inr start"
    "page = spec_page (cursor_for_storage tk sid ep) (q_limit q) (spec_hits q start upper log)"
proof -
  have q: "query_events no_faults c tk sid ep q (encode_log c log) = Inr page"
    using query_events_faults assms(4) by (rule res_leD)
  then obtain u upper start where v: "q_validate q = Inr u" "query_upper tk sid ep q (length log) = Inr upper"
    "query_start tk sid ep q (length log) upper = Inr start" "int upper \<le> i64_max"
    by (auto simp: query_events_def current_count_encode [OF assms(3)])
  with query_page_encode [OF assms(1-3) v(4,1-3)] q that show ?thesis by simp
qed

lemma append_event_table:
  assumes "codec_ok c" and "table_inv c rows" and "append_event flt c tk sid ep e rows = (r, rows')"
  shows "table_inv c rows' \<and>
    (case r of
       Inl x \<Rightarrow> rows' = rows
     | Inr se \<Rightarrow> \<exists>n. spec_append e (table_log c rows) = (Ok n, table_log c rows') \<and>
         se = \<lparr>se_cursor = cursor_for_storage tk sid ep (n + 1), se_event = e\<rparr>)"
proof -
  obtain log where log: "log_ok c log" "rows = encode_log c log"
    using assms(1,2) by (auto simp: table_inv_log)
  have tl: "table_log c (encode_log c l) = l" if "log_ok c l" for l
    using that assms(1) by (simp add: table_log_encode log_ok_def)
  from append_event_spec [OF assms(1) log(1) assms(3) [unfolded log(2)]] show ?thesis
    using table_invI [OF assms(1)] log tl by auto
qed

section \<open>The store implements the port\<close>

text \<open>
  The state of the port is the table together with the fault plan of the next call. Its
  invariant carries the laws of the kernel's conversions.
\<close>

type_synonym store_state = "sql_faults \<times> stored_row list"

definition store_inv ::
  "('id, 'v) event_codec \<Rightarrow> ('id, 'cur, 'cp) token_ops \<Rightarrow> store_state \<Rightarrow> bool" where
  "store_inv c tk s \<longleftrightarrow> codec_ok c \<and> tokens_ok tk \<and> table_inv c (snd s)"

definition store_log :: "('id, 'v) event_codec \<Rightarrow> store_state \<Rightarrow> ('id, 'v) event list" where
  "store_log c s = table_log c (snd s)"

definition store_append ::
  "('id, 'v) event_codec \<Rightarrow> ('id, 'cur, 'cp) token_ops \<Rightarrow> 'id \<Rightarrow> 'id \<Rightarrow> ('id, 'v) event \<Rightarrow> store_state
   \<Rightarrow> (('id, 'v, 'cur) stored_event, 'id storage_error) result \<times> store_state" where
  "store_append c tk sid ep e s =
     (case append_event (fst s) c tk sid ep e (snd s) of (r, rows') \<Rightarrow> (r, (fst s, rows')))"

definition store_query ::
  "('id, 'v) event_codec \<Rightarrow> ('id, 'cur, 'cp) token_ops \<Rightarrow> 'id \<Rightarrow> 'id
   \<Rightarrow> ('id, 'v, 'cur, 'cp) event_query \<Rightarrow> store_state
   \<Rightarrow> (('id, 'v, 'cur) event_page, 'id storage_error) result" where
  "store_query c tk sid ep q s = query_events (fst s) c tk sid ep q (snd s)"

definition store_capture ::
  "('id, 'cur, 'cp) token_ops \<Rightarrow> 'id \<Rightarrow> 'id \<Rightarrow> store_state \<Rightarrow> ('cp, 'id storage_error) result" where
  "store_capture tk sid ep s = capture_checkpoint (fst s) tk sid ep (snd s)"

lemma store_inv_log:
  assumes "store_inv c tk s"
  shows "codec_ok c" "tokens_ok tk" "snd s = encode_log c (store_log c s)" "log_ok c (store_log c s)"
  using assms by (simp_all add: store_inv_def store_log_def table_inv_def)

lemma query_upper_tokens:
  assumes "tokens_ok tk"
    and "q_upper_bound q = Some (checkpoint_for_storage tk sid ep b) \<or> q_upper_bound q = None \<and> b = count"
    and "query_upper tk sid ep q count = Inr upper"
  shows "upper = b \<and> b \<le> count"
  using assms by (auto simp: query_upper_def tokens_ok_def split: if_splits)

lemma query_start_tokens:
  assumes "tokens_ok tk"
    and "q_after_cursor q = (if b = 0 then None else Some (cursor_for_storage tk sid ep b))"
    and "query_start tk sid ep q count upper = Inr start"
  shows "start = b"
  using assms by (auto simp: query_start_def tokens_ok_def split: if_splits)

interpretation es: event_port "store_inv c tk" "store_log c" "store_query c tk sid ep"
  "cursor_for_storage tk sid ep" "checkpoint_for_storage tk sid ep"
  "store_append c tk sid ep" "store_capture tk sid ep"
  for c :: "('id, 'v) event_codec" and tk :: "('id, 'cur, 'cp) token_ops" and sid ep
proof
  fix s e and se :: "('id, 'v, 'cur) stored_event" and s'
  assume s: "store_inv c tk s"
    "store_append c tk sid ep e s = (Inr se, s')"
  show "store_inv c tk s' \<and> (\<exists>n. spec_append e (store_log c s) = (Inr n, store_log c s') \<and>
      se = \<lparr>se_cursor = cursor_for_storage tk sid ep (n + 1), se_event = e\<rparr>)"
    using s append_event_table [of c "snd s" "fst s" tk sid ep e "Inr se" "snd s'"]
    by (auto simp: store_inv_def store_log_def store_append_def split: prod.splits)
next
  fix s e x s'
  assume s: "store_inv c tk s"
    "store_append c tk sid ep e s =
       (Inl x :: (('id, 'v, 'cur) stored_event, 'id storage_error) result, s')"
  show "store_inv c tk s' \<and> store_log c s' = store_log c s"
    using s append_event_table [of c "snd s" "fst s" tk sid ep e "Inl x" "snd s'"]
    by (auto simp: store_inv_def store_log_def store_append_def split: prod.splits)
next
  fix s cp
  assume s: "store_inv c tk s" "store_capture tk sid ep s = Inr cp"
  then show "cp = checkpoint_for_storage tk sid ep (length (store_log c s))"
    by (auto simp: capture_checkpoint_def store_capture_def store_inv_log(3) [OF s(1)]
        current_count_encode [OF store_inv_log(4) [OF s(1)]])
next
  fix s and q :: "('id, 'v, 'cur, 'cp) event_query" and page start upper
  assume s: "store_inv c tk s" and q: "query_ok q"
    and page: "store_query c tk sid ep q s = Inr page"
    and b: "q_after_cursor q = (if start = 0 then None else Some (cursor_for_storage tk sid ep start))"
    "q_upper_bound q = Some (checkpoint_for_storage tk sid ep upper) \<or>
     q_upper_bound q = None \<and> upper = length (store_log c s)"
  note inv = store_inv_log [OF s]
  from page inv(3) have "query_events (fst s) c tk sid ep q (encode_log c (store_log c s)) = Inr page"
    by (simp add: store_query_def)
  from query_events_Ok [OF inv(1) q inv(4) this] obtain u p where
    "query_upper tk sid ep q (length (store_log c s)) = Inr u"
    "query_start tk sid ep q (length (store_log c s)) u = Inr p"
    "page = spec_page (cursor_for_storage tk sid ep) (q_limit q) (spec_hits q p u (store_log c s))" .
  with query_upper_tokens [OF inv(2) b(2)] query_start_tokens [OF inv(2) b(1)]
  show "upper \<le> length (store_log c s) \<and>
     page = spec_page (cursor_for_storage tk sid ep) (q_limit q) (spec_hits q start upper (store_log c s))"
    by blast
qed

section \<open>The integrity gate\<close>

lemma verify_rows_iff:
  assumes "int k \<le> i64_max"
  shows "verify_rows no_faults c n (int k) rows = Ok () \<longleftrightarrow>
    map append_sequence rows = map int [k..<k + length rows] \<and>
    list_all (\<lambda>r. is_ok (decode_row c r)) rows \<and> int (k + length rows) \<le> i64_max"
  using assms
proof (induction rows arbitrary: n k)
  case (Cons r rows)
  have step: "[k..<k + length (r # rows)] = k # [Suc k..<Suc k + length rows]"
    by (simp add: upt_rec)
  have add: "checked_add_i64 (int k) 1 = Some x \<longleftrightarrow> x = int (Suc k) \<and> int (Suc k) \<le> i64_max" for x
    by (auto simp: i64_min_def)
  show ?case
  proof (cases "int (Suc k) \<le> i64_max")
    case True
    with Cons.IH [OF True, of "Suc n"] show ?thesis
      unfolding step by (auto simp: add is_ok_iff simp del: upt_Suc checked_add_i64_Some)
  next
    case False
    then show ?thesis by (auto simp: add simp del: checked_add_i64_Some)
  qed
qed simp

text \<open>
  C39. The gate that runs before a database is served accepts exactly the tables whose
  sequence numbers are \<open>0, 1, \<dots>\<close> without a gap, whose rows all decode, and whose length an
  \<^verbatim>\<open>i64\<close> can count.
\<close>

theorem verify_all_events_iff:
  "verify_all_events no_faults c db = Ok () \<longleftrightarrow>
     (let rows = sort_key append_sequence (events_table db)
      in map append_sequence rows = map int [0..<length rows] \<and>
         list_all (\<lambda>r. is_ok (decode_row c r)) rows \<and> int (length rows) \<le> i64_max)"
  using verify_rows_iff [of 0 c 0 "sort_key append_sequence (events_table db)"]
  by (simp add: verify_all_events_def Let_def i64_max_def)

lemma sort_encode_log [simp]: "sort_key append_sequence (encode_log c log) = encode_log c log"
  using select_sorted [of "\<lambda>_. True" c log] by (simp add: encode_log_def)

lemma verify_encode_log:
  assumes "codec_ok c" and "log_ok c log" and "int (length log) \<le> i64_max"
  shows "verify_rows no_faults c 0 0 (encode_log c log) = Ok ()"
proof -
  have "is_ok (decode_row c r)" if "r \<in> set (encode_log c log)" for r
    using that assms(1,2) by (auto simp: encode_log_def in_set_enumerate_eq log_ok_def decode_encode)
  with assms verify_rows_iff [of 0 c 0 "encode_log c log"] show ?thesis
    by (simp add: encode_log_sequence list_all_iff i64_max_def)
qed

section \<open>Properties\<close>

text \<open>
  C2. Appending refines the abstract log under every plan of engine faults: a successful
  append is the specified one and reports the position of the event, a failed one leaves the
  table untouched, and the table always remains the encoding of a log with distinct identities.
\<close>

theorem append_event_refines:
  assumes "codec_ok c" and "table_inv c rows"
  shows "table_inv c (snd (append_event flt c tk sid ep e rows)) \<and>
    (case append_event flt c tk sid ep e rows of
       (Inl x, rows') \<Rightarrow> rows' = rows
     | (Inr se, rows') \<Rightarrow> \<exists>n. spec_append e (table_log c rows) = (Ok n, table_log c rows') \<and>
         se = \<lparr>se_cursor = cursor_for_storage tk sid ep (n + 1), se_event = e\<rparr>)"
  using append_event_table [OF assms, of flt tk sid ep e]
  by (cases "append_event flt c tk sid ep e rows") (auto split: sum.split)

lemma log_ok_spec_append:
  assumes "log_ok c log" and "encodable c e" and "int (length log) < i64_max" and "spec_append e log = (Ok n, log')"
  shows "log_ok c log' \<and> int (length log') \<le> i64_max"
  using assms log_ok_snoc [of c log e]
  by (auto simp: spec_append_def split: option.splits if_splits)

lemma append_get_again:
  assumes "codec_ok c" and "log_ok c log" and "encodable c e" and "int (length log) < i64_max"
    and "spec_append e log = (Ok n, log')"
    and "se = \<lparr>se_cursor = cursor_for_storage tk sid ep (n + 1), se_event = e\<rparr>"
  shows "append_event no_faults c tk sid ep e (encode_log c log) = (Ok se, encode_log c log')"
    "append_event no_faults c tk sid ep e (encode_log c log') = (Ok se, encode_log c log')"
    "get_event no_faults c tk sid ep (ev_id e) (encode_log c log') = Ok (Some se)"
proof -
  note ok = log_ok_spec_append [OF assms(2-5)]
  show "append_event no_faults c tk sid ep e (encode_log c log) = (Ok se, encode_log c log')"
    using append_event_no_faults [OF assms(1-3), of tk sid ep] assms(4-6) by simp
  show "append_event no_faults c tk sid ep e (encode_log c log') = (Ok se, encode_log c log')"
    using append_event_no_faults [of c log' e tk sid ep] ok assms spec_append_again [OF assms(5)] by simp
  show "get_event no_faults c tk sid ep (ev_id e) (encode_log c log') = Ok (Some se)"
    using get_event_encode [of c log' tk sid ep "ev_id e"] ok assms find_event_append [OF assms(5)] by simp
qed

text \<open>Which of the three outcomes the specification has, in terms of the events of the log.\<close>

lemma spec_append_cases:
  assumes "distinct (map ev_id log)"
  shows "spec_append e log =
    (if \<forall>x \<in> set log. ev_id x = ev_id e \<longrightarrow> x = e
     then if e \<in> set log then (Ok (fst (the (find_event (ev_id e) log))), log) else (Ok (length log), log @ [e])
     else (Err (EventConflict (ev_id e)), log))"
proof (cases "find_event (ev_id e) log")
  case None
  then have "\<forall>x \<in> set log. ev_id x \<noteq> ev_id e" by (auto simp: find_event_None image_iff)
  with None show ?thesis by (auto simp: spec_append_def)
next
  case (Some z)
  obtain n x where z: "z = (n, x)" by fastforce
  note x = find_event_Some [OF Some [unfolded z]]
  then have "\<And>y. y \<in> set log \<Longrightarrow> ev_id y = ev_id e \<Longrightarrow> y = x"
    using assms by (metis distinct_map inj_onD nth_mem)
  with Some z x show ?thesis by (auto simp: spec_append_def)
qed

text \<open>
  Without engine faults an encodable event is appended exactly as specified: a new
  identity goes to the end, the same event again reports its first position, another event
  under a known identity is a conflict, and the event then is what a lookup returns.
\<close>

theorem append_event_exact:
  assumes "codec_ok c" and "table_inv c rows" and "encodable c e" and "int (length rows) < i64_max"
  shows "case append_event no_faults c tk sid ep e rows of (r, rows') \<Rightarrow>
    (if \<forall>x \<in> set (table_log c rows). ev_id x = ev_id e \<longrightarrow> x = e
     then (\<exists>se. r = Ok se \<and> se_event se = e \<and>
        table_log c rows' = (if e \<in> set (table_log c rows) then table_log c rows else table_log c rows @ [e]) \<and>
        get_event no_faults c tk sid ep (ev_id e) rows' = Ok (Some se) \<and>
        append_event no_faults c tk sid ep e rows' = (Ok se, rows'))
     else r = Err (EventConflict (ev_id e)) \<and> rows' = rows)"
proof -
  define log where "log = table_log c rows"
  have log: "log_ok c log" "rows = encode_log c log" using assms(2) by (auto simp: inv_defs log_def)
  have len: "int (length log) < i64_max" using assms(4) unfolding log(2) by simp
  have tl: "table_log c (encode_log c log) = log"
    using log(1) assms(1) by (simp add: table_log_encode log_ok_def)
  note cs = spec_append_cases [of log e] log(1) [unfolded log_ok_def]
  show ?thesis
  proof (cases "\<forall>x \<in> set log. ev_id x = ev_id e \<longrightarrow> x = e")
    case True
    then obtain n where spec:
      "spec_append e log = (Ok n, if e \<in> set log then log else log @ [e])" using cs by (auto split: if_splits)
    have "table_log c (encode_log c (if e \<in> set log then log else log @ [e])) = (if e \<in> set log then log else log @ [e])"
      using log_ok_spec_append [OF log(1) assms(3) len spec] assms(1) by (simp add: table_log_encode log_ok_def)
    with append_get_again [OF assms(1) log(1) assms(3) len spec refl, of tk sid ep] True show ?thesis
      unfolding log(2) by (simp add: tl)
  next
    case False
    then have "spec_append e log = (Err (EventConflict (ev_id e)), log)" using cs by auto
    with append_event_no_faults [OF assms(1) log(1) assms(3), of tk sid ep] len False show ?thesis
      unfolding log(2) by (auto simp: tl)
  qed
qed

definition live_inv ::
  "('id, 'v) event_codec \<Rightarrow> ('id, 'cur, 'cp) token_ops \<Rightarrow> store_state \<Rightarrow> bool" where
  "live_inv c tk s \<longleftrightarrow> store_inv c tk s \<and> fst s = no_faults \<and> int (length (snd s)) \<le> i64_max"

interpretation esl: live_event_reader "live_inv c tk" "store_log c" "store_query c tk sid ep"
  "cursor_for_storage tk sid ep" "checkpoint_for_storage tk sid ep"
  for c :: "('id, 'v) event_codec" and tk :: "('id, 'cur, 'cp) token_ops" and sid ep
proof
  fix s and q :: "('id, 'v, 'cur, 'cp) event_query" and page start upper
  assume s: "live_inv c tk s" and q: "query_ok q"
    and page: "store_query c tk sid ep q s = Inr page"
    and b: "q_after_cursor q = (if start = 0 then None else Some (cursor_for_storage tk sid ep start))"
    "q_upper_bound q = Some (checkpoint_for_storage tk sid ep upper) \<or>
     q_upper_bound q = None \<and> upper = length (store_log c s)"
  then show "upper \<le> length (store_log c s) \<and>
     page = spec_page (cursor_for_storage tk sid ep) (q_limit q) (spec_hits q start upper (store_log c s))"
    using es.query_Ok [of c tk s q sid ep page start upper] by (auto simp: live_inv_def)
next
  fix s and q :: "('id, 'v, 'cur, 'cp) event_query" and start upper
  assume s: "live_inv c tk s" and q: "query_ok q" "q_validate q = Inr ()"
    and b: "q_after_cursor q = (if start = 0 then None else Some (cursor_for_storage tk sid ep start))"
    "q_upper_bound q = Some (checkpoint_for_storage tk sid ep upper) \<or>
     q_upper_bound q = None \<and> upper = length (store_log c s)"
    and le: "start \<le> upper" "upper \<le> length (store_log c s)"
  from s have inv: "codec_ok c" "tokens_ok tk" "snd s = encode_log c (store_log c s)" "log_ok c (store_log c s)"
    by (auto simp: live_inv_def dest: store_inv_log)
  have len: "int (length (store_log c s)) \<le> i64_max"
    using s inv(3) by (metis encode_log_simps(2) live_inv_def)
  have "query_upper tk sid ep q (length (store_log c s)) = Inr upper"
    using b(2) le inv(2) by (auto simp: query_upper_def tokens_ok_def intro!: exI [of _ upper])
  moreover have "query_start tk sid ep q (length (store_log c s)) upper = Inr start"
    using b(1) le inv(2) by (auto simp: query_start_def tokens_ok_def intro!: exI [of _ start])
  ultimately show "\<exists>page. store_query c tk sid ep q s = Inr page"
    using query_events_encode [OF inv(1) q(1) inv(4) len, of tk sid ep] q(2) s inv(3)
    by (simp add: store_query_def live_inv_def)
qed

text \<open>
  C1. Paging through a query bounded by a captured checkpoint yields exactly the matching
  events the store held when the checkpoint was taken, once each and in append order,
  whatever other clients append between the pages. One request per event and one more are
  enough, and without engine faults none of them fails.
\<close>

theorem checkpointed_pagination:
  assumes "codec_ok c" and "tokens_ok tk" and "query_ok q" and "q_validate q = Ok ()" and "0 < q_limit q"
    and "table_inv c rows" and "capture_checkpoint flt tk sid ep rows = Ok cp"
    and "q_upper_bound q = Some cp" and "q_after_cursor q = None"
    and "\<forall>s \<in> set ss. table_inv c (snd s) \<and> prefix (table_log c rows) (table_log c (snd s))"
    and "length rows < length ss"
  shows "case drain (store_query c tk sid ep) q ss of
      None \<Rightarrow> False
    | Some (Inr evs) \<Rightarrow> map se_event evs = filter (q_matches q) (table_log c rows)
    | Some (Inl x) \<Rightarrow> (\<exists>s \<in> set ss. fst s \<noteq> no_faults \<or> i64_max < int (length (snd s)))"
proof -
  let ?log = "table_log c rows"
  have cp: "cp = checkpoint_for_storage tk sid ep (length ?log)"
    using es.capture_Ok [of c tk "(flt, rows)" sid ep cp] assms(1,2,6,7)
    by (simp add: store_inv_def store_capture_def store_log_def)
  have ss: "\<forall>s \<in> set ss. store_inv c tk s \<and> prefix ?log (store_log c s)"
    using assms(1,2,10) by (simp add: store_inv_def store_log_def)
  have all: "map snd (spec_hits q 0 (length ?log) ?log) = filter (q_matches q) ?log"
    by (simp add: spec_hits_all)
  have "length (filter (q_matches q) ?log) \<le> length rows"
    using assms(6) by (metis encode_log_simps(2) length_filter_le table_inv_def)
  then have fuel: "length (spec_hits q 0 (length ?log) ?log) < length ss"
    using assms(11) all by (metis le_less_trans length_map)
  have up: "q_upper_bound q = Some (checkpoint_for_storage tk sid ep (length ?log))"
    using assms(8) cp by simp
  have after: "q_after_cursor q = (if 0 = (0::nat) then None else Some (cursor_for_storage tk sid ep 0))"
    using assms(9) by simp
  have ends: "drain (store_query c tk sid ep) q ss \<noteq> None"
    using es.drain_ends [OF assms(3,5) ss disjI1 [OF up] order_refl after fuel] .
  show ?thesis
  proof (cases "drain (store_query c tk sid ep) q ss")
    case (Some r)
    show ?thesis
    proof (cases r)
      case (Inl x)
      have "\<exists>s \<in> set ss. \<not> live_inv c tk s"
        using esl.drain_total [OF assms(3,4,5) up order_refl _ _ after, where ss = ss and x = x] ss Some Inl by blast
      with Some Inl ss show ?thesis by (auto simp: live_inv_def not_le)
    next
      case (Inr evs)
      with es.drain_checkpointed [OF assms(3,5) up order_refl ss after] Some all show ?thesis by simp
    qed
  qed (use ends in simp)
qed

text \<open>
  Continuation tokens are bound to the store and to the epoch of the process that issued
  them: a checkpoint or a cursor of another store or an earlier epoch is refused, with every
  fault plan and whatever the table holds.
\<close>

theorem foreign_tokens_rejected:
  assumes "tokens_ok tk" and "(sid', ep') \<noteq> (sid, ep)"
    and "q_upper_bound q = Some (checkpoint_for_storage tk sid' ep' n) \<or>
         q_after_cursor q = Some (cursor_for_storage tk sid' ep' n)"
  shows "\<not> is_ok (query_events flt c tk sid ep q rows)"
  using assms by (auto simp: is_ok_iff query_events_def query_upper_def query_start_def tokens_ok_def)

lemma metadata_value_no_faults [simp]:
  "metadata_value no_faults key db = Ok (map_of (storage_metadata db) key)"
  by (simp add: metadata_value_def)

lemma supported_version_text: "parse_i64 (dec_of_nat (nat SUPPORTED_SCHEMA_VERSION)) = Some SUPPORTED_SCHEMA_VERSION"
  by code_simp

lemma init_schema_version_Ok:
  assumes "init_schema_version flt db = (Ok u, db1)"
  shows "\<exists>v. map_of (storage_metadata db1) ''schema_version'' = Some v \<and> parse_i64 v = Some SUPPORTED_SCHEMA_VERSION"
  using assms supported_version_text
  by (auto simp: init_schema_version_def metadata_value_def insert_metadata_def map_add_def
      split: sum.splits option.splits if_splits)

lemma init_store_id_Ok:
  assumes "codec_ok c" and "init_store_id flt c fresh db1 = (Ok sid, db2)"
  shows "\<exists>v. map_of (storage_metadata db2) ''physical_store_id'' = Some v \<and> id_parse c v = Some sid"
    and "map_of (storage_metadata db2) ''schema_version'' = map_of (storage_metadata db1) ''schema_version''"
  using assms
  by (auto simp: init_store_id_def metadata_value_def insert_metadata_def map_add_def codec_ok_def
      split: sum.splits option.splits)

lemma initialize_connection_Ok:
  fixes c :: "('id, 'v) event_codec"
  assumes "initialize_connection flt c dir_ok quick fresh db = (Ok sid, db')"
  obtains db1 u where "init_schema_version flt db = (Ok u :: (unit, 'id storage_error) result, db1)" "init_store_id flt c fresh db1 = (Ok sid, db')"
  using assms by (auto simp: initialize_connection_def split: if_splits sum.splits prod.splits)

text \<open>
  Reopening keeps everything: once a database has been initialised, opening it again
  without faults returns the same store identity and leaves both tables as they are,
  whatever events have been stored in between.
\<close>

theorem reopen_same_store:
  fixes c :: "('id, 'v) event_codec"
  assumes "codec_ok c" and "initialize_connection flt c dir_ok quick fresh db = (Ok sid, db')"
    and "table_inv c rows" and "int (length rows) \<le> i64_max"
  shows "initialize_connection no_faults c True (Some ''ok'') fresh' (db'\<lparr>events_table := rows\<rparr>) =
    (Ok sid, db'\<lparr>events_table := rows\<rparr>)"
proof -
  from initialize_connection_Ok [OF assms(2)] obtain db1 u where
    i: "init_schema_version flt db = (Ok u :: (unit, 'id storage_error) result, db1)" "init_store_id flt c fresh db1 = (Ok sid, db')" .
  from init_schema_version_Ok [OF i(1)] init_store_id_Ok [OF assms(1) i(2)] obtain v w where
    m: "map_of (storage_metadata db') ''schema_version'' = Some v" "parse_i64 v = Some SUPPORTED_SCHEMA_VERSION"
    "map_of (storage_metadata db') ''physical_store_id'' = Some w" "id_parse c w = Some sid" by auto
  let ?db = "db'\<lparr>events_table := rows\<rparr>"
  have "init_schema_version no_faults ?db = (Ok () :: (unit, 'id storage_error) result, ?db)" "init_store_id no_faults c fresh' ?db = (Ok sid, ?db)"
    using m by (simp_all add: init_schema_version_def init_store_id_def)
  moreover have "rows = encode_log c (table_log c rows)" "log_ok c (table_log c rows)"
    using assms(3) by (auto simp: inv_defs)
  then have "verify_all_events no_faults c ?db = Ok ()"
    using verify_encode_log [OF assms(1), of "table_log c rows"] assms(4) sort_encode_log [of c "table_log c rows"]
      encode_log_simps(2) [of c "table_log c rows"]
    by (simp add: verify_all_events_def)
  ultimately show ?thesis by (simp add: initialize_connection_def)
qed

section \<open>A concrete instance\<close>

text \<open>
  Conversions that satisfy the laws, on strings: identities and JSON values are their own
  text and a token is the triple it stands for.
\<close>

definition text_codec :: "(string, string) event_codec" where
  "text_codec = \<lparr>id_to_string = (\<lambda>i. i), id_parse = Some, timestamp_to_json = Some, timestamp_from_json = Some,
     payload_to_json = Some, payload_from_json = Some, metadata_to_json = Some, metadata_from_json = Some\<rparr>"

type_synonym triple = "string \<times> string \<times> nat"

definition triple_tokens :: "(string, triple, triple) token_ops" where
  "triple_tokens = \<lparr>cursor_for_storage = (\<lambda>s e p. (s, e, p)),
     cursor_position = (\<lambda>(s, e, p) s' e'. if s' = s \<and> e' = e then Some p else None),
     checkpoint_for_storage = (\<lambda>s e p. (s, e, p)),
     checkpoint_position = (\<lambda>(s, e, p) s' e'. if s' = s \<and> e' = e then Some p else None)\<rparr>"

definition sample_event :: "string \<Rightarrow> string \<Rightarrow> (string, string) event" where
  "sample_event i ty = \<lparr>ev_id = i, ev_session_id = ''s'', ev_actor_id = ''a'', ev_action_id = ''c'',
     ev_event_type = ty, ev_occurred_at = ''0'', ev_payload = ''{}'', ev_metadata = ''{}''\<rparr>"

definition sample_log :: "(string, string) event list" where
  "sample_log = [sample_event ''1'' ''x'', sample_event ''2'' ''y'', sample_event ''3'' ''x'']"

definition sample_query :: "(string, string, triple, triple) event_query" where
  "sample_query = \<lparr>q_validate = Ok (), q_session_id = Some ''s'', q_actor_id = None, q_event_types = [''x''],
     q_after_cursor = None, q_upper_bound = Some (''db'', ''e1'', 2), q_limit = 1,
     q_matches = (\<lambda>e. ev_session_id e = ''s'' \<and> ev_event_type e = ''x'')\<rparr>"

lemma text_codec_ok: "codec_ok text_codec"
  by (simp add: codec_ok_def text_codec_def)

lemma triple_tokens_ok: "tokens_ok triple_tokens"
  by (simp add: tokens_ok_def triple_tokens_def)

lemma text_encodable [simp]: "encodable text_codec e"
  by (simp add: encodable_def text_codec_def)

lemma sample_query_ok: "query_ok sample_query"
  by (simp add: query_ok_def sample_query_def)

lemma text_log_ok: "distinct (map ev_id log) \<Longrightarrow> int (length log) \<le> i64_max \<Longrightarrow> log_ok text_codec log"
  by (simp add: log_ok_def)

lemma sample_log_ok: "log_ok text_codec (take n sample_log)"
proof (rule text_log_ok)
  have "distinct (map ev_id sample_log)" by (simp add: sample_log_def sample_event_def)
  then show "distinct (map ev_id (take n sample_log))" by (simp flip: take_map)
qed (simp add: sample_log_def i64_max_def)

lemma text_table_log: "table_log text_codec (encode_log text_codec log) = log"
  by (simp add: table_log_encode text_codec_ok)

definition sample_rows :: "nat \<Rightarrow> stored_row list" where
  "sample_rows n = encode_log text_codec (take n sample_log)"

lemma sample_rows_inv: "table_inv text_codec (sample_rows n)"
  unfolding sample_rows_def by (intro table_invI text_codec_ok sample_log_ok)

lemma sample_rows_log: "table_log text_codec (sample_rows n) = take n sample_log"
  by (simp add: sample_rows_def text_table_log)

lemma sample_rows_length: "length (sample_rows n) = min 3 n"
  by (simp add: sample_rows_def sample_log_def)

theorem append_event_refines_witness:
  "table_inv text_codec (snd (append_event no_faults text_codec triple_tokens ''db'' ''e1''
     (sample_event ''3'' ''x'') (sample_rows 2)))"
  using append_event_refines [OF text_codec_ok sample_rows_inv [of 2], of no_faults triple_tokens "''db''" "''e1''"
      "sample_event ''3'' ''x''"] by simp

theorem append_event_exact_witness:
  "\<exists>se. fst (append_event no_faults text_codec triple_tokens ''db'' ''e1'' (sample_event ''3'' ''x'') (sample_rows 2)) = Ok se \<and>
     se_event se = sample_event ''3'' ''x''"
proof -
  have "\<forall>x \<in> set (table_log text_codec (sample_rows 2)). ev_id x = ev_id (sample_event ''3'' ''x'') \<longrightarrow>
      x = sample_event ''3'' ''x''"
    by (simp add: sample_rows_log sample_log_def sample_event_def)
  with append_event_exact [OF text_codec_ok sample_rows_inv [of 2] text_encodable, of "sample_event ''3'' ''x''"
      triple_tokens "''db''" "''e1''"]
  show ?thesis by (auto simp: sample_rows_length i64_max_def split: prod.splits)
qed

theorem checkpointed_pagination_witness:
  "\<exists>evs. drain (store_query text_codec triple_tokens ''db'' ''e1'') sample_query
     [(no_faults, sample_rows 2), (no_faults, sample_rows 3), (no_faults, sample_rows 3)] = Some (Ok evs) \<and>
   map se_event evs = [sample_event ''1'' ''x'']"
proof -
  let ?ss = "[(no_faults, sample_rows 2), (no_faults, sample_rows 3), (no_faults, sample_rows 3)]"
  have cp: "capture_checkpoint no_faults triple_tokens ''db'' ''e1'' (sample_rows 2) = Ok (''db'', ''e1'', 2)"
    unfolding capture_checkpoint_def sample_rows_def current_count_encode [OF sample_log_ok]
    by (simp add: triple_tokens_def sample_log_def)
  have pre: "\<forall>s \<in> set ?ss. table_inv text_codec (snd s) \<and>
      prefix (table_log text_codec (sample_rows 2)) (table_log text_codec (snd s))"
    by (simp add: sample_rows_inv sample_rows_log sample_log_def)
  have "case drain (store_query text_codec triple_tokens ''db'' ''e1'') sample_query ?ss of
      None \<Rightarrow> False
    | Some (Inr evs) \<Rightarrow> map se_event evs = filter (q_matches sample_query) (table_log text_codec (sample_rows 2))
    | Some (Inl x) \<Rightarrow> (\<exists>s \<in> set ?ss. fst s \<noteq> no_faults \<or> i64_max < int (length (snd s)))"
    by (rule checkpointed_pagination [OF text_codec_ok triple_tokens_ok sample_query_ok _ _ sample_rows_inv cp _ _ pre])
      (simp_all add: sample_query_def sample_rows_length)
  moreover have "filter (q_matches sample_query) (table_log text_codec (sample_rows 2)) = [sample_event ''1'' ''x'']"
    by (simp add: sample_rows_log sample_log_def sample_event_def sample_query_def)
  moreover have "\<not> (\<exists>s \<in> set ?ss. fst s \<noteq> no_faults \<or> i64_max < int (length (snd s)))"
    by (simp add: sample_rows_length i64_max_def)
  ultimately show ?thesis by (auto split: option.splits sum.splits)
qed

theorem foreign_tokens_rejected_witness:
  "\<not> is_ok (query_events no_faults text_codec triple_tokens ''db'' ''e2'' sample_query (sample_rows 3))"
  by (rule foreign_tokens_rejected [OF triple_tokens_ok, of "''db''" "''e1''" _ _ _ 2])
    (simp_all add: sample_query_def triple_tokens_def)

theorem reopen_same_store_witness:
  "\<exists>db'. initialize_connection no_faults text_codec True (Some ''ok'') ''new'' empty_event_db = (Ok ''new'', db') \<and>
     initialize_connection no_faults text_codec True (Some ''ok'') ''other'' (db'\<lparr>events_table := sample_rows 3\<rparr>) =
       (Ok ''new'', db'\<lparr>events_table := sample_rows 3\<rparr>)"
proof -
  obtain db' where db: "initialize_connection no_faults text_codec True (Some ''ok'') ''new'' empty_event_db = (Ok ''new'', db')"
    by (simp add: initialize_connection_def init_schema_version_def init_store_id_def empty_event_db_def
        insert_metadata_def verify_all_events_def)
  from reopen_same_store [OF text_codec_ok db sample_rows_inv [of 3], of "''other''"] db show ?thesis
    by (simp add: sample_rows_length i64_max_def)
qed

section \<open>The store behind its worker\<close>

text \<open>\<^verbatim>\<open>Command\<close> without its reply channels and without \<^verbatim>\<open>Shutdown\<close>, which the worker model has.\<close>

datatype ('id, 'v, 'cur, 'cp) event_command =
    CaptureCheckpoint
  | Append "('id, 'v) event"
  | Get 'id
  | Query "('id, 'v, 'cur, 'cp) event_query"

datatype ('id, 'v, 'cur, 'cp) event_reply =
    CheckpointReply "('cp, 'id storage_error) result"
  | AppendReply "(('id, 'v, 'cur) stored_event, 'id storage_error) result"
  | GetReply "(('id, 'v, 'cur) stored_event option, 'id storage_error) result"
  | QueryReply "(('id, 'v, 'cur) event_page, 'id storage_error) result"

text \<open>The loop body of \<^verbatim>\<open>run_worker\<close>; each command meets its own plan of engine faults.\<close>

fun exec_event_command ::
  "('id, 'v) event_codec \<Rightarrow> ('id, 'cur, 'cp) token_ops \<Rightarrow> 'id \<Rightarrow> 'id
   \<Rightarrow> sql_faults \<times> ('id, 'v, 'cur, 'cp) event_command \<Rightarrow> stored_row list
   \<Rightarrow> ('id, 'v, 'cur, 'cp) event_reply \<times> stored_row list" where
  "exec_event_command c tk sid ep (flt, CaptureCheckpoint) rows =
     (CheckpointReply (capture_checkpoint flt tk sid ep rows), rows)"
| "exec_event_command c tk sid ep (flt, Append e) rows =
     (case append_event flt c tk sid ep e rows of (r, rows') \<Rightarrow> (AppendReply r, rows'))"
| "exec_event_command c tk sid ep (flt, Get i) rows = (GetReply (get_event flt c tk sid ep i rows), rows)"
| "exec_event_command c tk sid ep (flt, Query q) rows = (QueryReply (query_events flt c tk sid ep q rows), rows)"

text \<open>The messages of a call that did not reach the worker or lost its reply.\<close>

fun event_dispatch_error :: "dispatch_error \<Rightarrow> 'id storage_error" where
  "event_dispatch_error StoreClosed = unavailable ''SQLite EventStore is closed''"
| "event_dispatch_error SenderTaken = unavailable ''SQLite EventStore worker is unavailable''"
| "event_dispatch_error QueueFull = unavailable ''SQLite command queue is full''"
| "event_dispatch_error WorkerGone = unavailable ''SQLite worker is unavailable''"
| "event_dispatch_error ResponseLost = unavailable ''SQLite worker response was lost''"

text \<open>
  \<^verbatim>\<open>open_with_queue_capacity\<close>: the worker thread initialises the connection before the
  handle exists; a failure ends it. \<open>epoch\<close> is the continuation epoch the process draws.
\<close>

definition DEFAULT_COMMAND_QUEUE_CAPACITY :: nat where
  "DEFAULT_COMMAND_QUEUE_CAPACITY = 256"

definition open_event_store ::
  "sql_faults \<Rightarrow> ('id, 'v) event_codec \<Rightarrow> bool \<Rightarrow> string option \<Rightarrow> 'id \<Rightarrow> 'id \<Rightarrow> nat \<Rightarrow> event_db
   \<Rightarrow> ('id \<times> 'id \<times> (sql_faults \<times> ('id, 'v, 'cur, 'cp) event_command,
        ('id, 'v, 'cur, 'cp) event_reply, stored_row list) worker, 'id storage_error) result \<times> event_db" where
  "open_event_store flt c dir_ok quick_check fresh_id epoch capacity db =
     (if capacity = 0
      then (Err (InvalidQuery ''SQLite command queue capacity must be greater than zero''), db)
      else case initialize_connection flt c dir_ok quick_check fresh_id db of
             (Inl e, db') \<Rightarrow> (Err e, db')
           | (Inr store_id, db') \<Rightarrow> (Ok (store_id, epoch, worker_open capacity (events_table db')), db'))"

lemma exec_event_command_inv:
  assumes "codec_ok c" and "table_inv c rows" and "exec_event_command c tk sid ep x rows = (r, rows')"
  shows "table_inv c rows' \<and> prefix (table_log c rows) (table_log c rows')"
proof -
  obtain flt cmd where x: "x = (flt, cmd)" by fastforce
  show ?thesis
  proof (cases cmd)
    case (Append e)
    obtain ar rows1 where a: "append_event flt c tk sid ep e rows = (ar, rows1)" by fastforce
    from append_event_table [OF assms(1,2) a] have "table_inv c rows1"
      "rows1 = rows \<or> (\<exists>n. spec_append e (table_log c rows) = (Ok n, table_log c rows1))"
      by (auto split: sum.splits)
    with Append x a assms(3) show ?thesis by (auto dest: spec_append_prefix)
  qed (use assms x in auto)
qed

interpretation events_served: served_tables "exec_event_command c tk sid ep" "\<lambda>_. True" "\<lambda>rows. codec_ok c \<and> table_inv c rows"
    "\<lambda>rows rows'. prefix (table_log c rows) (table_log c rows')" for c tk sid ep
proof unfold_locales
  fix rows x r rows'
  assume "codec_ok c \<and> table_inv c rows" and "exec_event_command c tk sid ep x rows = (r, rows')"
  then show "(codec_ok c \<and> table_inv c rows') \<and> prefix (table_log c rows) (table_log c rows')"
    using exec_event_command_inv [of c rows tk sid ep x r rows'] by simp
qed (auto intro: prefix_order.trans)

text \<open>
  However calls, closes and the worker loop interleave, and whatever engine faults the
  commands meet, the table of a served store remains the encoding of a log with distinct
  identities, and that log only ever grows at its end.
\<close>

theorem served_store_invariant:
  assumes "codec_ok c" and "table_inv c rows"
    and "worker_steps (exec_event_command c tk sid ep) (worker_open capacity rows) w"
  shows "table_inv c (wk_db w) \<and> prefix (table_log c rows) (table_log c (wk_db w))"
  using events_served.served_keep [OF _ assms(3)] assms(1,2) by simp

definition sample_worker ::
  "(sql_faults \<times> (string, string, triple, triple) event_command,
    (string, string, triple, triple) event_reply, stored_row list) worker" where
  "sample_worker = run_worker_step (exec_event_command text_codec triple_tokens ''db'' ''e1'')
     (snd (worker_try_send (no_faults, Append (sample_event ''3'' ''x''))
       (snd (worker_sender (worker_open 4 (sample_rows 2))))))"

theorem served_store_invariant_witness:
  "table_inv text_codec (wk_db sample_worker) \<and> prefix (take 2 sample_log) (table_log text_codec (wk_db sample_worker))"
proof -
  let ?x = "exec_event_command text_codec triple_tokens ''db'' ''e1''"
  let ?a = "snd (worker_sender (worker_open 4 (sample_rows 2)))"
  have "worker_step ?x (worker_open 4 (sample_rows 2)) ?a" by (rule ws_sender)
  moreover have "worker_step ?x ?a (snd (worker_try_send (no_faults, Append (sample_event ''3'' ''x'')) ?a))"
    by (rule ws_send) (simp add: worker_sender_def worker_open_def)
  moreover have "worker_step ?x (snd (worker_try_send (no_faults, Append (sample_event ''3'' ''x'')) ?a)) sample_worker"
    unfolding sample_worker_def by (rule ws_run)
  ultimately have "worker_steps ?x (worker_open 4 (sample_rows 2)) sample_worker"
    unfolding worker_steps_def by (meson converse_rtranclp_into_rtranclp rtranclp.rtrancl_refl)
  from served_store_invariant [OF text_codec_ok sample_rows_inv [of 2] this] show ?thesis
    by (simp add: sample_rows_log)
qed

end
