(* ===== verification/Canvas_State.thy ===== *)
theory Canvas_State
  imports Event_Store
begin

text \<open>
  Two clients of the EventStore port in the server: the reader that rebuilds a stroke from
  the persisted events of its session (\<^verbatim>\<open>EventStoreCanvasStateReader\<close> of \<^verbatim>\<open>canvas.rs\<close>), and
  the pipeline that persists a batch of events before it publishes them (\<^verbatim>\<open>pipeline.rs\<close>).

  The store, the event bus, the query builders and the Canvas kernel (event payloads and the
  stroke projector) are arguments. A loop over store requests consumes a list of store
  states, one per request, because other clients may append in between; \<open>None\<close> is a loop
  that has not finished within them.
\<close>

section \<open>Building queries\<close>

text \<open>The builder methods of the kernel's \<^verbatim>\<open>EventQuery\<close> and their documented effect.\<close>

record ('id, 'v, 'cur, 'cp) query_builder =
  qb_for_session :: "'id \<Rightarrow> ('id, 'v, 'cur, 'cp) event_query"
  qb_with_event_type :: "string \<Rightarrow> ('id, 'v, 'cur, 'cp) event_query \<Rightarrow> ('id, 'v, 'cur, 'cp) event_query"
  qb_before :: "'cp \<Rightarrow> ('id, 'v, 'cur, 'cp) event_query \<Rightarrow> ('id, 'v, 'cur, 'cp) event_query"
  qb_with_limit :: "nat \<Rightarrow> ('id, 'v, 'cur, 'cp) event_query \<Rightarrow> ('id, 'v, 'cur, 'cp) event_query"
  qb_after :: "'cur \<Rightarrow> ('id, 'v, 'cur, 'cp) event_query \<Rightarrow> ('id, 'v, 'cur, 'cp) event_query"

definition builder_ok :: "('id, 'v, 'cur, 'cp) query_builder \<Rightarrow> bool" where
  "builder_ok qb \<longleftrightarrow>
     (\<forall>s. q_session_id (qb_for_session qb s) = Some s \<and> q_actor_id (qb_for_session qb s) = None \<and>
          q_event_types (qb_for_session qb s) = [] \<and> q_after_cursor (qb_for_session qb s) = None \<and>
          q_upper_bound (qb_for_session qb s) = None \<and> 0 < q_limit (qb_for_session qb s) \<and>
          q_matches (qb_for_session qb s) = (\<lambda>e. ev_session_id e = s)) \<and>
     (\<forall>ty q. qb_with_event_type qb ty q = q\<lparr>q_event_types := q_event_types q @ [ty],
        q_matches := (\<lambda>e. (\<forall>i. q_session_id q = Some i \<longrightarrow> ev_session_id e = i) \<and>
                          ev_event_type e \<in> set (q_event_types q @ [ty]))\<rparr>) \<and>
     (\<forall>cp q. qb_before qb cp q = q\<lparr>q_upper_bound := Some cp\<rparr>) \<and>
     (\<forall>n q. qb_with_limit qb n q = q\<lparr>q_limit := n\<rparr>) \<and>
     (\<forall>cur q. qb_after qb cur q = q\<lparr>q_after_cursor := Some cur\<rparr>)"

section \<open>The stroke reader\<close>

text \<open>\<^verbatim>\<open>CanvasEventData\<close>: of each payload the reader uses the Canvas and the stroke.\<close>

datatype 'id canvas_event_data =
    StrokeBegan 'id 'id
  | StrokePointsAppended 'id 'id
  | StrokeCompleted 'id 'id
  | StrokeCancelled 'id 'id
  | StrokeRemoved 'id 'id

record ('id, 'v, 'p) canvas_ops =
  kind_from_event_type :: "string \<Rightarrow> bool"
  event_data :: "('id, 'v) event \<Rightarrow> 'id canvas_event_data option"
  projector_apply :: "'p option \<Rightarrow> ('id, 'v) event \<Rightarrow> 'p option"

datatype canvas_state_read_error = ProjectionCorrupted | StateUnavailable string

fun data_target :: "'id canvas_event_data \<Rightarrow> 'id \<times> 'id" where
  "data_target (StrokeBegan c s) = (c, s)"
| "data_target (StrokePointsAppended c s) = (c, s)"
| "data_target (StrokeCompleted c s) = (c, s)"
| "data_target (StrokeCancelled c s) = (c, s)"
| "data_target (StrokeRemoved c s) = (c, s)"

fun map_storage_error :: "'id storage_error \<Rightarrow> canvas_state_read_error" where
  "map_storage_error (BackendUnavailable message) = StateUnavailable message"
| "map_storage_error (BackendFailure message) = StateUnavailable message"
| "map_storage_error _ = StateUnavailable ''event store query failed''"

text \<open>The body of the loop over the events of a page.\<close>

definition project_event ::
  "('id, 'v, 'p) canvas_ops \<Rightarrow> 'id \<Rightarrow> 'id \<Rightarrow> ('id, 'v) event \<Rightarrow> 'p option
   \<Rightarrow> ('p option, canvas_state_read_error) result" where
  "project_event k canvas_id stroke_id e projection =
     (if \<not> kind_from_event_type k (ev_event_type e) then Ok projection
      else case event_data k e of
             None \<Rightarrow> Err ProjectionCorrupted
           | Some d \<Rightarrow>
               if data_target d \<noteq> (canvas_id, stroke_id) then Ok projection
               else (case projector_apply k projection e of
                       None \<Rightarrow> Err ProjectionCorrupted
                     | Some p \<Rightarrow> Ok (Some p)))"

fun load_stroke_loop ::
  "('id, 'v, 'cur, 'cp) query_builder \<Rightarrow> ('id, 'v, 'p) canvas_ops
   \<Rightarrow> (('id, 'v, 'cur, 'cp) event_query \<Rightarrow> 's \<Rightarrow> (('id, 'v, 'cur) event_page, 'id storage_error) result)
   \<Rightarrow> 'id \<Rightarrow> 'id \<Rightarrow> 'id \<Rightarrow> 'cur option \<Rightarrow> 'p option \<Rightarrow> 's list
   \<Rightarrow> ('p option, canvas_state_read_error) result option" where
  "load_stroke_loop qb k query session_id canvas_id stroke_id cursor projection [] = None"
| "load_stroke_loop qb k query session_id canvas_id stroke_id cursor projection (s # ss) =
     (let q0 = qb_for_session qb session_id;
          q = (case cursor of None \<Rightarrow> q0 | Some after \<Rightarrow> qb_after qb after q0)
      in case query q s of
           Inl e \<Rightarrow> Some (Err (map_storage_error e))
         | Inr page \<Rightarrow>
             (case fold_res (\<lambda>se. project_event k canvas_id stroke_id (se_event se)) (page_events page) projection of
                Inl e \<Rightarrow> Some (Err e)
              | Inr projection' \<Rightarrow>
                  (case next_cursor page of
                     None \<Rightarrow> Some (Ok projection')
                   | Some c \<Rightarrow> load_stroke_loop qb k query session_id canvas_id stroke_id (Some c) projection' ss)))"

definition load_stroke ::
  "('id, 'v, 'cur, 'cp) query_builder \<Rightarrow> ('id, 'v, 'p) canvas_ops
   \<Rightarrow> (('id, 'v, 'cur, 'cp) event_query \<Rightarrow> 's \<Rightarrow> (('id, 'v, 'cur) event_page, 'id storage_error) result)
   \<Rightarrow> 'id \<Rightarrow> 'id \<Rightarrow> 'id \<Rightarrow> 's list \<Rightarrow> ('p option, canvas_state_read_error) result option" where
  "load_stroke qb k query session_id canvas_id stroke_id ss =
     load_stroke_loop qb k query session_id canvas_id stroke_id None None ss"

section \<open>The pipeline\<close>

datatype 'id pipeline_error = PersistenceFailed 'id | PublicationFailed 'id

text \<open>
  \<^verbatim>\<open>dispatch\<close>: every event is appended before the first is published. The bus is the list of
  events it has accepted and a test that says whether it accepts the next one; store calls
  thread the store state.
\<close>

fun append_all ::
  "(('id, 'v) event \<Rightarrow> 's \<Rightarrow> (('id, 'v, 'cur) stored_event, 'id storage_error) result \<times> 's)
   \<Rightarrow> ('id, 'v) event list \<Rightarrow> 's \<Rightarrow> (unit, 'id pipeline_error) result \<times> 's" where
  "append_all do_append [] s = (Ok (), s)"
| "append_all do_append (e # es) s =
     (case do_append e s of
        (Inl _, s') \<Rightarrow> (Err (PersistenceFailed (ev_id e)), s')
      | (Inr _, s') \<Rightarrow> append_all do_append es s')"

fun publish_all ::
  "(('id, 'v) event \<Rightarrow> bool) \<Rightarrow> ('id, 'v) event list \<Rightarrow> ('id, 'v) event list
   \<Rightarrow> (unit, 'id pipeline_error) result \<times> ('id, 'v) event list" where
  "publish_all accepts [] published = (Ok (), published)"
| "publish_all accepts (e # es) published =
     (if accepts e then publish_all accepts es (published @ [e])
      else (Err (PublicationFailed (ev_id e)), published))"

definition pipeline_dispatch ::
  "(('id, 'v) event \<Rightarrow> 's \<Rightarrow> (('id, 'v, 'cur) stored_event, 'id storage_error) result \<times> 's)
   \<Rightarrow> (('id, 'v) event \<Rightarrow> bool) \<Rightarrow> ('id, 'v) event list \<Rightarrow> 's \<times> ('id, 'v) event list
   \<Rightarrow> (unit, 'id pipeline_error) result \<times> 's \<times> ('id, 'v) event list" where
  "pipeline_dispatch do_append accepts events st =
     (case append_all do_append events (fst st) of
        (Inl e, s') \<Rightarrow> (Err e, s', snd st)
      | (Inr _, s') \<Rightarrow> (case publish_all accepts events (snd st) of (r, published) \<Rightarrow> (r, s', published)))"

section \<open>What the reader returns\<close>

lemma builder_session:
  assumes "builder_ok qb"
  shows "query_ok (qb_for_session qb s)" "0 < q_limit (qb_for_session qb s)"
    "q_upper_bound (qb_for_session qb s) = None" "q_after_cursor (qb_for_session qb s) = None"
    "q_matches (qb_for_session qb s) = (\<lambda>e. ev_session_id e = s)"
    "qb_after qb c q = q\<lparr>q_after_cursor := Some c\<rparr>"
  using assms by (auto simp: builder_ok_def query_ok_def)

lemma fold_res_map: "fold_res (\<lambda>x. f (g x)) xs a = fold_res f (map g xs) a"
proof (induction xs arbitrary: a)
  case (Cons x xs)
  then show ?case by (cases "f (g x) a") auto
qed simp

definition session_query ::
  "('id, 'v, 'cur, 'cp) query_builder \<Rightarrow> 'id \<Rightarrow> 'cur option \<Rightarrow> ('id, 'v, 'cur, 'cp) event_query" where
  "session_query qb sid cursor = (case cursor of None \<Rightarrow> qb_for_session qb sid
     | Some c \<Rightarrow> (qb_for_session qb sid)\<lparr>q_after_cursor := Some c\<rparr>)"

text \<open>The loop is a drained session query whose events are projected as they arrive.\<close>

lemma load_stroke_loop_drain:
  assumes "builder_ok qb"
  shows "load_stroke_loop qb k query sid canvas stroke cursor p ss = Some (Inr p') \<Longrightarrow>
    \<exists>evs. drain query (session_query qb sid cursor) ss = Some (Inr evs) \<and>
      fold_res (project_event k canvas stroke) (map se_event evs) p = Inr p'"
proof (induction ss arbitrary: cursor p)
  case (Cons s ss)
  let ?q = "session_query qb sid cursor"
  have q: "(case cursor of None \<Rightarrow> qb_for_session qb sid | Some after \<Rightarrow> qb_after qb after (qb_for_session qb sid)) = ?q"
    by (simp add: session_query_def builder_session [OF assms] split: option.splits)
  obtain page p1 where page: "query ?q s = Inr page"
    "fold_res (project_event k canvas stroke) (map se_event (page_events page)) p = Inr p1"
    using Cons.prems by (auto simp: q Let_def fold_res_map split: sum.splits)
  show ?case
  proof (cases "next_cursor page")
    case None
    with Cons.prems page show ?thesis by (auto simp: q Let_def fold_res_map)
  next
    case (Some c)
    with Cons.prems page have "load_stroke_loop qb k query sid canvas stroke (Some c) p1 ss = Some (Inr p')"
      by (auto simp: q Let_def fold_res_map)
    from Cons.IH [OF this] obtain evs where evs: "drain query (session_query qb sid (Some c)) ss = Some (Inr evs)"
      "fold_res (project_event k canvas stroke) (map se_event evs) p1 = Inr p'" by blast
    have "?q\<lparr>q_after_cursor := Some c\<rparr> = session_query qb sid (Some c)"
      by (simp add: session_query_def split: option.splits)
    with evs Some page show ?thesis by (auto simp: fold_res_append)
  qed
qed simp

lemma load_stroke_loop_ends:
  assumes "builder_ok qb"
  shows "drain query (session_query qb sid cursor) ss \<noteq> None \<Longrightarrow>
    load_stroke_loop qb k query sid canvas stroke cursor p ss \<noteq> None"
proof (induction ss arbitrary: cursor p)
  case (Cons s ss)
  let ?q = "session_query qb sid cursor"
  have q: "(case cursor of None \<Rightarrow> qb_for_session qb sid | Some after \<Rightarrow> qb_after qb after (qb_for_session qb sid)) = ?q"
    by (simp add: session_query_def builder_session [OF assms] split: option.splits)
  have "?q\<lparr>q_after_cursor := Some c\<rparr> = session_query qb sid (Some c)" for c
    by (simp add: session_query_def split: option.splits)
  then show ?case
    using Cons by (auto simp: q Let_def split: sum.splits option.splits)
qed simp

context event_reader
begin

lemma load_stroke_growing:
  assumes "builder_ok qb" and "sorted_wrt (\<lambda>s t. prefix (log s) (log t)) ss" and "\<forall>s \<in> set ss. inv s"
    and "load_stroke qb k query sid canvas stroke ss = Some (Inr p)"
  shows "\<exists>s \<in> set ss. fold_res (project_event k canvas stroke) (filter (\<lambda>e. ev_session_id e = sid) (log s)) None = Inr p"
proof -
  let ?q = "qb_for_session qb sid"
  from load_stroke_loop_drain [OF assms(1) assms(4) [unfolded load_stroke_def]]
  obtain evs where evs: "drain query ?q ss = Some (Inr evs)"
    "fold_res (project_event k canvas stroke) (map se_event evs) None = Inr p"
    by (auto simp: session_query_def)
  have "q_after_cursor ?q = (if 0 = (0::nat) then None else Some (cursor_at 0))"
    by (simp add: builder_session [OF assms(1)])
  from drain_growing [OF builder_session(1-3) [OF assms(1)] assms(2,3) this evs(1)] evs(2)
  show ?thesis by (auto simp: spec_hits_all builder_session [OF assms(1)])
qed

lemma load_stroke_ends:
  assumes "builder_ok qb" and "\<forall>s \<in> set ss. inv s \<and> log s = base" and "length base < length ss"
  shows "load_stroke qb k query sid canvas stroke ss \<noteq> None"
proof -
  let ?q = "qb_for_session qb sid"
  have "length (map snd (spec_hits ?q 0 (length base) base)) \<le> length base"
    unfolding spec_hits_all by (metis length_filter_le take_all_iff order_refl)
  then have "drain query ?q ss \<noteq> None"
    using assms by (intro drain_ends [where b = "length base" and base = base and start = 0])
      (auto simp: builder_session [OF assms(1)])
  then show ?thesis
    unfolding load_stroke_def by (intro load_stroke_loop_ends [OF assms(1)]) (simp add: session_query_def)
qed

end



section \<open>What the pipeline persists and publishes\<close>

lemma publish_all_prefix:
  "publish_all accepts es published = (r, published') \<Longrightarrow>
     \<exists>done rest. es = done @ rest \<and> published' = published @ done \<and> (r = Ok () \<longrightarrow> rest = [])"
proof (induction es arbitrary: published)
  case (Cons e es)
  show ?case
  proof (cases "accepts e")
    case True
    with Cons.prems Cons.IH [of "published @ [e]"] obtain d rest where
      "es = d @ rest" "published' = (published @ [e]) @ d" "r = Ok () \<longrightarrow> rest = []" by auto
    then show ?thesis by (intro exI [of _ "e # d"] exI [of _ rest]) simp
  next
    case False
    with Cons.prems show ?thesis by (intro exI [of _ "[]"] exI [of _ "e # es"]) auto
  qed
qed simp

context event_port
begin

lemma append_all_log:
  assumes "inv s" and "append_all append es s = (r, s')"
  shows "inv s' \<and> prefix (log s) (log s') \<and> (r = Inr () \<longrightarrow> set es \<subseteq> set (log s'))"
  using assms
proof (induction es arbitrary: s)
  case (Cons e es)
  obtain ar s1 where a: "append e s = (ar, s1)" by fastforce
  show ?case
  proof (cases ar)
    case (Inl x)
    with a Cons.prems append_Err [OF Cons.prems(1)] show ?thesis by auto
  next
    case (Inr se)
    from append_Ok [OF Cons.prems(1)] a Inr obtain n where
      n: "inv s1" "spec_append e (log s) = (Inr n, log s1)" by blast
    have "e \<in> set (log s1)"
      using find_event_append [OF n(2)] find_event_Some [of "ev_id e" "log s1" n e] by auto
    moreover have "append_all append es s1 = (r, s')" using Cons.prems(2) a Inr by simp
    moreover note Cons.IH [OF n(1) calculation(2)] spec_append_prefix [OF n(2)]
    ultimately show ?thesis using set_mono_prefix by (fastforce intro: prefix_order.trans)
  qed
qed simp

lemma dispatch_persists:
  assumes "inv s" and "pipeline_dispatch append accepts es (s, bus) = (r, s', bus')"
  shows "inv s' \<and> prefix (log s) (log s') \<and>
    (\<exists>done rest. es = done @ rest \<and> bus' = bus @ done \<and> (done \<noteq> [] \<longrightarrow> set es \<subseteq> set (log s')) \<and>
       (r = Ok () \<longrightarrow> rest = [] \<and> set es \<subseteq> set (log s')))"
proof -
  obtain ar s1 where a: "append_all append es s = (ar, s1)" by fastforce
  note log = append_all_log [OF assms(1) a]
  show ?thesis
  proof (cases ar)
    case (Inl x)
    with a assms(2) log show ?thesis by (auto simp: pipeline_dispatch_def)
  next
    case (Inr u)
    obtain pr b1 where p: "publish_all accepts es bus = (pr, b1)" by fastforce
    from publish_all_prefix [OF p] a p Inr assms(2) log show ?thesis
      by (auto simp: pipeline_dispatch_def)
  qed
qed

end

text \<open>
  C5. Persist before publish: whatever engine faults the appends meet and whatever events the
  bus refuses, an event reaches the subscribers only when every event of its batch is in the
  store, the published events are a prefix of the batch in order, and success means that all
  of them were persisted and published.
\<close>

theorem dispatch_persists_before_publishing:
  assumes "codec_ok c" and "tokens_ok tk" and "table_inv c rows"
    and "pipeline_dispatch (store_append c tk db ep) accepts es ((flt, rows), bus) = (r, s', bus')"
  shows "table_inv c (snd s') \<and> prefix (table_log c rows) (table_log c (snd s')) \<and>
    (\<exists>done rest. es = done @ rest \<and> bus' = bus @ done \<and>
       (done \<noteq> [] \<longrightarrow> set es \<subseteq> set (table_log c (snd s'))) \<and>
       (r = Ok () \<longrightarrow> rest = [] \<and> set es \<subseteq> set (table_log c (snd s'))))"
proof -
  have "store_inv c tk (flt, rows)" using assms by (simp add: store_inv_def)
  from es.dispatch_persists [OF this assms(4)] show ?thesis
    by (simp add: store_inv_def store_log_def)
qed

section \<open>A concrete instance\<close>

definition text_builder :: "(string, string, triple, triple) query_builder" where
  "text_builder = \<lparr>
     qb_for_session = (\<lambda>s. \<lparr>q_validate = Ok (), q_session_id = Some s, q_actor_id = None, q_event_types = [],
       q_after_cursor = None, q_upper_bound = None, q_limit = 100, q_matches = (\<lambda>e. ev_session_id e = s)\<rparr>),
     qb_with_event_type = (\<lambda>ty q. q\<lparr>q_event_types := q_event_types q @ [ty],
        q_matches := (\<lambda>e. (case q_session_id q of None \<Rightarrow> True | Some i \<Rightarrow> ev_session_id e = i) \<and>
                          ev_event_type e \<in> set (q_event_types q @ [ty]))\<rparr>),
     qb_before = (\<lambda>cp q. q\<lparr>q_upper_bound := Some cp\<rparr>),
     qb_with_limit = (\<lambda>n q. q\<lparr>q_limit := n\<rparr>),
     qb_after = (\<lambda>cur q. q\<lparr>q_after_cursor := Some cur\<rparr>)\<rparr>"

lemma text_builder_ok: "builder_ok text_builder"
proof -
  have "(case s of None \<Rightarrow> True | Some i \<Rightarrow> x = i) \<longleftrightarrow> (\<forall>i. s = Some i \<longrightarrow> x = i)" for s and x :: string
    by (cases s) auto
  then show ?thesis by (simp add: builder_ok_def text_builder_def)
qed

definition text_canvas :: "(string, string, string) canvas_ops" where
  "text_canvas = \<lparr>kind_from_event_type = (\<lambda>ty. ty = ''x''), event_data = (\<lambda>_. Some (StrokeBegan ''c'' ''k'')),
     projector_apply = (\<lambda>p e. Some (ev_id e))\<rparr>"


theorem dispatch_persists_before_publishing_witness:
  "\<exists>r s' bus'. pipeline_dispatch (store_append text_codec triple_tokens ''db'' ''e1'') (\<lambda>_. True)
      [sample_event ''3'' ''x''] ((no_faults, sample_rows 2), []) = (r, s', bus') \<and>
    prefix (take 2 sample_log) (table_log text_codec (snd s'))"
proof -
  obtain r s' bus' where d: "pipeline_dispatch (store_append text_codec triple_tokens ''db'' ''e1'') (\<lambda>_. True)
      [sample_event ''3'' ''x''] ((no_faults, sample_rows 2), []) = (r, s', bus')" by (metis prod_cases3)
  from dispatch_persists_before_publishing [OF text_codec_ok triple_tokens_ok sample_rows_inv d] d show ?thesis
    by (simp add: sample_rows_log)
qed

end
