(* ===== verification/Canvas_History.thy ===== *)
theory Canvas_History
  imports Canvas_State
begin

text \<open>
  The query \<^verbatim>\<open>canvas.history.page\<close>, \<^verbatim>\<open>canvas_history.rs\<close>: one bounded page of a Canvas'
  history, read under a checkpoint that the first request captures and every continuation
  sends back. The Canvas catalog, the authorizer, the store, the JSON codec of payloads and
  the transport's encoder are arguments, as the handler's \<^verbatim>\<open>Arc<dyn ...>\<close> fields are; the
  catalog returns what the handler reads of a descriptor, its session.
\<close>

datatype history_authorization_error = HistoryUnauthorized | HistoryUnavailable | HistoryInternal

datatype query_handler_error =
  HandlerInternal | HandlerInvalidQuery | HandlerUnavailable | HandlerNotFound | HandlerUnauthorized

definition reject_all_authorizer :: "'actor \<Rightarrow> 'id \<Rightarrow> (unit, history_authorization_error) result" where
  "reject_all_authorizer actor session_id = Err HistoryUnauthorized"

definition development_authorizer ::
  "'id \<Rightarrow> 'actor \<Rightarrow> 'id \<Rightarrow> (unit, history_authorization_error) result" where
  "development_authorizer allowed actor session_id =
     (if session_id = allowed then Ok () else Err HistoryUnauthorized)"

record ('id, 'v) history_event_dto =
  he_event_id :: 'id
  he_session_id :: 'id
  he_actor_id :: 'id
  he_action_id :: 'id
  he_event_type :: string
  he_occurred_at :: 'v
  he_payload :: 'v
  he_metadata :: 'v

definition history_from_event :: "('id, 'v) event \<Rightarrow> ('id, 'v) history_event_dto" where
  "history_from_event e =
     \<lparr>he_event_id = ev_id e, he_session_id = ev_session_id e, he_actor_id = ev_actor_id e,
      he_action_id = ev_action_id e, he_event_type = ev_event_type e,
      he_occurred_at = ev_occurred_at e, he_payload = ev_payload e, he_metadata = ev_metadata e\<rparr>"

record ('id, 'v, 'cur, 'cp) canvas_history_page =
  hp_canvas_id :: 'id
  hp_checkpoint :: 'cp
  hp_events :: "('id, 'v) history_event_dto list"
  hp_next_cursor :: "'cur option"
  hp_complete :: bool

datatype ('id, 'cur, 'cp) canvas_history_request =
    FirstHistory 'id
  | ContinueHistory 'id 'cp 'cur

definition MAX_HISTORY_STORE_SCAN_LIMIT :: nat where
  "MAX_HISTORY_STORE_SCAN_LIMIT = 256"

definition DEFAULT_HISTORY_STORE_SCAN_LIMIT :: nat where
  "DEFAULT_HISTORY_STORE_SCAN_LIMIT = 64"

text \<open>
  The handler: its catalog, authorizer and the two limits. \<open>hh_stroke_types\<close> are the five
  event type names of the Canvas kernel, in the order the query adds them.
\<close>

record ('id, 'actor) history_handler =
  hh_get_canvas :: "'id \<Rightarrow> ('id option, unit) result"
  hh_authorize :: "'actor \<Rightarrow> 'id \<Rightarrow> (unit, history_authorization_error) result"
  hh_stroke_types :: "string list"
  hh_store_scan_limit :: nat
  hh_max_message_bytes :: nat

definition history_handler_new ::
  "('id \<Rightarrow> ('id option, unit) result) \<Rightarrow> ('actor \<Rightarrow> 'id \<Rightarrow> (unit, history_authorization_error) result)
   \<Rightarrow> string list \<Rightarrow> nat \<Rightarrow> nat \<Rightarrow> (('id, 'actor) history_handler, query_handler_error) result" where
  "history_handler_new get_canvas authorize types store_scan_limit max_message_bytes =
     (if store_scan_limit = 0 \<or> MAX_HISTORY_STORE_SCAN_LIMIT < store_scan_limit \<or> max_message_bytes = 0
      then Err HandlerInternal
      else Ok \<lparr>hh_get_canvas = get_canvas, hh_authorize = authorize, hh_stroke_types = types,
               hh_store_scan_limit = store_scan_limit, hh_max_message_bytes = max_message_bytes\<rparr>)"

fun map_authorization_error :: "history_authorization_error \<Rightarrow> query_handler_error" where
  "map_authorization_error HistoryUnauthorized = HandlerUnauthorized"
| "map_authorization_error HistoryUnavailable = HandlerUnavailable"
| "map_authorization_error HistoryInternal = HandlerInternal"

fun map_capture_error :: "'id storage_error \<Rightarrow> query_handler_error" where
  "map_capture_error (BackendUnavailable _) = HandlerUnavailable"
| "map_capture_error _ = HandlerInternal"

fun map_query_error :: "'id storage_error \<Rightarrow> query_handler_error" where
  "map_query_error (InvalidQuery _) = HandlerInvalidQuery"
| "map_query_error (InvalidCursor _) = HandlerInvalidQuery"
| "map_query_error (InvalidCheckpoint _) = HandlerInvalidQuery"
| "map_query_error (BackendUnavailable _) = HandlerUnavailable"
| "map_query_error _ = HandlerInternal"

definition canvas_event_query ::
  "('id, 'v, 'cur, 'cp) query_builder \<Rightarrow> string list \<Rightarrow> 'id \<Rightarrow> 'cp \<Rightarrow> ('id, 'v, 'cur, 'cp) event_query" where
  "canvas_event_query qb types session_id checkpoint =
     qb_before qb checkpoint (fold (qb_with_event_type qb) types (qb_for_session qb session_id))"

definition canvas_id_for :: "'id canvas_event_data \<Rightarrow> 'id option" where
  "canvas_id_for d = Some (fst (data_target d))"

text \<open>The loop over the records of a page.\<close>

definition collect_history_event ::
  "('id, 'v, 'p) canvas_ops \<Rightarrow> 'id \<Rightarrow> ('id, 'v) event \<Rightarrow> ('id, 'v) history_event_dto list
   \<Rightarrow> (('id, 'v) history_event_dto list, query_handler_error) result" where
  "collect_history_event k canvas_id e events =
     and_then (ok_or HandlerInternal (event_data k e)) (\<lambda>d.
     and_then (ok_or HandlerInternal (canvas_id_for d)) (\<lambda>c.
     Ok (if c = canvas_id then events @ [history_from_event e] else events)))"

text \<open>
  \<^verbatim>\<open>execute\<close> between the decoding of its request and the encoding of its response, with the
  store operations and the store's state at this request.
\<close>

definition history_page ::
  "('id, 'v, 'cur, 'cp) query_builder \<Rightarrow> ('id, 'v, 'p) canvas_ops \<Rightarrow> ('id, 'actor) history_handler
   \<Rightarrow> (('id, 'v, 'cur, 'cp) event_query \<Rightarrow> 's \<Rightarrow> (('id, 'v, 'cur) event_page, 'id storage_error) result)
   \<Rightarrow> ('s \<Rightarrow> ('cp, 'id storage_error) result) \<Rightarrow> 'actor \<Rightarrow> ('id, 'cur, 'cp) canvas_history_request \<Rightarrow> 's
   \<Rightarrow> (('id, 'v, 'cur, 'cp) canvas_history_page, query_handler_error) result" where
  "history_page qb k hh query capture actor req s =
     (let canvas_id = (case req of FirstHistory c \<Rightarrow> c | ContinueHistory c _ _ \<Rightarrow> c) in
      and_then (map_err (\<lambda>_. HandlerUnavailable) (hh_get_canvas hh canvas_id)) (\<lambda>found.
      and_then (ok_or HandlerNotFound found) (\<lambda>session_id.
      and_then (map_err map_authorization_error (hh_authorize hh actor session_id)) (\<lambda>_.
      and_then (case req of
          ContinueHistory _ cp cur \<Rightarrow> Ok (cp, Some cur)
        | FirstHistory _ \<Rightarrow> map_ok (\<lambda>cp. (cp, None)) (map_err map_capture_error (capture s)))
       (\<lambda>(checkpoint, cursor).
      let q1 = qb_with_limit qb (hh_store_scan_limit hh)
                 (canvas_event_query qb (hh_stroke_types hh) session_id checkpoint);
          q = (case cursor of None \<Rightarrow> q1 | Some c \<Rightarrow> qb_after qb c q1)
      in and_then (map_err map_query_error (query q s)) (\<lambda>page.
         and_then (fold_res (\<lambda>r. collect_history_event k canvas_id (se_event r)) (page_events page) []) (\<lambda>events.
         Ok \<lparr>hp_canvas_id = canvas_id, hp_checkpoint = checkpoint, hp_events = events,
             hp_next_cursor = next_cursor page, hp_complete = (next_cursor page = None)\<rparr>)))))))"

definition guard_response_size ::
  "('p \<Rightarrow> nat option) \<Rightarrow> 'p \<Rightarrow> nat \<Rightarrow> (unit, query_handler_error) result" where
  "guard_response_size encoded_size payload max_message_bytes =
     and_then (ok_or HandlerInternal (encoded_size payload)) (\<lambda>size.
     if max_message_bytes < size then Err HandlerInternal else Ok ())"

text \<open>
  The whole handler: \<open>decode\<close> and \<open>encode\<close> are the serde conversions of request and page,
  \<open>encoded_size\<close> the length of the transport message that carries the payload.
\<close>

definition history_execute ::
  "('id, 'v, 'cur, 'cp) query_builder \<Rightarrow> ('id, 'v, 'p) canvas_ops \<Rightarrow> ('id, 'actor) history_handler
   \<Rightarrow> (('id, 'v, 'cur, 'cp) event_query \<Rightarrow> 's \<Rightarrow> (('id, 'v, 'cur) event_page, 'id storage_error) result)
   \<Rightarrow> ('s \<Rightarrow> ('cp, 'id storage_error) result)
   \<Rightarrow> ('m \<Rightarrow> ('id, 'cur, 'cp) canvas_history_request option)
   \<Rightarrow> (('id, 'v, 'cur, 'cp) canvas_history_page \<Rightarrow> 'm option) \<Rightarrow> ('m \<Rightarrow> nat option)
   \<Rightarrow> 'actor \<Rightarrow> 'm \<Rightarrow> 's \<Rightarrow> ('m, query_handler_error) result" where
  "history_execute qb k hh query capture decode encode encoded_size actor request s =
     and_then (ok_or HandlerInvalidQuery (decode request)) (\<lambda>req.
     and_then (history_page qb k hh query capture actor req s) (\<lambda>page.
     and_then (ok_or HandlerInternal (encode page)) (\<lambda>payload.
     and_then (guard_response_size encoded_size payload (hh_max_message_bytes hh)) (\<lambda>_.
     Ok payload))))"

text \<open>\<^verbatim>\<open>register_canvas_history_query_handler\<close>, on the registry's list of query types.\<close>

datatype registry_error = DuplicateQueryType string

definition CANVAS_HISTORY_PAGE_QUERY_TYPE :: string where
  "CANVAS_HISTORY_PAGE_QUERY_TYPE = ''canvas.history.page''"

definition register_canvas_history ::
  "('id \<Rightarrow> ('id option, unit) result) \<Rightarrow> ('actor \<Rightarrow> 'id \<Rightarrow> (unit, history_authorization_error) result)
   \<Rightarrow> string list \<Rightarrow> nat \<Rightarrow> nat
   \<Rightarrow> (('id, 'actor) history_handler \<Rightarrow> 'reg \<Rightarrow> ('reg, registry_error) result)
   \<Rightarrow> 'reg \<Rightarrow> ('reg, registry_error) result" where
  "register_canvas_history get_canvas authorize types store_scan_limit max_message_bytes register registry =
     and_then (map_err (\<lambda>_. DuplicateQueryType CANVAS_HISTORY_PAGE_QUERY_TYPE)
        (history_handler_new get_canvas authorize types store_scan_limit max_message_bytes))
       (\<lambda>handler. register handler registry)"

section \<open>A client that reads the whole history\<close>

fun fetch_history ::
  "(('id, 'cur, 'cp) canvas_history_request \<Rightarrow> 's \<Rightarrow> (('id, 'v, 'cur, 'cp) canvas_history_page, query_handler_error) result)
   \<Rightarrow> ('id, 'cur, 'cp) canvas_history_request \<Rightarrow> 's list
   \<Rightarrow> (('id, 'v) history_event_dto list, query_handler_error) result option" where
  "fetch_history page_of req [] = None"
| "fetch_history page_of req (s # ss) =
     (case page_of req s of
        Inl e \<Rightarrow> Some (Err e)
      | Inr page \<Rightarrow>
          (case hp_next_cursor page of
             None \<Rightarrow> Some (Ok (hp_events page))
           | Some c \<Rightarrow>
               map_option (map_ok (\<lambda>rest. hp_events page @ rest))
                 (fetch_history page_of (ContinueHistory (hp_canvas_id page) (hp_checkpoint page) c) ss)))"

section \<open>The history is complete and stable\<close>

definition history_query ::
  "('id, 'v, 'cur, 'cp) query_builder \<Rightarrow> ('id, 'actor) history_handler \<Rightarrow> 'id \<Rightarrow> 'cp
   \<Rightarrow> ('id, 'v, 'cur, 'cp) event_query" where
  "history_query qb hh sid cp = qb_with_limit qb (hh_store_scan_limit hh) (canvas_event_query qb (hh_stroke_types hh) sid cp)"

lemma fold_types:
  assumes "builder_ok qb" and "types \<noteq> []"
  shows "q_session_id (fold (qb_with_event_type qb) types (qb_for_session qb sid)) = Some sid \<and>
    q_actor_id (fold (qb_with_event_type qb) types (qb_for_session qb sid)) = None \<and>
    q_event_types (fold (qb_with_event_type qb) types (qb_for_session qb sid)) = types \<and>
    q_after_cursor (fold (qb_with_event_type qb) types (qb_for_session qb sid)) = None \<and>
    q_matches (fold (qb_with_event_type qb) types (qb_for_session qb sid)) =
      (\<lambda>e. ev_session_id e = sid \<and> ev_event_type e \<in> set types)"
  using assms(2)
proof (induction types rule: rev_induct)
  case (snoc ty types)
  from assms(1) have b: "\<And>ty q. qb_with_event_type qb ty q = q\<lparr>q_event_types := q_event_types q @ [ty],
        q_matches := (\<lambda>e. (\<forall>i. q_session_id q = Some i \<longrightarrow> ev_session_id e = i) \<and>
                          ev_event_type e \<in> set (q_event_types q @ [ty]))\<rparr>"
    "q_session_id (qb_for_session qb sid) = Some sid" "q_actor_id (qb_for_session qb sid) = None"
    "q_event_types (qb_for_session qb sid) = []" "q_after_cursor (qb_for_session qb sid) = None"
    by (auto simp: builder_ok_def)
  show ?case
  proof (cases "types = []")
    case True
    with b show ?thesis by simp
  next
    case False
    with snoc.IH b show ?thesis by simp
  qed
qed simp

lemma history_query_facts:
  assumes "builder_ok qb" and "hh_stroke_types hh \<noteq> []"
  shows "query_ok (history_query qb hh sid cp)" "q_limit (history_query qb hh sid cp) = hh_store_scan_limit hh"
    "q_upper_bound (history_query qb hh sid cp) = Some cp" "q_after_cursor (history_query qb hh sid cp) = None"
    "q_matches (history_query qb hh sid cp) = (\<lambda>e. ev_session_id e = sid \<and> ev_event_type e \<in> set (hh_stroke_types hh))"
proof -
  from assms(1) have b: "\<And>n q. qb_with_limit qb n q = q\<lparr>q_limit := n\<rparr>" "\<And>cp q. qb_before qb cp q = q\<lparr>q_upper_bound := Some cp\<rparr>"
    by (auto simp: builder_ok_def)
  note f = fold_types [OF assms, of sid]
  show "query_ok (history_query qb hh sid cp)" "q_limit (history_query qb hh sid cp) = hh_store_scan_limit hh"
    "q_upper_bound (history_query qb hh sid cp) = Some cp" "q_after_cursor (history_query qb hh sid cp) = None"
    "q_matches (history_query qb hh sid cp) = (\<lambda>e. ev_session_id e = sid \<and> ev_event_type e \<in> set (hh_stroke_types hh))"
    using f by (auto simp: history_query_def canvas_event_query_def b query_ok_def)
qed

definition on_canvas :: "('id, 'v, 'p) canvas_ops \<Rightarrow> 'id \<Rightarrow> ('id, 'v) event \<Rightarrow> bool" where
  "on_canvas k canvas e \<longleftrightarrow> map_option (\<lambda>d. fst (data_target d)) (event_data k e) = Some canvas"

lemma collect_history_fold:
  "fold_res (collect_history_event k canvas) es acc = Inr r \<Longrightarrow>
   r = acc @ map history_from_event (filter (on_canvas k canvas) es)"
proof (induction es arbitrary: acc)
  case (Cons e es)
  then obtain acc' where step: "collect_history_event k canvas e acc = Inr acc'"
    "fold_res (collect_history_event k canvas) es acc' = Inr r" by auto
  then have "acc' = (if on_canvas k canvas e then acc @ [history_from_event e] else acc)"
    by (auto simp: collect_history_event_def canvas_id_for_def on_canvas_def)
  with Cons.IH [OF step(2)] show ?case by simp
qed simp

lemma history_page_Ok:
  assumes "history_page qb k hh query capture actor req s = Inr page" and "builder_ok qb"
    and "canvas = (case req of FirstHistory c \<Rightarrow> c | ContinueHistory c _ _ \<Rightarrow> c)"
  obtains sid cp cursor p where "hh_get_canvas hh canvas = Inr (Some sid)" "hh_authorize hh actor sid = Inr ()"
    "case req of FirstHistory _ \<Rightarrow> capture s = Inr cp \<and> cursor = None | ContinueHistory _ cp' cur \<Rightarrow> cp = cp' \<and> cursor = Some cur"
    "query (case cursor of None \<Rightarrow> history_query qb hh sid cp
        | Some c \<Rightarrow> (history_query qb hh sid cp)\<lparr>q_after_cursor := Some c\<rparr>) s = Inr p"
    "hp_canvas_id page = canvas" "hp_checkpoint page = cp" "hp_next_cursor page = next_cursor p"
    "hp_events page = map history_from_event (filter (on_canvas k canvas) (map se_event (page_events p)))"
proof -
  from assms(2) have after: "qb_after qb c q = q\<lparr>q_after_cursor := Some c\<rparr>" for c q by (auto simp: builder_ok_def)
  from assms(1) obtain sid u cp cursor p evs where
    "hh_get_canvas hh canvas = Inr (Some sid)" "hh_authorize hh actor sid = Inr u"
    "(case req of ContinueHistory _ cp cur \<Rightarrow> Ok (cp, Some cur)
        | FirstHistory _ \<Rightarrow> map_ok (\<lambda>cp. (cp, None)) (map_err map_capture_error (capture s))) = Inr (cp, cursor)"
    "query (case cursor of None \<Rightarrow> history_query qb hh sid cp
        | Some c \<Rightarrow> qb_after qb c (history_query qb hh sid cp)) s = Inr p"
    "fold_res (collect_history_event k canvas) (map se_event (page_events p)) [] = Inr evs"
    "\<lparr>hp_canvas_id = canvas, hp_checkpoint = cp, hp_events = evs,
      hp_next_cursor = next_cursor p, hp_complete = (next_cursor p = None)\<rparr> = page"
    unfolding history_page_def assms(3) [symmetric] Let_def fold_res_map history_query_def and_then_Ok map_err_Ok ok_or_Ok
      case_prod_conv split_paired_Ex sum.inject by fast
  with collect_history_fold [of k canvas "map se_event (page_events p)" "[]" evs] that show ?thesis
    by (cases cursor) (auto simp: after split: canvas_history_request.splits)
qed


lemma fetch_continue_drain:
  assumes "builder_ok qb" and "hh_get_canvas hh canvas = Inr (Some sid)"
  shows "fetch_history (history_page qb k hh query capture actor) (ContinueHistory canvas cp cur) ss = Some (Inr evs) \<Longrightarrow>
    \<exists>raw. drain query ((history_query qb hh sid cp)\<lparr>q_after_cursor := Some cur\<rparr>) ss = Some (Inr raw) \<and>
      evs = map history_from_event (filter (on_canvas k canvas) (map se_event raw))"
proof (induction ss arbitrary: cur evs)
  case (Cons s ss)
  let ?q = "(history_query qb hh sid cp)\<lparr>q_after_cursor := Some cur\<rparr>"
  obtain page where page: "history_page qb k hh query capture actor (ContinueHistory canvas cp cur) s = Inr page"
    using Cons.prems by (auto split: sum.splits)
  from history_page_Ok [OF page assms(1) refl] assms(2) obtain p where
    p: "query ?q s = Inr p" "hp_canvas_id page = canvas" "hp_checkpoint page = cp"
      "hp_next_cursor page = next_cursor p"
      "hp_events page = map history_from_event (filter (on_canvas k canvas) (map se_event (page_events p)))"
    by auto
  show ?case
  proof (cases "next_cursor p")
    case None
    with Cons.prems page p show ?thesis by auto
  next
    case (Some c)
    with Cons.prems page p obtain rest where
      "fetch_history (history_page qb k hh query capture actor) (ContinueHistory canvas cp c) ss = Some (Inr rest)"
      "evs = hp_events page @ rest" by auto
    with Cons.IH Some p show ?thesis by fastforce
  qed
qed simp

text \<open>The whole replay is a drained query under the checkpoint captured at the first request.\<close>

lemma fetch_first_drain:
  assumes "builder_ok qb"
    and "fetch_history (history_page qb k hh query capture actor) (FirstHistory canvas) (s # ss) = Some (Inr evs)"
  shows "\<exists>sid cp raw. hh_get_canvas hh canvas = Inr (Some sid) \<and> hh_authorize hh actor sid = Inr () \<and>
    capture s = Inr cp \<and> drain query (history_query qb hh sid cp) (s # ss) = Some (Inr raw) \<and>
    evs = map history_from_event (filter (on_canvas k canvas) (map se_event raw))"
proof -
  obtain page where page: "history_page qb k hh query capture actor (FirstHistory canvas) s = Inr page"
    using assms(2) by (auto split: sum.splits)
  from history_page_Ok [OF page assms(1) refl] obtain sid cp p where
    p: "hh_get_canvas hh canvas = Inr (Some sid)" "hh_authorize hh actor sid = Inr ()" "capture s = Inr cp"
      "query (history_query qb hh sid cp) s = Inr p" "hp_canvas_id page = canvas" "hp_checkpoint page = cp"
      "hp_next_cursor page = next_cursor p"
      "hp_events page = map history_from_event (filter (on_canvas k canvas) (map se_event (page_events p)))"
    by auto
  show ?thesis
  proof (cases "next_cursor p")
    case None
    with assms(2) page p show ?thesis by auto
  next
    case (Some c)
    with assms(2) page p obtain rest where
      rest: "fetch_history (history_page qb k hh query capture actor) (ContinueHistory canvas cp c) ss = Some (Inr rest)"
        "evs = hp_events page @ rest" by auto
    from fetch_continue_drain [OF assms(1) p(1) rest(1)] rest(2) Some p show ?thesis by fastforce
  qed
qed

context event_port
begin

lemma history_exact:
  assumes "builder_ok qb" and "hh_stroke_types hh \<noteq> []" and "0 < hh_store_scan_limit hh"
    and "\<forall>t \<in> set (s # ss). inv t \<and> prefix (log s) (log t)"
    and "fetch_history (history_page qb k hh query capture actor) (FirstHistory canvas) (s # ss) = Some (Inr evs)"
  shows "\<exists>sid. hh_get_canvas hh canvas = Inr (Some sid) \<and> hh_authorize hh actor sid = Inr () \<and>
    evs = map history_from_event (filter (\<lambda>e. ev_session_id e = sid \<and>
      ev_event_type e \<in> set (hh_stroke_types hh) \<and> on_canvas k canvas e) (log s))"
proof -
  from fetch_first_drain [OF assms(1,5)] obtain sid cp raw where
    r: "hh_get_canvas hh canvas = Inr (Some sid)" "hh_authorize hh actor sid = Inr ()" "capture s = Inr cp"
      "drain query (history_query qb hh sid cp) (s # ss) = Some (Inr raw)"
      "evs = map history_from_event (filter (on_canvas k canvas) (map se_event raw))" by blast
  note q = history_query_facts [OF assms(1,2), of sid cp]
  have cp: "cp = checkpoint_at (length (log s))" using capture_Ok r(3) assms(4) by auto
  have lim: "0 < q_limit (history_query qb hh sid cp)" using q(2) assms(3) by simp
  have "map se_event raw = map snd (spec_hits (history_query qb hh sid cp) 0 (length (log s)) (log s))"
    by (rule drain_checkpointed [OF q(1) lim _ order_refl assms(4) _ r(4)]) (simp_all add: q(3,4) flip: cp)
  also have "\<dots> = filter (\<lambda>e. ev_session_id e = sid \<and> ev_event_type e \<in> set (hh_stroke_types hh)) (log s)"
    by (simp add: spec_hits_all q(5))
  finally have "filter (on_canvas k canvas) (map se_event raw) = filter (\<lambda>e. ev_session_id e = sid \<and>
      ev_event_type e \<in> set (hh_stroke_types hh) \<and> on_canvas k canvas e) (log s)"
    by (simp add: conj_ac cong: filter_cong)
  with r show ?thesis by auto
qed

end


definition sample_handler :: "(string, unit) history_handler" where
  "sample_handler = \<lparr>hh_get_canvas = (\<lambda>_. Ok (Some ''s'')), hh_authorize = development_authorizer ''s'',
     hh_stroke_types = [''x''], hh_store_scan_limit = 1, hh_max_message_bytes = 100\<rparr>"

definition sample_states :: "store_state list" where
  "sample_states = [(no_faults, sample_rows 2), (no_faults, sample_rows 3)]"

lemma sample_replay:
  "fetch_history (history_page text_builder text_canvas sample_handler (store_query text_codec triple_tokens ''db'' ''e1'')
     (store_capture triple_tokens ''db'' ''e1'') ()) (FirstHistory ''c'') sample_states =
   Some (Ok [history_from_event (sample_event ''1'' ''x'')])"
  by code_simp


text \<open>
  Registering the handler with limits that its constructor refuses reports a duplicate query
  type although nothing was registered before.
\<close>

lemma register_invalid_limit_reports_duplicate:
  "register_canvas_history get_canvas authorize types 0 max_bytes register registry =
     Err (DuplicateQueryType ''canvas.history.page'')"
  by (simp add: register_canvas_history_def history_handler_new_def CANVAS_HISTORY_PAGE_QUERY_TYPE_def)

text \<open>
  A response leaves the handler only if its encoding fits the transport limit, and only
  after the Canvas was found and the actor was admitted to its session.
\<close>

theorem history_execute_guarded:
  assumes "history_execute qb k hh query capture decode encode encoded_size actor request s = Ok payload"
  shows "\<exists>n req sid canvas. encoded_size payload = Some n \<and> n \<le> hh_max_message_bytes hh \<and> decode request = Some req \<and>
    canvas = (case req of FirstHistory c \<Rightarrow> c | ContinueHistory c _ _ \<Rightarrow> c) \<and>
    hh_get_canvas hh canvas = Ok (Some sid) \<and> hh_authorize hh actor sid = Ok ()"
  using assms
  by (auto simp: history_execute_def guard_response_size_def history_page_def Let_def split: if_splits)

theorem history_execute_guarded_witness:
  "\<exists>n req sid canvas. Some 7 = Some n \<and> n \<le> hh_max_message_bytes sample_handler \<and> Some (FirstHistory ''c'') = Some req \<and>
    canvas = (case (req :: (string, triple, triple) canvas_history_request) of FirstHistory c \<Rightarrow> c | ContinueHistory c _ _ \<Rightarrow> c) \<and>
    hh_get_canvas sample_handler canvas = Ok (Some sid) \<and> hh_authorize sample_handler () sid = Ok ()"
proof -
  have "history_execute text_builder text_canvas sample_handler (store_query text_codec triple_tokens ''db'' ''e1'')
     (store_capture triple_tokens ''db'' ''e1'') (\<lambda>_. Some (FirstHistory ''c'')) (\<lambda>_. Some ''page'') (\<lambda>_. Some 7) () ''req''
     (no_faults, sample_rows 2) = Ok ''page''"
    by code_simp
  from history_execute_guarded [OF this] show ?thesis by simp
qed

end
