(* ===== verification/Asset_Port.thy ===== *)
theory Asset_Port
  imports Rust_Std
begin

text \<open>
  The Asset ports the server reads through (\<^verbatim>\<open>AssetCatalog\<close>, \<^verbatim>\<open>AssetReader\<close>): the values
  that cross them and, as the locale \<open>asset_source\<close>, what a store behind them promises: a
  descriptor tells the length of immutable content, and a read returns the requested slice
  of it. Bytes are characters, as in every Rust byte string here; \<^verbatim>\<open>u64\<close> lengths and offsets
  are natural numbers. \<^verbatim>\<open>SourceAssetDescriptor\<close>, \<^verbatim>\<open>AssetByteRange\<close> and \<^verbatim>\<open>AssetByteChunk\<close>
  are types of the kernel; their constructors' checks are arguments where they are called.
\<close>

type_synonym octets = string

record ('id, 'h) asset_descriptor =
  ad_asset_id :: 'id
  ad_media_type :: string
  ad_byte_length :: nat
  ad_content_hash :: 'h
  ad_original_filename :: "string option"

record asset_range_req =
  ar_offset :: nat
  ar_length :: nat

record asset_chunk =
  ch_offset :: nat
  ch_bytes :: octets
  ch_total :: nat

datatype 'id asset_read_error =
    ReadNotFound 'id
  | ReadUnavailable string
  | RangeOutOfBounds 'id nat nat

definition slice :: "nat \<Rightarrow> nat \<Rightarrow> 'a list \<Rightarrow> 'a list" where
  "slice off len xs = take len (drop off xs)"

lemma slice_append: "slice off (a + b) xs = slice off a xs @ slice (off + a) b xs"
  by (simp add: slice_def take_add add.commute)

lemma slice_length: "off + len \<le> length xs \<Longrightarrow> length (slice off len xs) = len"
  by (simp add: slice_def)

lemma slice_all [simp]: "slice 0 (length xs) xs = xs"
  by (simp add: slice_def)

locale asset_source =
  fixes inv :: "'s \<Rightarrow> bool"
    and content :: "'s \<Rightarrow> 'id \<Rightarrow> octets option"
    and get :: "'id \<Rightarrow> 's \<Rightarrow> (('id, 'h) asset_descriptor option, 'e) result"
    and read :: "'id \<Rightarrow> asset_range_req \<Rightarrow> 's \<Rightarrow> (asset_chunk, 'id asset_read_error) result"
  assumes get_Ok: "inv s \<Longrightarrow> get i s = Inr (Some d) \<Longrightarrow>
      ad_asset_id d = i \<and> (\<exists>bs. content s i = Some bs \<and> length bs = ad_byte_length d)"
    and read_Ok: "inv s \<Longrightarrow> content s i = Some bs \<Longrightarrow> read i r s = Inr ch \<Longrightarrow>
      ch_offset ch = ar_offset r \<and> ch_bytes ch = slice (ar_offset r) (ar_length r) bs"

end
