(* ===== verification/Crash_Io.thy ===== *)
theory Crash_Io
  imports Prelude
begin

text \<open>
  Sequential programs with effects that can be cut off at any point. A program runs on a
  number of remaining steps and a state; every atomic effect takes one step, and a program
  that has none left stops there: the process died, or the future was dropped. Two ways to
  reason about them: \<open>triple P m Q C\<close> says that from \<open>P\<close> a run that returns satisfies
  \<open>Q\<close> and a run that is cut off leaves a state in \<open>C\<close>; \<open>runs m s x s'\<close> says that with
  enough steps \<open>m\<close> does return \<open>x\<close> and leaves \<open>s'\<close>.
\<close>

datatype 'a outcome = Crashed | Done 'a

type_synonym ('s, 'a) io = "nat \<Rightarrow> 's \<Rightarrow> 'a outcome \<times> nat \<times> 's"

definition io_return :: "'a \<Rightarrow> ('s, 'a) io" where
  "io_return x = (\<lambda>n s. (Done x, n, s))"

definition io_bind :: "('s, 'a) io \<Rightarrow> ('a \<Rightarrow> ('s, 'b) io) \<Rightarrow> ('s, 'b) io" where
  "io_bind m f = (\<lambda>n s. case m n s of (Crashed, n', s') \<Rightarrow> (Crashed, n', s') | (Done x, n', s') \<Rightarrow> f x n' s')"

definition io_step :: "('s \<Rightarrow> 'a \<times> 's) \<Rightarrow> ('s, 'a) io" where
  "io_step f = (\<lambda>n s. case n of 0 \<Rightarrow> (Crashed, 0, s) | Suc k \<Rightarrow> (case f s of (x, s') \<Rightarrow> (Done x, k, s')))"

text \<open>Observing the state changes nothing and is not a step.\<close>

definition io_get :: "('s \<Rightarrow> 'a) \<Rightarrow> ('s, 'a) io" where
  "io_get f = (\<lambda>n s. (Done (f s), n, s))"

text \<open>The \<^verbatim>\<open>?\<close> operator.\<close>

definition io_try ::
  "('s, ('a, 'e) result) io \<Rightarrow> ('a \<Rightarrow> ('s, ('b, 'e) result) io) \<Rightarrow> ('s, ('b, 'e) result) io" where
  "io_try m f = io_bind m (\<lambda>r. case r of Inl e \<Rightarrow> io_return (Err e) | Inr x \<Rightarrow> f x)"

text \<open>A loop over a list whose body may return an error.\<close>

fun io_for :: "('x \<Rightarrow> ('s, (unit, 'e) result) io) \<Rightarrow> 'x list \<Rightarrow> ('s, (unit, 'e) result) io" where
  "io_for f [] = io_return (Ok ())"
| "io_for f (x # xs) = io_try (f x) (\<lambda>_. io_for f xs)"

section \<open>Triples with a crash condition\<close>

definition triple :: "('s \<Rightarrow> bool) \<Rightarrow> ('s, 'a) io \<Rightarrow> ('a \<Rightarrow> 's \<Rightarrow> bool) \<Rightarrow> ('s \<Rightarrow> bool) \<Rightarrow> bool" where
  "triple P m Q C \<longleftrightarrow> (\<forall>n s. P s \<longrightarrow>
     (case m n s of (Crashed, n', s') \<Rightarrow> C s' | (Done x, n', s') \<Rightarrow> Q x s'))"

lemma triple_return [intro]: "(\<And>s. P s \<Longrightarrow> Q x s) \<Longrightarrow> triple P (io_return x) Q C"
  by (simp add: triple_def io_return_def)

lemma triple_get [intro]: "(\<And>s. P s \<Longrightarrow> Q (f s) s) \<Longrightarrow> triple P (io_get f) Q C"
  by (simp add: triple_def io_get_def)

lemma triple_step:
  assumes "\<And>s x s'. P s \<Longrightarrow> f s = (x, s') \<Longrightarrow> Q x s'" and "\<And>s. P s \<Longrightarrow> C s"
  shows "triple P (io_step f) Q C"
  using assms by (auto simp: triple_def io_step_def split: nat.splits prod.splits)

lemma triple_bind:
  assumes "triple P m R C" and "\<And>x. triple (R x) (f x) Q C"
  shows "triple P (io_bind m f) Q C"
  using assms by (fastforce simp: triple_def io_bind_def split: prod.splits outcome.splits)

lemma triple_conseq:
  assumes "triple P' m Q' C'" and "\<And>s. P s \<Longrightarrow> P' s" and "\<And>x s. Q' x s \<Longrightarrow> Q x s" and "\<And>s. C' s \<Longrightarrow> C s"
  shows "triple P m Q C"
  using assms by (fastforce simp: triple_def split: prod.splits outcome.splits)

lemma triple_pre: "triple P' m Q C \<Longrightarrow> (\<And>s. P s \<Longrightarrow> P' s) \<Longrightarrow> triple P m Q C"
  by (rule triple_conseq)

lemma triple_try:
  assumes "triple P m R C" and "\<And>x. triple (R (Ok x)) (f x) Q C" and "\<And>e s. R (Err e) s \<Longrightarrow> Q (Err e) s"
  shows "triple P (io_try m f) Q C"
  unfolding io_try_def
  by (rule triple_bind [OF assms(1)]) (auto split: sum.split intro: assms(2,3))

lemma triple_for:
  assumes "\<And>x. x \<in> set xs \<Longrightarrow> triple I (f x) (\<lambda>r. I) C"
  shows "triple I (io_for f xs) (\<lambda>r. I) C"
  using assms by (induction xs) (auto intro!: triple_try [where R = "\<lambda>r. I"])

text \<open>A loop that reports success has run its body on every element.\<close>

lemma triple_for_all:
  assumes "\<And>ys x zs. xs = ys @ x # zs \<Longrightarrow> triple (I ys) (f x) (\<lambda>r s. E s \<and> (r = Ok () \<longrightarrow> I (ys @ [x]) s)) C"
    and "\<And>s. I xs s \<Longrightarrow> E s"
  shows "triple (I []) (io_for f xs) (\<lambda>r s. E s \<and> (r = Ok () \<longrightarrow> I xs s)) C"
proof -
  have "xs = ys @ zs \<Longrightarrow> triple (I ys) (io_for f zs) (\<lambda>r s. E s \<and> (r = Ok () \<longrightarrow> I xs s)) C" for ys zs
  proof (induction zs arbitrary: ys)
    case Nil
    with assms(2) show ?case by auto
  next
    case (Cons z zs)
    have "triple (\<lambda>s. E s \<and> I (ys @ [z]) s) (io_for f zs) (\<lambda>r s. E s \<and> (r = Ok () \<longrightarrow> I xs s)) C"
      by (rule triple_pre [OF Cons.IH]) (use Cons.prems in auto)
    then show ?case
      by (auto intro!: triple_try [OF assms(1) [OF Cons.prems]])
  qed
  from this [of "[]" xs] show ?thesis by simp
qed

text \<open>An assertion about the initial state only is available throughout.\<close>

lemma triple_fact: "(P \<Longrightarrow> triple Q m R C) \<Longrightarrow> triple (\<lambda>s. P \<and> Q s) m R C"
  by (auto simp: triple_def)

lemma tripleD:
  assumes "triple P m Q C" and "P s"
  shows "m n s = (Crashed, n', s') \<Longrightarrow> C s'" and "m n s = (Done x, n', s') \<Longrightarrow> Q x s'"
  using assms by (fastforce simp: triple_def split: prod.splits outcome.splits)+

section \<open>Runs that return\<close>

definition runs :: "('s, 'a) io \<Rightarrow> 's \<Rightarrow> 'a \<Rightarrow> 's \<Rightarrow> bool" where
  "runs m s x s' \<longleftrightarrow> (\<exists>k. \<forall>n. m (k + n) s = (Done x, n, s'))"

lemma runs_return [simp, intro]: "runs (io_return x) s x s"
  by (auto simp: runs_def io_return_def intro: exI [of _ 0])

lemma runs_get [intro]: "y = f s \<Longrightarrow> runs (io_get f) s y s"
  by (auto simp: runs_def io_get_def intro: exI [of _ 0])

lemma runs_step: "f s = (x, s') \<Longrightarrow> runs (io_step f) s x s'"
  by (auto simp: runs_def io_step_def intro!: exI [of _ 1])

lemma runs_bind:
  assumes "runs m s x s1" and "runs (f x) s1 y s2"
  shows "runs (io_bind m f) s y s2"
proof -
  from assms obtain k l where "\<And>n. m (k + n) s = (Done x, n, s1)" "\<And>n. f x (l + n) s1 = (Done y, n, s2)"
    by (auto simp: runs_def)
  then have "io_bind m f (k + l + n) s = (Done y, n, s2)" for n by (simp add: io_bind_def add.assoc)
  then show ?thesis by (auto simp: runs_def)
qed

lemma runs_try:
  assumes "runs m s (Ok x) s1" and "runs (f x) s1 y s2"
  shows "runs (io_try m f) s y s2"
  unfolding io_try_def by (rule runs_bind [OF assms(1)]) (simp add: assms(2))

lemma runs_try_Err: "runs m s (Err e) s1 \<Longrightarrow> runs (io_try m f) s (Err e) s1"
  unfolding io_try_def by (rule runs_bind) auto

lemma runs_triple: "triple P m Q C \<Longrightarrow> P s \<Longrightarrow> runs m s x s' \<Longrightarrow> Q x s'"
  by (metis runs_def tripleD(2))

end
