(* ===== verification/Asset_Store.thy ===== *)
theory Asset_Store
  imports Asset_Port Sqlite Worker Crash_Io "HOL-Library.AList" "HOL-Library.List_Lexorder"
begin

text \<open>
  The persistent Asset store, \<^verbatim>\<open>orbitrelay-asset-local-store/src/lib.rs\<close>: verified bytes as
  immutable files, their metadata in SQLite, a publication protocol that makes an Asset
  visible in one transaction, and the recovery that runs when a store is opened.

  The world of the store is its three directories and its two tables. Every effect on it is
  one atomic step, so that a crash can fall between any two of them. Faults of the engine
  and of the file system, refused dispatches to the worker and freshly drawn names are given
  by a plan, keyed by the message the source attaches to the call. SHA-256, the text
  conversions of identities and hashes, the checks of \<^verbatim>\<open>SourceAssetDescriptor::new\<close> and
  \<^verbatim>\<open>AssetByteChunk::new\<close> and \<^verbatim>\<open>AssetByteRange::end_offset\<close> are arguments. Directory
  creation and \<^verbatim>\<open>read_dir\<close> are calls that may fail; a listing is the entries at its start.
\<close>

section \<open>Data\<close>

datatype ('id, 'h) asset_error =
    InvalidQueueCapacity
  | LengthOverflow 'id nat
  | LengthMismatch 'id nat nat
  | HashMismatch 'id 'h 'h
  | AssetConflict 'id
  | AssetInProgress 'id
  | AssetUnavailable string
  | AssetBackendFailure string
  | AssetFilesystem string
  | AssetCorruption string

datatype publication_state = Staged | Published

definition STAGED :: string where "STAGED = ''staged''"

definition PUBLISHED :: string where "PUBLISHED = ''published''"

record ('id, 'h) asset_record =
  rec_descriptor :: "('id, 'h) asset_descriptor"
  rec_blob_key :: string
  rec_state :: publication_state

datatype asset_insert_outcome = Inserted | Existing

record asset_row =
  as_asset_id :: string
  as_media_type :: string
  as_byte_length :: int
  as_content_hash :: string
  as_original_filename :: "string option"
  as_blob_key :: string
  as_publication_state :: string

text \<open>What the store uses of the kernel: conversions of identities and hashes, SHA-256, descriptor checks.\<close>

record ('id, 'h) asset_codec =
  aid_to_string :: "'id \<Rightarrow> string"
  aid_parse :: "string \<Rightarrow> 'id option"
  hash_as_str :: "'h \<Rightarrow> string"
  hash_parse :: "string \<Rightarrow> 'h option"
  hash_of :: "octets \<Rightarrow> 'h"
  descriptor_valid :: "('id, 'h) asset_descriptor \<Rightarrow> bool"
  range_end_offset :: "asset_range_req \<Rightarrow> nat option"
  chunk_valid :: "asset_chunk \<Rightarrow> bool"

definition asset_codec_ok :: "('id, 'h) asset_codec \<Rightarrow> bool" where
  "asset_codec_ok c \<longleftrightarrow> (\<forall>i. aid_parse c (aid_to_string c i) = Some i) \<and> (\<forall>h. hash_parse c (hash_as_str c h) = Some h) \<and>
     (\<forall>r e. range_end_offset c r = Some e \<longrightarrow> e = ar_offset r + ar_length r)"

datatype fs_node = RegularFile octets | Directory | Symlink

datatype io_kind = AlreadyExists | NotFoundKind | OtherIo

section \<open>Errors and rows\<close>

definition asset_map_sqlite_error :: "string \<Rightarrow> sqlite_error \<Rightarrow> ('id, 'h) asset_error" where
  "asset_map_sqlite_error message error =
     (if is_contention error then AssetUnavailable ''Asset metadata SQLite backend is busy''
      else AssetBackendFailure message)"

definition asset_row_corruption :: "string \<Rightarrow> sqlite_error \<Rightarrow> ('id, 'h) asset_error" where
  "asset_row_corruption message error = AssetCorruption message"

fun safe_detail :: "('id, 'h) asset_error \<Rightarrow> string" where
  "safe_detail InvalidQueueCapacity = ''invalid Asset metadata configuration''"
| "safe_detail (LengthOverflow _ _) = ''Asset length overflow''"
| "safe_detail (LengthMismatch _ _ _) = ''Asset length mismatch''"
| "safe_detail (HashMismatch _ _ _) = ''Asset content hash mismatch''"
| "safe_detail (AssetConflict _) = ''Asset identity conflict''"
| "safe_detail (AssetInProgress _) = ''Asset ingest is in progress''"
| "safe_detail (AssetUnavailable detail) = detail"
| "safe_detail (AssetBackendFailure detail) = detail"
| "safe_detail (AssetFilesystem detail) = detail"
| "safe_detail (AssetCorruption detail) = detail"

fun asset_dispatch_error :: "string \<Rightarrow> dispatch_error \<Rightarrow> ('id, 'h) asset_error" where
  "asset_dispatch_error lost StoreClosed = AssetUnavailable ''local Asset store is closed''"
| "asset_dispatch_error lost SenderTaken = AssetUnavailable ''local Asset metadata worker is unavailable''"
| "asset_dispatch_error lost QueueFull = AssetUnavailable ''Asset metadata command queue is full''"
| "asset_dispatch_error lost WorkerGone = AssetUnavailable ''Asset metadata worker is unavailable''"
| "asset_dispatch_error lost ResponseLost = AssetUnavailable lost"

definition parse_publication_state :: "string \<Rightarrow> (publication_state, ('id, 'h) asset_error) result" where
  "parse_publication_state s =
     (if s = STAGED then Ok Staged else if s = PUBLISHED then Ok Published
      else Err (AssetCorruption ''unknown Asset publication state''))"

definition publication_text :: "publication_state \<Rightarrow> string" where
  "publication_text s = (case s of Staged \<Rightarrow> STAGED | Published \<Rightarrow> PUBLISHED)"

definition blob_key :: "('id, 'h) asset_codec \<Rightarrow> 'id \<Rightarrow> string" where
  "blob_key c i = aid_to_string c i @ ''.blob''"

definition asset_decode_row ::
  "('id, 'h) asset_codec \<Rightarrow> asset_row \<Rightarrow> (('id, 'h) asset_record, ('id, 'h) asset_error) result" where
  "asset_decode_row c row =
     and_then (ok_or (AssetCorruption ''Asset metadata identity is invalid'') (aid_parse c (as_asset_id row))) (\<lambda>i.
     and_then (ok_or (AssetCorruption ''Asset metadata byte length is invalid'') (u64_try_from (as_byte_length row))) (\<lambda>len.
     and_then (ok_or (AssetCorruption ''Asset metadata content hash is invalid'') (hash_parse c (as_content_hash row))) (\<lambda>h.
     let d = \<lparr>ad_asset_id = i, ad_media_type = as_media_type row, ad_byte_length = len,
              ad_content_hash = h, ad_original_filename = as_original_filename row\<rparr> in
     if \<not> descriptor_valid c d then Err (AssetCorruption ''Asset metadata descriptor is invalid'')
     else if as_blob_key row \<noteq> blob_key c i then Err (AssetCorruption ''Asset metadata blob key is invalid'')
     else and_then (parse_publication_state (as_publication_state row)) (\<lambda>st.
     Ok \<lparr>rec_descriptor = d, rec_blob_key = as_blob_key row, rec_state = st\<rparr>))))"

section \<open>The worker's statements\<close>

definition select_asset ::
  "sql_faults \<Rightarrow> string \<Rightarrow> ('id, 'h) asset_codec \<Rightarrow> 'id \<Rightarrow> asset_row list
   \<Rightarrow> (('id, 'h) asset_record option, ('id, 'h) asset_error) result" where
  "select_asset flt msg c i rows =
     and_then (sql_call flt msg asset_map_sqlite_error
        (List.find (\<lambda>r. as_asset_id r = aid_to_string c i) rows)) (\<lambda>row.
     opt_transpose (map_option (asset_decode_row c) row))"

definition lookup_asset ::
  "sql_faults \<Rightarrow> ('id, 'h) asset_codec \<Rightarrow> 'id \<Rightarrow> asset_row list
   \<Rightarrow> (('id, 'h) asset_record option, ('id, 'h) asset_error) result" where
  "lookup_asset flt c i rows = select_asset flt ''Asset metadata lookup failed'' c i rows"

definition asset_row_of :: "('id, 'h) asset_codec \<Rightarrow> ('id, 'h) asset_descriptor \<Rightarrow> string \<Rightarrow> string \<Rightarrow> asset_row" where
  "asset_row_of c d key st =
     \<lparr>as_asset_id = aid_to_string c (ad_asset_id d), as_media_type = ad_media_type d,
      as_byte_length = int (ad_byte_length d), as_content_hash = hash_as_str c (ad_content_hash d),
      as_original_filename = ad_original_filename d, as_blob_key = key, as_publication_state = st\<rparr>"

definition stage_asset ::
  "sql_faults \<Rightarrow> ('id, 'h) asset_codec \<Rightarrow> ('id, 'h) asset_descriptor \<Rightarrow> string \<Rightarrow> asset_row list
   \<Rightarrow> (asset_insert_outcome, ('id, 'h) asset_error) result \<times> asset_row list" where
  "stage_asset flt c d key rows =
     (case and_then (sql_call flt ''Asset stage transaction could not start'' asset_map_sqlite_error ()) (\<lambda>_.
           and_then (select_asset flt ''Asset stage lookup failed'' c (ad_asset_id d) rows) (\<lambda>existing.
           case existing of
             Some r \<Rightarrow>
               (case rec_state r of
                  Published \<Rightarrow>
                    if rec_descriptor r = d
                    then and_then (sql_call flt ''Asset idempotent stage commit failed'' asset_map_sqlite_error ())
                           (\<lambda>_. Ok (Existing, rows))
                    else Err (AssetConflict (ad_asset_id d))
                | Staged \<Rightarrow> Err (AssetInProgress (ad_asset_id d)))
           | None \<Rightarrow>
               and_then (ok_or (LengthOverflow (ad_asset_id d) (ad_byte_length d)) (i64_try_from (ad_byte_length d))) (\<lambda>_.
               and_then (sql_call flt ''Asset staged metadata insert failed'' asset_map_sqlite_error ()) (\<lambda>_.
               if aid_to_string c (ad_asset_id d) \<in> as_asset_id ` set rows
               then Err (asset_map_sqlite_error ''Asset staged metadata insert failed'' OtherSqliteError)
               else and_then (sql_call flt ''Asset staged metadata commit failed'' asset_map_sqlite_error ())
                      (\<lambda>_. Ok (Inserted, rows @ [asset_row_of c d key STAGED])))))) of
        Inl e \<Rightarrow> (Err e, rows)
      | Inr (out, rows') \<Rightarrow> (Ok out, rows'))"

definition publish_asset ::
  "sql_faults \<Rightarrow> ('id, 'h) asset_codec \<Rightarrow> ('id, 'h) asset_descriptor \<Rightarrow> string \<Rightarrow> asset_row list
   \<Rightarrow> (unit, ('id, 'h) asset_error) result \<times> asset_row list" where
  "publish_asset flt c d key rows =
     (case and_then (sql_call flt ''Asset publish transaction could not start'' asset_map_sqlite_error ()) (\<lambda>_.
           and_then (select_asset flt ''Asset publish lookup failed'' c (ad_asset_id d) rows) (\<lambda>found.
           and_then (ok_or (AssetCorruption ''Asset staged metadata disappeared before publish'') found) (\<lambda>r.
           if rec_state r \<noteq> Staged \<or> rec_descriptor r \<noteq> d \<or> rec_blob_key r \<noteq> key
           then Err (AssetCorruption ''Asset publication metadata changed before publish'')
           else and_then (sql_call flt ''Asset publication update failed'' asset_map_sqlite_error ()) (\<lambda>_.
                and_then (sql_call flt ''Asset publication commit failed'' asset_map_sqlite_error ()) (\<lambda>_.
                Ok (map (\<lambda>r. if as_asset_id r = aid_to_string c (ad_asset_id d) \<and> as_publication_state r = STAGED
                             then r\<lparr>as_publication_state := PUBLISHED\<rparr> else r) rows)))))) of
        Inl e \<Rightarrow> (Err e, rows)
      | Inr rows' \<Rightarrow> (Ok (), rows'))"

text \<open>\<^verbatim>\<open>DELETE FROM assets WHERE asset_id = ?1 AND publication_state = 'staged'\<close>\<close>

definition delete_staged :: "('id, 'h) asset_codec \<Rightarrow> 'id \<Rightarrow> asset_row list \<Rightarrow> asset_row list" where
  "delete_staged c i rows = filter (\<lambda>r. \<not> (as_asset_id r = aid_to_string c i \<and> as_publication_state r = STAGED)) rows"

definition remove_staged ::
  "sql_faults \<Rightarrow> ('id, 'h) asset_codec \<Rightarrow> 'id \<Rightarrow> asset_row list
   \<Rightarrow> (unit, ('id, 'h) asset_error) result \<times> asset_row list" where
  "remove_staged flt c i rows =
     (case sql_call flt ''staged Asset metadata cleanup failed'' asset_map_sqlite_error () of
        Inl e \<Rightarrow> (Err e, rows)
      | Inr _ \<Rightarrow> (Ok (), delete_staged c i rows))"

section \<open>The world and its steps\<close>

record world =
  w_blobs :: "(string \<times> fs_node) list"
  w_staging :: "(string \<times> fs_node) list"
  w_quarantine :: "(string \<times> fs_node) list"
  w_rows :: "asset_row list"
  w_metadata :: "(string \<times> string) list"

record plan =
  p_sql :: sql_faults
  p_fs :: "string \<Rightarrow> nat \<Rightarrow> io_kind option"
  p_dispatch :: "string \<Rightarrow> dispatch_error option"
  p_part :: string
  p_orphan :: "string \<Rightarrow> nat \<Rightarrow> string \<times> io_kind option"

definition calm_plan :: "string \<Rightarrow> plan" where
  "calm_plan part = \<lparr>p_sql = no_faults, p_fs = (\<lambda>_ _. None), p_dispatch = (\<lambda>_. None), p_part = part,
     p_orphan = (\<lambda>name n. (name, None))\<rparr>"

type_synonym 'a asset_io = "(world, 'a) io"

definition fs_check :: "plan \<Rightarrow> string \<Rightarrow> nat \<Rightarrow> (unit, ('id, 'h) asset_error) result" where
  "fs_check p msg n = (case p_fs p msg n of None \<Rightarrow> Ok () | Some _ \<Rightarrow> Err (AssetFilesystem msg))"

text \<open>
  One round trip to the worker. A refused dispatch has not executed the statement; that this
  is also so for a lost response is proved in \<^theory_text>\<open>Worker\<close>.
\<close>

definition dispatch_asset ::
  "plan \<Rightarrow> string \<Rightarrow> (asset_row list \<Rightarrow> ('a, ('id, 'h) asset_error) result \<times> asset_row list)
   \<Rightarrow> ('a, ('id, 'h) asset_error) result asset_io" where
  "dispatch_asset p lost stmt = io_step (\<lambda>w.
     case p_dispatch p lost of
       Some e \<Rightarrow> (Err (asset_dispatch_error lost e), w)
     | None \<Rightarrow> (case stmt (w_rows w) of (r, rows') \<Rightarrow> (r, w\<lparr>w_rows := rows'\<rparr>)))"

definition lookup ::
  "plan \<Rightarrow> ('id, 'h) asset_codec \<Rightarrow> 'id \<Rightarrow> world \<Rightarrow> (('id, 'h) asset_record option, ('id, 'h) asset_error) result" where
  "lookup p c i w =
     (case p_dispatch p ''local Asset metadata response was lost'' of
        Some e \<Rightarrow> Err (asset_dispatch_error ''local Asset metadata response was lost'' e)
      | None \<Rightarrow> lookup_asset (p_sql p) c i (w_rows w))"

definition dispatch_stage ::
  "plan \<Rightarrow> ('id, 'h) asset_codec \<Rightarrow> ('id, 'h) asset_descriptor \<Rightarrow> string
   \<Rightarrow> (asset_insert_outcome, ('id, 'h) asset_error) result asset_io" where
  "dispatch_stage p c d key =
     dispatch_asset p ''local Asset stage response was lost'' (stage_asset (p_sql p) c d key)"

definition dispatch_publish ::
  "plan \<Rightarrow> ('id, 'h) asset_codec \<Rightarrow> ('id, 'h) asset_descriptor \<Rightarrow> string
   \<Rightarrow> (unit, ('id, 'h) asset_error) result asset_io" where
  "dispatch_publish p c d key =
     dispatch_asset p ''local Asset publish response was lost'' (publish_asset (p_sql p) c d key)"

definition dispatch_remove_staged ::
  "plan \<Rightarrow> ('id, 'h) asset_codec \<Rightarrow> 'id \<Rightarrow> (unit, ('id, 'h) asset_error) result asset_io" where
  "dispatch_remove_staged p c i =
     dispatch_asset p ''local Asset cleanup response was lost'' (remove_staged (p_sql p) c i)"

definition remove_file_if_present ::
  "plan \<Rightarrow> string \<Rightarrow> (unit, ('id, 'h) asset_error) result asset_io" where
  "remove_file_if_present p name = io_step (\<lambda>w.
     if map_of (w_staging w) name = None then (Ok (), w)
     else case fs_check p ''temporary Asset blob cleanup failed'' 0 of
            Inl e \<Rightarrow> (Err e, w)
          | Inr _ \<Rightarrow> (Ok (), w\<lparr>w_staging := AList.delete name (w_staging w)\<rparr>))"

text \<open>
  The streaming loop of \<^verbatim>\<open>write_staging\<close>. The source is the list of its reads: \<open>None\<close> a read
  error, an empty read the end of the stream, and so is the end of the list.
\<close>

fun write_chunks ::
  "plan \<Rightarrow> string \<Rightarrow> ('id, 'h) asset_descriptor \<Rightarrow> octets option list \<Rightarrow> octets
   \<Rightarrow> (octets, ('id, 'h) asset_error) result asset_io" where
  "write_chunks p name d [] acc = io_return (Ok acc)"
| "write_chunks p name d (None # rest) acc = io_return (Err (AssetFilesystem ''Asset source could not be read''))"
| "write_chunks p name d (Some chunk # rest) acc =
     (if chunk = [] then io_return (Ok acc)
      else case checked_add_u64 (length acc) (length chunk) of
             None \<Rightarrow> io_return (Err (LengthOverflow (ad_asset_id d) u64_max))
           | Some next_length \<Rightarrow>
               if ad_byte_length d < next_length
               then io_return (Err (LengthMismatch (ad_asset_id d) (ad_byte_length d) next_length))
               else io_try (io_step (\<lambda>w.
                      case fs_check p ''staging blob could not be written'' (length acc) of
                        Inl e \<Rightarrow> (Err e, w)
                      | Inr _ \<Rightarrow> (Ok (), w\<lparr>w_staging := AList.update name (RegularFile (acc @ chunk)) (w_staging w)\<rparr>)))
                    (\<lambda>_. write_chunks p name d rest (acc @ chunk)))"

text \<open>The result is the streamed content, of which the source keeps length and hash.\<close>

definition write_staging ::
  "plan \<Rightarrow> string \<Rightarrow> ('id, 'h) asset_descriptor \<Rightarrow> octets option list
   \<Rightarrow> (octets, ('id, 'h) asset_error) result asset_io" where
  "write_staging p name d source =
     io_try (io_step (\<lambda>w.
       if map_of (w_staging w) name \<noteq> None then (Err (AssetFilesystem ''staging blob could not be created''), w)
       else case fs_check p ''staging blob could not be created'' 0 of
              Inl e \<Rightarrow> (Err e, w)
            | Inr _ \<Rightarrow> (Ok (), w\<lparr>w_staging := AList.update name (RegularFile []) (w_staging w)\<rparr>))) (\<lambda>_.
     io_try (write_chunks p name d source []) (\<lambda>content.
     io_try (io_return (fs_check p ''staging blob could not be synchronized'' 0)) (\<lambda>_.
     io_return (Ok content))))"

fun map_filesystem_error :: "io_kind \<Rightarrow> ('id, 'h) asset_error" where
  "map_filesystem_error AlreadyExists = AssetFilesystem ''Asset blob destination already exists''"
| "map_filesystem_error _ = AssetFilesystem ''Asset blob rename failed''"

text \<open>
  \<^verbatim>\<open>tokio::fs::rename\<close> of a staging file to its blob: an existing file or link is replaced, a
  directory is not.
\<close>

definition rename_to_blobs :: "plan \<Rightarrow> string \<Rightarrow> string \<Rightarrow> (unit, io_kind) result asset_io" where
  "rename_to_blobs p name key = io_step (\<lambda>w.
     case map_of (w_staging w) name of
       None \<Rightarrow> (Err NotFoundKind, w)
     | Some node \<Rightarrow>
         if map_of (w_blobs w) key = Some Directory then (Err OtherIo, w)
         else case p_fs p ''rename'' 0 of
                Some kind \<Rightarrow> (Err kind, w)
              | None \<Rightarrow> (Ok (), w\<lparr>w_staging := AList.delete name (w_staging w),
                                  w_blobs := AList.update key node (w_blobs w)\<rparr>))"

text \<open>
  The loop of \<^verbatim>\<open>quarantine_async\<close> and \<^verbatim>\<open>quarantine_entry\<close>: each attempt draws a fresh name.
\<close>

definition move_to_quarantine :: "bool \<Rightarrow> string \<Rightarrow> string \<Rightarrow> world \<Rightarrow> world" where
  "move_to_quarantine from_blobs name target w =
     (case map_of (if from_blobs then w_blobs w else w_staging w) name of
        None \<Rightarrow> w
      | Some node \<Rightarrow>
          (if from_blobs then w\<lparr>w_blobs := AList.delete name (w_blobs w)\<rparr>
           else w\<lparr>w_staging := AList.delete name (w_staging w)\<rparr>)
          \<lparr>w_quarantine := AList.update target node (w_quarantine w)\<rparr>)"

fun quarantine_attempts ::
  "plan \<Rightarrow> string \<Rightarrow> bool \<Rightarrow> string \<Rightarrow> nat \<Rightarrow> nat \<Rightarrow> (unit, ('id, 'h) asset_error) result asset_io" where
  "quarantine_attempts p msg from_blobs name n 0 =
     io_return (Err (AssetFilesystem ''Asset quarantine name allocation failed''))"
| "quarantine_attempts p msg from_blobs name n (Suc k) =
     io_bind (io_step (\<lambda>w.
        case p_orphan p name n of
          (_, Some kind) \<Rightarrow> (Err kind, w)
        | (target, None) \<Rightarrow>
            if map_of (if from_blobs then w_blobs w else w_staging w) name = None then (Err NotFoundKind, w)
            else (Ok (), move_to_quarantine from_blobs name (''orphan-'' @ target) w)))
     (\<lambda>r. case r of
        Inr _ \<Rightarrow> io_return (Ok ())
      | Inl AlreadyExists \<Rightarrow> quarantine_attempts p msg from_blobs name (Suc n) k
      | Inl _ \<Rightarrow> io_return (Err (AssetFilesystem msg)))"

definition quarantine_async :: "plan \<Rightarrow> string \<Rightarrow> (unit, ('id, 'h) asset_error) result asset_io" where
  "quarantine_async p key = quarantine_attempts p ''Asset blob could not be quarantined'' True key 0 8"

definition quarantine_entry :: "plan \<Rightarrow> bool \<Rightarrow> string \<Rightarrow> (unit, ('id, 'h) asset_error) result asset_io" where
  "quarantine_entry p from_blobs name =
     quarantine_attempts p ''Asset orphan could not be quarantined'' from_blobs name 0 8"

section \<open>Ingest\<close>

text \<open>
  The part of \<^verbatim>\<open>ingest\<close> after the bytes have been verified: stage the metadata, move the blob,
  publish, and undo on each failure.
\<close>

definition publish_staged ::
  "plan \<Rightarrow> ('id, 'h) asset_codec \<Rightarrow> ('id, 'h) asset_descriptor \<Rightarrow> string
   \<Rightarrow> (asset_insert_outcome, ('id, 'h) asset_error) result asset_io" where
  "publish_staged p c d name =
     (let i = ad_asset_id d; key = blob_key c i in
      io_bind (dispatch_stage p c d key) (\<lambda>stage_result.
      case stage_result of
        Inl e \<Rightarrow> io_try (remove_file_if_present p name) (\<lambda>_. io_return (Err e))
      | Inr Existing \<Rightarrow> io_try (remove_file_if_present p name) (\<lambda>_. io_return (Ok Existing))
      | Inr Inserted \<Rightarrow>
          io_bind (rename_to_blobs p name key) (\<lambda>renamed.
          case renamed of
            Inl kind \<Rightarrow>
              io_bind (dispatch_remove_staged p c i :: (unit, ('id, 'h) asset_error) result asset_io) (\<lambda>_.
              io_try (remove_file_if_present p name) (\<lambda>_. io_return (Err (map_filesystem_error kind))))
          | Inr _ \<Rightarrow>
              io_bind (dispatch_publish p c d key) (\<lambda>published.
              case published of
                Inl e \<Rightarrow>
                  io_bind (quarantine_async p key :: (unit, ('id, 'h) asset_error) result asset_io) (\<lambda>_.
                  io_bind (dispatch_remove_staged p c i :: (unit, ('id, 'h) asset_error) result asset_io) (\<lambda>_.
                  io_return (Err e)))
              | Inr _ \<Rightarrow> io_return (Ok Inserted)))))"

definition stage_and_publish ::
  "plan \<Rightarrow> ('id, 'h) asset_codec \<Rightarrow> ('id, 'h) asset_descriptor \<Rightarrow> octets option list
   \<Rightarrow> (asset_insert_outcome, ('id, 'h) asset_error) result asset_io" where
  "stage_and_publish p c d source =
     (let i = ad_asset_id d; name = aid_to_string c i @ ''-'' @ p_part p @ ''.part'' in
      io_bind (write_staging p name d source) (\<lambda>verified.
      case verified of
        Inl e \<Rightarrow> io_try (remove_file_if_present p name) (\<lambda>_. io_return (Err e))
      | Inr content \<Rightarrow>
          if length content \<noteq> ad_byte_length d
          then io_try (remove_file_if_present p name) (\<lambda>_.
                 io_return (Err (LengthMismatch i (ad_byte_length d) (length content))))
          else if hash_of c content \<noteq> ad_content_hash d
          then io_try (remove_file_if_present p name) (\<lambda>_.
                 io_return (Err (HashMismatch i (ad_content_hash d) (hash_of c content))))
          else publish_staged p c d name))"

definition ingest ::
  "plan \<Rightarrow> ('id, 'h) asset_codec \<Rightarrow> ('id, 'h) asset_descriptor \<Rightarrow> octets option list
   \<Rightarrow> (asset_insert_outcome, ('id, 'h) asset_error) result asset_io" where
  "ingest p c d source =
     (let i = ad_asset_id d in
      if i64_max < int (ad_byte_length d) then io_return (Err (LengthOverflow i (ad_byte_length d)))
      else io_try (io_get (lookup p c i)) (\<lambda>existing.
           case existing of
             Some r \<Rightarrow>
               io_return (case rec_state r of
                  Published \<Rightarrow> if rec_descriptor r = d then Ok Existing else Err (AssetConflict i)
                | Staged \<Rightarrow> Err (AssetInProgress i))
           | None \<Rightarrow> stage_and_publish p c d source))"

text \<open>\<^verbatim>\<open>insert_verified\<close> ingests a cursor over the bytes.\<close>

definition insert_verified ::
  "plan \<Rightarrow> ('id, 'h) asset_codec \<Rightarrow> ('id, 'h) asset_descriptor \<Rightarrow> octets
   \<Rightarrow> (asset_insert_outcome, ('id, 'h) asset_error) result asset_io" where
  "insert_verified p c d bytes = ingest p c d [Some bytes]"

section \<open>Reading\<close>

definition get_asset ::
  "plan \<Rightarrow> ('id, 'h) asset_codec \<Rightarrow> 'id \<Rightarrow> world \<Rightarrow> (('id, 'h) asset_descriptor option, string) result" where
  "get_asset p c i w =
     (case lookup p c i w of
        Inl e \<Rightarrow> Err (safe_detail e)
      | Inr (Some r) \<Rightarrow> if rec_state r = Published then Ok (Some (rec_descriptor r)) else Ok None
      | Inr None \<Rightarrow> Ok None)"

definition read_call :: "plan \<Rightarrow> string \<Rightarrow> (unit, 'id asset_read_error) result" where
  "read_call p msg = (case p_fs p msg 0 of None \<Rightarrow> Ok () | Some _ \<Rightarrow> Err (ReadUnavailable msg))"

definition chunk_new ::
  "('id, 'h) asset_codec \<Rightarrow> string \<Rightarrow> nat \<Rightarrow> octets \<Rightarrow> nat \<Rightarrow> (asset_chunk, 'id asset_read_error) result" where
  "chunk_new c msg offset bytes len =
     (let ch = \<lparr>ch_offset = offset, ch_bytes = bytes, ch_total = len\<rparr> in
      if chunk_valid c ch then Ok ch else Err (ReadUnavailable msg))"

definition read_range ::
  "plan \<Rightarrow> ('id, 'h) asset_codec \<Rightarrow> 'id \<Rightarrow> asset_range_req \<Rightarrow> world \<Rightarrow> (asset_chunk, 'id asset_read_error) result" where
  "read_range p c i r w =
     and_then (case lookup p c i w of
                 Inl e \<Rightarrow> Err (ReadUnavailable (safe_detail e))
               | Inr (Some rc) \<Rightarrow> if rec_state rc = Published then Ok rc else Err (ReadNotFound i)
               | Inr None \<Rightarrow> Err (ReadNotFound i)) (\<lambda>rc.
     let total_length = ad_byte_length (rec_descriptor rc) in
     if total_length < ar_offset r then Err (RangeOutOfBounds i (ar_offset r) total_length)
     else
       and_then (read_call p ''published Asset blob could not be inspected'') (\<lambda>_.
       and_then (ok_or (ReadUnavailable ''published Asset blob could not be inspected'')
                   (map_of (w_blobs w) (rec_blob_key rc))) (\<lambda>node.
       case node of
         RegularFile bytes \<Rightarrow>
           and_then (read_call p ''published Asset blob could not be opened'') (\<lambda>_.
           if ar_offset r = total_length
           then chunk_new c ''published Asset produced an invalid EOF chunk'' (ar_offset r) [] total_length
           else
             and_then (ok_or (ReadUnavailable ''Asset range overflowed unexpectedly'') (range_end_offset c r)) (\<lambda>requested_end.
             let len = min requested_end total_length - ar_offset r in
             and_then (read_call p ''published Asset seek failed'') (\<lambda>_.
             and_then (read_call p ''published Asset read was truncated'') (\<lambda>_.
             if length bytes < ar_offset r + len then Err (ReadUnavailable ''published Asset read was truncated'')
             else chunk_new c ''published Asset produced an invalid range chunk'' (ar_offset r)
                    (slice (ar_offset r) len bytes) total_length))))
       | _ \<Rightarrow> Err (ReadUnavailable ''published Asset blob is not a regular file''))))"

section \<open>Opening and recovery\<close>

definition verify_blob ::
  "plan \<Rightarrow> ('id, 'h) asset_codec \<Rightarrow> string \<Rightarrow> ('id, 'h) asset_descriptor \<Rightarrow> world \<Rightarrow> (unit, ('id, 'h) asset_error) result" where
  "verify_blob p c key d w =
     (case map_of (w_blobs w) key of
        None \<Rightarrow> Err (AssetCorruption ''published Asset blob is missing'')
      | Some (RegularFile bytes) \<Rightarrow>
          if length bytes \<noteq> ad_byte_length d then Err (AssetCorruption ''published Asset blob length does not match metadata'')
          else if p_fs p ''published Asset blob could not be opened'' 0 \<noteq> None
          then Err (AssetCorruption ''published Asset blob could not be opened'')
          else if p_fs p ''published Asset blob could not be read'' 0 \<noteq> None
          then Err (AssetCorruption ''published Asset blob could not be read'')
          else if hash_of c bytes \<noteq> ad_content_hash d
          then Err (AssetCorruption ''published Asset blob hash does not match metadata'')
          else Ok ()
      | Some _ \<Rightarrow> Err (AssetCorruption ''published Asset blob is not a regular file''))"

definition load_all_records ::
  "sql_faults \<Rightarrow> ('id, 'h) asset_codec \<Rightarrow> asset_row list \<Rightarrow> (('id, 'h) asset_record list, ('id, 'h) asset_error) result" where
  "load_all_records flt c rows =
     and_then (sql_call flt ''Asset metadata scan failed'' asset_map_sqlite_error ()) (\<lambda>_.
     traverse (\<lambda>(n, row). and_then (sql_row flt ''Asset metadata row could not be read'' n asset_row_corruption row) (asset_decode_row c))
       (enumerate 0 (sort_key (\<lambda>r. map of_char (as_asset_id r) :: nat list) rows)))"

text \<open>The loop that checks the published records and collects their keys and the staged identities.\<close>

definition recover_record ::
  "plan \<Rightarrow> ('id, 'h) asset_codec \<Rightarrow> world \<Rightarrow> ('id, 'h) asset_record \<Rightarrow> string list \<times> 'id list
   \<Rightarrow> (string list \<times> 'id list, ('id, 'h) asset_error) result" where
  "recover_record p c w r acc =
     (case rec_state r of
        Published \<Rightarrow> and_then (verify_blob p c (rec_blob_key r) (rec_descriptor r) w) (\<lambda>_. Ok (rec_blob_key r # fst acc, snd acc))
      | Staged \<Rightarrow> Ok (fst acc, snd acc @ [ad_asset_id (rec_descriptor r)]))"

definition delete_staged_rows ::
  "sql_faults \<Rightarrow> ('id, 'h) asset_codec \<Rightarrow> 'id list \<Rightarrow> asset_row list
   \<Rightarrow> (unit, ('id, 'h) asset_error) result \<times> asset_row list" where
  "delete_staged_rows flt c staged_ids rows =
     (case and_then (sql_call flt ''staged Asset recovery transaction failed'' asset_map_sqlite_error ()) (\<lambda>_.
           and_then (fold_res (\<lambda>(n, i) rows.
               and_then (sql_row flt ''staged Asset recovery failed'' n asset_map_sqlite_error ()) (\<lambda>_.
               Ok (delete_staged c i rows)))
             (enumerate 0 staged_ids) rows) (\<lambda>rows'.
           and_then (sql_call flt ''staged Asset recovery commit failed'' asset_map_sqlite_error ()) (\<lambda>_. Ok rows'))) of
        Inl e \<Rightarrow> (Err e, rows)
      | Inr rows' \<Rightarrow> (Ok (), rows'))"

definition quarantine_directory_entries :: "plan \<Rightarrow> (unit, ('id, 'h) asset_error) result asset_io" where
  "quarantine_directory_entries p =
     io_try (io_return (fs_check p ''Asset recovery directory could not be read'' 0)) (\<lambda>_.
     io_bind (io_get (\<lambda>w. remdups (map fst (w_staging w)))) (\<lambda>names.
     io_for (\<lambda>(n, name). io_try (io_return (fs_check p ''Asset recovery entry could not be read'' n)) (\<lambda>_.
         quarantine_entry p False name)) (enumerate 0 names)))"

definition quarantine_orphan_blobs :: "plan \<Rightarrow> string list \<Rightarrow> (unit, ('id, 'h) asset_error) result asset_io" where
  "quarantine_orphan_blobs p published_keys =
     io_try (io_return (fs_check p ''Asset blob directory could not be read'' 0)) (\<lambda>_.
     io_bind (io_get (\<lambda>w. remdups (map fst (w_blobs w)))) (\<lambda>names.
     io_for (\<lambda>(n, name). io_try (io_return (fs_check p ''Asset blob entry could not be read'' n)) (\<lambda>_.
         if name \<in> set published_keys then io_return (Ok ()) else quarantine_entry p True name)) (enumerate 0 names)))"

definition recover_storage :: "plan \<Rightarrow> ('id, 'h) asset_codec \<Rightarrow> (unit, ('id, 'h) asset_error) result asset_io" where
  "recover_storage p c =
     io_try (io_get (\<lambda>w. load_all_records (p_sql p) c (w_rows w))) (\<lambda>records.
     io_try (io_get (\<lambda>w. fold_res (recover_record p c w) records ([], []))) (\<lambda>(published_keys, staged_ids).
     io_try (if staged_ids = [] then io_return (Ok ())
             else io_step (\<lambda>w. case delete_staged_rows (p_sql p) c staged_ids (w_rows w) of
                                 (r, rows') \<Rightarrow> (r, w\<lparr>w_rows := rows'\<rparr>))) (\<lambda>_.
     io_try (quarantine_directory_entries p) (\<lambda>_.
     quarantine_orphan_blobs p published_keys))))"

definition asset_metadata_value :: "sql_faults \<Rightarrow> string \<Rightarrow> world \<Rightarrow> (string option, ('id, 'h) asset_error) result" where
  "asset_metadata_value flt key w =
     sql_call flt ''Asset storage metadata lookup failed'' asset_map_sqlite_error (map_of (w_metadata w) key)"

definition insert_metadata_row ::
  "plan \<Rightarrow> string \<Rightarrow> string \<Rightarrow> string \<Rightarrow> (unit, ('id, 'h) asset_error) result asset_io" where
  "insert_metadata_row p msg key v = io_step (\<lambda>w.
     case sql_call (p_sql p) msg asset_map_sqlite_error () of
       Inl e \<Rightarrow> (Err e, w)
     | Inr _ \<Rightarrow> (Ok (), w\<lparr>w_metadata := w_metadata w @ [(key, v)]\<rparr>))"

definition ASSET_SCHEMA_VERSION :: int where
  "ASSET_SCHEMA_VERSION = 1"

definition init_asset_schema :: "plan \<Rightarrow> (unit, ('id, 'h) asset_error) result asset_io" where
  "init_asset_schema p =
     io_try (io_get (asset_metadata_value (p_sql p) ''schema_version'')) (\<lambda>schema_version.
     case schema_version of
       None \<Rightarrow> insert_metadata_row p ''Asset schema metadata creation failed'' ''schema_version''
                 (dec_of_nat (nat ASSET_SCHEMA_VERSION))
     | Some v \<Rightarrow> io_return (
         and_then (ok_or (AssetCorruption ''Asset metadata schema version is malformed'') (parse_i64 v)) (\<lambda>parsed.
         if parsed \<noteq> ASSET_SCHEMA_VERSION
         then Err (AssetCorruption (if ASSET_SCHEMA_VERSION < parsed
                 then ''Asset metadata schema is newer than this adapter''
                 else ''Asset metadata schema migration is required''))
         else Ok ())))"

text \<open>\<open>parse_entity\<close> and \<open>fresh\<close> are \<^verbatim>\<open>EntityId\<close>'s parser and the text of a new identity.\<close>

definition init_asset_store_id ::
  "plan \<Rightarrow> (string \<Rightarrow> 'e option) \<Rightarrow> ('e \<Rightarrow> string) \<Rightarrow> 'e \<Rightarrow> ('e, ('id, 'h) asset_error) result asset_io" where
  "init_asset_store_id p parse_entity entity_text fresh =
     io_try (io_get (asset_metadata_value (p_sql p) ''physical_store_id'')) (\<lambda>found.
     case found of
       Some v \<Rightarrow> io_return (ok_or (AssetCorruption ''Asset physical store identity is malformed'') (parse_entity v))
     | None \<Rightarrow> io_try (insert_metadata_row p ''Asset physical store identity creation failed'' ''physical_store_id'' (entity_text fresh))
                 (\<lambda>_. io_return (Ok fresh)))"

definition initialize_storage ::
  "plan \<Rightarrow> ('id, 'h) asset_codec \<Rightarrow> (string \<Rightarrow> 'e option) \<Rightarrow> ('e \<Rightarrow> string) \<Rightarrow> 'e \<Rightarrow> string option
   \<Rightarrow> ('e, ('id, 'h) asset_error) result asset_io" where
  "initialize_storage p c parse_entity entity_text fresh quick_check =
     io_try (io_return (fs_check p ''Asset data root could not be created'' 0)) (\<lambda>_.
     io_try (io_return (traverse (\<lambda>n. fs_check p ''Asset data directory could not be created'' n) [0, 1, 2])) (\<lambda>_.
     io_try (io_return (traverse (\<lambda>msg. sql_call (p_sql p) msg asset_map_sqlite_error ())
        [''Asset metadata database could not be opened'', ''Asset foreign key configuration failed'',
         ''Asset WAL configuration failed'', ''Asset synchronous configuration failed'',
         ''Asset busy timeout configuration failed'', ''Asset metadata schema creation failed''])) (\<lambda>_.
     io_try (init_asset_schema p) (\<lambda>_.
     io_try (init_asset_store_id p parse_entity entity_text fresh) (\<lambda>store_id.
     if quick_check \<noteq> Some ''ok'' then io_return (Err (AssetCorruption ''Asset SQLite physical integrity check failed''))
     else io_try (recover_storage p c) (\<lambda>_. io_return (Ok store_id)))))))"

section \<open>The worker's commands\<close>

datatype ('id, 'h) asset_command =
    CmdLookup 'id
  | CmdStage "('id, 'h) asset_descriptor" string
  | CmdPublish "('id, 'h) asset_descriptor" string
  | CmdRemoveStaged 'id

datatype ('id, 'h) asset_reply =
    RepLookup "(('id, 'h) asset_record option, ('id, 'h) asset_error) result"
  | RepStage "(asset_insert_outcome, ('id, 'h) asset_error) result"
  | RepUnit "(unit, ('id, 'h) asset_error) result"

fun exec_asset_command ::
  "('id, 'h) asset_codec \<Rightarrow> sql_faults \<times> ('id, 'h) asset_command \<Rightarrow> asset_row list
   \<Rightarrow> ('id, 'h) asset_reply \<times> asset_row list" where
  "exec_asset_command c (flt, CmdLookup i) rows = (RepLookup (lookup_asset flt c i rows), rows)"
| "exec_asset_command c (flt, CmdStage d key) rows = map_prod RepStage id (stage_asset flt c d key rows)"
| "exec_asset_command c (flt, CmdPublish d key) rows = map_prod RepUnit id (publish_asset flt c d key rows)"
| "exec_asset_command c (flt, CmdRemoveStaged i) rows = map_prod RepUnit id (remove_staged flt c i rows)"

definition open_asset_store ::
  "nat \<Rightarrow> bool \<Rightarrow> plan \<Rightarrow> ('id, 'h) asset_codec \<Rightarrow> (string \<Rightarrow> 'e option) \<Rightarrow> ('e \<Rightarrow> string) \<Rightarrow> 'e \<Rightarrow> string option
   \<Rightarrow> ('e \<times> (sql_faults \<times> ('id, 'h) asset_command, ('id, 'h) asset_reply, asset_row list) worker,
       ('id, 'h) asset_error) result asset_io" where
  "open_asset_store queue_capacity spawned p c parse_entity entity_text fresh quick_check =
     (if queue_capacity = 0 then io_return (Err InvalidQueueCapacity)
      else if \<not> spawned then io_return (Err (AssetUnavailable ''could not start local Asset metadata worker''))
      else io_try (initialize_storage p c parse_entity entity_text fresh quick_check) (\<lambda>store_id.
           io_get (\<lambda>w. Ok (store_id, worker_open queue_capacity (w_rows w)))))"

section \<open>The invariant and the abstract store\<close>

text \<open>
  Every row is the encoding of a valid descriptor with its publication state, identities are
  unique, and the blob of a published row is a regular file with the length and the hash
  the descriptor says.
\<close>

definition row_inv :: "('id, 'h) asset_codec \<Rightarrow> asset_row list \<Rightarrow> bool" where
  "row_inv c rows \<longleftrightarrow> distinct (map as_asset_id rows) \<and>
     (\<forall>r \<in> set rows. \<exists>d st. descriptor_valid c d \<and> r = asset_row_of c d (blob_key c (ad_asset_id d)) (publication_text st))"

definition blob_matches :: "('id, 'h) asset_codec \<Rightarrow> ('id, 'h) asset_descriptor \<Rightarrow> octets \<Rightarrow> bool" where
  "blob_matches c d bytes \<longleftrightarrow> length bytes = ad_byte_length d \<and> hash_of c bytes = ad_content_hash d"

definition published_row :: "('id, 'h) asset_codec \<Rightarrow> ('id, 'h) asset_descriptor \<Rightarrow> asset_row" where
  "published_row c d = asset_row_of c d (blob_key c (ad_asset_id d)) PUBLISHED"

definition staged_row :: "('id, 'h) asset_codec \<Rightarrow> ('id, 'h) asset_descriptor \<Rightarrow> asset_row" where
  "staged_row c d = asset_row_of c d (blob_key c (ad_asset_id d)) STAGED"

definition asset_inv :: "('id, 'h) asset_codec \<Rightarrow> world \<Rightarrow> bool" where
  [inv_defs]: "asset_inv c w \<longleftrightarrow> row_inv c (w_rows w) \<and>
     (\<forall>d. published_row c d \<in> set (w_rows w) \<longrightarrow>
        (\<exists>bytes. map_of (w_blobs w) (blob_key c (ad_asset_id d)) = Some (RegularFile bytes) \<and> blob_matches c d bytes))"

text \<open>The store a client sees: the published descriptors with their content.\<close>

definition published_asset :: "('id, 'h) asset_codec \<Rightarrow> world \<Rightarrow> 'id \<Rightarrow> (('id, 'h) asset_descriptor \<times> octets) option" where
  "published_asset c w i =
     (case lookup_asset no_faults c i (w_rows w) of
        Inr (Some r) \<Rightarrow>
          if rec_state r = Published then
            (case map_of (w_blobs w) (rec_blob_key r) of
               Some (RegularFile bytes) \<Rightarrow> Some (rec_descriptor r, bytes)
             | _ \<Rightarrow> None)
          else None
      | _ \<Rightarrow> None)"

text \<open>What is left after a clean recovery: published rows and their blobs, nothing else.\<close>

definition clean_store :: "world \<Rightarrow> bool" where
  "clean_store w \<longleftrightarrow> w_staging w = [] \<and> (\<forall>r \<in> set (w_rows w). as_publication_state r = PUBLISHED) \<and>
     (\<forall>name \<in> fst ` set (w_blobs w). name \<in> as_blob_key ` set (w_rows w))"

section \<open>Rows\<close>

interpretation pub_state: codec publication_text "\<lambda>s. case parse_publication_state s of Inr st \<Rightarrow> Some st | Inl _ \<Rightarrow> None" "\<lambda>_. True"
  by unfold_locales (auto simp: publication_text_def parse_publication_state_def STAGED_def PUBLISHED_def split: publication_state.splits)

lemma STAGED_PUBLISHED [simp]: "STAGED \<noteq> PUBLISHED" "PUBLISHED \<noteq> STAGED"
  by (simp_all add: STAGED_def PUBLISHED_def)

lemma aid_inject: "asset_codec_ok c \<Longrightarrow> aid_to_string c i = aid_to_string c j \<longleftrightarrow> i = j"
  unfolding asset_codec_ok_def by (metis option.inject)

lemma hash_inject: "asset_codec_ok c \<Longrightarrow> hash_as_str c h = hash_as_str c k \<longleftrightarrow> h = k"
  unfolding asset_codec_ok_def by (metis option.inject)

lemma blob_key_inject: "asset_codec_ok c \<Longrightarrow> blob_key c i = blob_key c j \<longleftrightarrow> i = j"
  by (simp add: blob_key_def aid_inject)

lemma decode_row_of:
  assumes "asset_codec_ok c" and "descriptor_valid c d"
  shows "asset_decode_row c (asset_row_of c d (blob_key c (ad_asset_id d)) (publication_text st)) =
    Ok \<lparr>rec_descriptor = d, rec_blob_key = blob_key c (ad_asset_id d), rec_state = st\<rparr>"
proof -
  have "parse_publication_state (publication_text st) = (Ok st :: (publication_state, ('a, 'b) asset_error) result)"
    by (cases st) (simp_all add: parse_publication_state_def publication_text_def STAGED_def PUBLISHED_def)
  moreover have "aid_parse c (aid_to_string c (ad_asset_id d)) = Some (ad_asset_id d)"
    "hash_parse c (hash_as_str c (ad_content_hash d)) = Some (ad_content_hash d)"
    using assms(1) by (simp_all add: asset_codec_ok_def)
  ultimately show ?thesis using assms(2) by (cases d) (simp add: asset_decode_row_def asset_row_of_def Let_def)
qed

lemma row_eq_iff:
  assumes "asset_codec_ok c"
  shows "asset_row_of c d key st = asset_row_of c d' key' st' \<longleftrightarrow> d = d' \<and> key = key' \<and> st = st'"
  using assms by (cases d; cases d') (auto simp: asset_row_of_def aid_inject hash_inject)

lemma row_inv_row:
  assumes "row_inv c rows" and "r \<in> set rows"
  obtains d where "descriptor_valid c d" "r = staged_row c d" | d where "descriptor_valid c d" "r = published_row c d"
proof -
  from assms obtain d st where "descriptor_valid c d" "r = asset_row_of c d (blob_key c (ad_asset_id d)) (publication_text st)"
    unfolding row_inv_def by blast
  with that show thesis by (cases st) (auto simp: publication_text_def staged_row_def published_row_def)
qed

lemma row_simps [simp]:
  "as_asset_id (staged_row c d) = aid_to_string c (ad_asset_id d)"
  "as_asset_id (published_row c d) = aid_to_string c (ad_asset_id d)"
  "as_blob_key (published_row c d) = blob_key c (ad_asset_id d)"
  "as_publication_state (staged_row c d) = STAGED"
  "as_publication_state (published_row c d) = PUBLISHED"
  by (simp_all add: staged_row_def published_row_def asset_row_of_def)

lemma staged_not_published [simp]: "staged_row c d \<noteq> published_row c d'" "published_row c d' \<noteq> staged_row c d"
  by (metis row_simps(4,5) STAGED_PUBLISHED(1))+

lemma published_row_inject: "asset_codec_ok c \<Longrightarrow> published_row c d = published_row c d' \<longleftrightarrow> d = d'"
  by (auto simp: published_row_def row_eq_iff)

lemma staged_row_inject: "asset_codec_ok c \<Longrightarrow> staged_row c d = staged_row c d' \<longleftrightarrow> d = d'"
  by (auto simp: staged_row_def row_eq_iff)

lemma publish_staged_row: "(staged_row c d)\<lparr>as_publication_state := PUBLISHED\<rparr> = published_row c d"
  by (simp add: staged_row_def published_row_def asset_row_of_def)

lemma row_inv_unique: "row_inv c rows \<Longrightarrow> r \<in> set rows \<Longrightarrow> r' \<in> set rows \<Longrightarrow> as_asset_id r = as_asset_id r' \<Longrightarrow> r = r'"
  by (auto simp: row_inv_def distinct_map dest: inj_onD)

lemma decode_published:
  "asset_codec_ok c \<Longrightarrow> descriptor_valid c d \<Longrightarrow> asset_decode_row c (published_row c d) =
     Ok \<lparr>rec_descriptor = d, rec_blob_key = blob_key c (ad_asset_id d), rec_state = Published\<rparr>"
  using decode_row_of [of c d Published] by (simp add: publication_text_def published_row_def)

lemma decode_staged:
  "asset_codec_ok c \<Longrightarrow> descriptor_valid c d \<Longrightarrow> asset_decode_row c (staged_row c d) =
     Ok \<lparr>rec_descriptor = d, rec_blob_key = blob_key c (ad_asset_id d), rec_state = Staged\<rparr>"
  using decode_row_of [of c d Staged] by (simp add: publication_text_def staged_row_def)

text \<open>What selecting by identity returns: nothing, the staged or the published row of the identity.\<close>

lemma select_cases:
  assumes "asset_codec_ok c" and "row_inv c rows" and "select_asset flt msg c i rows = Ok v"
  obtains "v = None" "\<forall>r \<in> set rows. as_asset_id r \<noteq> aid_to_string c i"
  | d where "v = Some \<lparr>rec_descriptor = d, rec_blob_key = blob_key c i, rec_state = Staged\<rparr>"
      "ad_asset_id d = i" "staged_row c d \<in> set rows"
  | d where "v = Some \<lparr>rec_descriptor = d, rec_blob_key = blob_key c i, rec_state = Published\<rparr>"
      "ad_asset_id d = i" "published_row c d \<in> set rows"
proof (cases "List.find (\<lambda>r. as_asset_id r = aid_to_string c i) rows")
  case None
  with assms(3) that(1) show thesis by (auto simp: select_asset_def find_None_iff)
next
  case (Some r)
  then have r: "r \<in> set rows" "as_asset_id r = aid_to_string c i" using find_Some_in [OF Some] by auto
  from assms(3) Some obtain rc where v: "v = Some rc" "asset_decode_row c r = Ok rc" by (auto simp: select_asset_def)
  from row_inv_row [OF assms(2) r(1)] show thesis
  proof cases
    case (1 d)
    with r assms(1) have "ad_asset_id d = i" by (simp add: aid_inject)
    moreover from 1 v decode_staged [OF assms(1)] have
      "v = Some \<lparr>rec_descriptor = d, rec_blob_key = blob_key c (ad_asset_id d), rec_state = Staged\<rparr>" by auto
    ultimately show thesis using that(2) 1 r(1) by blast
  next
    case (2 d)
    with r assms(1) have "ad_asset_id d = i" by (simp add: aid_inject)
    moreover from 2 v decode_published [OF assms(1)] have
      "v = Some \<lparr>rec_descriptor = d, rec_blob_key = blob_key c (ad_asset_id d), rec_state = Published\<rparr>" by auto
    ultimately show thesis using that(3) 2 r(1) by blast
  qed
qed

lemma select_row:
  assumes "asset_codec_ok c" and "row_inv c rows" and "descriptor_valid c d"
  shows "published_row c d \<in> set rows \<Longrightarrow> select_asset no_faults msg c (ad_asset_id d) rows =
      Ok (Some \<lparr>rec_descriptor = d, rec_blob_key = blob_key c (ad_asset_id d), rec_state = Published\<rparr>)"
    and "staged_row c d \<in> set rows \<Longrightarrow> select_asset no_faults msg c (ad_asset_id d) rows =
      Ok (Some \<lparr>rec_descriptor = d, rec_blob_key = blob_key c (ad_asset_id d), rec_state = Staged\<rparr>)"
proof -
  have f: "r \<in> set rows \<Longrightarrow> as_asset_id r = aid_to_string c (ad_asset_id d) \<Longrightarrow>
      List.find (\<lambda>r. as_asset_id r = aid_to_string c (ad_asset_id d)) rows = Some r" for r
    using find_map_key_eq [of as_asset_id rows r] assms(2) by (simp add: row_inv_def)
  show "published_row c d \<in> set rows \<Longrightarrow> select_asset no_faults msg c (ad_asset_id d) rows =
      Ok (Some \<lparr>rec_descriptor = d, rec_blob_key = blob_key c (ad_asset_id d), rec_state = Published\<rparr>)"
    using f [of "published_row c d"] decode_published [OF assms(1,3)] by (simp add: select_asset_def)
  show "staged_row c d \<in> set rows \<Longrightarrow> select_asset no_faults msg c (ad_asset_id d) rows =
      Ok (Some \<lparr>rec_descriptor = d, rec_blob_key = blob_key c (ad_asset_id d), rec_state = Staged\<rparr>)"
    using f [of "staged_row c d"] decode_staged [OF assms(1,3)] by (simp add: select_asset_def)
qed

lemma row_inv_valid: "asset_codec_ok c \<Longrightarrow> row_inv c rows \<Longrightarrow> published_row c d \<in> set rows \<Longrightarrow> descriptor_valid c d"
  by (metis row_inv_row staged_not_published(2) published_row_inject)

lemma row_inv_valid_staged: "asset_codec_ok c \<Longrightarrow> row_inv c rows \<Longrightarrow> staged_row c d \<in> set rows \<Longrightarrow> descriptor_valid c d"
  by (metis row_inv_row staged_not_published(1) staged_row_inject)

lemma published_asset_Some:
  assumes "asset_codec_ok c" and "row_inv c (w_rows w)"
  shows "published_asset c w i = Some (d, bytes) \<longleftrightarrow>
    published_row c d \<in> set (w_rows w) \<and> ad_asset_id d = i \<and> map_of (w_blobs w) (blob_key c i) = Some (RegularFile bytes)"
    (is "?L \<longleftrightarrow> ?R")
proof
  assume ?L
  then obtain r where r: "lookup_asset no_faults c i (w_rows w) = Ok (Some r)" "rec_state r = Published"
    "map_of (w_blobs w) (rec_blob_key r) = Some (RegularFile bytes)" "rec_descriptor r = d"
    by (auto simp: published_asset_def split: sum.splits option.splits if_splits fs_node.splits)
  from select_cases [OF assms r(1) [unfolded lookup_asset_def]] r show ?R
    by cases auto
next
  assume ?R
  with select_row(1) [OF assms row_inv_valid [OF assms], of d "''Asset metadata lookup failed''"] show ?L
    by (auto simp: published_asset_def lookup_asset_def)
qed

lemma published_asset_eqI:
  assumes "asset_codec_ok c" and "row_inv c (w_rows w)" and "row_inv c (w_rows w')"
    and "\<And>d bytes. (published_row c d \<in> set (w_rows w') \<and> map_of (w_blobs w') (blob_key c (ad_asset_id d)) = Some (RegularFile bytes)) \<longleftrightarrow>
      (published_row c d \<in> set (w_rows w) \<and> map_of (w_blobs w) (blob_key c (ad_asset_id d)) = Some (RegularFile bytes))"
  shows "published_asset c w' = published_asset c w"
proof
  fix i
  have "published_asset c w' i = Some (d, bytes) \<longleftrightarrow> published_asset c w i = Some (d, bytes)" for d bytes
    using assms(4) by (auto simp: published_asset_Some [OF assms(1,2)] published_asset_Some [OF assms(1,3)])
  then show "published_asset c w' i = published_asset c w i" by (metis option.exhaust surj_pair)
qed

lemma published_asset_matches:
  "asset_codec_ok c \<Longrightarrow> asset_inv c w \<Longrightarrow> published_asset c w i = Some (d, bytes) \<Longrightarrow> ad_asset_id d = i \<and> blob_matches c d bytes"
  by (fastforce simp: published_asset_Some asset_inv_def)

lemma published_asset_None:
  assumes "asset_codec_ok c" and "asset_inv c w"
  shows "published_asset c w i = None \<longleftrightarrow> (\<forall>d. published_row c d \<in> set (w_rows w) \<longrightarrow> ad_asset_id d \<noteq> i)"
proof -
  have inv: "row_inv c (w_rows w)" using assms(2) by (simp add: asset_inv_def)
  have "published_asset c w i \<noteq> None \<longleftrightarrow> (\<exists>d bytes. published_asset c w i = Some (d, bytes))" by auto
  also have "\<dots> \<longleftrightarrow> (\<exists>d. published_row c d \<in> set (w_rows w) \<and> ad_asset_id d = i)"
    using assms(2) by (fastforce simp: published_asset_Some [OF assms(1) inv] asset_inv_def)
  finally show ?thesis by blast
qed

lemma asset_inv_ignores [simp]:
  "asset_inv c (w\<lparr>w_staging := x\<rparr>) = asset_inv c w" "asset_inv c (w\<lparr>w_quarantine := x\<rparr>) = asset_inv c w"
  "asset_inv c (w\<lparr>w_metadata := y\<rparr>) = asset_inv c w"
  "published_asset c (w\<lparr>w_staging := x\<rparr>) = published_asset c w"
  "published_asset c (w\<lparr>w_quarantine := x\<rparr>) = published_asset c w"
  "published_asset c (w\<lparr>w_metadata := y\<rparr>) = published_asset c w"
  by (simp_all add: asset_inv_def published_asset_def fun_eq_iff split: sum.split option.split)

section \<open>What each statement and each move keeps\<close>

text \<open>\<open>agrees c A w\<close>: the invariant holds and clients see the Assets \<open>A\<close>.\<close>

definition agrees :: "('id, 'h) asset_codec \<Rightarrow> ('id \<Rightarrow> (('id, 'h) asset_descriptor \<times> octets) option) \<Rightarrow> world \<Rightarrow> bool" where
  "agrees c A w \<longleftrightarrow> asset_inv c w \<and> published_asset c w = A"

lemma agrees_ignores [simp]:
  "agrees c A (w\<lparr>w_staging := x\<rparr>) = agrees c A w" "agrees c A (w\<lparr>w_quarantine := x\<rparr>) = agrees c A w"
  "agrees c A (w\<lparr>w_metadata := y\<rparr>) = agrees c A w"
  by (simp_all add: agrees_def)

lemma agrees_staging_blobs [simp]: "agrees c A (w\<lparr>w_staging := x, w_blobs := y\<rparr>) = agrees c A (w\<lparr>w_blobs := y\<rparr>)"
proof -
  have "w\<lparr>w_staging := x, w_blobs := y\<rparr> = w\<lparr>w_blobs := y, w_staging := x\<rparr>" by simp
  then show ?thesis by (metis agrees_ignores(1))
qed

lemma agrees_row_inv: "agrees c A w \<Longrightarrow> row_inv c (w_rows w)"
  by (simp add: agrees_def asset_inv_def)

lemma agrees_None:
  "asset_codec_ok c \<Longrightarrow> agrees c A w \<Longrightarrow> A i = None \<Longrightarrow> published_row c d \<in> set (w_rows w) \<Longrightarrow> ad_asset_id d \<noteq> i"
  by (auto simp: agrees_def published_asset_None)

lemma agrees_Some:
  assumes "asset_codec_ok c" and "agrees c A w" and "published_row c d \<in> set (w_rows w)"
  shows "\<exists>bytes. A (ad_asset_id d) = Some (d, bytes)"
proof -
  from assms(2,3) obtain bytes where "map_of (w_blobs w) (blob_key c (ad_asset_id d)) = Some (RegularFile bytes)"
    unfolding agrees_def asset_inv_def by blast
  with assms(3) have "published_asset c w (ad_asset_id d) = Some (d, bytes)"
    by (simp add: published_asset_Some [OF assms(1) agrees_row_inv [OF assms(2)]])
  with assms(2) show ?thesis by (auto simp: agrees_def)
qed

lemma agrees_stage:
  assumes "asset_codec_ok c" and "agrees c A w" and "descriptor_valid c d"
    and "\<forall>r \<in> set (w_rows w). as_asset_id r \<noteq> aid_to_string c (ad_asset_id d)"
  shows "agrees c A (w\<lparr>w_rows := w_rows w @ [staged_row c d]\<rparr>)"
proof -
  let ?w = "w\<lparr>w_rows := w_rows w @ [staged_row c d]\<rparr>"
  have "\<exists>d' st. descriptor_valid c d' \<and> staged_row c d = asset_row_of c d' (blob_key c (ad_asset_id d')) (publication_text st)"
    using assms(3) by (intro exI [of _ d] exI [of _ Staged]) (simp add: staged_row_def publication_text_def)
  then have r: "row_inv c (w_rows ?w)"
    using agrees_row_inv [OF assms(2)] assms(4) by (auto simp: row_inv_def)
  then have "published_asset c ?w = published_asset c w"
    using assms(1,2) by (intro published_asset_eqI) (auto simp: agrees_row_inv)
  with r assms(2) show ?thesis by (auto simp: agrees_def asset_inv_def)
qed

text \<open>Deleting rows that are not published.\<close>

lemma agrees_filter:
  assumes "asset_codec_ok c" and "agrees c A w" and "\<And>d. published_row c d \<in> set (w_rows w) \<Longrightarrow> P (published_row c d)"
  shows "agrees c A (w\<lparr>w_rows := filter P (w_rows w)\<rparr>)"
proof -
  let ?w = "w\<lparr>w_rows := filter P (w_rows w)\<rparr>"
  have r: "row_inv c (w_rows ?w)"
    using agrees_row_inv [OF assms(2)] by (auto simp: row_inv_def distinct_map_filter)
  then have "published_asset c ?w = published_asset c w"
    using assms by (intro published_asset_eqI) (auto simp: agrees_row_inv)
  with r assms(2) show ?thesis by (auto simp: agrees_def asset_inv_def)
qed

text \<open>Changing blobs whose key no published row has.\<close>

lemma agrees_blobs:
  assumes "asset_codec_ok c" and "agrees c A w"
    and "\<And>d. published_row c d \<in> set (w_rows w) \<Longrightarrow> map_of blobs (blob_key c (ad_asset_id d)) = map_of (w_blobs w) (blob_key c (ad_asset_id d))"
  shows "agrees c A (w\<lparr>w_blobs := blobs\<rparr>)"
proof -
  let ?w = "w\<lparr>w_blobs := blobs\<rparr>"
  have r: "row_inv c (w_rows ?w)" using agrees_row_inv [OF assms(2)] by simp
  then have "published_asset c ?w = published_asset c w"
    using assms by (intro published_asset_eqI) (auto simp: agrees_row_inv)
  with r assms(2,3) show ?thesis by (auto simp: agrees_def asset_inv_def)
qed

lemma agrees_blob_free:
  assumes "asset_codec_ok c" and "agrees c A w" and "A i = None"
  shows "agrees c A (w\<lparr>w_blobs := AList.update (blob_key c i) node (w_blobs w)\<rparr>)"
    and "agrees c A (w\<lparr>w_blobs := AList.delete (blob_key c i) (w_blobs w)\<rparr>)"
proof -
  have "published_row c d \<in> set (w_rows w) \<Longrightarrow> blob_key c (ad_asset_id d) \<noteq> blob_key c i" for d
    using agrees_None [OF assms] by (simp add: blob_key_inject [OF assms(1)])
  then show "agrees c A (w\<lparr>w_blobs := AList.update (blob_key c i) node (w_blobs w)\<rparr>)"
    and "agrees c A (w\<lparr>w_blobs := AList.delete (blob_key c i) (w_blobs w)\<rparr>)"
    by (auto intro!: agrees_blobs [OF assms(1,2)] simp: update_conv' delete_conv')
qed

text \<open>Publication: the staged row of a verified blob becomes visible.\<close>

definition publish_rows :: "('id, 'h) asset_codec \<Rightarrow> 'id \<Rightarrow> asset_row list \<Rightarrow> asset_row list" where
  "publish_rows c i rows = map (\<lambda>r. if as_asset_id r = aid_to_string c i \<and> as_publication_state r = STAGED
      then r\<lparr>as_publication_state := PUBLISHED\<rparr> else r) rows"

lemma publish_rows_set:
  assumes "asset_codec_ok c" and "row_inv c rows" and "staged_row c d \<in> set rows"
  shows "set (publish_rows c (ad_asset_id d) rows) = insert (published_row c d) (set rows - {staged_row c d})"
proof -
  have "as_asset_id r = aid_to_string c (ad_asset_id d) \<longleftrightarrow> r = staged_row c d" if "r \<in> set rows" for r
    using row_inv_unique [OF assms(2) that assms(3)] by auto
  then have "set (publish_rows c (ad_asset_id d) rows) = (\<lambda>r. if r = staged_row c d then published_row c d else r) ` set rows"
    unfolding publish_rows_def set_map by (intro image_cong) (auto simp: publish_staged_row)
  with assms(3) show ?thesis by auto
qed

lemma publish_rows_inv:
  assumes "asset_codec_ok c" and "row_inv c rows" and "staged_row c d \<in> set rows"
  shows "row_inv c (publish_rows c (ad_asset_id d) rows)"
proof -
  have "map as_asset_id (publish_rows c (ad_asset_id d) rows) = map as_asset_id rows"
    by (simp add: publish_rows_def)
  moreover have "\<exists>d' st. descriptor_valid c d' \<and> published_row c d = asset_row_of c d' (blob_key c (ad_asset_id d')) (publication_text st)"
    using row_inv_valid_staged [OF assms] by (intro exI [of _ d] exI [of _ Published]) (simp add: published_row_def publication_text_def)
  ultimately show ?thesis using assms(2) publish_rows_set [OF assms] by (auto simp: row_inv_def)
qed

lemma agrees_publish:
  assumes "asset_codec_ok c" and "agrees c A w" and "A (ad_asset_id d) = None" and "staged_row c d \<in> set (w_rows w)"
    and "map_of (w_blobs w) (blob_key c (ad_asset_id d)) = Some (RegularFile content)" and "blob_matches c d content"
  shows "agrees c (A(ad_asset_id d \<mapsto> (d, content))) (w\<lparr>w_rows := publish_rows c (ad_asset_id d) (w_rows w)\<rparr>)"
proof -
  let ?w = "w\<lparr>w_rows := publish_rows c (ad_asset_id d) (w_rows w)\<rparr>"
  note inv = agrees_row_inv [OF assms(2)]
  note rows = publish_rows_set [OF assms(1) inv assms(4)]
  have r: "row_inv c (w_rows ?w)" using publish_rows_inv [OF assms(1) inv assms(4)] by simp
  have i: "asset_inv c ?w"
    using r assms(2,5,6) rows by (auto simp: asset_inv_def agrees_def published_row_inject [OF assms(1)])
  have A: "A j = Some (d', bytes) \<longleftrightarrow> published_row c d' \<in> set (w_rows w) \<and> ad_asset_id d' = j \<and>
      map_of (w_blobs w) (blob_key c j) = Some (RegularFile bytes)" for j d' bytes
    using assms(2) published_asset_Some [OF assms(1) inv] by (auto simp: agrees_def)
  have "published_asset c ?w j = Some (d', bytes) \<longleftrightarrow> (A(ad_asset_id d \<mapsto> (d, content))) j = Some (d', bytes)" for j d' bytes
    using rows agrees_None [OF assms(1-3)] assms(5)
    by (auto simp: published_asset_Some [OF assms(1) r] A published_row_inject [OF assms(1)])
  then have "published_asset c ?w j = (A(ad_asset_id d \<mapsto> (d, content))) j" for j by (metis option.exhaust surj_pair)
  with i show ?thesis by (auto simp: agrees_def)
qed

text \<open>The statements.\<close>

lemma stage_asset_cases:
  assumes "asset_codec_ok c" and "row_inv c rows" and "stage_asset flt c d (blob_key c (ad_asset_id d)) rows = (r, rows')"
  obtains e where "r = Err e" "rows' = rows"
  | "r = Ok Existing" "rows' = rows" "published_row c d \<in> set rows"
  | "r = Ok Inserted" "rows' = rows @ [staged_row c d]" "\<forall>r \<in> set rows. as_asset_id r \<noteq> aid_to_string c (ad_asset_id d)"
proof (cases r)
  case (Inl e)
  with assms(3) have "rows' = rows" by (auto simp: stage_asset_def split: sum.splits prod.splits)
  with Inl that(1) show thesis by blast
next
  case (Inr v)
  with assms(3) obtain ex where ex: "select_asset flt ''Asset stage lookup failed'' c (ad_asset_id d) rows = Ok ex"
    by (auto simp: stage_asset_def split: sum.splits prod.splits)
  from select_cases [OF assms(1,2) ex] show thesis
  proof cases
    case 1
    with Inr assms(3) ex that(3) show thesis
      by (auto simp: stage_asset_def staged_row_def split: sum.splits prod.splits if_splits)
  next
    case (2 d')
    with Inr assms(3) ex show thesis by (auto simp: stage_asset_def split: sum.splits prod.splits)
  next
    case (3 d')
    with Inr assms(3) ex that(2) show thesis
      by (auto simp: stage_asset_def split: sum.splits prod.splits if_splits)
  qed
qed

lemma publish_asset_cases:
  assumes "asset_codec_ok c" and "row_inv c rows" and "publish_asset flt c d (blob_key c (ad_asset_id d)) rows = (r, rows')"
  obtains e where "r = Err e" "rows' = rows"
  | "r = Ok ()" "staged_row c d \<in> set rows" "rows' = publish_rows c (ad_asset_id d) rows"
proof (cases r)
  case (Inl e)
  with assms(3) have "rows' = rows" by (auto simp: publish_asset_def split: sum.splits)
  with Inl that(1) show thesis by blast
next
  case (Inr v)
  with assms(3) obtain rc where ex: "select_asset flt ''Asset publish lookup failed'' c (ad_asset_id d) rows = Ok (Some rc)"
    and rc: "rec_state rc = Staged" "rec_descriptor rc = d" "rows' = publish_rows c (ad_asset_id d) rows"
    by (auto simp: publish_asset_def publish_rows_def split: sum.splits if_splits)
  from select_cases [OF assms(1,2) ex] rc Inr that(2) show thesis by cases auto
qed

lemma remove_staged_agrees:
  assumes "asset_codec_ok c" and "agrees c A w" and "remove_staged flt c i (w_rows w) = (r, rows')"
  shows "agrees c A (w\<lparr>w_rows := rows'\<rparr>)"
  using assms agrees_filter [OF assms(1,2), of "\<lambda>r. \<not> (as_asset_id r = aid_to_string c i \<and> as_publication_state r = STAGED)"]
  by (auto simp: remove_staged_def delete_staged_def split: sum.splits)

section \<open>Ingest is atomic\<close>

text \<open>The content a source delivers before it ends.\<close>

fun stream_content :: "octets option list \<Rightarrow> octets" where
  "stream_content (Some chunk # rest) = (if chunk = [] then [] else chunk @ stream_content rest)"
| "stream_content _ = []"

lemma dispatch_triple:
  assumes "\<And>w r rows'. P w \<Longrightarrow> stmt (w_rows w) = (r, rows') \<Longrightarrow> Q r (w\<lparr>w_rows := rows'\<rparr>)"
    and "\<And>w e. P w \<Longrightarrow> Q (Err e) w" and "\<And>w. P w \<Longrightarrow> C w"
  shows "triple P (dispatch_asset p lost stmt) Q C"
  unfolding dispatch_asset_def
  by (rule triple_step) (use assms in \<open>auto split: option.splits prod.splits\<close>)

lemma remove_file_triple: "triple (agrees c A) (remove_file_if_present p name) (\<lambda>r. agrees c A) (agrees c A)"
  unfolding remove_file_if_present_def
  by (rule triple_step) (auto split: if_splits sum.splits)

lemma remove_staged_triple:
  "asset_codec_ok c \<Longrightarrow> triple (agrees c A) (dispatch_remove_staged p c i) (\<lambda>r. agrees c A) (agrees c A)"
  unfolding dispatch_remove_staged_def by (rule dispatch_triple) (auto intro: remove_staged_agrees)

lemma write_chunks_triple:
  "triple (\<lambda>w. agrees c A w \<and> map_of (w_staging w) name = Some (RegularFile acc))
     (write_chunks p name d source acc)
     (\<lambda>r w. agrees c A w \<and> (\<forall>content. r = Ok content \<longrightarrow>
        content = acc @ stream_content source \<and> map_of (w_staging w) name = Some (RegularFile content)))
     (agrees c A)"
proof (induction source arbitrary: acc)
  case Nil
  show ?case by auto
next
  case (Cons x rest)
  show ?case
  proof (cases x)
    case None
    then show ?thesis by auto
  next
    case (Some chunk)
    show ?thesis
    proof (cases "chunk = [] \<or> u64_max < length acc + length chunk \<or> ad_byte_length d < length acc + length chunk")
      case True
      then show ?thesis by (auto simp: Some split: option.splits intro!: triple_return)
    next
      case False
      then have "write_chunks p name d (x # rest) acc = io_try (io_step (\<lambda>w.
          case fs_check p ''staging blob could not be written'' (length acc) of
            Inl e \<Rightarrow> (Err e, w)
          | Inr _ \<Rightarrow> (Ok (), w\<lparr>w_staging := AList.update name (RegularFile (acc @ chunk)) (w_staging w)\<rparr>)))
        (\<lambda>_. write_chunks p name d rest (acc @ chunk))"
        by (simp add: Some checked_add_u64_def)
      moreover have "triple (\<lambda>w. agrees c A w \<and> map_of (w_staging w) name = Some (RegularFile acc))
        (io_step (\<lambda>w. case fs_check p ''staging blob could not be written'' (length acc) of
            Inl e \<Rightarrow> (Err e, w)
          | Inr _ \<Rightarrow> (Ok (), w\<lparr>w_staging := AList.update name (RegularFile (acc @ chunk)) (w_staging w)\<rparr>)))
        (\<lambda>r w. agrees c A w \<and> (r = Ok () \<longrightarrow> map_of (w_staging w) name = Some (RegularFile (acc @ chunk)))) (agrees c A)"
        by (rule triple_step) (auto simp: update_conv' split: sum.splits)
      moreover have "triple (\<lambda>w. agrees c A w \<and> (Ok x = Ok () \<longrightarrow> map_of (w_staging w) name = Some (RegularFile (acc @ chunk))))
        (write_chunks p name d rest (acc @ chunk))
        (\<lambda>r w. agrees c A w \<and> (\<forall>content. r = Ok content \<longrightarrow>
          content = acc @ stream_content (Some chunk # rest) \<and> map_of (w_staging w) name = Some (RegularFile content)))
        (agrees c A)" for x
        by (rule triple_conseq [OF Cons.IH [of "acc @ chunk"]]) (use False in auto)
      ultimately show ?thesis by (auto simp: Some intro!: triple_try)
    qed
  qed
qed

lemma write_staging_triple:
  "triple (agrees c A) (write_staging p name d source)
     (\<lambda>r w. agrees c A w \<and> (\<forall>content. r = Ok content \<longrightarrow>
        content = stream_content source \<and> map_of (w_staging w) name = Some (RegularFile content)))
     (agrees c A)"
  unfolding write_staging_def
proof (rule triple_try [where R = "\<lambda>r w. agrees c A w \<and> (r = Ok () \<longrightarrow> map_of (w_staging w) name = Some (RegularFile []))"])
  show "triple (\<lambda>w. agrees c A w \<and> (Ok x = Ok () \<longrightarrow> map_of (w_staging w) name = Some (RegularFile [])))
     (io_try (write_chunks p name d source []) (\<lambda>content.
      io_try (io_return (fs_check p ''staging blob could not be synchronized'' 0)) (\<lambda>_. io_return (Ok content))))
     (\<lambda>r w. agrees c A w \<and> (\<forall>content. r = Ok content \<longrightarrow>
        content = stream_content source \<and> map_of (w_staging w) name = Some (RegularFile content))) (agrees c A)" for x
  proof (rule triple_try [OF triple_pre [OF write_chunks_triple [of c A name "[]"]]], goal_cases)
    case (2 content)
    show ?case
      by (rule triple_try [where R = "\<lambda>r w. agrees c A w \<and> content = stream_content source \<and> map_of (w_staging w) name = Some (RegularFile content)"])
        auto
  qed auto
qed (auto intro!: triple_step split: if_splits sum.splits simp: update_conv')

definition ingest_post ::
  "('id, 'h) asset_codec \<Rightarrow> ('id \<Rightarrow> (('id, 'h) asset_descriptor \<times> octets) option) \<Rightarrow> ('id, 'h) asset_descriptor \<Rightarrow> octets
   \<Rightarrow> (asset_insert_outcome, ('id, 'h) asset_error) result \<Rightarrow> world \<Rightarrow> bool" where
  "ingest_post c A d content r w \<longleftrightarrow>
     (case r of
        Inl e \<Rightarrow> agrees c A w
      | Inr Existing \<Rightarrow> agrees c A w \<and> (\<exists>bytes. A (ad_asset_id d) = Some (d, bytes))
      | Inr Inserted \<Rightarrow> A (ad_asset_id d) = None \<and> blob_matches c d content \<and>
          agrees c (A(ad_asset_id d \<mapsto> (d, content))) w)"

lemma ingest_post_Err [simp]: "ingest_post c A d content (Inl e) w = agrees c A w"
  by (simp add: ingest_post_def)

lemma cleanup_triple: "triple (agrees c A) (io_try (remove_file_if_present p name) (\<lambda>_. io_return (Err e)))
    (ingest_post c A d content) (agrees c A)"
  by (rule triple_try [OF remove_file_triple]) auto

lemma quarantine_attempts_triple:
  assumes "\<And>w target. P w \<Longrightarrow> P (move_to_quarantine b name target w)"
  shows "triple P (quarantine_attempts p msg b name n k) (\<lambda>r. P) P"
proof (induction k arbitrary: n)
  case 0
  show ?case by auto
next
  case (Suc k)
  show ?case unfolding quarantine_attempts.simps
  proof (rule triple_bind [where R = "\<lambda>r. P"], goal_cases)
    case 1
    show ?case using assms by (cases b) (auto intro!: triple_step split: prod.splits option.splits if_splits)
  next
    case (2 x)
    show ?case using Suc.IH by (auto split: sum.split io_kind.split)
  qed
qed

lemma quarantine_async_triple:
  assumes "asset_codec_ok c" and "A i = None"
  shows "triple (agrees c A) (quarantine_async p (blob_key c i)) (\<lambda>r. agrees c A) (agrees c A)"
  unfolding quarantine_async_def
  by (rule quarantine_attempts_triple)
    (auto simp: move_to_quarantine_def split: option.splits intro: agrees_blob_free(2) [where A = A and i = i, OF assms(1) _ assms(2)])

lemma publish_staged_triple:
  assumes "asset_codec_ok c" and "descriptor_valid c d" and "A (ad_asset_id d) = None" and "blob_matches c d content"
  shows "triple (\<lambda>w. agrees c A w \<and> map_of (w_staging w) name = Some (RegularFile content))
    (publish_staged p c d name) (ingest_post c A d content) (agrees c A)"
proof -
  let ?i = "ad_asset_id d" and ?key = "blob_key c (ad_asset_id d)"
  let ?staged = "\<lambda>w. agrees c A w \<and> staged_row c d \<in> set (w_rows w)"
  let ?ready = "\<lambda>w. ?staged w \<and> map_of (w_blobs w) ?key = Some (RegularFile content)"
  have stage: "triple (\<lambda>w. agrees c A w \<and> map_of (w_staging w) name = Some (RegularFile content)) (dispatch_stage p c d ?key)
    (\<lambda>r w. agrees c A w \<and> r \<noteq> Ok Existing \<and> (r = Ok Inserted \<longrightarrow> ?staged w \<and> map_of (w_staging w) name = Some (RegularFile content))) (agrees c A)"
    unfolding dispatch_stage_def
  proof (rule dispatch_triple)
    fix w r rows'
    assume w: "agrees c A w \<and> map_of (w_staging w) name = Some (RegularFile content)"
      and "stage_asset (p_sql p) c d ?key (w_rows w) = (r, rows')"
    then have inv: "row_inv c (w_rows w)" and st: "stage_asset (p_sql p) c d ?key (w_rows w) = (r, rows')"
      by (auto intro: agrees_row_inv)
    from stage_asset_cases [OF assms(1) inv st]
    show "agrees c A (w\<lparr>w_rows := rows'\<rparr>) \<and> r \<noteq> Ok Existing \<and>
      (r = Ok Inserted \<longrightarrow> ?staged (w\<lparr>w_rows := rows'\<rparr>) \<and> map_of (w_staging (w\<lparr>w_rows := rows'\<rparr>)) name = Some (RegularFile content))"
    proof cases
      case (1 e)
      with w show ?thesis by simp
    next
      case 2
      with w agrees_None [where A = A and i = ?i and w = w and d = d, OF assms(1) _ assms(3)] show ?thesis by simp
    next
      case 3
      with w agrees_stage [OF assms(1) _ assms(2) 3(3)] show ?thesis by simp
    qed
  qed auto
  have rename: "triple (\<lambda>w. agrees c A w \<and> ?staged w \<and> map_of (w_staging w) name = Some (RegularFile content)) (rename_to_blobs p name ?key)
    (\<lambda>r w. agrees c A w \<and> (r = Ok () \<longrightarrow> ?ready w)) (agrees c A)"
    unfolding rename_to_blobs_def
    by (rule triple_step) (auto simp: update_conv' agrees_blob_free(1) [where A = A and i = "ad_asset_id d", OF assms(1) _ assms(3)] split: option.splits if_splits)
  have publish: "triple ?ready (dispatch_publish p c d ?key) (\<lambda>r w. case r of Inl e \<Rightarrow> agrees c A w
      | Inr _ \<Rightarrow> agrees c (A(?i \<mapsto> (d, content))) w) (agrees c A)"
    unfolding dispatch_publish_def
  proof (rule dispatch_triple)
    fix w r rows'
    assume w: "?ready w" and "publish_asset (p_sql p) c d ?key (w_rows w) = (r, rows')"
    from publish_asset_cases [OF assms(1) agrees_row_inv this(2)] w
    show "case r of Inl e \<Rightarrow> agrees c A (w\<lparr>w_rows := rows'\<rparr>) | Inr _ \<Rightarrow> agrees c (A(?i \<mapsto> (d, content))) (w\<lparr>w_rows := rows'\<rparr>)"
      by cases (auto intro: agrees_publish [where A = A, OF assms(1) _ assms(3) _ _ assms(4)])
  qed auto
  have undo: "triple (agrees c A) (io_bind (quarantine_async p ?key) (\<lambda>_. io_bind (dispatch_remove_staged p c ?i) (\<lambda>_. io_return (Err e))))
      (ingest_post c A d content) (agrees c A)" for e
    by (rule triple_bind [OF quarantine_async_triple [where A = A and i = ?i, OF assms(1,3)]], rule triple_bind [OF remove_staged_triple [OF assms(1)]]) auto
  have after_publish: "triple ?ready (io_bind (dispatch_publish p c d ?key) (\<lambda>published. case published of
       Inl e \<Rightarrow> io_bind (quarantine_async p ?key) (\<lambda>_. io_bind (dispatch_remove_staged p c ?i) (\<lambda>_. io_return (Err e)))
     | Inr _ \<Rightarrow> io_return (Ok Inserted))) (ingest_post c A d content) (agrees c A)"
    by (rule triple_bind [OF publish]) (auto split: sum.split intro: undo simp: ingest_post_def assms(3,4))
  have undo_rename: "triple (agrees c A) (io_bind (dispatch_remove_staged p c ?i) (\<lambda>_.
      io_try (remove_file_if_present p name) (\<lambda>_. io_return (Err e)))) (ingest_post c A d content) (agrees c A)" for e
    by (rule triple_bind [OF remove_staged_triple [OF assms(1)]]) (rule cleanup_triple)
  show ?thesis
    unfolding publish_staged_def Let_def
  proof (rule triple_bind [OF stage], goal_cases)
    case (1 x)
    show ?case
    proof (cases x)
      case (Inl e)
      then show ?thesis by (auto intro: triple_pre [OF cleanup_triple])
    next
      case (Inr out)
      show ?thesis
      proof (cases out)
        case Inserted
        show ?thesis unfolding Inr Inserted sum.case asset_insert_outcome.case
        proof (rule triple_bind [OF triple_pre [OF rename]], fast, goal_cases)
          case (1 r)
          show ?case by (cases r) (auto intro: triple_pre [OF undo_rename] triple_pre [OF after_publish])
        qed
      next
        case Existing
        then show ?thesis by (simp add: Inr triple_def)
      qed
    qed
  qed
qed

lemma stage_and_publish_triple:
  assumes "asset_codec_ok c" and "descriptor_valid c d" and "A (ad_asset_id d) = None"
  shows "triple (agrees c A) (stage_and_publish p c d source) (ingest_post c A d (stream_content source)) (agrees c A)"
  unfolding stage_and_publish_def Let_def
proof (rule triple_bind [OF write_staging_triple], goal_cases)
  case (1 x)
  show ?case
  proof (cases x)
    case (Inl e)
    then show ?thesis by (auto intro: triple_pre [OF cleanup_triple])
  next
    case (Inr content)
    show ?thesis
    proof (cases "length content = ad_byte_length d \<and> hash_of c content = ad_content_hash d")
      case True
      then have m: "blob_matches c d content" by (simp add: blob_matches_def)
      have "content = stream_content source \<Longrightarrow> triple (\<lambda>w. agrees c A w \<and>
          map_of (w_staging w) (aid_to_string c (ad_asset_id d) @ ''-'' @ p_part p @ ''.part'') = Some (RegularFile content))
        (publish_staged p c d (aid_to_string c (ad_asset_id d) @ ''-'' @ p_part p @ ''.part''))
        (ingest_post c A d (stream_content source)) (agrees c A)"
        using publish_staged_triple [where A = A, OF assms m] by simp
      then have "triple (\<lambda>w. content = stream_content source \<and> (agrees c A w \<and>
          map_of (w_staging w) (aid_to_string c (ad_asset_id d) @ ''-'' @ p_part p @ ''.part'') = Some (RegularFile content)))
        (publish_staged p c d (aid_to_string c (ad_asset_id d) @ ''-'' @ p_part p @ ''.part''))
        (ingest_post c A d (stream_content source)) (agrees c A)" by (rule triple_fact)
      with True Inr show ?thesis by (auto elim: triple_pre)
    next
      case False
      with Inr show ?thesis by (auto intro: triple_pre [OF cleanup_triple])
    qed
  qed
qed

lemma lookup_cases:
  assumes "asset_codec_ok c" and "agrees c A w" and "lookup p c i w = Ok v"
  obtains "v = None" "A i = None" | r where "v = Some r" "rec_state r = Staged" "A i = None"
  | d bytes where "v = Some \<lparr>rec_descriptor = d, rec_blob_key = blob_key c i, rec_state = Published\<rparr>" "A i = Some (d, bytes)"
proof -
  from assms(3) have s: "select_asset (p_sql p) ''Asset metadata lookup failed'' c i (w_rows w) = Ok v"
    by (auto simp: lookup_def lookup_asset_def split: option.splits)
  have none: "A i = None" if "\<And>d. published_row c d \<in> set (w_rows w) \<Longrightarrow> ad_asset_id d \<noteq> i"
    using that published_asset_None [OF assms(1), of w i] assms(2) by (auto simp: agrees_def)
  note inv = agrees_row_inv [OF assms(2)]
  from select_cases [OF assms(1) inv s] show thesis
  proof cases
    case 1
    then show thesis using that(1) none by fastforce
  next
    case (2 d)
    then have "ad_asset_id d' \<noteq> i" if "published_row c d' \<in> set (w_rows w)" for d'
      using row_inv_unique [OF inv that, of "staged_row c d"] by auto
    with 2 that(2) none show thesis by fastforce
  next
    case (3 d)
    with agrees_Some [OF assms(1,2)] that(3) show thesis by blast
  qed
qed

lemma ingest_triple:
  assumes "asset_codec_ok c" and "descriptor_valid c d"
  shows "triple (agrees c A) (ingest p c d source) (ingest_post c A d (stream_content source)) (agrees c A)"
proof (cases "i64_max < int (ad_byte_length d)")
  case True
  then show ?thesis by (auto simp: ingest_def)
next
  case False
  let ?R = "\<lambda>r w. agrees c A w \<and> (\<forall>v. r = Ok v \<longrightarrow> (v = None \<and> A (ad_asset_id d) = None) \<or> (\<exists>rc. v = Some rc \<and>
      (rec_state rc = Published \<longrightarrow> (\<exists>bytes. A (ad_asset_id d) = Some (rec_descriptor rc, bytes)))))"
  have l: "triple (agrees c A) (io_get (lookup p c (ad_asset_id d))) ?R (agrees c A)"
    by (rule triple_get) (auto elim: lookup_cases [OF assms(1)])
  have "triple (?R (Ok v)) (case v of
       Some r \<Rightarrow> io_return (case rec_state r of
           Published \<Rightarrow> if rec_descriptor r = d then Ok Existing else Err (AssetConflict (ad_asset_id d))
         | Staged \<Rightarrow> Err (AssetInProgress (ad_asset_id d)))
     | None \<Rightarrow> stage_and_publish p c d source) (ingest_post c A d (stream_content source)) (agrees c A)" for v
  proof (cases v)
    case None
    have "triple (\<lambda>w. A (ad_asset_id d) = None \<and> agrees c A w) (stage_and_publish p c d source)
        (ingest_post c A d (stream_content source)) (agrees c A)"
      by (rule triple_fact) (rule stage_and_publish_triple [OF assms])
    with None show ?thesis by (auto elim: triple_pre)
  next
    case (Some r)
    then show ?thesis
      by (auto simp: ingest_post_def split: publication_state.splits)
  qed
  with False show ?thesis unfolding ingest_def Let_def by (auto intro!: triple_try [OF l])
qed

end
