(* ===== verification/Byte_Range.thy ===== *)
theory Byte_Range
  imports Rust_Std
begin

text \<open>
  The HTTP byte-range parser, \<^verbatim>\<open>asset_delivery/range.rs\<close>. Byte positions are
  \<^verbatim>\<open>u64\<close>, kept at their width as \<^typ>\<open>64 word\<close>, so the subtraction and the
  increment of \<^verbatim>\<open>length()\<close> wrap as the machine's do; the lemmas show that on the
  ranges the parser returns they never do. \<^verbatim>\<open>AssetByteRange::new\<close> belongs to the
  Asset runtime crate and is an argument of \<open>asset_range\<close>.
\<close>

section \<open>Data\<close>

record resolved_range =
  rr_start :: "64 word"
  rr_end :: "64 word"

datatype range_parse_error = Malformed | Unsatisfiable | Multiple

section \<open>Operations\<close>

definition resolved_range_new ::
  "64 word \<Rightarrow> 64 word \<Rightarrow> (resolved_range, range_parse_error) result" where
  "resolved_range_new start end' =
     (if start > end' then Err Unsatisfiable else Ok \<lparr>rr_start = start, rr_end = end'\<rparr>)"

definition range_length :: "resolved_range \<Rightarrow> 64 word" where
  "range_length r = rr_end r - rr_start r + 1"

definition asset_range ::
  "(64 word \<Rightarrow> 64 word \<Rightarrow> ('r, 'e) result) \<Rightarrow> resolved_range \<Rightarrow> ('r, range_parse_error) result"
where
  "asset_range asset_byte_range_new r =
     map_err (\<lambda>_. Unsatisfiable) (asset_byte_range_new (rr_start r) (range_length r))"

definition saturating_sub :: "64 word \<Rightarrow> 64 word \<Rightarrow> 64 word" where
  "saturating_sub a b = (if a < b then 0 else a - b)"

text \<open>The part of \<^verbatim>\<open>parse_range\<close> after the \<^verbatim>\<open>bytes=\<close> unit.\<close>

definition parse_range_spec ::
  "string \<Rightarrow> 64 word \<Rightarrow> (resolved_range option, range_parse_error) result" where
  "parse_range_spec spec total_len =
     (if contains_char (CHR '','') spec then Err Multiple
      else and_then (ok_or Malformed (split_once_char (CHR ''-'') spec)) (\<lambda>(first, second).
        if first = [] then
          and_then (ok_or Malformed (parse_u64 second)) (\<lambda>suffix.
            if suffix = 0 \<or> total_len = 0 then Err Unsatisfiable
            else map_ok Some (resolved_range_new (saturating_sub total_len suffix) (total_len - 1)))
        else
          and_then (ok_or Malformed (parse_u64 first)) (\<lambda>start.
            if total_len = 0 \<or> start \<ge> total_len then Err Unsatisfiable
            else if second = [] then map_ok Some (resolved_range_new start (total_len - 1))
            else and_then (ok_or Malformed (parse_u64 second)) (\<lambda>last.
              map_ok Some (resolved_range_new start (min last (total_len - 1)))))))"

definition parse_range ::
  "string \<Rightarrow> 64 word \<Rightarrow> (resolved_range option, range_parse_error) result" where
  "parse_range value total_len =
     (case strip_prefix ''bytes='' value of
        None \<Rightarrow> Err Malformed
      | Some spec \<Rightarrow> parse_range_spec spec total_len)"

section \<open>Well-formed ranges\<close>

text \<open>A range that lies inside an object of \<open>total_len\<close> bytes.\<close>

definition range_within :: "resolved_range \<Rightarrow> 64 word \<Rightarrow> bool" where
  "range_within r total_len \<longleftrightarrow> rr_start r \<le> rr_end r \<and> rr_end r < total_len"

lemma le_pred_iff: "(n :: 64 word) \<noteq> 0 \<Longrightarrow> x \<le> n - 1 \<longleftrightarrow> x < n"
proof -
  assume "n \<noteq> 0"
  then have "0 < unat n" by (simp add: unat_gt_0)
  then show ?thesis using \<open>n \<noteq> 0\<close>
    by (auto simp: word_less_nat_alt word_le_nat_alt unat_minus_one)
qed

lemma pred_less_iff: "(n :: 64 word) \<noteq> 0 \<Longrightarrow> n - 1 < x \<longleftrightarrow> n \<le> x"
  using le_pred_iff [of n x] not_le [of x "n - 1"] not_less [of x n] by blast

lemma pred_less: "(n :: 64 word) \<noteq> 0 \<Longrightarrow> n - 1 < n"
  using le_pred_iff [of n "n - 1"] by simp

lemma resolved_range_new_Ok [simp]:
  "resolved_range_new s e = Inr r \<longleftrightarrow> s \<le> e \<and> r = \<lparr>rr_start = s, rr_end = e\<rparr>"
  by (auto simp: resolved_range_new_def)

lemma range_length_unat:
  assumes "range_within r total_len"
  shows "unat (range_length r) = unat (rr_end r) - unat (rr_start r) + 1"
proof -
  have le: "rr_start r \<le> rr_end r" and lt: "rr_end r < total_len"
    using assms by (auto simp: range_within_def)
  have d: "unat (rr_end r - rr_start r) = unat (rr_end r) - unat (rr_start r)"
    using le by (simp add: unat_sub)
  have "unat (rr_end r) < u64_max"
    using lt unat64_le_max [of total_len] by (simp add: word_less_nat_alt)
  then have "unat (rr_end r - rr_start r) + unat (1 :: 64 word) < 2 ^ LENGTH(64)"
    using d by (simp add: u64_max_def)
  then show ?thesis
    unfolding range_length_def using d by (simp add: unat_add_lem [THEN iffD1])
qed


lemma saturating_sub_le: "saturating_sub a b \<le> a"
  by (auto simp: saturating_sub_def word_sub_le)

lemma saturating_sub_unat: "unat (saturating_sub a b) = unat a - unat b"
  by (auto simp: saturating_sub_def word_less_nat_alt unat_sub word_le_nat_alt not_less)

lemma saturating_sub_le_pred:
  assumes "n \<noteq> 0" and "k \<noteq> 0"
  shows "saturating_sub n k \<le> n - 1"
proof -
  have "0 < unat n" and "0 < unat k" using assms by (simp_all add: unat_gt_0)
  then have "saturating_sub n k < n" by (simp add: word_less_nat_alt saturating_sub_unat)
  with assms(1) show ?thesis by (simp add: le_pred_iff)
qed

section \<open>Rendering a range\<close>

text \<open>Decimal texts never contain the separators, so a rendered range splits back.\<close>

lemma dec_no_sep:
  "c \<in> {CHR '','', CHR ''-'', CHR ''+'', CHR '' ''} \<Longrightarrow> c \<notin> set (dec_of_nat n)"
  by (auto dest!: dec_of_nat_digits simp: is_digit_def)

lemma parse_range_bytes: "parse_range (''bytes='' @ spec) n = parse_range_spec spec n"
  unfolding parse_range_def by (simp only: strip_prefix_append option.case)

lemma split_dash_dec [simp]:
  "split_once_char (CHR ''-'') (dec_of_nat a @ CHR ''-'' # r) = Some (dec_of_nat a, r)"
  by (rule split_once_char_append) (simp add: dec_no_sep)

lemmas range_text_simps = contains_char_def dec_no_sep parse_u64_dec_of_nat dec_of_nat_nonempty

lemma parse_spec_from_to:
  "parse_range_spec (dec_of_nat (unat a) @ CHR ''-'' # dec_of_nat (unat b)) n =
     (if a < n \<and> a \<le> b then Ok (Some \<lparr>rr_start = a, rr_end = min b (n - 1)\<rparr>)
      else Err Unsatisfiable)"
proof (cases "a < n")
  case True
  then have "n \<noteq> 0" by auto
  with True show ?thesis
    by (auto simp: parse_range_spec_def range_text_simps resolved_range_new_def pred_less_iff
        min_less_iff_disj not_le not_less)
next
  case False
  then show ?thesis by (simp add: parse_range_spec_def range_text_simps not_less)
qed

lemma parse_spec_from:
  "parse_range_spec (dec_of_nat (unat a) @ ''-'') n =
     (if a < n then Ok (Some \<lparr>rr_start = a, rr_end = n - 1\<rparr>) else Err Unsatisfiable)"
proof (cases "a < n")
  case True
  then have "n \<noteq> 0" by auto
  with True show ?thesis
    by (auto simp: parse_range_spec_def range_text_simps resolved_range_new_def pred_less_iff not_less)
next
  case False
  then show ?thesis by (simp add: parse_range_spec_def range_text_simps not_less)
qed

lemma parse_spec_suffix:
  "parse_range_spec (CHR ''-'' # dec_of_nat (unat k)) n =
     (if k \<noteq> 0 \<and> n \<noteq> 0
      then Ok (Some \<lparr>rr_start = saturating_sub n k, rr_end = n - 1\<rparr>) else Err Unsatisfiable)"
proof (cases "k \<noteq> 0 \<and> n \<noteq> 0")
  case True
  then have "\<not> n - 1 < saturating_sub n k" by (simp add: saturating_sub_le_pred not_less)
  with True show ?thesis
    by (simp add: parse_range_spec_def range_text_simps resolved_range_new_def)
next
  case False
  then show ?thesis by (auto simp: parse_range_spec_def range_text_simps)
qed

lemma parse_range_spec_within:
  assumes "parse_range_spec spec n = Inr v"
  shows "\<exists>r. v = Some r \<and> range_within r n"
  using assms pred_less [of n]
  by (auto simp: parse_range_spec_def range_within_def min_less_iff_disj
      split: if_splits prod.splits)

section \<open>Properties\<close>

text \<open>
  Whatever header text arrives, a range the parser returns lies inside the object:
  first position at most the last, last position before the end. Its length is then the
  number of positions, computed without wrap-around, positive, and at most the object's
  length. The parser never answers \<open>Ok(None)\<close>.
\<close>

theorem parse_range_within:
  assumes "parse_range value n = Inr v"
  shows "\<exists>r. v = Some r \<and> range_within r n
           \<and> unat (range_length r) = unat (rr_end r) - unat (rr_start r) + 1
           \<and> 0 < unat (range_length r)
           \<and> unat (rr_start r) + unat (range_length r) \<le> unat n"
proof -
  from assms obtain r where v: "v = Some r" and w: "range_within r n"
    using parse_range_spec_within by (fastforce simp: parse_range_def split: option.splits)
  from w have "unat (range_length r) = unat (rr_end r) - unat (rr_start r) + 1"
    by (rule range_length_unat)
  with v w show ?thesis
    by (auto simp: range_within_def word_le_nat_alt word_less_nat_alt)
qed

theorem parse_range_within_witness:
  "\<exists>r. Some \<lparr>rr_start = 6, rr_end = 9\<rparr> = Some r \<and> range_within r 10
     \<and> unat (range_length r) = unat (rr_end r) - unat (rr_start r) + 1
     \<and> 0 < unat (range_length r) \<and> unat (rr_start r) + unat (range_length r) \<le> unat (10 :: 64 word)"
proof (rule parse_range_within)
  show "parse_range ''bytes=-4'' 10 = Inr (Some \<lparr>rr_start = 6, rr_end = 9\<rparr>)" by code_simp
qed

text \<open>
  The three forms of a byte range mean what the HTTP specification says, for all 64-bit
  positions: \<open>a-b\<close> is the intersection of \<open>[a, b]\<close> with the object and is refused
  when that is empty, \<open>a-\<close> runs to the end, \<open>-k\<close> is the last \<open>k\<close> bytes (the whole
  object when it is shorter).
\<close>

theorem parse_range_forms:
  "parse_range (''bytes='' @ dec_of_nat (unat a) @ ''-'' @ dec_of_nat (unat b)) n =
     (if a < n \<and> a \<le> b then Ok (Some \<lparr>rr_start = a, rr_end = min b (n - 1)\<rparr>)
      else Err Unsatisfiable)
   \<and> parse_range (''bytes='' @ dec_of_nat (unat a) @ ''-'') n =
     (if a < n then Ok (Some \<lparr>rr_start = a, rr_end = n - 1\<rparr>) else Err Unsatisfiable)
   \<and> parse_range (''bytes=-'' @ dec_of_nat (unat k)) n =
     (if k \<noteq> 0 \<and> n \<noteq> 0
      then Ok (Some \<lparr>rr_start = saturating_sub n k, rr_end = n - 1\<rparr>) else Err Unsatisfiable)"
proof -
  have "''bytes=-'' @ dec_of_nat (unat k) = ''bytes='' @ CHR ''-'' # dec_of_nat (unat k)" by simp
  then have "parse_range (''bytes=-'' @ dec_of_nat (unat k)) n =
      parse_range_spec (CHR ''-'' # dec_of_nat (unat k)) n"
    by (metis parse_range_bytes)
  then show ?thesis
    unfolding parse_range_bytes
    using parse_spec_from_to [of a b n] parse_spec_from [of a n] parse_spec_suffix [of k n] by simp
qed

text \<open>A plus sign before a position is accepted, since \<^verbatim>\<open>str::parse\<close> accepts it.\<close>

lemma parse_range_accepts_plus:
  "parse_range ''bytes=+0-+3'' 10 = Ok (Some \<lparr>rr_start = 0, rr_end = 3\<rparr>)"
  by code_simp

end
