(* ===== verification/Grant.thy ===== *)
theory Grant
  imports Rust_Std "HOL-Library.AList"
begin

unbundle bit_operations_syntax

text \<open>
  Short-lived Asset access grants, \<^verbatim>\<open>asset_delivery/grant.rs\<close>: the base64url codec
  of the bearer token, with its 32-bit accumulator kept as a word, and the bounded
  registry that stores grants under the digest of the token's raw bytes.

  SHA-256 (\<^verbatim>\<open>sha2\<close>), the operating system's random source (\<^verbatim>\<open>getrandom\<close>) and
  OrbitRelay's \<^verbatim>\<open>Timestamp\<close> are not part of the repository. They are arguments: the
  digest function, the bytes drawn (\<open>None\<close> when the source fails) and the two
  conversions of a timestamp. The registry's \<^verbatim>\<open>HashMap\<close> is an association list with
  distinct keys, so that \<^verbatim>\<open>len()\<close> is its length.
\<close>

type_synonym bytes = "8 word list"

section \<open>The base64url codec\<close>

definition b64_table :: string where
  "b64_table = ''ABCDEFGHIJKLMNOPQRSTUVWXYZabcdefghijklmnopqrstuvwxyz0123456789-_''"

text \<open>The inner loop \<^verbatim>\<open>while bits >= 6\<close>.\<close>

fun b64_emit :: "32 word \<Rightarrow> nat \<Rightarrow> string \<Rightarrow> nat \<times> string" where
  "b64_emit buffer bits output =
     (if 6 \<le> bits
      then b64_emit buffer (bits - 6)
             (output @ [b64_table ! unat (drop_bit (bits - 6) buffer AND 0x3f)])
      else (bits, output))"

declare b64_emit.simps [simp del]

fun b64_loop :: "bytes \<Rightarrow> 32 word \<Rightarrow> nat \<Rightarrow> string \<Rightarrow> 32 word \<times> nat \<times> string" where
  "b64_loop [] buffer bits output = (buffer, bits, output)"
| "b64_loop (byte # rest) buffer bits output =
     (let buffer' = push_bit 8 buffer OR ucast byte;
          (bits', output') = b64_emit buffer' (bits + 8) output
      in b64_loop rest buffer' bits' output')"

definition base64url :: "bytes \<Rightarrow> string" where
  "base64url bytes =
     (case b64_loop bytes 0 0 [] of (buffer, bits, output) \<Rightarrow>
        if 0 < bits then output @ [b64_table ! unat (push_bit (6 - bits) buffer AND 0x3f)]
        else output)"

definition b64_value :: "char \<Rightarrow> 32 word option" where
  "b64_value c =
     (let byte = (of_char c :: nat) in
      if 65 \<le> byte \<and> byte \<le> 90 then Some (of_nat (byte - 65))
      else if 97 \<le> byte \<and> byte \<le> 122 then Some (of_nat (byte - 97 + 26))
      else if 48 \<le> byte \<and> byte \<le> 57 then Some (of_nat (byte - 48 + 52))
      else if byte = 45 then Some 62
      else if byte = 95 then Some 63
      else None)"

fun decode_loop :: "string \<Rightarrow> 32 word \<Rightarrow> nat \<Rightarrow> bytes \<Rightarrow> bytes option" where
  "decode_loop [] buffer bits output = Some output"
| "decode_loop (c # cs) buffer bits output =
     (case b64_value c of
        None \<Rightarrow> None
      | Some v \<Rightarrow>
          (let buffer' = push_bit 6 buffer OR v; bits' = bits + 6
           in if 8 \<le> bits'
              then decode_loop cs buffer' (bits' - 8)
                     (output @ [ucast (drop_bit (bits' - 8) buffer' AND 0xff)])
              else decode_loop cs buffer' bits' output))"

definition decode_base64url :: "string \<Rightarrow> bytes option" where
  "decode_base64url value =
     (if value = [] \<or> contains_char (CHR ''='') value then None
      else decode_loop value 0 0 [])"

section \<open>The grant registry\<close>

record ('id, 'ts) asset_access_grant =
  grant_asset_id :: 'id
  grant_actor_id :: 'id
  grant_session_id :: 'id
  grant_document_id :: 'id
  grant_expires_at :: 'ts

datatype grant_error = GrantUnavailable | GrantRandomness | GrantUnauthorized

record ('id, 'ts) grant_issuer =
  entries :: "(bytes \<times> ('id, 'ts) asset_access_grant) list"
  ttl_seconds :: int
  max_grants :: nat

text \<open>What the registry uses of \<^verbatim>\<open>orbitrelay_core::Timestamp\<close>.\<close>

record 'ts timestamp_ops =
  unix_timestamp :: "'ts \<Rightarrow> int"
  from_unix_timestamp :: "int \<Rightarrow> 'ts option"

definition issuer_new :: "int \<Rightarrow> nat \<Rightarrow> ('id, 'ts) grant_issuer" where
  "issuer_new ttl mx = \<lparr>entries = [], ttl_seconds = ttl, max_grants = mx\<rparr>"

definition issue ::
  "'ts timestamp_ops \<Rightarrow> (bytes \<Rightarrow> bytes) \<Rightarrow> 'ts \<Rightarrow> bytes option
   \<Rightarrow> 'id \<Rightarrow> 'id \<Rightarrow> 'id \<Rightarrow> 'id \<Rightarrow> ('id, 'ts) grant_issuer
   \<Rightarrow> (string \<times> ('id, 'ts) asset_access_grant, grant_error) result \<times> ('id, 'ts) grant_issuer"
where
  "issue ts digest now random asset_id actor_id session_id document_id s =
     (case from_unix_timestamp ts (saturating_add_i64 (unix_timestamp ts now) (ttl_seconds s)) of
        None \<Rightarrow> (Err GrantUnavailable, s)
      | Some expires_at \<Rightarrow>
          (let retained = filter (\<lambda>(_, g). unix_timestamp ts (grant_expires_at g) > unix_timestamp ts now)
                                 (entries s);
               s' = s\<lparr>entries := retained\<rparr>
           in if length retained \<ge> max_grants s then (Err GrantUnavailable, s')
              else (case random of
                 None \<Rightarrow> (Err GrantRandomness, s')
               | Some raw \<Rightarrow>
                   (let grant = \<lparr>grant_asset_id = asset_id, grant_actor_id = actor_id,
                                 grant_session_id = session_id, grant_document_id = document_id,
                                 grant_expires_at = expires_at\<rparr>
                    in (Ok (base64url raw, grant),
                        s\<lparr>entries := AList.update (digest raw) grant retained\<rparr>)))))"

definition validate ::
  "'ts timestamp_ops \<Rightarrow> (bytes \<Rightarrow> bytes) \<Rightarrow> 'ts \<Rightarrow> string \<Rightarrow> 'id \<Rightarrow> ('id, 'ts) grant_issuer
   \<Rightarrow> (('id, 'ts) asset_access_grant, grant_error) result \<times> ('id, 'ts) grant_issuer" where
  "validate ts digest now token asset_id s =
     (if length token \<noteq> 43 then (Err GrantUnauthorized, s)
      else (case decode_base64url token of
         None \<Rightarrow> (Err GrantUnauthorized, s)
       | Some raw \<Rightarrow>
           if length raw \<noteq> 32 then (Err GrantUnauthorized, s)
           else if base64url raw \<noteq> token then (Err GrantUnauthorized, s)
           else (case map_of (entries s) (digest raw) of
              None \<Rightarrow> (Err GrantUnauthorized, s)
            | Some grant \<Rightarrow>
                if unix_timestamp ts (grant_expires_at grant) \<le> unix_timestamp ts now
                then (Err GrantUnauthorized, s\<lparr>entries := AList.delete (digest raw) (entries s)\<rparr>)
                else if grant_asset_id grant \<noteq> asset_id then (Err GrantUnauthorized, s)
                else (Ok grant, s))))"

definition issuer_len :: "('id, 'ts) grant_issuer \<Rightarrow> nat" where
  "issuer_len s = length (entries s)"

section \<open>Correctness of the codec\<close>

text \<open>
  Both loops are related to the bit string of their input: \<open>wbits k w\<close> lists the low \<open>k\<close>
  bits of a word from the most significant one, \<open>bbits\<close> and \<open>sbits\<close> those of a byte
  string and of a token. The accumulator keeps fewer than six (encoder) or eight (decoder)
  pending bits, so shifting it left by eight or six never loses one of them.
\<close>

definition wbits :: "nat \<Rightarrow> 'a::len word \<Rightarrow> bool list" where
  "wbits k w = map (bit w) (rev [0..<k])"

definition bbits :: "bytes \<Rightarrow> bool list" where
  "bbits bs = concat (map (wbits 8) bs)"

definition cbits :: "char \<Rightarrow> bool list" where
  "cbits c = wbits 6 (the (b64_value c))"

definition sbits :: "string \<Rightarrow> bool list" where
  "sbits s = concat (map cbits s)"

definition b64_text :: "string \<Rightarrow> bool" where
  "b64_text s \<longleftrightarrow> set s \<subseteq> set b64_table"

lemma wbits_length [simp]: "length (wbits k w) = k"
  by (simp add: wbits_def)

lemma wbits_split: "wbits (j + k) w = wbits j (drop_bit k w) @ wbits k w"
proof -
  have "[0..<j + k] = [0..<k] @ map (\<lambda>i. i + k) [0..<j]"
    using upt_add_eq_append [of 0 k j] by (simp add: map_add_upt add.commute)
  then show ?thesis
    by (simp add: wbits_def rev_map bit_drop_bit_eq comp_def add.commute)
qed

lemma wbits_cong: "(\<And>i. i < k \<Longrightarrow> bit v i = bit w i) \<Longrightarrow> wbits k v = wbits k w"
  by (simp add: wbits_def)

lemma wbits_inject8: "wbits 8 (v :: 8 word) = wbits 8 w \<longleftrightarrow> v = w"
proof
  assume eq: "wbits 8 v = wbits 8 w"
  show "v = w"
  proof (rule bit_word_eqI)
    fix n assume "n < LENGTH(8)"
    with eq show "bit v n = bit w n" by (auto simp: wbits_def)
  qed
qed simp

lemma mask_consts: "(0x3f :: 32 word) = mask 6" "(0xff :: 32 word) = mask 8"
  by code_simp+

lemma table_values: "map b64_value b64_table = map (\<lambda>i. Some (of_nat i)) [0..<64]"
  by (simp add: b64_table_def b64_value_def Let_def upt_conv_Cons)

lemma table_length: "length b64_table = 64"
  by (simp add: b64_table_def)

lemma b64_value_table: "i < 64 \<Longrightarrow> b64_value (b64_table ! i) = Some (of_nat i)"
  by (metis (no_types, lifting) add_0 diff_zero length_upt nth_map nth_upt table_length table_values)

lemma b64_index_less: "unat ((w :: 32 word) AND 0x3f) < 64"
proof -
  have "unat (w AND 0x3f) \<le> unat (0x3f :: 32 word)"
    by (rule word_and_le1 [THEN word_le_nat_alt [THEN iffD1]])
  then show ?thesis by simp
qed

lemma cbits_table: "cbits (b64_table ! unat ((w :: 32 word) AND 0x3f)) = wbits 6 w"
  using b64_index_less [of w]
  by (simp add: cbits_def b64_value_table mask_consts)
    (rule wbits_cong, simp add: bit_and_iff bit_mask_iff)

lemma table_index_in: "b64_table ! unat ((w :: 32 word) AND 0x3f) \<in> set b64_table"
  using b64_index_less [of w] by (simp add: table_length)

lemma wbits_push_byte:
  assumes "n + 8 \<le> 32"
  shows "wbits (n + 8) (push_bit 8 (buffer :: 32 word) OR ucast (byte :: 8 word)) = wbits n buffer @ wbits 8 byte"
proof -
  have "wbits n (drop_bit 8 (push_bit 8 buffer OR ucast byte)) = wbits n buffer"
    using assms by (intro wbits_cong)
      (auto simp: bit_drop_bit_eq bit_or_iff bit_push_bit_iff bit_ucast_iff dest: bit_imp_le_length)
  moreover have "wbits 8 (push_bit 8 buffer OR ucast byte) = wbits 8 byte"
    by (simp add: wbits_def bit_or_iff bit_push_bit_iff bit_ucast_iff)
  ultimately show ?thesis by (simp add: wbits_split [of n 8])
qed

lemma wbits_push_value:
  assumes "n + 6 \<le> 32" and "v = of_nat i" and "i < 64"
  shows "wbits (n + 6) (push_bit 6 (buffer :: 32 word) OR v) = wbits n buffer @ wbits 6 v"
proof -
  have v: "\<not> bit v j" if "6 \<le> j" for j
  proof -
    have "(2::nat) ^ 6 \<le> 2 ^ j" using that by (intro power_increasing) auto
    with assms(3) have "i < 2 ^ j" by simp
    then have "\<not> bit i j" by (simp add: bit_iff_odd)
    with assms(2) show ?thesis by (simp add: bit_of_nat_iff)
  qed
  have "wbits n (drop_bit 6 (push_bit 6 buffer OR v)) = wbits n buffer"
    using assms(1) v by (intro wbits_cong)
      (auto simp: bit_drop_bit_eq bit_or_iff bit_push_bit_iff)
  moreover have "wbits 6 (push_bit 6 buffer OR v) = wbits 6 v"
    by (simp add: wbits_def bit_or_iff bit_push_bit_iff)
  ultimately show ?thesis by (simp add: wbits_split [of n 6])
qed

lemma sbits_simps [simp]: "sbits [] = []" "sbits (s @ t) = sbits s @ sbits t" "sbits (c # s) = cbits c @ sbits s"
  by (simp_all add: sbits_def)

lemma bbits_simps [simp]: "bbits [] = []" "bbits (s @ t) = bbits s @ bbits t" "bbits (b # s) = wbits 8 b @ bbits s"
  by (simp_all add: bbits_def)

lemma b64_text_simps [simp]: "b64_text []" "b64_text (s @ t) \<longleftrightarrow> b64_text s \<and> b64_text t"
  "b64_text (c # s) \<longleftrightarrow> c \<in> set b64_table \<and> b64_text s"
  by (auto simp: b64_text_def)

lemma bbits_length [simp]: "length (bbits bs) = 8 * length bs"
  by (induction bs) auto

lemma cbits_length [simp]: "length (cbits c) = 6"
  by (simp add: cbits_def)

lemma sbits_length [simp]: "length (sbits s) = 6 * length s"
  by (induction s) auto

lemma bbits_inject: "length xs = length ys \<Longrightarrow> bbits xs = bbits ys \<longleftrightarrow> xs = ys"
  by (induction xs ys rule: list_induct2) (auto simp: wbits_inject8)

lemma b64_emit_spec:
  "b64_emit buffer bits acc = (bits', acc') \<Longrightarrow> b64_text acc \<Longrightarrow>
     bits' < 6 \<and> b64_text acc' \<and> sbits acc' @ wbits bits' buffer = sbits acc @ wbits bits buffer"
proof (induction buffer bits acc rule: b64_emit.induct)
  case (1 buffer bits acc)
  show ?case
  proof (cases "6 \<le> bits")
    case True
    then have "wbits bits buffer = wbits 6 (drop_bit (bits - 6) buffer) @ wbits (bits - 6) buffer"
      using wbits_split [of 6 "bits - 6" buffer] by simp
    with True 1 show ?thesis
      by (simp add: b64_emit.simps [of buffer bits] cbits_table table_index_in)
  next
    case False
    with 1 show ?thesis by (simp add: b64_emit.simps [of buffer bits])
  qed
qed

lemma b64_loop_spec:
  "b64_loop bs buffer bits acc = (buffer', bits', acc') \<Longrightarrow> bits < 6 \<Longrightarrow> b64_text acc \<Longrightarrow>
     bits' < 6 \<and> b64_text acc' \<and>
     sbits acc' @ wbits bits' buffer' = sbits acc @ wbits bits buffer @ bbits bs"
proof (induction bs buffer bits acc rule: b64_loop.induct)
  case (1 buffer bits acc)
  then show ?case by simp
next
  case (2 byte rest buffer bits acc)
  define b where "b = push_bit 8 buffer OR ucast byte"
  obtain n t where e: "b64_emit b (bits + 8) acc = (n, t)" by fastforce
  from b64_emit_spec [OF e] "2.prems" have et: "n < 6" "b64_text t"
    "sbits t @ wbits n b = sbits acc @ wbits (bits + 8) b" by auto
  have "wbits (bits + 8) b = wbits bits buffer @ wbits 8 byte"
    unfolding b_def using "2.prems"(2) by (intro wbits_push_byte) simp
  moreover have "b64_loop rest b n t = (buffer', bits', acc')"
    using "2.prems"(1) e by (simp add: b_def Let_def)
  ultimately show ?case using "2.IH" [OF b_def e [symmetric] refl] et by simp
qed

lemma decode_loop_spec:
  "b64_text s \<Longrightarrow> bits < 8 \<Longrightarrow>
     \<exists>buffer' bits' acc'. decode_loop s buffer bits acc = Some acc' \<and> bits' < 8 \<and>
       bbits acc' @ wbits bits' (buffer' :: 32 word) = bbits acc @ wbits bits buffer @ sbits s"
proof (induction s buffer bits acc rule: decode_loop.induct)
  case (1 buffer bits acc)
  then show ?case by auto
next
  case (2 c cs buffer bits acc)
  from "2.prems"(1) have "c \<in> set b64_table" by simp
  then obtain i where i: "i < 64" "c = b64_table ! i" by (metis in_set_conv_nth table_length)
  then have v: "b64_value c = Some (of_nat i)" by (simp add: b64_value_table)
  define b where "b = push_bit 6 buffer OR (of_nat i :: 32 word)"
  have w: "wbits (bits + 6) b = wbits bits buffer @ cbits c"
    using wbits_push_value [of bits "of_nat i" i buffer] "2.prems"(2) i v by (simp add: b_def cbits_def)
  show ?case
  proof (cases "8 \<le> bits + 6")
    case True
    define x :: "8 word" where "x = ucast (drop_bit (bits + 6 - 8) b AND 0xff)"
    have "wbits 8 x = wbits 8 (drop_bit (bits + 6 - 8) b)"
      by (simp add: x_def wbits_def bit_ucast_iff mask_consts bit_and_iff bit_mask_iff)
    then have "wbits bits buffer @ cbits c = wbits 8 x @ wbits (bits + 6 - 8) b"
      using wbits_split [of 8 "bits + 6 - 8" b] True w by (simp add: add.commute)
    moreover have "decode_loop (c # cs) buffer bits acc = decode_loop cs b (bits + 6 - 8) (acc @ [x])"
      unfolding x_def b_def using True by (simp add: v Let_def)
    moreover have "\<exists>buffer' bits' acc'. decode_loop cs b (bits + 6 - 8) (acc @ [x]) = Some acc' \<and>
        bits' < 8 \<and> bbits acc' @ wbits bits' (buffer' :: 32 word) =
          bbits (acc @ [x]) @ wbits (bits + 6 - 8) b @ sbits cs"
      unfolding x_def using "2.prems" True by (intro "2.IH"(1) [OF v b_def refl True]) simp_all
    ultimately show ?thesis by (simp del: decode_loop.simps flip: append_assoc)
  next
    case False
    have "decode_loop (c # cs) buffer bits acc = decode_loop cs b (bits + 6) acc"
      unfolding b_def using False by (simp add: v Let_def)
    with False w "2.IH"(2) [OF v b_def refl False] "2.prems" show ?thesis
      by (simp flip: append_assoc)
  qed
qed

lemma cbits_padded:
  assumes "n < 6"
  shows "cbits (b64_table ! unat (push_bit (6 - n) (buffer :: 32 word) AND 0x3f)) =
    wbits n buffer @ replicate (6 - n) False"
proof -
  have "wbits n (drop_bit (6 - n) (push_bit (6 - n) buffer)) = wbits n buffer"
    using assms by (intro wbits_cong) (auto simp: bit_drop_bit_eq bit_push_bit_iff)
  moreover have "wbits (6 - n) (push_bit (6 - n) buffer) = replicate (6 - n) False"
    by (intro nth_equalityI) (auto simp: wbits_def rev_nth bit_push_bit_iff)
  ultimately show ?thesis
    using assms wbits_split [of n "6 - n" "push_bit (6 - n) buffer"] by (simp add: cbits_table)
qed

lemma base64url_bits:
  "b64_text (base64url bs) \<and> (\<exists>k < 6. sbits (base64url bs) = bbits bs @ replicate k False)"
proof -
  obtain buffer n t where e: "b64_loop bs 0 0 [] = (buffer, n, t)" by (metis prod_cases3)
  from b64_loop_spec [OF e] have l: "n < 6" "b64_text t" "sbits t @ wbits n buffer = bbits bs"
    by (simp_all add: wbits_def)
  show ?thesis
  proof (cases "0 < n")
    case True
    then have "6 - n < 6" by simp
    with True l e show ?thesis
      by (auto simp: base64url_def cbits_padded table_index_in intro!: exI [of _ "6 - n"])
  next
    case False
    with l e show ?thesis by (auto simp: base64url_def wbits_def intro!: exI [of _ 0])
  qed
qed

lemma base64url_length: "length (base64url bs) = (8 * length bs + 5) div 6"
proof -
  obtain k where k: "k < 6" "sbits (base64url bs) = bbits bs @ replicate k False"
    using base64url_bits by blast
  then have "6 * length (base64url bs) = 8 * length bs + k"
    by (metis bbits_length length_append length_replicate sbits_length)
  with k(1) show ?thesis by linarith
qed

lemma decode_base64url_text:
  assumes "b64_text s" and "s \<noteq> []"
  shows "\<exists>out rest. decode_base64url s = Some out \<and> length rest < 8 \<and> bbits out @ rest = sbits s"
proof -
  have "CHR ''='' \<notin> set s" using assms(1) by (auto simp: b64_text_def b64_table_def)
  then have "decode_base64url s = decode_loop s 0 0 []"
    using assms(2) by (simp add: decode_base64url_def contains_char_def)
  moreover obtain buffer n out where "decode_loop s 0 0 [] = Some out" "n < 8"
      "bbits out @ wbits n (buffer :: 32 word) = sbits s"
    using decode_loop_spec [OF assms(1), of 0 0 "[]"] by (auto simp: wbits_def)
  ultimately show ?thesis by (metis wbits_length)
qed

lemma base64url_roundtrip:
  assumes "bs \<noteq> []"
  shows "decode_base64url (base64url bs) = Some bs"
proof -
  obtain k where k: "k < 6" "sbits (base64url bs) = bbits bs @ replicate k False"
    using base64url_bits by blast
  have "base64url bs \<noteq> []" using base64url_length [of bs] assms by (cases bs) auto
  then obtain out rest where o: "decode_base64url (base64url bs) = Some out" "length rest < 8"
      "bbits out @ rest = sbits (base64url bs)"
    using decode_base64url_text base64url_bits by blast
  from o(3) k(2) have eq: "bbits out @ rest = bbits bs @ replicate k False" by simp
  then have "8 * length out + length rest = 8 * length bs + k"
    by (metis bbits_length length_append length_replicate)
  with k(1) o(2) have "length out = length bs" by linarith
  with eq o(1) show ?thesis by (simp add: bbits_inject)
qed

interpretation b64: codec base64url decode_base64url "\<lambda>bs. bs \<noteq> []"
  by unfold_locales (rule base64url_roundtrip)

section \<open>Runs of the registry\<close>

datatype ('id, 'ts) grant_call =
    IssueCall 'ts "bytes option" 'id 'id 'id 'id
  | ValidateCall 'ts string 'id

fun grant_step ::
  "'ts timestamp_ops \<Rightarrow> (bytes \<Rightarrow> bytes) \<Rightarrow> ('id, 'ts) grant_call
   \<Rightarrow> ('id, 'ts) grant_issuer \<Rightarrow> ('id, 'ts) grant_issuer" where
  "grant_step ts digest (IssueCall now random asset actor session doc) s =
     snd (issue ts digest now random asset actor session doc s)"
| "grant_step ts digest (ValidateCall now token asset) s = snd (validate ts digest now token asset s)"

definition grant_run ::
  "'ts timestamp_ops \<Rightarrow> (bytes \<Rightarrow> bytes) \<Rightarrow> ('id, 'ts) grant_call list
   \<Rightarrow> ('id, 'ts) grant_issuer \<Rightarrow> ('id, 'ts) grant_issuer" where
  "grant_run ts digest calls s = fold (grant_step ts digest) calls s"

fun call_now :: "('id, 'ts) grant_call \<Rightarrow> 'ts" where
  "call_now (IssueCall now _ _ _ _ _) = now"
| "call_now (ValidateCall now _ _) = now"

fun call_raw :: "('id, 'ts) grant_call \<Rightarrow> bytes option" where
  "call_raw (IssueCall _ random _ _ _ _) = random"
| "call_raw (ValidateCall _ _ _) = None"

definition issuer_inv :: "('id, 'ts) grant_issuer \<Rightarrow> bool" where
  [inv_defs]: "issuer_inv s \<longleftrightarrow> distinct (map fst (entries s)) \<and> length (entries s) \<le> max_grants s"

text \<open>The documented round trip of \<^verbatim>\<open>Timestamp::from_unix_timestamp\<close>.\<close>

definition timestamp_ok :: "'ts timestamp_ops \<Rightarrow> bool" where
  "timestamp_ok ts \<longleftrightarrow> (\<forall>n t. from_unix_timestamp ts n = Some t \<longrightarrow> unix_timestamp ts t = n)"

lemma map_of_filter_val:
  assumes "distinct (map fst xs)"
  shows "map_of (filter (\<lambda>(k, v). P v) xs) k =
    (case map_of xs k of Some v \<Rightarrow> if P v then Some v else None | None \<Rightarrow> None)"
  using assms by (induction xs) (auto simp: image_iff split: option.splits dest: map_of_SomeD)

lemma distinct_fst_filter: "distinct (map fst xs) \<Longrightarrow> distinct (map fst (filter P xs))"
  by (simp add: distinct_map_filter)

lemma length_alist_update: "length (AList.update k v xs) \<le> Suc (length xs)"
  by (induction xs) auto

lemma length_alist_delete: "length (AList.delete k xs) \<le> length xs"
  by (simp add: AList.delete_eq)

text \<open>
  The sixteen branches of the two operations, as facts about the resulting registry: an
  issue keeps the unexpired entries and adds at most one, a validation removes at most the
  expired entry it looked at.
\<close>

lemma issue_cases:
  obtains (no_expiry) "from_unix_timestamp ts (saturating_add_i64 (unix_timestamp ts now) (ttl_seconds s)) = None"
      "issue ts digest now random a b c d s = (Err GrantUnavailable, s)"
  | (full) retained where
      "retained = filter (\<lambda>(_, g). unix_timestamp ts now < unix_timestamp ts (grant_expires_at g)) (entries s)"
      "max_grants s \<le> length retained"
      "issue ts digest now random a b c d s = (Err GrantUnavailable, s\<lparr>entries := retained\<rparr>)"
  | (no_random) retained where
      "retained = filter (\<lambda>(_, g). unix_timestamp ts now < unix_timestamp ts (grant_expires_at g)) (entries s)"
      "random = None"
      "issue ts digest now random a b c d s = (Err GrantRandomness, s\<lparr>entries := retained\<rparr>)"
  | (issued) retained raw expires_at grant where
      "retained = filter (\<lambda>(_, g). unix_timestamp ts now < unix_timestamp ts (grant_expires_at g)) (entries s)"
      "length retained < max_grants s" "random = Some raw"
      "from_unix_timestamp ts (saturating_add_i64 (unix_timestamp ts now) (ttl_seconds s)) = Some expires_at"
      "grant = \<lparr>grant_asset_id = a, grant_actor_id = b, grant_session_id = c, grant_document_id = d,
                grant_expires_at = expires_at\<rparr>"
      "issue ts digest now random a b c d s =
         (Ok (base64url raw, grant), s\<lparr>entries := AList.update (digest raw) grant retained\<rparr>)"
proof (cases "from_unix_timestamp ts (saturating_add_i64 (unix_timestamp ts now) (ttl_seconds s))")
  case None
  then show ?thesis by (intro no_expiry) (simp_all add: issue_def)
next
  case (Some t)
  define retained where "retained =
    filter (\<lambda>(_, g). unix_timestamp ts now < unix_timestamp ts (grant_expires_at g)) (entries s)"
  show ?thesis
  proof (cases "max_grants s \<le> length retained")
    case True
    then show ?thesis
      using Some by (intro full [OF retained_def]) (simp_all add: issue_def retained_def)
  next
    case False
    show ?thesis
    proof (cases random)
      case None
      with False Some show ?thesis
        by (intro no_random [OF retained_def]) (simp_all add: issue_def retained_def)
    next
      case (Some raw)
      with False \<open>from_unix_timestamp ts _ = Some t\<close> show ?thesis
        by (intro issued [OF retained_def _ Some _ refl]) (simp_all add: issue_def retained_def Let_def)
    qed
  qed
qed

text \<open>
  \<open>validate\<close> accepts exactly the canonical text of 32 bytes whose digest is registered
  for the requested Asset with an expiry in the future, and returns that registration. In
  particular a non-canonical spelling of a live token (other trailing bits) is refused.
\<close>

lemma validate_accepts_iff:
  "fst (validate ts digest now token asset s) = Ok g \<longleftrightarrow>
     (\<exists>raw. length raw = 32 \<and> token = base64url raw \<and>
        map_of (entries s) (digest raw) = Some g \<and>
        unix_timestamp ts now < unix_timestamp ts (grant_expires_at g) \<and>
        grant_asset_id g = asset)"
proof
  assume "fst (validate ts digest now token asset s) = Ok g"
  then show "\<exists>raw. length raw = 32 \<and> token = base64url raw \<and>
        map_of (entries s) (digest raw) = Some g \<and>
        unix_timestamp ts now < unix_timestamp ts (grant_expires_at g) \<and> grant_asset_id g = asset"
    by (auto simp: validate_def split: if_splits option.splits)
next
  assume "\<exists>raw. length raw = 32 \<and> token = base64url raw \<and>
        map_of (entries s) (digest raw) = Some g \<and>
        unix_timestamp ts now < unix_timestamp ts (grant_expires_at g) \<and> grant_asset_id g = asset"
  then obtain raw where raw: "length raw = 32" "token = base64url raw"
    "map_of (entries s) (digest raw) = Some g"
    "unix_timestamp ts now < unix_timestamp ts (grant_expires_at g)" "grant_asset_id g = asset"
    by blast
  then have "decode_base64url token = Some raw" "length token = 43"
    using base64url_roundtrip [of raw] base64url_length [of raw] by (cases raw; simp)+
  with raw show "fst (validate ts digest now token asset s) = Ok g"
    by (simp add: validate_def)
qed

lemma validate_entries:
  "snd (validate ts digest now token asset s) = s \<or>
   (\<exists>k g. map_of (entries s) k = Some g \<and> unix_timestamp ts (grant_expires_at g) \<le> unix_timestamp ts now \<and>
      snd (validate ts digest now token asset s) = s\<lparr>entries := AList.delete k (entries s)\<rparr>)"
  by (auto simp: validate_def split: option.splits)

lemma grant_step_inv: "issuer_inv s \<Longrightarrow> issuer_inv (grant_step ts digest call s)"
proof (cases call)
  case (IssueCall now random a b c d)
  assume inv: "issuer_inv s"
  show ?thesis
  proof (cases rule: issue_cases [of ts now s digest random a b c d])
    case (issued retained raw expires_at grant)
    have "length (AList.update (digest raw) grant retained) \<le> max_grants s"
      using length_alist_update [of "digest raw" grant retained] issued(2) by simp
    then show ?thesis
      using inv issued IssueCall by (simp add: inv_defs distinct_update distinct_fst_filter)
  qed (use inv IssueCall in \<open>simp_all add: inv_defs distinct_fst_filter order_trans [OF length_filter_le]\<close>)
next
  case (ValidateCall now token asset)
  assume inv: "issuer_inv s"
  from validate_entries [of ts digest now token asset s] inv ValidateCall show ?thesis
    by (auto simp: inv_defs distinct_delete intro: order_trans [OF length_alist_delete])
qed

lemma grant_run_inv: "issuer_inv s \<Longrightarrow> issuer_inv (grant_run ts digest calls s)"
  unfolding grant_run_def by (induction calls arbitrary: s) (auto simp: grant_step_inv)

lemma grant_step_config [simp]: 
  "max_grants (grant_step ts digest call s) = max_grants s"
  "ttl_seconds (grant_step ts digest call s) = ttl_seconds s"
  by (cases call; auto simp: issue_def validate_def Let_def split: option.splits)+

lemma grant_run_config [simp]:
  "max_grants (grant_run ts digest calls s) = max_grants s"
  "ttl_seconds (grant_run ts digest calls s) = ttl_seconds s"
  unfolding grant_run_def by (induction calls arbitrary: s) auto

text \<open>
  Whatever calls it has served, the registry holds at most \<^verbatim>\<open>max_grants\<close> grants and
  at most one under each digest.
\<close>

theorem registry_bounded:
  "issuer_len (grant_run ts digest calls (issuer_new ttl mx)) \<le> mx \<and>
   distinct (map fst (entries (grant_run ts digest calls (issuer_new ttl mx))))"
  using grant_run_inv [of "issuer_new ttl mx" ts digest calls]
  by (simp add: inv_defs issuer_new_def issuer_len_def)

text \<open>An unexpired grant stays registered under its digest until the same digest is drawn again.\<close>

lemma grant_step_keeps:
  assumes "issuer_inv s" and "map_of (entries s) k = Some g"
    and "unix_timestamp ts (call_now call) < unix_timestamp ts (grant_expires_at g)"
    and "\<And>raw. call_raw call = Some raw \<Longrightarrow> digest raw \<noteq> k"
  shows "map_of (entries (grant_step ts digest call s)) k = Some g"
proof (cases call)
  case (IssueCall now random a b c d)
  have keep: "map_of (filter (\<lambda>(_, g). unix_timestamp ts now < unix_timestamp ts (grant_expires_at g))
      (entries s)) k = Some g"
    using assms IssueCall by (simp add: map_of_filter_val inv_defs)
  show ?thesis
    using assms(2,4) keep IssueCall
    by (cases rule: issue_cases [of ts now s digest random a b c d]) (auto simp: update_conv')
next
  case (ValidateCall now token asset)
  with validate_entries [of ts digest now token asset s] assms show ?thesis
    by (auto simp: delete_conv' split: if_splits)
qed

lemma grant_run_keeps:
  assumes "issuer_inv s" and "map_of (entries s) k = Some g"
    and "\<And>c. c \<in> set calls \<Longrightarrow> unix_timestamp ts (call_now c) < unix_timestamp ts (grant_expires_at g)"
    and "\<And>c raw. c \<in> set calls \<Longrightarrow> call_raw c = Some raw \<Longrightarrow> digest raw \<noteq> k"
  shows "map_of (entries (grant_run ts digest calls s)) k = Some g"
  using assms unfolding grant_run_def
proof (induction calls arbitrary: s)
  case Nil
  then show ?case by simp
next
  case (Cons c calls)
  have "map_of (entries (grant_step ts digest c s)) k = Some g"
    using Cons.prems by (intro grant_step_keeps) auto
  from Cons.IH [OF grant_step_inv [OF Cons.prems(1)] this] Cons.prems(3,4) show ?case by force
qed


lemma issue_registers:
  assumes "fst (issue ts digest now (Some raw) a b c d s) = Ok (token, g)"
  shows "token = base64url raw \<and> grant_asset_id g = a \<and> grant_actor_id g = b \<and>
    grant_session_id g = c \<and> grant_document_id g = d \<and>
    from_unix_timestamp ts (saturating_add_i64 (unix_timestamp ts now) (ttl_seconds s)) = Some (grant_expires_at g) \<and>
    map_of (entries (snd (issue ts digest now (Some raw) a b c d s))) (digest raw) = Some g"
  using assms by (cases rule: issue_cases [of ts now s digest "Some raw" a b c d]) (auto simp: update_conv')

text \<open>
  A token issued at \<open>now\<close> is accepted for its Asset, and returns the very grant issued,
  at every later call whose clock reads less than \<open>now + ttl\<close>: no sequence of other issues
  and validations evicts it, as long as none of them draws bytes with the same digest.
\<close>

theorem issued_grant_survives:
  assumes "timestamp_ok ts" and "issuer_inv s" and "length raw = 32"
    and "fst (issue ts digest now (Some raw) a b c d s) = Ok (token, g)"
    and "\<And>x. x \<in> set calls \<Longrightarrow>
      unix_timestamp ts (call_now x) < saturating_add_i64 (unix_timestamp ts now) (ttl_seconds s)"
    and "\<And>x raw'. x \<in> set calls \<Longrightarrow> call_raw x = Some raw' \<Longrightarrow> digest raw' \<noteq> digest raw"
    and "unix_timestamp ts later < saturating_add_i64 (unix_timestamp ts now) (ttl_seconds s)"
  shows "fst (validate ts digest later token a
    (grant_run ts digest calls (snd (issue ts digest now (Some raw) a b c d s)))) = Ok g"
proof -
  note reg = issue_registers [OF assms(4)]
  have exp: "unix_timestamp ts (grant_expires_at g) = saturating_add_i64 (unix_timestamp ts now) (ttl_seconds s)"
    using reg assms(1) by (simp add: timestamp_ok_def)
  have "issuer_inv (snd (issue ts digest now (Some raw) a b c d s))"
    using grant_step_inv [OF assms(2), of ts digest "IssueCall now (Some raw) a b c d"] by simp
  then have "map_of (entries (grant_run ts digest calls (snd (issue ts digest now (Some raw) a b c d s))))
      (digest raw) = Some g"
    using reg assms(5,6) exp by (intro grant_run_keeps) auto
  then show ?thesis
    unfolding validate_accepts_iff using reg assms(3,7) exp by (intro exI [of _ raw]) simp
qed

text \<open>Conversely every registered grant was put there by an issue that returned it.\<close>

definition issued_by ::
  "'ts timestamp_ops \<Rightarrow> int \<Rightarrow> (bytes \<Rightarrow> bytes) \<Rightarrow> bytes \<Rightarrow> ('id, 'ts) asset_access_grant
   \<Rightarrow> ('id, 'ts) grant_call \<Rightarrow> bool" where
  "issued_by ts ttl digest k g call \<longleftrightarrow>
     (\<exists>now raw. call = IssueCall now (Some raw) (grant_asset_id g) (grant_actor_id g)
                       (grant_session_id g) (grant_document_id g) \<and> digest raw = k \<and>
        from_unix_timestamp ts (saturating_add_i64 (unix_timestamp ts now) ttl) = Some (grant_expires_at g))"

lemma grant_step_origin:
  assumes "issuer_inv s" and "map_of (entries (grant_step ts digest call s)) k = Some g"
  shows "map_of (entries s) k = Some g \<or> issued_by ts (ttl_seconds s) digest k g call"
proof (cases call)
  case (IssueCall now random a b c d)
  then show ?thesis using assms
    by (cases rule: issue_cases [of ts now s digest random a b c d])
      (auto simp: update_conv' map_of_filter_val inv_defs issued_by_def split: if_splits option.splits)
next
  case (ValidateCall now token asset)
  with validate_entries [of ts digest now token asset s] assms show ?thesis
    by (auto simp: delete_conv' split: if_splits)
qed

lemma grant_run_origin:
  assumes "issuer_inv s" and "map_of (entries (grant_run ts digest calls s)) k = Some g"
  shows "map_of (entries s) k = Some g \<or> (\<exists>x \<in> set calls. issued_by ts (ttl_seconds s) digest k g x)"
  using assms unfolding grant_run_def
proof (induction calls arbitrary: s)
  case Nil
  then show ?case by simp
next
  case (Cons x calls)
  from Cons.IH [OF grant_step_inv [OF Cons.prems(1)], of ts digest x] Cons.prems
  show ?case using grant_step_origin [OF Cons.prems(1), of ts digest x k g] by auto
qed

text \<open>
  No forged token is ever accepted: a token that \<open>validate\<close> accepts after any history of
  a fresh registry is the text of 32 bytes whose digest an earlier issue drew, for the Asset,
  actor, Session and Document of the grant returned, and the clock is before that issue's
  time plus the configured lifetime.
\<close>

theorem accepted_token_was_issued:
  assumes "timestamp_ok ts"
    and "fst (validate ts digest later token asset (grant_run ts digest calls (issuer_new ttl mx))) = Ok g"
  shows "\<exists>now raw raw'. length raw = 32 \<and> token = base64url raw \<and> digest raw' = digest raw \<and>
    IssueCall now (Some raw') asset (grant_actor_id g) (grant_session_id g) (grant_document_id g) \<in> set calls \<and>
    unix_timestamp ts later < saturating_add_i64 (unix_timestamp ts now) ttl"
proof -
  from assms(2) obtain raw where raw: "length raw = 32" "token = base64url raw"
    "map_of (entries (grant_run ts digest calls (issuer_new ttl mx))) (digest raw) = Some g"
    "unix_timestamp ts later < unix_timestamp ts (grant_expires_at g)" "grant_asset_id g = asset"
    unfolding validate_accepts_iff by blast
  from grant_run_origin [OF _ raw(3)] obtain x where "x \<in> set calls" "issued_by ts ttl digest (digest raw) g x"
    by (auto simp: issuer_new_def inv_defs)
  with raw assms(1) show ?thesis
    unfolding issued_by_def timestamp_ok_def by metis
qed


definition clock_ops :: "int timestamp_ops" where
  "clock_ops = \<lparr>unix_timestamp = (\<lambda>t. t), from_unix_timestamp = Some\<rparr>"

lemma clock_ops_ok: "timestamp_ok clock_ops"
  by (simp add: timestamp_ok_def clock_ops_def)

definition example_run :: "(nat, int) grant_call list" where
  "example_run = [IssueCall 100 (Some (replicate 32 7)) 1 2 3 4, ValidateCall 110 ''x'' 1,
                  IssueCall 120 (Some (replicate 32 9)) 5 2 3 4]"

theorem issued_grant_survives_witness:
  "fst (validate clock_ops id 159 (base64url (replicate 32 7)) (1::nat)
     (grant_run clock_ops id (tl example_run) (snd (issue clock_ops id 100 (Some (replicate 32 7)) 1 2 3 4 (issuer_new 60 2))))) =
   Ok \<lparr>grant_asset_id = 1, grant_actor_id = 2, grant_session_id = 3, grant_document_id = 4, grant_expires_at = 160\<rparr>"
proof (rule issued_grant_survives [OF clock_ops_ok])
  show "issuer_inv (issuer_new 60 2 :: (nat, int) grant_issuer)" by (simp add: inv_defs issuer_new_def)
  show "fst (issue clock_ops id 100 (Some (replicate 32 7)) 1 2 3 4 (issuer_new 60 2)) =
    Ok (base64url (replicate 32 7), \<lparr>grant_asset_id = 1::nat, grant_actor_id = 2, grant_session_id = 3,
         grant_document_id = 4, grant_expires_at = 160\<rparr>)"
    by (simp add: issue_def Let_def issuer_new_def clock_ops_def saturating_add_i64_def i64_max_def i64_min_def)
qed (auto simp: example_run_def clock_ops_def issuer_new_def saturating_add_i64_def i64_max_def i64_min_def
      numeral_eq_Suc)

theorem accepted_token_was_issued_witness:
  "\<exists>now raw raw'. length raw = 32 \<and> base64url (replicate 32 7) = base64url raw \<and> id raw' = id raw \<and>
    IssueCall now (Some raw') (1::nat) 2 3 4 \<in> set example_run \<and> 159 < saturating_add_i64 now 60"
proof -
  have "fst (validate clock_ops id 159 (base64url (replicate 32 7)) 1
     (grant_run clock_ops id example_run (issuer_new 60 2))) =
    Ok \<lparr>grant_asset_id = 1, grant_actor_id = 2, grant_session_id = 3, grant_document_id = 4, grant_expires_at = 160\<rparr>"
    unfolding validate_accepts_iff
    by (intro exI [of _ "replicate 32 7"])
      (simp add: example_run_def grant_run_def Let_def issue_def validate_def issuer_new_def clock_ops_def
        saturating_add_i64_def i64_max_def i64_min_def update_conv' numeral_eq_Suc)
  from accepted_token_was_issued [OF clock_ops_ok this] show ?thesis by (simp add: clock_ops_def)
qed

text \<open>
  The token of 32 random bytes has 43 characters of the URL-safe alphabet, without
  padding, and decodes to the bytes it was made from.
\<close>

theorem token_roundtrip:
  assumes "length raw = 32"
  shows "length (base64url raw) = 43 \<and> set (base64url raw) \<subseteq> set b64_table \<and>
    decode_base64url (base64url raw) = Some raw"
proof -
  from assms have "raw \<noteq> []" by auto
  with assms b64.dec_enc [of raw] base64url_bits [of raw] base64url_length [of raw] show ?thesis
    by (simp add: b64_text_def)
qed

theorem token_roundtrip_witness:
  "length (replicate 32 (251 :: 8 word)) = 32 \<and>
   decode_base64url (base64url (replicate 32 251)) = Some (replicate 32 (251 :: 8 word))"
  using token_roundtrip [of "replicate 32 251"] by simp

end
