(* ===== verification/Asset_Http.thy ===== *)
theory Asset_Http
  imports Asset_Port Byte_Range Grant
begin

text \<open>
  The streaming HTTP server for Asset bytes, \<^verbatim>\<open>asset_delivery/http.rs\<close>: reading and parsing
  a request head, the chain of checks that decides the response, writing it, the streaming
  loop, and the bounded accept loop.

  A connection is the list of chunks its reads return (an empty chunk is end of file, the
  end of the list a read that fails or times out) and the text written to it; \<open>wfail n\<close> says
  whether the \<open>n\<close>-th write succeeds or fails after some bytes. Time-outs and cancellation
  are such failures and the flag of each iteration. The grant registry is that of \<open>Grant\<close>;
  the Asset ports and \<^verbatim>\<open>AssetId\<close>'s parser are arguments.
\<close>

section \<open>Reading a request\<close>

definition CRLF :: string where
  "CRLF = [CHR 0x0D, CHR 0x0A]"

definition MAX_HEADER_BYTES :: nat where
  "MAX_HEADER_BYTES = 16 * 1024"

datatype http_task_error = RequestFailed | BackendFailed

record http_request =
  hr_method :: string
  hr_target :: string
  hr_headers :: "(string \<times> string) list"

text \<open>\<^verbatim>\<open>buffer.windows(4).any(|window| window == b"\r\n\r\n")\<close>\<close>

definition has_head :: "string \<Rightarrow> bool" where
  "has_head buffer = (split_once_str (CRLF @ CRLF) buffer \<noteq> None)"

fun read_head :: "string list \<Rightarrow> string \<Rightarrow> (string, http_task_error) result" where
  "read_head [] buffer = Err RequestFailed"
| "read_head (chunk # chunks) buffer =
     (if MAX_HEADER_BYTES \<le> length buffer then Err RequestFailed
      else if chunk = [] then Err RequestFailed
      else if has_head (buffer @ chunk) then Ok (buffer @ chunk)
      else read_head chunks (buffer @ chunk))"

definition parse_header_line ::
  "string \<Rightarrow> (string \<times> string) list \<Rightarrow> ((string \<times> string) list, http_task_error) result" where
  "parse_header_line line headers =
     and_then (ok_or RequestFailed (split_once_char (CHR '':'') line)) (\<lambda>(name, value).
     if name = [] \<or> contains_char (CHR 0x0D) value \<or> contains_char (CHR 0x0A) value then Err RequestFailed
     else Ok (AList.update (to_ascii_lowercase (trim name)) (trim value) headers))"

definition parse_request :: "string \<Rightarrow> (http_request, http_task_error) result" where
  "parse_request buffer =
     (if \<not> utf8_valid buffer then Err RequestFailed
      else let lines = split_str CRLF (hd (split_str (CRLF @ CRLF) buffer)) in
      case split_whitespace (hd lines) of
        [meth, target, version] \<Rightarrow>
          if \<not> starts_with ''HTTP/1.'' version then Err RequestFailed
          else and_then (fold_res parse_header_line (tl lines) []) (\<lambda>headers.
            case map_of headers ''content-length'' of
              Some value \<Rightarrow> if value \<noteq> ''0'' then Err RequestFailed
                             else Ok \<lparr>hr_method = meth, hr_target = target, hr_headers = headers\<rparr>
            | None \<Rightarrow> Ok \<lparr>hr_method = meth, hr_target = target, hr_headers = headers\<rparr>)
      | _ \<Rightarrow> Err RequestFailed)"

definition read_request :: "string list \<Rightarrow> (http_request, http_task_error) result" where
  "read_request chunks = and_then (read_head chunks []) parse_request"

section \<open>Writing a response\<close>

record http_stream =
  hs_out :: string
  hs_writes :: nat

definition write_all ::
  "(nat \<Rightarrow> nat option) \<Rightarrow> string \<Rightarrow> http_stream \<Rightarrow> (unit, http_task_error) result \<times> http_stream" where
  "write_all wfail text st =
     (case wfail (hs_writes st) of
        None \<Rightarrow> (Ok (), \<lparr>hs_out = hs_out st @ text, hs_writes = Suc (hs_writes st)\<rparr>)
      | Some k \<Rightarrow> (Err RequestFailed, \<lparr>hs_out = hs_out st @ take k text, hs_writes = Suc (hs_writes st)\<rparr>))"

definition reason :: "nat \<Rightarrow> string" where
  "reason status =
     (if status = 200 then ''OK'' else if status = 204 then ''No Content''
      else if status = 206 then ''Partial Content'' else if status = 400 then ''Bad Request''
      else if status = 401 then ''Unauthorized'' else if status = 403 then ''Forbidden''
      else if status = 404 then ''Not Found'' else if status = 405 then ''Method Not Allowed''
      else if status = 416 then ''Range Not Satisfiable'' else if status = 503 then ''Service Unavailable''
      else ''Internal Server Error'')"

fun push_headers :: "(string \<times> string) list \<Rightarrow> string \<Rightarrow> (string, http_task_error) result" where
  "push_headers [] response = Ok response"
| "push_headers ((name, value) # rest) response =
     (if contains_char (CHR 0x0D) value \<or> contains_char (CHR 0x0A) value then Err RequestFailed
      else push_headers rest (response @ name @ '': '' @ value @ CRLF))"

definition write_response ::
  "(nat \<Rightarrow> nat option) \<Rightarrow> nat \<Rightarrow> (string \<times> string) list \<Rightarrow> string option \<Rightarrow> http_stream
   \<Rightarrow> (unit, http_task_error) result \<times> http_stream" where
  "write_response wfail status headers body st =
     (case push_headers headers (''HTTP/1.1 '' @ dec_of_nat status @ '' '' @ reason status @ CRLF) of
        Inl e \<Rightarrow> (Err e, st)
      | Inr response \<Rightarrow>
          (case write_all wfail (response @ CRLF) st of
             (Inl e, st1) \<Rightarrow> (Err e, st1)
           | (Inr _, st1) \<Rightarrow> (case body of None \<Rightarrow> (Ok (), st1) | Some b \<Rightarrow> write_all wfail b st1)))"

definition simple_headers :: "string \<Rightarrow> (string \<times> string) list" where
  "simple_headers body =
     [(''Content-Type'', ''text/plain; charset=utf-8''), (''Content-Length'', dec_of_nat (length body)),
      (''Connection'', ''close'')]"

definition write_simple_response ::
  "(nat \<Rightarrow> nat option) \<Rightarrow> nat \<Rightarrow> string \<Rightarrow> (string \<times> string) list \<Rightarrow> http_stream
   \<Rightarrow> (unit, http_task_error) result \<times> http_stream" where
  "write_simple_response wfail status message extra st =
     (let body = message @ [CHR 0x0A]
      in write_response wfail status (simple_headers body @ extra) (Some body) st)"

section \<open>The streaming loop\<close>

text \<open>
  \<open>rd n\<close> is the reader as it is at the \<open>n\<close>-th iteration, \<open>cancelled n\<close> whether the token is
  cancelled by then, \<open>range_valid\<close> the check of \<^verbatim>\<open>AssetByteRange::new\<close>. The loop ends
  because an empty chunk is an error.
\<close>

function stream_asset ::
  "(nat \<Rightarrow> nat option) \<Rightarrow> (nat \<Rightarrow> asset_range_req \<Rightarrow> (asset_chunk, 'id asset_read_error) result)
   \<Rightarrow> (nat \<Rightarrow> nat \<Rightarrow> bool) \<Rightarrow> (nat \<Rightarrow> bool) \<Rightarrow> nat \<Rightarrow> nat \<Rightarrow> nat \<Rightarrow> nat \<Rightarrow> http_stream
   \<Rightarrow> (unit, http_task_error) result \<times> http_stream" where
  "stream_asset wfail rd range_valid cancelled chunk_size n offset remaining st =
     (if remaining = 0 then (Ok (), st)
      else if cancelled n then (Ok (), st)
      else let requested = min remaining chunk_size in
      if \<not> range_valid offset requested then (Err BackendFailed, st)
      else case rd n \<lparr>ar_offset = offset, ar_length = requested\<rparr> of
             Inl _ \<Rightarrow> (Err BackendFailed, st)
           | Inr chunk \<Rightarrow>
               if ch_offset chunk \<noteq> offset \<or> ch_bytes chunk = [] \<or> requested < length (ch_bytes chunk) \<or>
                  remaining < length (ch_bytes chunk)
               then (Err BackendFailed, st)
               else (case write_all wfail (ch_bytes chunk) st of
                       (Inl e, st1) \<Rightarrow> (Err e, st1)
                     | (Inr _, st1) \<Rightarrow>
                         (case checked_add_u64 offset (length (ch_bytes chunk)) of
                            None \<Rightarrow> (Err BackendFailed, st1)
                          | Some offset' \<Rightarrow>
                              stream_asset wfail rd range_valid cancelled chunk_size (Suc n) offset'
                                (remaining - length (ch_bytes chunk)) st1)))"
  by pat_completeness auto
termination
  by (relation "measure (\<lambda>(wfail, rd, range_valid, cancelled, chunk_size, n, offset, remaining, st). remaining)")
    (auto simp: Let_def)

declare stream_asset.simps [simp del]

section \<open>Deciding the response\<close>

definition bearer_token :: "string option \<Rightarrow> string option" where
  "bearer_token header =
     Option.bind header (\<lambda>value. Option.bind (split_once_char (CHR '' '') value) (\<lambda>(scheme, token).
       if \<not> eq_ignore_ascii_case scheme ''Bearer'' \<or> token = [] \<or> contains_ws token then None
       else Some token))"

definition base_headers :: "string \<Rightarrow> nat \<Rightarrow> string \<Rightarrow> (string \<times> string) list" where
  "base_headers media_type len hash =
     [(''Content-Type'', media_type), (''Content-Length'', dec_of_nat len), (''Accept-Ranges'', ''bytes''),
      (''ETag'', ''\"sha256-'' @ hash @ ''\"''), (''Connection'', ''close'')]"

definition cors_headers :: "string option \<Rightarrow> (string \<times> string) list" where
  "cors_headers origin =
     (case origin of None \<Rightarrow> []
      | Some o' \<Rightarrow>
          [(''Access-Control-Allow-Origin'', o'), (''Access-Control-Allow-Methods'', ''GET, HEAD, OPTIONS''),
           (''Access-Control-Allow-Headers'', ''Authorization, Range''),
           (''Access-Control-Expose-Headers'', ''Content-Length, Content-Range, ETag, Accept-Ranges''),
           (''Vary'', ''Origin'')])"

text \<open>
  What a connection is answered with: a short text, headers only, or headers followed by a
  slice of the Asset.
\<close>

datatype 'id http_reply =
    SimpleReply nat string "(string \<times> string) list"
  | HeadersReply nat "(string \<times> string) list"
  | StreamReply 'id nat "(string \<times> string) list" nat nat

text \<open>
  The part of \<^verbatim>\<open>handle_connection\<close> after the Asset was found, for a \<^verbatim>\<open>GET\<close>.
  \<open>permit\<close> is whether a download permit is free.
\<close>

definition respond_get ::
  "'id \<Rightarrow> bool \<Rightarrow> string option \<Rightarrow> string option \<Rightarrow> string \<Rightarrow> nat \<Rightarrow> string \<Rightarrow> 'id http_reply" where
  "respond_get asset_id permit origin range_header media_type total_len hash =
     (case (case range_header of None \<Rightarrow> Ok None | Some value \<Rightarrow> parse_range value (of_nat total_len)) of
        Inl Malformed \<Rightarrow> SimpleReply 400 ''bad range'' []
      | Inl _ \<Rightarrow> SimpleReply 416 ''range not satisfiable''
                  [(''Content-Range'', ''bytes */'' @ dec_of_nat total_len)]
      | Inr resolved \<Rightarrow>
          (let (status, start, len, content_range) =
             (case resolved of
                None \<Rightarrow> (200, 0, total_len, [])
              | Some r \<Rightarrow> (206, unat (rr_start r), unat (range_length r),
                  [(''Content-Range'', ''bytes '' @ dec_of_nat (unat (rr_start r)) @ ''-'' @
                     dec_of_nat (unat (rr_end r)) @ ''/'' @ dec_of_nat total_len)]));
             headers = base_headers media_type len hash @ content_range @ cors_headers origin
           in if 0 < len
              then (if \<not> permit then SimpleReply 503 ''server busy'' []
                    else StreamReply asset_id status headers start len)
              else HeadersReply status headers))"

record ('id, 'h, 'ts) delivery =
  dl_allowed_origins :: "string list"
  dl_chunk_size :: nat
  dl_parse_id :: "string \<Rightarrow> 'id option"
  dl_hash_text :: "'h \<Rightarrow> string"
  dl_clock :: "'ts timestamp_ops"
  dl_digest :: "bytes \<Rightarrow> bytes"

text \<open>The checks of \<^verbatim>\<open>handle_connection\<close> in order; the registry may drop an expired grant.\<close>

definition respond ::
  "('id, 'h, 'ts) delivery \<Rightarrow> ('id \<Rightarrow> (('id, 'h) asset_descriptor option, 'e) result) \<Rightarrow> bool \<Rightarrow> 'ts
   \<Rightarrow> http_request \<Rightarrow> ('id, 'ts) grant_issuer \<Rightarrow> 'id http_reply \<times> ('id, 'ts) grant_issuer" where
  "respond dl get permit now req g =
     (let origin = map_of (hr_headers req) ''origin'' in
      if (case origin of None \<Rightarrow> False | Some o' \<Rightarrow> o' \<notin> set (dl_allowed_origins dl))
      then (SimpleReply 403 ''forbidden'' [], g)
      else if hr_method req = ''OPTIONS''
      then (HeadersReply 204 (cors_headers origin @ [(''Content-Length'', ''0'')]), g)
      else if hr_method req \<noteq> ''GET'' \<and> hr_method req \<noteq> ''HEAD''
      then (SimpleReply 405 ''method not allowed'' [], g)
      else if contains_char (CHR ''?'') (hr_target req) \<or> contains_char (CHR ''#'') (hr_target req)
      then (SimpleReply 400 ''bad request'' [], g)
      else case strip_prefix ''/assets/'' (hr_target req) of
        None \<Rightarrow> (SimpleReply 404 ''not found'' [], g)
      | Some asset_text \<Rightarrow>
          if asset_text = [] \<or> contains_char (CHR ''/'') asset_text
          then (SimpleReply 400 ''bad request'' [], g)
          else case dl_parse_id dl asset_text of
            None \<Rightarrow> (SimpleReply 400 ''bad request'' [], g)
          | Some asset_id \<Rightarrow>
              (case bearer_token (map_of (hr_headers req) ''authorization'') of
                 None \<Rightarrow> (SimpleReply 401 ''unauthorized'' [], g)
               | Some token \<Rightarrow>
                   (case validate (dl_clock dl) (dl_digest dl) now token asset_id g of
                      (Inl _, g') \<Rightarrow> (SimpleReply 401 ''unauthorized'' [], g')
                    | (Inr _, g') \<Rightarrow>
                        (case get asset_id of
                           Inl _ \<Rightarrow> (SimpleReply 503 ''service unavailable'' [], g')
                         | Inr None \<Rightarrow> (SimpleReply 404 ''not found'' [], g')
                         | Inr (Some asset) \<Rightarrow>
                             if contains_char (CHR 0x0D) (ad_media_type asset) \<or>
                                contains_char (CHR 0x0A) (ad_media_type asset)
                             then (SimpleReply 500 ''internal server error'' [], g')
                             else if hr_method req = ''HEAD''
                             then (HeadersReply 200
                                (base_headers (ad_media_type asset) (ad_byte_length asset)
                                   (dl_hash_text dl (ad_content_hash asset)) @ cors_headers origin), g')
                             else (respond_get asset_id permit origin (map_of (hr_headers req) ''range'')
                                (ad_media_type asset) (ad_byte_length asset)
                                (dl_hash_text dl (ad_content_hash asset)), g')))))"

text \<open>
  The whole task of one connection. Errors of the simple responses propagate; the one for an
  unreadable request is ignored.
\<close>

definition handle_connection ::
  "(nat \<Rightarrow> nat option) \<Rightarrow> ('id, 'h, 'ts) delivery
   \<Rightarrow> ('id \<Rightarrow> (('id, 'h) asset_descriptor option, 'e) result)
   \<Rightarrow> (nat \<Rightarrow> 'id \<Rightarrow> asset_range_req \<Rightarrow> (asset_chunk, 'id asset_read_error) result)
   \<Rightarrow> (nat \<Rightarrow> nat \<Rightarrow> bool) \<Rightarrow> (nat \<Rightarrow> bool) \<Rightarrow> bool \<Rightarrow> 'ts \<Rightarrow> string list \<Rightarrow> ('id, 'ts) grant_issuer
   \<Rightarrow> (unit, http_task_error) result \<times> http_stream \<times> ('id, 'ts) grant_issuer" where
  "handle_connection wfail dl get rd range_valid cancelled permit now chunks g =
     (let st = \<lparr>hs_out = [], hs_writes = 0\<rparr> in
      case read_request chunks of
        Inl _ \<Rightarrow> (Ok (), snd (write_simple_response wfail 400 ''bad request'' [] st), g)
      | Inr req \<Rightarrow>
          (case respond dl get permit now req g of
             (SimpleReply status message extra, g') \<Rightarrow>
               (case write_simple_response wfail status message extra st of (r, st') \<Rightarrow> (r, st', g'))
           | (HeadersReply status headers, g') \<Rightarrow>
               (case write_response wfail status headers None st of (r, st') \<Rightarrow> (r, st', g'))
           | (StreamReply asset_id status headers start len, g') \<Rightarrow>
               (case write_response wfail status headers None st of
                  (Inl e, st') \<Rightarrow> (Err e, st', g')
                | (Inr _, st') \<Rightarrow>
                    (case stream_asset wfail (\<lambda>n. rd n asset_id) range_valid cancelled (dl_chunk_size dl)
                            0 start len st' of (r, st'') \<Rightarrow> (r, st'', g')))))"

section \<open>What is streamed\<close>

lemma parse_range_bounds:
  assumes "parse_range value (of_nat total_len) = Inr (Some r)" and "total_len \<le> u64_max"
  shows "unat (rr_start r) + unat (range_length r) \<le> total_len \<and> 0 < unat (range_length r) \<and>
    unat (rr_end r) + 1 = unat (rr_start r) + unat (range_length r)"
proof -
  obtain spec where "parse_range_spec spec (of_nat total_len) = Inr (Some r)"
    using assms(1) by (auto simp: parse_range_def split: option.splits)
  then have w: "range_within r (of_nat total_len)" using parse_range_spec_within by blast
  have "total_len < 2 ^ LENGTH(64)" using assms(2) by (simp add: u64_max_def)
  then have "unat (of_nat total_len :: 64 word) = total_len"
    by (simp add: unat_of_nat)
  with w range_length_unat [OF w] show ?thesis
    by (auto simp: range_within_def word_le_nat_alt word_less_nat_alt)
qed

lemma respond_get_stream:
  assumes "respond_get i permit origin rh mt total_len hash = StreamReply j status headers start len"
    and "total_len \<le> u64_max"
  shows "j = i \<and> permit \<and> 0 < len \<and> start + len \<le> total_len \<and>
    map_of headers ''Content-Length'' = Some (dec_of_nat len) \<and>
    (rh = None \<longrightarrow> status = 200 \<and> start = 0 \<and> len = total_len) \<and>
    (rh \<noteq> None \<longrightarrow> status = 206 \<and> map_of headers ''Content-Range'' =
       Some (''bytes '' @ dec_of_nat start @ ''-'' @ dec_of_nat (start + len - 1) @ ''/'' @ dec_of_nat total_len))"
proof (cases rh)
  case None
  with assms show ?thesis by (auto simp: respond_get_def base_headers_def Let_def split: if_splits)
next
  case (Some hdr)
  with assms(1) obtain resolved where res: "parse_range hdr (of_nat total_len) = Inr resolved"
    by (auto simp: respond_get_def split: sum.splits range_parse_error.splits)
  then obtain r where r: "resolved = Some r"
    using parse_range_spec_within by (fastforce simp: parse_range_def split: option.splits)
  have b: "unat (rr_start r) + unat (range_length r) \<le> total_len" "0 < unat (range_length r)"
    "unat (rr_end r) = unat (rr_start r) + unat (range_length r) - 1"
    using parse_range_bounds [OF res [unfolded r] assms(2)] by auto
  with Some res r assms(1) show ?thesis
    by (auto simp: respond_get_def base_headers_def Let_def split: if_splits)
qed

lemma write_all_out:
  "write_all wfail text st = (r, st') \<Longrightarrow>
     (\<exists>k. hs_out st' = hs_out st @ take k text) \<and> (r = Ok () \<longrightarrow> hs_out st' = hs_out st @ text)"
  by (auto simp: write_all_def split: option.splits intro: exI [of _ "length text"])

text \<open>One iteration of the streaming loop, by its outcome.\<close>

lemma stream_asset_cases:
  assumes "stream_asset wfail rd valid cancelled chunk_size n offset remaining st = (res, st')"
  obtains (stop) "remaining = 0 \<or> cancelled n" "res = Ok ()" "st' = st"
  | (backend) "res = Err BackendFailed" "st' = st"
  | (chunk) ch wr st1 where "\<not> cancelled n" "rd n \<lparr>ar_offset = offset, ar_length = min remaining chunk_size\<rparr> = Inr ch"
      "ch_offset ch = offset" "0 < length (ch_bytes ch)" "length (ch_bytes ch) \<le> min remaining chunk_size"
      "write_all wfail (ch_bytes ch) st = (wr, st1)"
      "(\<exists>e. res = Err e) \<and> st' = st1 \<or> wr = Ok () \<and>
         stream_asset wfail rd valid cancelled chunk_size (Suc n) (offset + length (ch_bytes ch))
           (remaining - length (ch_bytes ch)) st1 = (res, st')"
proof (cases "remaining = 0 \<or> cancelled n \<or> (res = Err BackendFailed \<and> st' = st)")
  case True
  with assms stop backend show ?thesis
    by (subst (asm) stream_asset.simps) (auto split: if_splits)
next
  case False
  with assms obtain ch where ch: "rd n \<lparr>ar_offset = offset, ar_length = min remaining chunk_size\<rparr> = Inr ch"
    by (subst (asm) stream_asset.simps) (auto simp: Let_def split: if_splits sum.splits)
  obtain wr st1 where wr: "write_all wfail (ch_bytes ch) st = (wr, st1)" by fastforce
  from assms False ch wr show ?thesis
    by (subst (asm) stream_asset.simps)
      (intro chunk [OF _ ch _ _ _ wr]; auto simp: Let_def split: if_splits sum.splits option.splits)
qed

context asset_source
begin

text \<open>
  The streaming loop over a store that may change between reads but keeps the content of the
  Asset: it never writes a wrong byte, and when it ends without an error or a cancellation
  it has written the whole slice.
\<close>

lemma stream_slice:
  assumes "\<And>n. inv (s n) \<and> content (s n) i = Some bs" and "offset + remaining \<le> length bs"
    and "stream_asset wfail (\<lambda>n r. read i r (s n)) valid cancelled chunk_size n offset remaining st = (res, st')"
  shows "(\<exists>k. hs_out st' = hs_out st @ take k (slice offset remaining bs)) \<and>
    (res = Ok () \<longrightarrow> (\<forall>m. \<not> cancelled m) \<longrightarrow> hs_out st' = hs_out st @ slice offset remaining bs)"
  using assms(2,3)
proof (induction remaining arbitrary: n offset st rule: less_induct)
  case (less remaining)
  from less.prems(2) show ?case
  proof (cases rule: stream_asset_cases)
    case stop
    then show ?thesis by (auto simp: slice_def intro: exI [of _ 0])
  next
    case backend
    then show ?thesis by (auto intro: exI [of _ 0])
  next
    case (chunk ch wr st1)
    define w where "w = length (ch_bytes ch)"
    have w: "0 < w" "w \<le> remaining" using chunk(4,5) by (simp_all add: w_def)
    have b: "ch_bytes ch = slice offset (min remaining chunk_size) bs"
      using read_Ok [OF _ _ chunk(2)] assms(1) by auto
    have whole: "slice offset remaining bs = ch_bytes ch @ slice (offset + w) (remaining - w) bs"
    proof -
      have "ch_bytes ch = slice offset w bs"
        using b by (auto simp: w_def slice_def min_def)
      with slice_append [of offset w "remaining - w" bs] w show ?thesis by simp
    qed
    note out = write_all_out [OF chunk(6)]
    from chunk(7) show ?thesis
    proof
      assume fail: "(\<exists>e. res = Err e) \<and> st' = st1"
      from out obtain k where "hs_out st1 = hs_out st @ take k (ch_bytes ch)" by auto
      then have "hs_out st1 = hs_out st @ take (min k w) (slice offset remaining bs)"
        by (simp add: whole w_def min_def)
      with fail show ?thesis by auto
    next
      assume more: "wr = Ok () \<and> stream_asset wfail (\<lambda>n r. read i r (s n)) valid cancelled chunk_size (Suc n)
        (offset + length (ch_bytes ch)) (remaining - length (ch_bytes ch)) st1 = (res, st')"
      then have "(\<exists>k. hs_out st' = hs_out st1 @ take k (slice (offset + w) (remaining - w) bs)) \<and>
        (res = Ok () \<longrightarrow> (\<forall>m. \<not> cancelled m) \<longrightarrow> hs_out st' = hs_out st1 @ slice (offset + w) (remaining - w) bs)"
        using less.prems(1) w unfolding w_def [symmetric] by (intro less.IH [OF _ _ conjunct2]) simp_all
      moreover have "hs_out st1 = hs_out st @ ch_bytes ch" using out more by simp
      moreover have "ch_bytes ch @ take k (slice (offset + w) (remaining - w) bs) =
          take (w + k) (slice offset remaining bs)" for k
        by (simp add: whole w_def)
      ultimately show ?thesis using whole by auto
    qed
  qed
qed

end

section \<open>Who is answered\<close>

text \<open>The Asset a request names, if its target passes the checks that precede the grant's.\<close>

definition requested_asset :: "('id, 'h, 'ts) delivery \<Rightarrow> http_request \<Rightarrow> 'id option" where
  "requested_asset dl req = Option.bind (strip_prefix ''/assets/'' (hr_target req)) (dl_parse_id dl)"

definition presents_grant ::
  "('id, 'h, 'ts) delivery \<Rightarrow> 'ts \<Rightarrow> http_request \<Rightarrow> 'id \<Rightarrow> ('id, 'ts) grant_issuer
   \<Rightarrow> ('id, 'ts) asset_access_grant \<Rightarrow> bool" where
  "presents_grant dl now req i g gr \<longleftrightarrow>
     (\<exists>token. bearer_token (map_of (hr_headers req) ''authorization'') = Some token \<and>
        fst (validate (dl_clock dl) (dl_digest dl) now token i g) = Ok gr)"

lemma respond_without_grant:
  assumes "\<And>i gr. requested_asset dl req = Some i \<Longrightarrow> \<not> presents_grant dl now req i g gr"
  shows "respond dl get permit now req g = respond dl get' permit' now req g"
proof (cases "strip_prefix ''/assets/'' (hr_target req)")
  case None
  then show ?thesis by (simp add: respond_def Let_def)
next
  case (Some hdr)
  show ?thesis
  proof (cases "dl_parse_id dl hdr")
    case None
    with Some show ?thesis by (simp add: respond_def Let_def)
  next
    case id: (Some i)
    show ?thesis
    proof (cases "bearer_token (map_of (hr_headers req) ''authorization'')")
      case None
      with Some id show ?thesis by (simp add: respond_def Let_def)
    next
      case tok: (Some token)
      have "requested_asset dl req = Some i" using Some id by (simp add: requested_asset_def)
      then have "fst (validate (dl_clock dl) (dl_digest dl) now token i g) \<noteq> Ok gr" for gr
        using assms tok by (auto simp: presents_grant_def)
      then obtain e g' where "validate (dl_clock dl) (dl_digest dl) now token i g = (Inl e, g')"
        by (metis old.sum.exhaust prod.collapse)
      with Some id tok show ?thesis by (simp add: respond_def Let_def)
    qed
  qed
qed

lemma respond_get_id:
  "respond_get i permit origin rh mt total_len hash = StreamReply j status headers start len \<Longrightarrow> j = i"
  by (auto simp: respond_get_def Let_def split: sum.splits range_parse_error.splits prod.splits if_splits)

text \<open>A body is streamed only for a request that passed every check.\<close>

lemma respond_stream:
  assumes "respond dl get permit now req g = (StreamReply i status headers start len, g')"
  obtains token gr asset where
    "requested_asset dl req = Some i" "hr_method req = ''GET''"
    "\<forall>o'. map_of (hr_headers req) ''origin'' = Some o' \<longrightarrow> o' \<in> set (dl_allowed_origins dl)"
    "bearer_token (map_of (hr_headers req) ''authorization'') = Some token"
    "fst (validate (dl_clock dl) (dl_digest dl) now token i g) = Ok gr"
    "get i = Ok (Some asset)"
    "respond_get i permit (map_of (hr_headers req) ''origin'') (map_of (hr_headers req) ''range'')
       (ad_media_type asset) (ad_byte_length asset) (dl_hash_text dl (ad_content_hash asset)) =
     StreamReply i status headers start len"
  using assms respond_get_id
  by (fastforce simp: respond_def requested_asset_def Let_def
      split: if_splits option.splits sum.splits prod.splits)

lemma respond_stream_grant:
  assumes "respond dl get permit now req g = (StreamReply i status headers start len, g')"
  shows "requested_asset dl req = Some i \<and> (\<exists>gr. presents_grant dl now req i g gr)"
  using assms by (rule respond_stream) (auto simp: presents_grant_def)

text \<open>
  C29. Without a valid grant nothing of the Asset store is disclosed: if the bearer token of a
  request does not validate for the Asset it names, what the connection is sent does not
  depend on whether that Asset exists, on its descriptor or on its bytes.
\<close>

theorem no_grant_no_disclosure:
  assumes "\<And>req i gr. read_request chunks = Ok req \<Longrightarrow> requested_asset dl req = Some i \<Longrightarrow>
      \<not> presents_grant dl now req i g gr"
  shows "handle_connection wfail dl get rd valid cancelled permit now chunks g =
    handle_connection wfail dl get' rd' valid' cancelled' permit' now chunks g"
proof (cases "read_request chunks")
  case (Inl e)
  then show ?thesis by (simp add: handle_connection_def Let_def)
next
  case (Inr req)
  have eq: "respond dl get permit now req g = respond dl get' permit' now req g"
    using assms [OF Inr] by (intro respond_without_grant) blast
  show ?thesis
  proof (cases "fst (respond dl get' permit' now req g)")
    case (StreamReply i status headers start len)
    then have "respond dl get' permit' now req g = (StreamReply i status headers start len, snd (respond dl get' permit' now req g))"
      by (metis prod.collapse)
    from respond_stream_grant [OF this] assms [OF Inr] show ?thesis by blast
  qed (use Inr eq in \<open>auto simp: handle_connection_def Let_def split: prod.splits\<close>)
qed

section \<open>What is written\<close>

definition header_line :: "string \<times> string \<Rightarrow> string" where
  "header_line h = fst h @ '': '' @ snd h"

definition status_line :: "nat \<Rightarrow> string" where
  "status_line status = ''HTTP/1.1 '' @ dec_of_nat status @ '' '' @ reason status"

definition response_head :: "nat \<Rightarrow> (string \<times> string) list \<Rightarrow> string" where
  "response_head status headers =
     concat (map (\<lambda>l. l @ CRLF) (status_line status # map header_line headers)) @ CRLF"

definition no_crlf :: "string \<Rightarrow> bool" where
  "no_crlf s \<longleftrightarrow> CHR 0x0D \<notin> set s \<and> CHR 0x0A \<notin> set s"

lemma push_headers_Ok:
  "push_headers headers acc = Ok r \<Longrightarrow>
     r = acc @ concat (map (\<lambda>h. header_line h @ CRLF) headers) \<and> (\<forall>h \<in> set headers. no_crlf (snd h))"
proof (induction headers arbitrary: acc)
  case (Cons h headers)
  obtain n v where h: "h = (n, v)" by fastforce
  with Cons.prems have v: "no_crlf v" and r: "push_headers headers (acc @ n @ '': '' @ v @ CRLF) = Ok r"
    by (auto simp: no_crlf_def contains_char_def split: if_splits)
  from Cons.IH [OF r] v h show ?case by (simp add: header_line_def)
qed simp

lemma write_response_out:
  assumes "write_response wfail status headers None st = (r, st')"
  shows "(\<exists>k. hs_out st' = hs_out st @ take k (response_head status headers)) \<and>
    (r = Ok () \<longrightarrow> hs_out st' = hs_out st @ response_head status headers \<and> (\<forall>h \<in> set headers. no_crlf (snd h)))"
proof (cases "push_headers headers (''HTTP/1.1 '' @ dec_of_nat status @ '' '' @ reason status @ CRLF)")
  case (Inl e)
  with assms show ?thesis by (auto simp: write_response_def intro: exI [of _ 0])
next
  case (Inr resp)
  from push_headers_Ok [OF Inr] have p: "\<forall>h \<in> set headers. no_crlf (snd h)"
    and "resp = (status_line status @ CRLF) @ concat (map (\<lambda>h. header_line h @ CRLF) headers)"
    by (auto simp: status_line_def)
  then have "resp @ CRLF = response_head status headers"
    by (simp add: response_head_def comp_def)
  then have w: "write_all wfail (response_head status headers) st = (r, st')"
    using Inr assms by (auto simp: write_response_def split: prod.splits sum.splits)
  from write_all_out [OF w] p show ?thesis by simp
qed

lemma split_once_CRLF: "CHR 0x0D \<notin> set x \<Longrightarrow> split_once_str CRLF (x @ CRLF @ rest) = Some (x, rest)"
  by (induction x) (auto simp: CRLF_def)

lemma split_once_CRLF_None: "CHR 0x0D \<notin> set x \<Longrightarrow> split_once_str CRLF x = None"
  by (induction x) (auto simp: CRLF_def)

lemma split_str_lines:
  assumes "\<forall>l \<in> set ls. CHR 0x0D \<notin> set l" and "CHR 0x0D \<notin> set rest"
  shows "split_str CRLF (concat (map (\<lambda>l. l @ CRLF) ls) @ rest) = ls @ [rest]"
  using assms(1)
proof (induction ls)
  case Nil
  with assms(2) show ?case by (simp add: split_str.simps [of CRLF rest] split_once_CRLF_None)
next
  case (Cons l ls)
  then show ?case
    by (subst split_str.simps) (simp add: split_once_CRLF CRLF_def [THEN arg_cong, of "\<lambda>x. x = []"])
qed

lemma reason_no_crlf: "no_crlf (reason status)"
  by (auto simp: reason_def no_crlf_def)

lemma status_line_no_crlf: "no_crlf (status_line status)"
  using reason_no_crlf [of status] dec_of_nat_digits [of "CHR 0x0D" status] dec_of_nat_digits [of "CHR 0x0A" status]
  by (auto simp: status_line_def no_crlf_def is_digit_def)



lemma read_head_bound:
  "read_head chunks buffer = Ok b \<Longrightarrow> \<forall>c \<in> set chunks. length c \<le> 1024 \<Longrightarrow> length b < MAX_HEADER_BYTES + 1024"
  by (induction chunks buffer rule: read_head.induct) (auto split: if_splits)

text \<open>
  A peer cannot make the server buffer more than its limit: with reads of at most 1024
  bytes, a request that is parsed at all came from a head shorter than the limit plus one
  read, and it names no body.
\<close>

theorem request_head_bounded:
  assumes "read_request chunks = Ok req" and "\<forall>c \<in> set chunks. length c \<le> 1024"
  shows "\<exists>buffer. parse_request buffer = Ok req \<and> prefix buffer (concat chunks) \<and>
    length buffer < MAX_HEADER_BYTES + 1024 \<and> map_of (hr_headers req) ''content-length'' \<in> {None, Some ''0''}"
proof -
  from assms(1) obtain buffer where b: "read_head chunks [] = Ok buffer" "parse_request buffer = Ok req"
    by (auto simp: read_request_def)
  have pre: "read_head cs acc = Ok b \<Longrightarrow> prefix b (acc @ concat cs)" for cs acc b
    by (induction cs acc rule: read_head.induct) (auto split: if_splits)
  have "map_of (hr_headers req) ''content-length'' \<in> {None, Some ''0''}"
    using b(2) by (cases "map_of (hr_headers req) ''content-length''")
      (auto simp: parse_request_def Let_def split: if_splits list.splits option.splits)
  with b pre [OF b(1)] read_head_bound [OF b(1) assms(2)] show ?thesis by auto
qed

theorem request_head_bounded_witness:
  "\<exists>buffer. parse_request buffer =
      Ok \<lparr>hr_method = ''GET'', hr_target = ''/assets/7'', hr_headers = [(''host'', ''x'')]\<rparr> \<and>
    length buffer < MAX_HEADER_BYTES + 1024"
proof -
  let ?c = "[''GET /assets/7 HTTP/1.1'' @ CRLF, ''Host:  x '' @ CRLF @ CRLF]"
  have r: "read_request ?c = Ok \<lparr>hr_method = ''GET'', hr_target = ''/assets/7'', hr_headers = [(''host'', ''x'')]\<rparr>"
    by code_simp
  have "\<forall>c \<in> set ?c. length c \<le> 1024" by (simp add: CRLF_def)
  from request_head_bounded [OF r this] show ?thesis by blast
qed

context asset_source
begin

text \<open>
  A connection that is answered with a stream: what it has been sent is always a prefix of
  the head and the slice the head announces, and all of it if nothing failed.
\<close>

lemma connection_serves_slice:
  assumes "\<And>n. inv (s n) \<and> content (s n) i = Some bs" and "length bs \<le> u64_max"
    and "read_request chunks = Ok req"
    and "respond dl (\<lambda>i. get i (s 0)) permit now req g = (StreamReply i status headers start len, g')"
    and "handle_connection wfail dl (\<lambda>i. get i (s 0)) (\<lambda>n i r. read i r (s n)) valid cancelled permit now chunks g = (res, out, g'')"
  shows "start + len \<le> length bs \<and> map_of headers ''Content-Length'' = Some (dec_of_nat len) \<and>
    (\<exists>k. hs_out out = take k (response_head status headers @ slice start len bs)) \<and>
    (res = Ok () \<longrightarrow> (\<forall>m. \<not> cancelled m) \<longrightarrow> hs_out out = response_head status headers @ slice start len bs)"
proof -
  let ?st = "\<lparr>hs_out = [], hs_writes = 0\<rparr>"
  from assms(4) obtain d where d: "get i (s 0) = Ok (Some d)"
    "respond_get i permit (map_of (hr_headers req) ''origin'') (map_of (hr_headers req) ''range'')
       (ad_media_type d) (ad_byte_length d) (dl_hash_text dl (ad_content_hash d)) = StreamReply i status headers start len"
    by (rule respond_stream)
  from get_Ok [OF _ d(1)] assms(1) have len: "length bs = ad_byte_length d" by fastforce
  from respond_get_stream [OF d(2)] assms(2) len
  have b: "start + len \<le> length bs" "map_of headers ''Content-Length'' = Some (dec_of_nat len)" by auto
  obtain hr st1 where h: "write_response wfail status headers None ?st = (hr, st1)" by fastforce
  note head = write_response_out [OF h]
  show ?thesis
  proof (cases hr)
    case (Inl e)
    with assms(3-5) h have "res = Err e" "out = st1" by (auto simp: handle_connection_def Let_def)
    moreover from head obtain k where "hs_out st1 = take k (response_head status headers)" by auto
    then have "hs_out st1 = take (min k (length (response_head status headers))) (response_head status headers @ slice start len bs)"
      by (simp add: min_def)
    then have "\<exists>k. hs_out st1 = take k (response_head status headers @ slice start len bs)" by (rule exI)
    ultimately show ?thesis using b by simp
  next
    case (Inr u)
    obtain sr st2 where sr: "stream_asset wfail (\<lambda>n r. read i r (s n)) valid cancelled (dl_chunk_size dl) 0 start len st1 = (sr, st2)"
      by fastforce
    with Inr assms(3-5) h have "res = sr" "out = st2" by (auto simp: handle_connection_def Let_def)
    moreover from stream_slice [OF assms(1) b(1) sr] obtain k where
      "hs_out st2 = hs_out st1 @ take k (slice start len bs)"
      "sr = Ok () \<longrightarrow> (\<forall>m. \<not> cancelled m) \<longrightarrow> hs_out st2 = hs_out st1 @ slice start len bs" by blast
    moreover have "hs_out st1 = response_head status headers" using head Inr by simp
    moreover have "response_head status headers @ take k (slice start len bs) =
      take (length (response_head status headers) + k) (response_head status headers @ slice start len bs)" by simp
    ultimately show ?thesis using b by metis
  qed
qed

end

definition sample_delivery :: "(string, string, int) delivery" where
  "sample_delivery = \<lparr>dl_allowed_origins = [], dl_chunk_size = 4, dl_parse_id = Some, dl_hash_text = (\<lambda>h. h),
     dl_clock = clock_ops, dl_digest = (\<lambda>b. b)\<rparr>"

theorem no_grant_no_disclosure_witness:
  "handle_connection (\<lambda>_. None) sample_delivery (\<lambda>_. Err ()) (\<lambda>_ _ _. Err (ReadNotFound ''7'')) (\<lambda>_ _. True) (\<lambda>_. False) True 0
     [''GET /assets/7 HTTP/1.1'' @ CRLF @ ''Authorization: Bearer abc'' @ CRLF @ CRLF] (issuer_new 60 2) =
   handle_connection (\<lambda>_. None) sample_delivery (\<lambda>_. Ok (Some \<lparr>ad_asset_id = ''7'', ad_media_type = ''text'', ad_byte_length = 3,
       ad_content_hash = ''h'', ad_original_filename = None\<rparr>)) (\<lambda>_ _ _. Err (ReadNotFound ''7'')) (\<lambda>_ _. True) (\<lambda>_. False) True 0
     [''GET /assets/7 HTTP/1.1'' @ CRLF @ ''Authorization: Bearer abc'' @ CRLF @ CRLF] (issuer_new 60 2)"
proof (rule no_grant_no_disclosure)
  fix req and i :: string and gr :: "(string, int) asset_access_grant"
  have "fst (validate clock_ops (\<lambda>b. b) 0 token i (issuer_new 60 2)) \<noteq> Ok gr" for token
    unfolding validate_accepts_iff by (simp add: issuer_new_def)
  then show "\<not> presents_grant sample_delivery 0 req i (issuer_new 60 2) gr"
    by (simp add: presents_grant_def sample_delivery_def)
qed

end
