(* ===== verification/Asset_Access.thy ===== *)
theory Asset_Access
  imports Asset_Http Canvas_History
begin

text \<open>
  The rest of the delivery plane: its configuration (\<^verbatim>\<open>asset_delivery/config.rs\<close>), the
  composed service (\<^verbatim>\<open>mod.rs\<close>) and the query \<^verbatim>\<open>asset.access.resolve\<close> that turns a Document
  the actor may read into a grant and a URL (\<^verbatim>\<open>access.rs\<close>). The Document catalog, its
  authorizer and the payload codec are arguments.
\<close>

section \<open>Configuration\<close>

text \<open>A socket address as far as the sources look at it.\<close>

datatype ip_addr = IpV4 nat nat nat nat | IpV6 "nat list"

record socket_addr =
  sa_ip :: ip_addr
  sa_port :: nat

fun is_loopback :: "ip_addr \<Rightarrow> bool" where
  "is_loopback (IpV4 a b c d) = (a = 127)"
| "is_loopback (IpV6 gs) = (gs = [0, 0, 0, 0, 0, 0, 0, 1])"

record delivery_config =
  dc_enabled :: bool
  dc_listen_addr :: socket_addr
  dc_public_base_url :: "string option"
  dc_max_connections :: nat
  dc_max_active_downloads :: nat
  dc_chunk_size :: nat
  dc_idle_timeout_milliseconds :: nat
  dc_grant_ttl_seconds :: int
  dc_max_grants :: nat
  dc_allowed_origins :: "string list"

definition delivery_config_default :: delivery_config where
  "delivery_config_default =
     \<lparr>dc_enabled = False, dc_listen_addr = \<lparr>sa_ip = IpV4 127 0 0 1, sa_port = 8081\<rparr>,
      dc_public_base_url = None, dc_max_connections = 64, dc_max_active_downloads = 8,
      dc_chunk_size = 64 * 1024, dc_idle_timeout_milliseconds = 30000,
      dc_grant_ttl_seconds = 10 * 60, dc_max_grants = 4096, dc_allowed_origins = []\<rparr>"

text \<open>
  \<^verbatim>\<open>IpAddr\<close>'s parser, for the one question the validation asks: does the text denote an
  unspecified address? In dotted form that is \<^verbatim>\<open>0.0.0.0\<close> alone; in IPv6 form it is a
  sequence of zero groups of one to four digits, with at most one \<^verbatim>\<open>::\<close> that stands for at
  least one group, and the last two groups possibly written in dotted form.
\<close>

definition zero_group :: "string \<Rightarrow> bool" where
  "zero_group g \<longleftrightarrow> g \<noteq> [] \<and> length g \<le> 4 \<and> set g \<subseteq> {CHR ''0''}"

definition zero_groups :: "bool \<Rightarrow> string \<Rightarrow> nat option" where
  "zero_groups dotted s =
     (if s = [] then Some 0
      else let parts = split_str '':'' s in
        if list_all zero_group parts then Some (length parts)
        else if dotted \<and> list_all zero_group (butlast parts) \<and> last parts = ''0.0.0.0''
        then Some (length parts + 1) else None)"

definition ip_unspecified :: "string \<Rightarrow> bool" where
  "ip_unspecified s \<longleftrightarrow> s = ''0.0.0.0'' \<or>
     (case split_once_str ''::'' s of
        None \<Rightarrow> zero_groups True s = Some 8
      | Some (l, r) \<Rightarrow>
          (case (zero_groups False l, zero_groups True r) of
             (Some a, Some b) \<Rightarrow> a + b \<le> 7
           | _ \<Rightarrow> False))"

definition trim_brackets :: "string \<Rightarrow> string" where
  "trim_brackets s = rev (dropWhile (\<lambda>c. c = CHR ''['' \<or> c = CHR '']'')
     (rev (dropWhile (\<lambda>c. c = CHR ''['' \<or> c = CHR '']'') s)))"

datatype config_error = ConfigError string

text \<open>The host of an authority, or the error of its port or brackets.\<close>

definition authority_host :: "string \<Rightarrow> (string, config_error) result" where
  "authority_host authority =
     (case strip_prefix ''['' authority of
        Some rest \<Rightarrow>
          (case split_once_char (CHR '']'') rest of
             None \<Rightarrow> Err (ConfigError ''asset public base URL has an invalid IPv6 authority'')
           | Some (host, port_part) \<Rightarrow>
               if port_part \<noteq> [] \<and> (\<not> starts_with '':'' port_part \<or> parse_u16 (tl port_part) = None)
               then Err (ConfigError ''asset public base URL has an invalid port'')
               else Ok host)
      | None \<Rightarrow>
          if 1 < length (filter (\<lambda>c. c = CHR '':'') authority)
          then Err (ConfigError ''asset public base URL has an invalid IPv6 authority'')
          else (case rsplit_once_char (CHR '':'') authority of
                  Some (host, port) \<Rightarrow>
                    if host = [] \<or> parse_u16 port = None
                    then Err (ConfigError ''asset public base URL has an invalid port'')
                    else Ok host
                | None \<Rightarrow> Ok authority))"

definition validate_public_base_url :: "string \<Rightarrow> (unit, config_error) result" where
  "validate_public_base_url url =
     (case split_once_str ''://'' url of
        None \<Rightarrow> Err (ConfigError ''asset public base URL must be absolute'')
      | Some (scheme, remainder) \<Rightarrow>
          if scheme \<noteq> ''http'' \<and> scheme \<noteq> ''https'' \<or> contains_ws url
          then Err (ConfigError ''asset public base URL must use http or https'')
          else (let (authority, path) =
                  (case split_once_char (CHR ''/'') remainder of
                     None \<Rightarrow> (remainder, None) | Some (a, p) \<Rightarrow> (a, Some p))
                in if authority = [] \<or> (\<exists>p \<in> set_option path. p \<noteq> []) \<or>
                      contains_char (CHR ''?'') remainder \<or> contains_char (CHR ''#'') remainder
                   then Err (ConfigError ''asset public base URL must include a host without query or fragment'')
                   else and_then (authority_host authority) (\<lambda>host.
                     if host = [] then Err (ConfigError ''asset public base URL must include a host'')
                     else if ip_unspecified (trim_brackets host)
                     then Err (ConfigError ''asset public base URL must not advertise an unspecified host'')
                     else Ok ())))"

definition validate_delivery_config :: "delivery_config \<Rightarrow> (unit, config_error) result" where
  "validate_delivery_config c =
     (if dc_max_connections c = 0 \<or> dc_max_active_downloads c = 0
      then Err (ConfigError ''asset delivery connection and download limits must be greater than zero'')
      else if dc_chunk_size c = 0
      then Err (ConfigError ''asset delivery chunk size must be greater than zero'')
      else if dc_idle_timeout_milliseconds c = 0
      then Err (ConfigError ''asset delivery idle timeout must be greater than zero'')
      else if dc_grant_ttl_seconds c \<le> 0
      then Err (ConfigError ''asset delivery Grant TTL must be positive'')
      else if dc_max_grants c = 0
      then Err (ConfigError ''asset delivery max grants must be greater than zero'')
      else (case dc_public_base_url c of
              Some url \<Rightarrow> validate_public_base_url url
            | None \<Rightarrow>
                if dc_enabled c \<and> \<not> is_loopback (sa_ip (dc_listen_addr c))
                then Err (ConfigError ''asset public base URL is required for non-loopback binds'')
                else Ok ()))"

section \<open>The delivery service\<close>

record ('id, 'ts) delivery_service =
  ds_grants :: "('id, 'ts) grant_issuer"
  ds_public_base_url :: "string option"

definition delivery_service_new ::
  "delivery_config \<Rightarrow> (('id, 'ts) delivery_service, config_error) result" where
  "delivery_service_new c =
     and_then (validate_delivery_config c) (\<lambda>_.
     Ok \<lparr>ds_grants = issuer_new (dc_grant_ttl_seconds c) (dc_max_grants c),
         ds_public_base_url = dc_public_base_url c\<rparr>)"

definition set_bound_public_base_url ::
  "socket_addr \<Rightarrow> ('id, 'ts) delivery_service \<Rightarrow> ('id, 'ts) delivery_service" where
  "set_bound_public_base_url address s =
     (case ds_public_base_url s of
        None \<Rightarrow> s\<lparr>ds_public_base_url := Some (''http://127.0.0.1:'' @ dec_of_nat (sa_port address))\<rparr>
      | Some _ \<Rightarrow> s)"

section \<open>Resolving access\<close>

text \<open>What the handler reads of a Document descriptor.\<close>

record 'id document_info =
  di_document_id :: 'id
  di_session_id :: 'id
  di_source_asset_id :: 'id

datatype document_authorization_error = DocUnauthorized | DocUnavailable | DocInternal | DocOther

fun map_document_authorization :: "document_authorization_error \<Rightarrow> query_handler_error" where
  "map_document_authorization DocUnauthorized = HandlerUnauthorized"
| "map_document_authorization DocUnavailable = HandlerUnavailable"
| "map_document_authorization DocInternal = HandlerInternal"
| "map_document_authorization DocOther = HandlerInternal"

fun map_grant_error :: "grant_error \<Rightarrow> query_handler_error" where
  "map_grant_error GrantUnavailable = HandlerUnavailable"
| "map_grant_error GrantRandomness = HandlerInternal"
| "map_grant_error GrantUnauthorized = HandlerUnauthorized"

record ('id, 'ts) access_descriptor =
  acd_asset_id :: 'id
  acd_delivery_kind :: string
  acd_url :: string
  acd_token :: string
  acd_expires_at :: 'ts
  acd_supports_range :: bool

definition http_bearer :: "'id \<Rightarrow> string \<Rightarrow> string \<Rightarrow> 'ts \<Rightarrow> ('id, 'ts) access_descriptor" where
  "http_bearer asset_id url token expires_at =
     \<lparr>acd_asset_id = asset_id, acd_delivery_kind = ''http'', acd_url = url, acd_token = token,
      acd_expires_at = expires_at, acd_supports_range = True\<rparr>"

text \<open>
  \<^verbatim>\<open>execute\<close>: \<open>decode\<close> yields the Document identity of the payload, \<open>show_id\<close> the text of an
  identity; \<open>now\<close> and \<open>random\<close> are what the registry's clock and random source return.
\<close>

definition access_execute ::
  "('id \<Rightarrow> string) \<Rightarrow> 'ts timestamp_ops \<Rightarrow> (bytes \<Rightarrow> bytes)
   \<Rightarrow> ('id \<Rightarrow> ('id document_info option, unit) result)
   \<Rightarrow> ('id \<Rightarrow> 'id \<Rightarrow> (unit, document_authorization_error) result)
   \<Rightarrow> ('id \<Rightarrow> (('id, 'h) asset_descriptor option, 'e) result)
   \<Rightarrow> ('m \<Rightarrow> 'id option) \<Rightarrow> (('id, 'ts) access_descriptor \<Rightarrow> 'm option)
   \<Rightarrow> 'ts \<Rightarrow> bytes option \<Rightarrow> 'id \<Rightarrow> 'm \<Rightarrow> ('id, 'ts) delivery_service
   \<Rightarrow> ('m, query_handler_error) result \<times> ('id, 'ts) delivery_service" where
  "access_execute show_id ts digest get_document authorize get_asset decode encode now random actor_id request s =
     (case and_then (ok_or HandlerInvalidQuery (decode request)) (\<lambda>document_id.
           and_then (map_err (\<lambda>_. HandlerUnavailable) (get_document document_id)) (\<lambda>found.
           and_then (ok_or HandlerNotFound found) (\<lambda>document.
           and_then (map_err map_document_authorization (authorize actor_id (di_session_id document))) (\<lambda>_.
           and_then (map_err (\<lambda>_. HandlerUnavailable) (get_asset (di_source_asset_id document))) (\<lambda>asset.
           and_then (ok_or HandlerInternal asset) (\<lambda>descriptor.
           if ad_asset_id descriptor \<noteq> di_source_asset_id document then Err HandlerInternal
           else and_then (ok_or HandlerUnavailable (ds_public_base_url s)) (\<lambda>base_url.
           Ok (document, base_url)))))))) of
        Inl e \<Rightarrow> (Err e, s)
      | Inr (document, base_url) \<Rightarrow>
          (case issue ts digest now random (di_source_asset_id document) actor_id (di_session_id document)
                  (di_document_id document) (ds_grants s) of
             (Inl e, grants') \<Rightarrow> (Err (map_grant_error e), s\<lparr>ds_grants := grants'\<rparr>)
           | (Inr (token, grant), grants') \<Rightarrow>
               (ok_or HandlerInternal (encode (http_bearer (di_source_asset_id document)
                   (trim_end_matches_char (CHR ''/'') base_url @ ''/assets/'' @ show_id (grant_asset_id grant))
                   token (grant_expires_at grant))),
                s\<lparr>ds_grants := grants'\<rparr>)))"

section \<open>Who gets a grant\<close>

lemma access_execute_Ok:
  assumes "access_execute show_id ts digest get_document authorize get_asset decode encode now random actor m s = (Ok payload, s')"
  obtains doc_id doc asset base token gr raw where
    "decode m = Some doc_id" "get_document doc_id = Ok (Some doc)" "authorize actor (di_session_id doc) = Ok ()"
    "get_asset (di_source_asset_id doc) = Ok (Some asset)" "ds_public_base_url s = Some base" "random = Some raw"
    "issue ts digest now random (di_source_asset_id doc) actor (di_session_id doc) (di_document_id doc) (ds_grants s) =
       (Ok (token, gr), ds_grants s')" "s' = s\<lparr>ds_grants := ds_grants s'\<rparr>"
    "encode (http_bearer (di_source_asset_id doc)
       (trim_end_matches_char (CHR ''/'') base @ ''/assets/'' @ show_id (grant_asset_id gr)) token (grant_expires_at gr)) = Some payload"
proof -
  from assms obtain doc_id doc asset base where pre:
    "decode m = Some doc_id" "get_document doc_id = Ok (Some doc)" "authorize actor (di_session_id doc) = Ok ()"
    "get_asset (di_source_asset_id doc) = Ok (Some asset)" "ds_public_base_url s = Some base"
    "ad_asset_id asset = di_source_asset_id doc"
    by (auto simp: access_execute_def split: sum.splits if_splits prod.splits)
  then have eq: "access_execute show_id ts digest get_document authorize get_asset decode encode now random actor m s =
     (case issue ts digest now random (di_source_asset_id doc) actor (di_session_id doc) (di_document_id doc) (ds_grants s) of
        (Inl e, grants') \<Rightarrow> (Err (map_grant_error e), s\<lparr>ds_grants := grants'\<rparr>)
      | (Inr (token, grant), grants') \<Rightarrow>
          (ok_or HandlerInternal (encode (http_bearer (di_source_asset_id doc)
              (trim_end_matches_char (CHR ''/'') base @ ''/assets/'' @ show_id (grant_asset_id grant))
              token (grant_expires_at grant))), s\<lparr>ds_grants := grants'\<rparr>))"
    by (simp add: access_execute_def)
  obtain r grants' where i: "issue ts digest now random (di_source_asset_id doc) actor (di_session_id doc)
      (di_document_id doc) (ds_grants s) = (r, grants')" by fastforce
  obtain token gr where r: "r = Ok (token, gr)" using assms eq i by (cases r) auto
  moreover have "random \<noteq> None" using i r by (auto simp: issue_def Let_def split: option.splits if_splits)
  ultimately show ?thesis using that [OF pre(1-5)] assms eq i by auto
qed


section \<open>The plane as a whole\<close>

text \<open>
  The two handlers share the registry. A step is a resolve query, with whatever the clock and
  the random source return, or an HTTP connection, with whatever its peer sends and the
  store answers.
\<close>

inductive delivery_step ::
  "('id, 'h, 'ts) delivery \<Rightarrow> ('id \<Rightarrow> ('id document_info option, unit) result)
   \<Rightarrow> ('id \<Rightarrow> 'id \<Rightarrow> (unit, document_authorization_error) result)
   \<Rightarrow> ('id, 'ts) delivery_service \<Rightarrow> ('id, 'ts) delivery_service \<Rightarrow> bool"
  for dl get_document authorize where
  resolve_step:
    "access_execute show_id (dl_clock dl) (dl_digest dl) get_document authorize
       (get_asset :: 'id \<Rightarrow> (('id, 'h) asset_descriptor option, string) result) decode encode now random actor (m :: string) s = (r, s')
     \<Longrightarrow> delivery_step dl get_document authorize s s'"
| http_step:
    "handle_connection wfail dl (get :: 'id \<Rightarrow> (('id, 'h) asset_descriptor option, string) result) rd valid cancelled
       permit now chunks (ds_grants s) = (res, out, g')
     \<Longrightarrow> delivery_step dl get_document authorize s (s\<lparr>ds_grants := g'\<rparr>)"

definition grant_authorized ::
  "('id \<Rightarrow> ('id document_info option, unit) result)
   \<Rightarrow> ('id \<Rightarrow> 'id \<Rightarrow> (unit, document_authorization_error) result) \<Rightarrow> ('id, 'ts) asset_access_grant \<Rightarrow> bool" where
  "grant_authorized get_document authorize gr \<longleftrightarrow>
     (\<exists>doc_id doc. get_document doc_id = Ok (Some doc) \<and> authorize (grant_actor_id gr) (di_session_id doc) = Ok () \<and>
        grant_asset_id gr = di_source_asset_id doc \<and> grant_session_id gr = di_session_id doc \<and>
        grant_document_id gr = di_document_id doc)"

definition service_inv ::
  "('id \<Rightarrow> ('id document_info option, unit) result)
   \<Rightarrow> ('id \<Rightarrow> 'id \<Rightarrow> (unit, document_authorization_error) result) \<Rightarrow> ('id, 'ts) delivery_service \<Rightarrow> bool" where
  [inv_defs]: "service_inv get_document authorize s \<longleftrightarrow> issuer_inv (ds_grants s) \<and>
     (\<forall>k gr. map_of (entries (ds_grants s)) k = Some gr \<longrightarrow> grant_authorized get_document authorize gr)"

lemma respond_registry:
  "snd (respond dl get permit now req g) = g \<or>
   (\<exists>token i. snd (respond dl get permit now req g) = snd (validate (dl_clock dl) (dl_digest dl) now token i g))"
proof (cases "Option.bind (strip_prefix ''/assets/'' (hr_target req)) (dl_parse_id dl)")
  case None
  then show ?thesis
    by (cases "strip_prefix ''/assets/'' (hr_target req)") (auto simp: respond_def Let_def)
next
  case (Some i)
  then obtain hdr where id: "strip_prefix ''/assets/'' (hr_target req) = Some hdr" "dl_parse_id dl hdr = Some i"
    by (auto simp: Option.bind_eq_Some_conv)
  show ?thesis
  proof (cases "bearer_token (map_of (hr_headers req) ''authorization'')")
    case None
    with id show ?thesis by (auto simp: respond_def Let_def)
  next
    case (Some token)
    obtain r g' where v: "validate (dl_clock dl) (dl_digest dl) now token i g = (r, g')" by fastforce
    then have "snd (respond dl get permit now req g) \<in> {g, g'}"
      using Some id by (cases r; cases "get i") (auto simp: respond_def Let_def split: option.splits)
    with v show ?thesis by (metis empty_iff insert_iff snd_conv)
  qed
qed


lemma handle_connection_registry:
  assumes "handle_connection wfail dl get rd valid cancelled permit now chunks g = (res, out, g')"
  shows "g' = g \<or> (\<exists>token i. g' = snd (validate (dl_clock dl) (dl_digest dl) now token i g))"
proof (cases "read_request chunks")
  case (Inl e)
  with assms show ?thesis by (auto simp: handle_connection_def Let_def)
next
  case (Inr req)
  obtain reply g1 where r: "respond dl get permit now req g = (reply, g1)" by fastforce
  then have "g' = g1"
    using assms Inr by (cases reply) (auto simp: handle_connection_def Let_def split: prod.splits sum.splits)
  with respond_registry [of dl get permit now req g] r show ?thesis by auto
qed

lemma access_execute_registry:
  assumes "access_execute show_id ts digest get_document authorize get_asset decode encode now random actor m s = (r, s')"
  shows "s' = s \<or> (\<exists>doc_id doc. get_document doc_id = Ok (Some doc) \<and> authorize actor (di_session_id doc) = Ok () \<and>
    ds_grants s' = snd (issue ts digest now random (di_source_asset_id doc) actor (di_session_id doc) (di_document_id doc) (ds_grants s)))"
  using assms
  by (auto simp: access_execute_def split: sum.splits prod.splits if_splits) (metis snd_conv)+

lemma delivery_step_inv:
  "delivery_step dl get_document authorize s s' \<Longrightarrow> service_inv get_document authorize s \<Longrightarrow> service_inv get_document authorize s'"
proof (induction rule: delivery_step.induct)
  case (resolve_step show_id get_asset decode encode now random actor m s r s')
  from access_execute_registry [OF resolve_step.hyps] show ?case
  proof
    assume "s' = s"
    with resolve_step.prems show ?thesis by simp
  next
    assume "\<exists>doc_id doc. get_document doc_id = Ok (Some doc) \<and> authorize actor (di_session_id doc) = Ok () \<and>
      ds_grants s' = snd (issue (dl_clock dl) (dl_digest dl) now random (di_source_asset_id doc) actor
        (di_session_id doc) (di_document_id doc) (ds_grants s))"
    then obtain doc_id doc where doc: "get_document doc_id = Ok (Some doc)" "authorize actor (di_session_id doc) = Ok ()"
      "ds_grants s' = grant_step (dl_clock dl) (dl_digest dl)
         (IssueCall now random (di_source_asset_id doc) actor (di_session_id doc) (di_document_id doc)) (ds_grants s)"
      by auto
    from resolve_step.prems doc show ?thesis
      using grant_step_inv [of "ds_grants s"] grant_step_origin [of "ds_grants s"]
      unfolding inv_defs service_inv_def
      by (fastforce simp: issued_by_def grant_authorized_def simp del: grant_step.simps)
  qed
next
  case (http_step wfail get rd valid cancelled permit now chunks s res out g')
  from handle_connection_registry [OF http_step.hyps] show ?case
  proof
    assume "\<exists>token i. g' = snd (validate (dl_clock dl) (dl_digest dl) now token i (ds_grants s))"
    then obtain token i where "g' = grant_step (dl_clock dl) (dl_digest dl) (ValidateCall now token i) (ds_grants s)" by auto
    with http_step.prems show ?thesis
      using grant_step_inv [of "ds_grants s"] grant_step_origin [of "ds_grants s"]
      unfolding service_inv_def
      by (fastforce simp: issued_by_def simp del: grant_step.simps)
  qed (use http_step.prems in \<open>simp add: service_inv_def\<close>)
qed

lemma delivery_steps_inv:
  "(delivery_step dl get_document authorize)\<^sup>*\<^sup>* s s' \<Longrightarrow> service_inv get_document authorize s \<Longrightarrow>
   service_inv get_document authorize s'"
  by (induction rule: rtranclp_induct) (auto intro: delivery_step_inv)

lemma service_inv_new: "delivery_service_new c = Ok s \<Longrightarrow> service_inv get_document authorize s"
  by (auto simp: delivery_service_new_def inv_defs issuer_new_def)

text \<open>
  End to end: whatever queries and connections the delivery plane has served since it was
  created, a connection is answered with Asset bytes only for a GET whose origin is allowed
  and whose token stands for a grant given to an actor who was admitted to the session of a
  Document whose source is that very Asset.
\<close>

theorem served_bytes_were_authorized:
  assumes "delivery_service_new c = Ok s0" and "(delivery_step dl get_document authorize)\<^sup>*\<^sup>* s0 s"
    and "respond dl get permit now req (ds_grants s) = (StreamReply i status headers start len, g')"
  shows "hr_method req = ''GET'' \<and>
    (\<forall>o'. map_of (hr_headers req) ''origin'' = Some o' \<longrightarrow> o' \<in> set (dl_allowed_origins dl)) \<and>
    (\<exists>actor doc_id doc. get_document doc_id = Ok (Some doc) \<and> authorize actor (di_session_id doc) = Ok () \<and>
       di_source_asset_id doc = i)"
proof -
  have inv: "service_inv get_document authorize s"
    using delivery_steps_inv [OF assms(2) service_inv_new [OF assms(1)]] .
  from assms(3) obtain token gr where r: "hr_method req = ''GET''"
    "\<forall>o'. map_of (hr_headers req) ''origin'' = Some o' \<longrightarrow> o' \<in> set (dl_allowed_origins dl)"
    "fst (validate (dl_clock dl) (dl_digest dl) now token i (ds_grants s)) = Ok gr"
    by (rule respond_stream)
  then obtain k where "map_of (entries (ds_grants s)) k = Some gr" "grant_asset_id gr = i"
    unfolding validate_accepts_iff by blast
  with inv have "grant_authorized get_document authorize gr" "grant_asset_id gr = i"
    by (auto simp: service_inv_def)
  with r show ?thesis unfolding grant_authorized_def by metis
qed


section \<open>The configured URL\<close>

lemma split_once_str_Some: "split_once_str p s = Some (a, b) \<Longrightarrow> s = a @ p @ b"
proof (induction p s arbitrary: a rule: split_once_str.induct)
  case (2 p x xs)
  then show ?case by (auto simp: prefix_def split: if_splits option.splits)
qed (auto split: if_splits)

lemma trim_end_no_slash:
  assumes "CHR ''/'' \<notin> set a" and "a \<noteq> []"
  shows "trim_end_matches_char (CHR ''/'') (p @ a) = p @ a"
    and "trim_end_matches_char (CHR ''/'') (p @ a @ ''/'') = p @ a"
proof -
  have "hd (rev a) \<noteq> CHR ''/''" using assms by (metis hd_in_set rev_is_Nil_conv set_rev)
  then have d: "dropWhile (\<lambda>x. x = CHR ''/'') (rev a @ rev p) = rev a @ rev p"
    using assms(2) by (cases "rev a") auto
  then show "trim_end_matches_char (CHR ''/'') (p @ a) = p @ a"
    "trim_end_matches_char (CHR ''/'') (p @ a @ ''/'') = p @ a"
    by (simp_all add: trim_end_matches_char_def)
qed


text \<open>
  A listener on the IPv6 loopback address passes validation without a public URL, and then
  advertises an IPv4 address it does not listen on.
\<close>

lemma ipv6_loopback_advertises_ipv4:
  "validate_delivery_config (delivery_config_default\<lparr>dc_enabled := True,
     dc_listen_addr := \<lparr>sa_ip = IpV6 [0, 0, 0, 0, 0, 0, 0, 1], sa_port = 80\<rparr>\<rparr>) = Ok () \<and>
   ds_public_base_url (set_bound_public_base_url \<lparr>sa_ip = IpV6 [0, 0, 0, 0, 0, 0, 0, 1], sa_port = 80\<rparr>
     \<lparr>ds_grants = issuer_new 600 4096, ds_public_base_url = None\<rparr>) = Some ''http://127.0.0.1:80''"
  by code_simp


section \<open>A concrete run\<close>

definition sample_doc :: "string document_info" where
  "sample_doc = \<lparr>di_document_id = ''d'', di_session_id = ''s'', di_source_asset_id = ''7''\<rparr>"

definition sample_asset :: "(string, string) asset_descriptor" where
  "sample_asset = \<lparr>ad_asset_id = ''7'', ad_media_type = ''text'', ad_byte_length = 3,
     ad_content_hash = ''h'', ad_original_filename = None\<rparr>"

definition sample_service :: "(string, int) delivery_service" where
  "sample_service = \<lparr>ds_grants = issuer_new 600 4096, ds_public_base_url = Some ''http://a''\<rparr>"

definition sample_grant :: "(string, int) asset_access_grant" where
  "sample_grant = \<lparr>grant_asset_id = ''7'', grant_actor_id = ''u'', grant_session_id = ''s'',
     grant_document_id = ''d'', grant_expires_at = 700\<rparr>"

definition granted_service :: "(string, int) delivery_service" where
  "granted_service = sample_service\<lparr>ds_grants := (issuer_new 600 4096)\<lparr>entries := [(replicate 32 7, sample_grant)]\<rparr>\<rparr>"

lemma sample_access:
  "access_execute (\<lambda>i. i) clock_ops (\<lambda>b. b) (\<lambda>_. Ok (Some sample_doc)) (\<lambda>_ _. Ok ()) (\<lambda>_. Ok (Some sample_asset))
     Some (\<lambda>d. Some (acd_token d)) 100 (Some (replicate 32 7)) ''u'' ''d'' sample_service =
   (Ok (base64url (replicate 32 7)), granted_service)"
  by (simp add: access_execute_def sample_doc_def sample_asset_def sample_service_def issue_def issuer_new_def clock_ops_def
      saturating_add_i64_def i64_max_def i64_min_def Let_def granted_service_def sample_grant_def http_bearer_def
      trim_end_matches_char_def)



definition ws_leads :: "nat list" where
  "ws_leads = [9, 10, 11, 12, 13, 32, 194, 225, 226, 227]"

lemma ws_strings_leads: "\<forall>w \<in> set ws_strings. of_char (hd w) \<in> set ws_leads"
  by code_simp

lemma b64_not_lead: "\<forall>c \<in> set b64_table. of_char c \<notin> set ws_leads"
  by code_simp

lemma b64_no_ws: "set s \<subseteq> set b64_table \<Longrightarrow> \<not> contains_ws s"
proof (induction s)
  case (Cons x xs)
  have "ws_at (x # xs) = None"
  proof (cases "ws_at (x # xs)")
    case (Some w)
    then have w: "w \<in> set ws_strings" "prefix w (x # xs)" by (auto simp: ws_at_def dest: find_Some_in)
    then have "hd w = x" using ws_strings_nonempty [OF w(1)] by (auto simp: prefix_def neq_Nil_conv)
    with Cons.prems w(1) ws_strings_leads b64_not_lead show ?thesis by auto
  qed simp
  with Cons show ?case by simp
qed simp

definition sample_request :: http_request where
  "sample_request = \<lparr>hr_method = ''GET'', hr_target = ''/assets/'' @ ''7'',
     hr_headers = [(''authorization'', ''Bearer'' @ CHR '' '' # base64url (replicate 32 7))]\<rparr>"

lemma sample_request_facts:
  "hr_method sample_request = ''GET''" "strip_prefix ''/assets/'' (hr_target sample_request) = Some ''7''"
  "CHR ''?'' \<notin> set (hr_target sample_request)" "CHR ''#'' \<notin> set (hr_target sample_request)"
  "map_of (hr_headers sample_request) ''origin'' = None" "map_of (hr_headers sample_request) ''range'' = None"
  by (simp_all add: sample_request_def strip_prefix_def)

lemma sample_token: "bearer_token (map_of (hr_headers sample_request) ''authorization'') = Some (base64url (replicate 32 7))"
proof -
  have "split_once_char (CHR '' '') (''Bearer'' @ CHR '' '' # base64url (replicate 32 7)) =
      Some (''Bearer'', base64url (replicate 32 7))"
    by (rule split_once_char_append) simp
  moreover have "base64url (replicate 32 7) \<noteq> []" using base64url_length [of "replicate 32 7"] by auto
  moreover have "\<not> contains_ws (base64url (replicate 32 7))"
    using base64url_bits [of "replicate 32 7"] by (intro b64_no_ws) (simp add: b64_text_def)
  moreover have "eq_ignore_ascii_case ''Bearer'' ''Bearer''" by (simp add: eq_ignore_ascii_case_def)
  ultimately show ?thesis by (simp add: bearer_token_def sample_request_def)
qed

theorem served_bytes_were_authorized_witness:
  "\<exists>actor doc_id doc. (Ok (Some sample_doc) :: (string document_info option, unit) result) = Ok (Some doc) \<and>
     (Ok () :: (unit, document_authorization_error) result) = Ok () \<and> di_source_asset_id doc = ''7'' \<and>
     actor = ''u'' \<and> doc_id = ''d''"
proof -
  let ?cfg = "delivery_config_default\<lparr>dc_public_base_url := Some ''http://a''\<rparr>"
  have new: "delivery_service_new ?cfg = Ok sample_service"
    by code_simp
  have step: "(delivery_step sample_delivery (\<lambda>_. Ok (Some sample_doc)) (\<lambda>_ _. Ok ()))\<^sup>*\<^sup>* sample_service granted_service"
    by (rule r_into_rtranclp, rule resolve_step [where m = "''d''" and get_asset = "\<lambda>_. Ok (Some sample_asset)"])
      (use sample_access in \<open>simp add: sample_delivery_def\<close>)
  have v: "fst (validate clock_ops (\<lambda>b. b) 699 (base64url (replicate 32 7)) ''7'' (ds_grants granted_service)) = Ok sample_grant"
    unfolding validate_accepts_iff
    by (intro exI [of _ "replicate 32 7"]) (simp add: granted_service_def sample_grant_def clock_ops_def)
  obtain g' where v2: "validate clock_ops (\<lambda>b. b) 699 (base64url (replicate 32 7)) ''7'' (ds_grants granted_service) = (Ok sample_grant, g')"
    using v by (metis prod.collapse)
  obtain status headers start len where "respond sample_delivery (\<lambda>_. Ok (Some sample_asset)) True 699 sample_request
      (ds_grants granted_service) = (StreamReply ''7'' status headers start len, g')"
    using sample_token v2 sample_request_facts
    by (simp add: respond_def sample_delivery_def respond_get_def sample_asset_def contains_char_def Let_def)
  from served_bytes_were_authorized [OF new step this] show ?thesis by (auto simp: sample_doc_def)
qed

end
