(* ===== verification/Asset_Recovery.thy ===== *)
theory Asset_Recovery
  imports Asset_Store Asset_Access
begin

text \<open>
  What the Asset store promises: reads return slices of the published content, recovery
  cleans up after any crash and refuses damage, and a published Asset stays published. The
  triples of \<^theory_text>\<open>Crash_Io\<close> carry the safety part, its \<open>runs\<close> the part that says that
  ingest and recovery return. The interpretation of \<open>asset_source\<close> hands the store to the
  HTTP plane.
\<close>

section \<open>Reading\<close>

definition asset_content :: "('id, 'h) asset_codec \<Rightarrow> plan \<times> world \<Rightarrow> 'id \<Rightarrow> octets option" where
  "asset_content c s i = map_option snd (published_asset c (snd s) i)"

definition readable :: "('id, 'h) asset_codec \<Rightarrow> plan \<times> world \<Rightarrow> bool" where
  "readable c s \<longleftrightarrow> asset_codec_ok c \<and> asset_inv c (snd s)"

definition port_get :: "('id, 'h) asset_codec \<Rightarrow> 'id \<Rightarrow> plan \<times> world \<Rightarrow> (('id, 'h) asset_descriptor option, string) result" where
  "port_get c i s = get_asset (fst s) c i (snd s)"

definition port_read :: "('id, 'h) asset_codec \<Rightarrow> 'id \<Rightarrow> asset_range_req \<Rightarrow> plan \<times> world \<Rightarrow> (asset_chunk, 'id asset_read_error) result" where
  "port_read c i r s = read_range (fst s) c i r (snd s)"

lemma agrees_self: "asset_inv c w \<Longrightarrow> agrees c (published_asset c w) w"
  by (simp add: agrees_def)

lemma get_asset_spec:
  assumes "asset_codec_ok c" and "asset_inv c w" and "get_asset p c i w = Ok v"
  shows "v = map_option fst (published_asset c w i)"
proof -
  from assms(3) obtain rc where l: "lookup p c i w = Ok rc" by (auto simp: get_asset_def split: sum.splits)
  from lookup_cases [OF assms(1) agrees_self [OF assms(2)] l] assms(3) l show ?thesis
    by cases (auto simp: get_asset_def)
qed

lemma chunk_new_Ok: "chunk_new c msg off bytes len = Ok ch \<Longrightarrow> ch_offset ch = off \<and> ch_bytes ch = bytes \<and> ch_total ch = len"
  by (auto simp: chunk_new_def Let_def split: if_splits)

lemma read_range_unfold:
  assumes "lookup p c i w = Ok (Some \<lparr>rec_descriptor = d, rec_blob_key = key, rec_state = Published\<rparr>)"
    and "map_of (w_blobs w) key = Some (RegularFile bytes)" and "length bytes = ad_byte_length d" and "read_range p c i r w = Ok ch"
  shows "ar_offset r \<le> length bytes \<and>
    (if ar_offset r = length bytes
     then chunk_new c ''published Asset produced an invalid EOF chunk'' (ar_offset r) [] (length bytes) = Ok ch
     else \<exists>e. range_end_offset c r = Some e \<and> chunk_new c ''published Asset produced an invalid range chunk'' (ar_offset r)
       (slice (ar_offset r) (min e (length bytes) - ar_offset r) bytes) (length bytes) = Ok ch)"
proof (cases "length bytes < ar_offset r")
  case True
  with assms show ?thesis by (simp add: read_range_def)
next
  case False
  then have "ar_offset r \<le> length bytes" by simp
  with assms False show ?thesis by (cases "ar_offset r = length bytes") (auto simp: read_range_def Let_def split: if_split_asm)
qed

lemma read_range_spec:
  assumes "asset_codec_ok c" and "asset_inv c w" and "read_range p c i r w = Ok ch"
  obtains d bytes where "published_asset c w i = Some (d, bytes)" "ar_offset r \<le> length bytes"
    "ch_offset ch = ar_offset r" "ch_total ch = length bytes" "ch_bytes ch = slice (ar_offset r) (ar_length r) bytes"
proof -
  from assms(3) obtain rc where l: "lookup p c i w = Ok (Some rc)" "rec_state rc = Published"
    by (auto simp: read_range_def split: sum.splits option.splits if_splits)
  from lookup_cases [OF assms(1) agrees_self [OF assms(2)] l(1)] l(2) obtain d bytes
    where rc: "rc = \<lparr>rec_descriptor = d, rec_blob_key = blob_key c i, rec_state = Published\<rparr>"
      and p: "published_asset c w i = Some (d, bytes)" by cases auto
  have inv: "row_inv c (w_rows w)" using assms(2) by (simp add: asset_inv_def)
  from p have b: "map_of (w_blobs w) (blob_key c i) = Some (RegularFile bytes)" "length bytes = ad_byte_length d"
    using published_asset_matches [OF assms(1,2) p] by (auto simp: published_asset_Some [OF assms(1) inv] blob_matches_def)
  have e: "range_end_offset c r = Some e \<Longrightarrow> e = ar_offset r + ar_length r" for e
    using assms(1) by (auto simp: asset_codec_ok_def)
  note u = read_range_unfold [OF l(1) [unfolded rc] b assms(3)]
  then have off: "ar_offset r \<le> length bytes" by blast
  have "ch_offset ch = ar_offset r \<and> ch_total ch = length bytes \<and> ch_bytes ch = slice (ar_offset r) (ar_length r) bytes"
  proof (cases "ar_offset r = length bytes")
    case True
    with u show ?thesis by (auto simp: slice_def dest!: chunk_new_Ok)
  next
    case False
    with u obtain e' where e': "range_end_offset c r = Some e'"
      and "chunk_new c ''published Asset produced an invalid range chunk'' (ar_offset r)
        (slice (ar_offset r) (min e' (length bytes) - ar_offset r) bytes) (length bytes) = Ok ch" by auto
    with e [OF e'] show ?thesis by (auto dest!: chunk_new_Ok simp: slice_def min_def)
  qed
  with that p off show thesis by blast
qed

interpretation assets: asset_source "readable c" "asset_content c" "port_get c" "port_read c" for c
proof
  fix s and i :: 'a and d :: "('a, 'b) asset_descriptor"
  assume "readable c s" and "port_get c i s = Inr (Some d)"
  then have k: "asset_codec_ok c" "asset_inv c (snd s)" and g: "get_asset (fst s) c i (snd s) = Ok (Some d)"
    by (auto simp: readable_def port_get_def)
  from get_asset_spec [OF k g] obtain bytes where "published_asset c (snd s) i = Some (d, bytes)"
    by (cases "published_asset c (snd s) i") auto
  with published_asset_matches [OF k this]
  show "ad_asset_id d = i \<and> (\<exists>bs. asset_content c s i = Some bs \<and> length bs = ad_byte_length d)"
    by (auto simp: asset_content_def blob_matches_def)
next
  fix s and i :: 'a and bs r ch
  assume "readable c s" "asset_content c s i = Some bs" "port_read c i r s = Inr ch"
  then have k: "asset_codec_ok c" "asset_inv c (snd s)" and g: "read_range (fst s) c i r (snd s) = Ok ch"
    and b: "map_option snd (published_asset c (snd s) i) = Some bs"
    by (auto simp: readable_def port_read_def asset_content_def)
  from read_range_spec [OF k g] obtain d bytes where "published_asset c (snd s) i = Some (d, bytes)"
    "ch_offset ch = ar_offset r" "ch_bytes ch = slice (ar_offset r) (ar_length r) bytes" by blast
  with b show "ch_offset ch = ar_offset r \<and> ch_bytes ch = slice (ar_offset r) (ar_length r) bs" by simp
qed

section \<open>Recovery\<close>

lemma load_all_records_Ok:
  assumes "load_all_records flt c rows = Ok records"
  shows "\<forall>rc \<in> set records. \<exists>r \<in> set rows. asset_decode_row c r = Ok rc"
    and "\<forall>r \<in> set rows. \<exists>rc \<in> set records. asset_decode_row c r = Ok rc"
proof -
  let ?sorted = "sort_key (\<lambda>r. map of_char (as_asset_id r) :: nat list) rows"
  from assms have l: "list_all2 (\<lambda>x y. (case x of (n, row) \<Rightarrow> and_then (sql_row flt ''Asset metadata row could not be read'' n asset_row_corruption row)
      (asset_decode_row c)) = Inr y) (enumerate 0 ?sorted) records"
    unfolding load_all_records_def and_then_Ok traverse_Ok_iff by blast
  have len: "length records = length ?sorted" using list_all2_lengthD [OF l] by simp
  have k: "asset_decode_row c (?sorted ! n) = Ok (records ! n)" if "n < length records" for n
  proof -
    from that have "n < length (enumerate 0 ?sorted)" using list_all2_lengthD [OF l] by simp
    from list_all2_nthD [OF l this] show ?thesis using that len by (auto simp: nth_enumerate_eq)
  qed
  have s: "set ?sorted = set rows" by simp
  show "\<forall>rc \<in> set records. \<exists>r \<in> set rows. asset_decode_row c r = Ok rc"
    unfolding s [symmetric] using k len by (fastforce simp only: in_set_conv_nth)
  show "\<forall>r \<in> set rows. \<exists>rc \<in> set records. asset_decode_row c r = Ok rc"
    unfolding s [symmetric] using k len by (fastforce simp only: in_set_conv_nth)
qed

lemma load_all_records_calm:
  assumes "\<And>r. r \<in> set rows \<Longrightarrow> \<exists>rc. asset_decode_row c r = Ok rc"
  shows "\<exists>records. load_all_records no_faults c rows = Ok records"
proof -
  let ?sorted = "sort_key (\<lambda>r. map of_char (as_asset_id r) :: nat list) rows"
  have "traverse (\<lambda>(n, row). and_then (sql_row no_faults ''Asset metadata row could not be read'' n asset_row_corruption row) (asset_decode_row c))
      (enumerate 0 ?sorted) = Ok (map (\<lambda>(n, row). projr (asset_decode_row c row)) (enumerate 0 ?sorted))"
  proof (rule traverse_map_Ok)
    fix x assume "x \<in> set (enumerate 0 ?sorted)"
    then have "snd x \<in> snd ` set (enumerate 0 ?sorted)" by (rule imageI)
    also have "\<dots> = set rows" unfolding set_map [symmetric] map_snd_enumerate by simp
    finally have "snd x \<in> set rows" .
    from assms [OF this] show "(case x of (n, row) \<Rightarrow> and_then (sql_row no_faults ''Asset metadata row could not be read'' n asset_row_corruption row)
        (asset_decode_row c)) = Ok (case x of (n, row) \<Rightarrow> projr (asset_decode_row c row))"
      by (auto split: prod.split)
  qed
  then show ?thesis by (auto simp: load_all_records_def)
qed

lemma recover_records_Ok:
  assumes "fold_res (recover_record p c w) records (ks0, is0) = Ok (ks, is)"
  shows "set ks = set ks0 \<union> {rec_blob_key r |r. r \<in> set records \<and> rec_state r = Published} \<and>
    set is = set is0 \<union> {ad_asset_id (rec_descriptor r) |r. r \<in> set records \<and> rec_state r = Staged} \<and>
    (\<forall>r \<in> set records. rec_state r = Published \<longrightarrow> verify_blob p c (rec_blob_key r) (rec_descriptor r) w = Ok ())"
  using assms
proof (induction records arbitrary: ks0 is0)
  case Nil
  then show ?case by auto
next
  case (Cons r records)
  from Cons.prems obtain a where a: "recover_record p c w r (ks0, is0) = Ok a" "fold_res (recover_record p c w) records a = Ok (ks, is)" by auto
  show ?case
  proof (cases "rec_state r")
    case Staged
    with a have "fold_res (recover_record p c w) records (ks0, is0 @ [ad_asset_id (rec_descriptor r)]) = Ok (ks, is)"
      by (auto simp: recover_record_def)
    from Cons.IH [OF this] Staged show ?thesis by auto
  next
    case Published
    with a have "verify_blob p c (rec_blob_key r) (rec_descriptor r) w = Ok ()"
      "fold_res (recover_record p c w) records (rec_blob_key r # ks0, is0) = Ok (ks, is)"
      by (auto simp: recover_record_def)
    from Cons.IH [OF this(2)] this(1) Published show ?thesis by auto
  qed
qed

lemma recover_records_calm:
  assumes "\<And>r. r \<in> set records \<Longrightarrow> rec_state r = Published \<Longrightarrow> verify_blob p c (rec_blob_key r) (rec_descriptor r) w = Ok ()"
  shows "\<exists>v. fold_res (recover_record p c w) records acc = Ok v"
  using assms
proof (induction records arbitrary: acc)
  case (Cons r records)
  then have "\<exists>a. recover_record p c w r acc = Ok a" by (cases "rec_state r") (auto simp: recover_record_def)
  with Cons show ?case by fastforce
qed auto

lemma verify_blob_Ok:
  "verify_blob p c key d w = Ok () \<Longrightarrow> \<exists>bytes. map_of (w_blobs w) key = Some (RegularFile bytes) \<and> blob_matches c d bytes"
  by (auto simp: verify_blob_def blob_matches_def split: option.splits fs_node.splits if_splits)

lemma verify_blob_calm:
  "map_of (w_blobs w) key = Some (RegularFile bytes) \<Longrightarrow> blob_matches c d bytes \<Longrightarrow> verify_blob (calm_plan part) c key d w = Ok ()"
  by (auto simp: verify_blob_def blob_matches_def calm_plan_def)

lemma delete_staged_fold:
  assumes "fold_res (\<lambda>(n, i) rows. and_then (sql_row flt ''staged Asset recovery failed'' n asset_map_sqlite_error ()) (\<lambda>_.
      Ok (delete_staged c i rows))) (enumerate n is) rows =
      (Ok rows' :: (asset_row list, ('id, 'h) asset_error) result)"
  shows "rows' = filter (\<lambda>r. \<not> (as_asset_id r \<in> aid_to_string c ` set is \<and> as_publication_state r = STAGED)) rows"
  using assms
proof (induction "is" arbitrary: n rows)
  case (Cons i "is")
  from Cons.prems Cons.IH [of "Suc n" "delete_staged c i rows"]
  have "rows' = filter (\<lambda>r. \<not> (as_asset_id r \<in> aid_to_string c ` set is \<and> as_publication_state r = STAGED))
      (delete_staged c i rows)" by auto
  then show ?case by (auto simp: delete_staged_def intro!: filter_cong)
qed simp

lemma delete_staged_rows_Ok:
  assumes "delete_staged_rows flt c is rows = (Ok u :: (unit, ('id, 'h) asset_error) result, rows')"
  shows "rows' = filter (\<lambda>r. \<not> (as_asset_id r \<in> aid_to_string c ` set is \<and> as_publication_state r = STAGED)) rows"
  using assms by (auto simp: delete_staged_rows_def dest!: delete_staged_fold split: sum.splits)

lemma delete_staged_rows_Err: "delete_staged_rows flt c is rows = (Err e, rows') \<Longrightarrow> rows' = rows"
  by (auto simp: delete_staged_rows_def split: sum.splits)

lemma delete_staged_rows_calm: "\<exists>rows'. delete_staged_rows no_faults c is rows = (Ok () :: (unit, ('id, 'h) asset_error) result, rows')"
proof -
  have "\<exists>rows'. fold_res (\<lambda>(n, i) rows. and_then (sql_row no_faults ''staged Asset recovery failed'' n asset_map_sqlite_error ()) (\<lambda>_.
      Ok (delete_staged c i rows))) (enumerate n is) rows =
      (Ok rows' :: (asset_row list, ('id, 'h) asset_error) result)" for n
    by (induction "is" arbitrary: n rows) auto
  from this [of 0] show ?thesis by (auto simp: delete_staged_rows_def)
qed

lemma quarantine_attempts_moves:
  assumes "\<And>w target. P w \<Longrightarrow> E (move_to_quarantine b name target w) \<and> Q (move_to_quarantine b name target w)"
    and "\<And>w. P w \<Longrightarrow> E w"
  shows "triple P (quarantine_attempts p msg b name n k) (\<lambda>r w. E w \<and> (r = Ok () \<longrightarrow> Q w)) E"
proof (induction k arbitrary: n)
  case 0
  show ?case using assms(2) by auto
next
  case (Suc k)
  show ?case unfolding quarantine_attempts.simps
  proof (rule triple_bind [where R = "\<lambda>r w. E w \<and> (case r of Inl _ \<Rightarrow> P w | Inr _ \<Rightarrow> Q w)"], goal_cases)
    case 1
    show ?case using assms by (cases b) (auto intro!: triple_step split: prod.splits option.splits if_splits)
  next
    case (2 x)
    show ?case
    proof (cases "x = Inl AlreadyExists")
      case True
      then show ?thesis by (auto intro: triple_pre [OF Suc.IH])
    next
      case False
      then show ?thesis by (auto split: sum.split io_kind.split)
    qed
  qed
qed

lemma keys_delete: "fst ` set (AList.delete k xs) = fst ` set xs - {k}"
  by (simp only: set_map [symmetric] delete_keys) auto

lemma keys_absent: "map_of xs k = None \<Longrightarrow> fst ` set xs - {k} = fst ` set xs"
  by (auto simp: map_of_eq_None_iff)

lemma move_from_staging:
  "agrees c A w \<Longrightarrow> agrees c A (move_to_quarantine False name target w)"
  "w_rows (move_to_quarantine b name target w) = w_rows w"
  "w_blobs (move_to_quarantine False name target w) = w_blobs w"
  "w_staging (move_to_quarantine True name target w) = w_staging w"
  "fst ` set (w_staging (move_to_quarantine False name target w)) = fst ` set (w_staging w) - {name}"
  "fst ` set (w_blobs (move_to_quarantine True name target w)) = fst ` set (w_blobs w) - {name}"
  by (simp_all add: move_to_quarantine_def keys_delete keys_absent split: option.split)

lemma move_from_blobs:
  assumes "asset_codec_ok c" and "agrees c A w" and "\<And>d. published_row c d \<in> set (w_rows w) \<Longrightarrow> blob_key c (ad_asset_id d) \<noteq> name"
  shows "agrees c A (move_to_quarantine True name target w)"
  using agrees_blobs [OF assms(1,2), of "AList.delete name (w_blobs w)"] assms(2,3)
  by (auto simp: move_to_quarantine_def delete_conv' split: option.splits)

text \<open>Sweeping the staging directory.\<close>

lemma sweep_staging_triple:
  "triple (\<lambda>w. agrees c A w \<and> w_rows w = rows) (quarantine_directory_entries p)
     (\<lambda>r w. (agrees c A w \<and> w_rows w = rows) \<and> (r = Ok () \<longrightarrow> w_staging w = [])) (agrees c A)"
proof -
  let ?E = "\<lambda>w. agrees c A w \<and> w_rows w = rows"
  let ?I = "\<lambda>names ys w. ?E w \<and> fst ` set (w_staging w) \<subseteq> set names - snd ` set ys"
  have body: "triple (?I names ys) (io_try (io_return (fs_check p ''Asset recovery entry could not be read'' n)) (\<lambda>_. quarantine_entry p False name))
      (\<lambda>r w. ?E w \<and> (r = Ok () \<longrightarrow> ?I names (ys @ [(n, name)]) w)) (agrees c A)" for names ys n name
  proof (rule triple_try [where R = "\<lambda>r. ?I names ys"], goal_cases)
    case (2 x)
    show ?case unfolding quarantine_entry_def
      by (rule triple_conseq [OF quarantine_attempts_moves [where P = "?I names ys" and E = ?E and Q = "?I names (ys @ [(n, name)])"]])
        (auto simp: move_from_staging)
  qed auto
  have "triple (\<lambda>w. ?E w \<and> names = remdups (map fst (w_staging w)))
      (io_for (\<lambda>(n, name). io_try (io_return (fs_check p ''Asset recovery entry could not be read'' n)) (\<lambda>_. quarantine_entry p False name)) (enumerate 0 names))
      (\<lambda>r w. ?E w \<and> (r = Ok () \<longrightarrow> w_staging w = [])) (agrees c A)" for names
  proof (rule triple_conseq [OF triple_for_all [where I = "?I names" and E = ?E and C = "agrees c A"]], goal_cases)
    case (1 ys x zs)
    show ?case using body [of names ys "fst x" "snd x"] by (simp add: case_prod_beta)
  next
    case (4 r w)
    have "snd ` set (enumerate 0 names) = set names" by (metis set_map map_snd_enumerate)
    with 4 show ?case by auto
  qed auto
  then show ?thesis
    unfolding quarantine_directory_entries_def
    by (intro triple_try [where R = "\<lambda>r. ?E"] triple_bind [where R = "\<lambda>names w. ?E w \<and> names = remdups (map fst (w_staging w))"]) auto
qed

text \<open>Sweeping the blobs that no published row names.\<close>

lemma sweep_blobs_triple:
  assumes "asset_codec_ok c" and "\<And>d. published_row c d \<in> set rows \<Longrightarrow> blob_key c (ad_asset_id d) \<in> set keys"
  shows "triple (\<lambda>w. agrees c A w \<and> w_rows w = rows \<and> w_staging w = []) (quarantine_orphan_blobs p keys)
     (\<lambda>r w. (agrees c A w \<and> w_rows w = rows \<and> w_staging w = []) \<and> (r = Ok () \<longrightarrow> fst ` set (w_blobs w) \<subseteq> set keys)) (agrees c A)"
proof -
  let ?E = "\<lambda>w. agrees c A w \<and> w_rows w = rows \<and> w_staging w = []"
  let ?I = "\<lambda>names ys w. ?E w \<and> fst ` set (w_blobs w) \<subseteq> set keys \<union> (set names - snd ` set ys)"
  have body: "triple (?I names ys) (io_try (io_return (fs_check p ''Asset blob entry could not be read'' n)) (\<lambda>_.
       if name \<in> set keys then io_return (Ok ()) else quarantine_entry p True name))
      (\<lambda>r w. ?E w \<and> (r = Ok () \<longrightarrow> ?I names (ys @ [(n, name)]) w)) (agrees c A)" for names ys n name
  proof (rule triple_try [where R = "\<lambda>r. ?I names ys"], goal_cases)
    case (2 x)
    show ?case
    proof (cases "name \<in> set keys")
      case False
      have "?E (move_to_quarantine True name target w) \<and> ?I names (ys @ [(n, name)]) (move_to_quarantine True name target w)"
        if "?I names ys w" for w target
        using that move_from_blobs [OF assms(1), of A w name target] assms(2) False by (auto simp: move_from_staging)
      then have "triple (?I names ys) (quarantine_entry p True name) (\<lambda>r w. ?E w \<and> (r = Ok () \<longrightarrow> ?I names (ys @ [(n, name)]) w)) ?E"
        unfolding quarantine_entry_def by (rule quarantine_attempts_moves) blast+
      then have "triple (?I names ys) (quarantine_entry p True name) (\<lambda>r w. ?E w \<and> (r = Ok () \<longrightarrow> ?I names (ys @ [(n, name)]) w)) (agrees c A)"
        by (rule triple_conseq) blast+
      with False show ?thesis by simp
    next
      case True
      then show ?thesis by auto
    qed
  qed auto
  have "triple (\<lambda>w. ?E w \<and> names = remdups (map fst (w_blobs w)))
      (io_for (\<lambda>(n, name). io_try (io_return (fs_check p ''Asset blob entry could not be read'' n)) (\<lambda>_.
         if name \<in> set keys then io_return (Ok ()) else quarantine_entry p True name)) (enumerate 0 names))
      (\<lambda>r w. ?E w \<and> (r = Ok () \<longrightarrow> fst ` set (w_blobs w) \<subseteq> set keys)) (agrees c A)" for names
  proof (rule triple_conseq [OF triple_for_all [where I = "?I names" and E = ?E and C = "agrees c A"]], goal_cases)
    case (1 ys x zs)
    show ?case using body [of names ys "fst x" "snd x"] by (simp add: case_prod_beta)
  next
    case (4 r w)
    have "snd ` set (enumerate 0 names) = set names" by (metis set_map map_snd_enumerate)
    with 4 show ?case by auto
  qed auto
  then show ?thesis
    unfolding quarantine_orphan_blobs_def
    by (intro triple_try [where R = "\<lambda>r. ?E"] triple_bind [where R = "\<lambda>names w. ?E w \<and> names = remdups (map fst (w_blobs w))"]) auto
qed

text \<open>What the scan of the metadata establishes.\<close>

lemma recovery_scan:
  assumes "asset_codec_ok c" and "row_inv c (w_rows w)"
    and "load_all_records flt c (w_rows w) = Ok records" and "fold_res (recover_record p c w) records ([], []) = Ok (keys, ids)"
  shows "asset_inv c w" and "\<And>d. published_row c d \<in> set (w_rows w) \<longleftrightarrow>
      (\<exists>rc \<in> set records. rc = \<lparr>rec_descriptor = d, rec_blob_key = blob_key c (ad_asset_id d), rec_state = Published\<rparr>)"
    and "set keys = {blob_key c (ad_asset_id d) |d. published_row c d \<in> set (w_rows w)}"
    and "\<And>d. staged_row c d \<in> set (w_rows w) \<Longrightarrow> ad_asset_id d \<in> set ids"
proof -
  note recs = load_all_records_Ok [OF assms(3)] and scan = recover_records_Ok [OF assms(4)]
  have pub: "published_row c d \<in> set (w_rows w) \<longleftrightarrow>
      (\<exists>rc \<in> set records. rc = \<lparr>rec_descriptor = d, rec_blob_key = blob_key c (ad_asset_id d), rec_state = Published\<rparr>)" for d
  proof
    assume "published_row c d \<in> set (w_rows w)"
    with recs(2) decode_published [OF assms(1) row_inv_valid [OF assms(1,2)]]
    show "\<exists>rc \<in> set records. rc = \<lparr>rec_descriptor = d, rec_blob_key = blob_key c (ad_asset_id d), rec_state = Published\<rparr>"
      by fastforce
  next
    assume "\<exists>rc \<in> set records. rc = \<lparr>rec_descriptor = d, rec_blob_key = blob_key c (ad_asset_id d), rec_state = Published\<rparr>"
    with recs(1) obtain r where r: "r \<in> set (w_rows w)"
      "asset_decode_row c r = Ok \<lparr>rec_descriptor = d, rec_blob_key = blob_key c (ad_asset_id d), rec_state = Published\<rparr>" by blast
    from row_inv_row [OF assms(2) r(1)] r decode_staged [OF assms(1)] decode_published [OF assms(1)]
    show "published_row c d \<in> set (w_rows w)" by cases auto
  qed
  show "published_row c d \<in> set (w_rows w) \<longleftrightarrow>
      (\<exists>rc \<in> set records. rc = \<lparr>rec_descriptor = d, rec_blob_key = blob_key c (ad_asset_id d), rec_state = Published\<rparr>)" for d
    by (rule pub)
  have shape: "rec_blob_key rc = blob_key c (ad_asset_id (rec_descriptor rc))" if "rc \<in> set records" for rc
  proof -
    from recs(1) that obtain r where r: "r \<in> set (w_rows w)" "asset_decode_row c r = Ok rc" by blast
    from row_inv_row [OF assms(2) r(1)] r decode_staged [OF assms(1)] decode_published [OF assms(1)]
    show ?thesis by cases auto
  qed
  have pub_rec: "rc = \<lparr>rec_descriptor = rec_descriptor rc, rec_blob_key = blob_key c (ad_asset_id (rec_descriptor rc)), rec_state = Published\<rparr>"
    if "rc \<in> set records" "rec_state rc = Published" for rc using shape [OF that(1)] that by (cases rc) simp
  have keys: "set keys = {rec_blob_key r |r. r \<in> set records \<and> rec_state r = Published}" using scan by simp
  show "set keys = {blob_key c (ad_asset_id d) |d. published_row c d \<in> set (w_rows w)}"
  proof (rule set_eqI, rule iffI)
    fix k assume "k \<in> set keys"
    with keys obtain rc where rc: "rc \<in> set records" "rec_state rc = Published" "k = rec_blob_key rc" by auto
    with pub_rec [OF rc(1,2)] have "published_row c (rec_descriptor rc) \<in> set (w_rows w)" unfolding pub by metis
    with rc shape show "k \<in> {blob_key c (ad_asset_id d) |d. published_row c d \<in> set (w_rows w)}" by auto
  next
    fix k assume "k \<in> {blob_key c (ad_asset_id d) |d. published_row c d \<in> set (w_rows w)}"
    then show "k \<in> set keys" unfolding keys pub by force
  qed
  show "asset_inv c w"
    using assms(2) scan pub verify_blob_Ok unfolding asset_inv_def by fastforce
  show "ad_asset_id d \<in> set ids" if "staged_row c d \<in> set (w_rows w)" for d
    using that recs(2) decode_staged [OF assms(1) row_inv_valid_staged [OF assms(1,2) that]] scan by fastforce
qed

lemma only_published:
  assumes "row_inv c rows" and "\<And>d. staged_row c d \<in> set rows \<Longrightarrow> ad_asset_id d \<in> set ids"
  shows "filter (\<lambda>r. \<not> (as_asset_id r \<in> aid_to_string c ` set ids \<and> as_publication_state r = STAGED)) rows =
    filter (\<lambda>r. as_publication_state r = PUBLISHED) rows"
proof (rule filter_cong [OF refl])
  fix r assume r: "r \<in> set rows"
  from row_inv_row [OF assms(1) r] assms(2) r show
    "(\<not> (as_asset_id r \<in> aid_to_string c ` set ids \<and> as_publication_state r = STAGED)) = (as_publication_state r = PUBLISHED)"
    by cases auto
qed

text \<open>After the scan: drop the staged rows, then sweep both directories.\<close>

lemma sweep_triple:
  assumes "asset_codec_ok c" and "row_inv c rows" and "set keys = {blob_key c (ad_asset_id d) |d. published_row c d \<in> set rows}"
    and "\<And>d. staged_row c d \<in> set rows \<Longrightarrow> ad_asset_id d \<in> set ids"
  shows "triple (\<lambda>w. agrees c A w \<and> w_rows w = rows)
    (io_try (if ids = [] then io_return (Ok ())
             else io_step (\<lambda>w. case delete_staged_rows (p_sql p) c ids (w_rows w) of (r, rows') \<Rightarrow> (r, w\<lparr>w_rows := rows'\<rparr>))) (\<lambda>_.
     io_try (quarantine_directory_entries p) (\<lambda>_. quarantine_orphan_blobs p keys)))
    (\<lambda>r w. agrees c A w \<and> (r = Ok () \<longrightarrow> clean_store w)) (agrees c A)"
proof -
  let ?rows = "filter (\<lambda>r. as_publication_state r = PUBLISHED) rows"
  note only = only_published [OF assms(2,4)]
  have none: "?rows = rows" if "ids = []" using only that by simp
  have "agrees c A (w\<lparr>w_rows := ?rows\<rparr>)" if "agrees c A w" "w_rows w = rows" for w
    using agrees_filter [OF assms(1) that(1), of "\<lambda>r. as_publication_state r = PUBLISHED"] that(2) by simp
  then have "agrees c A (w\<lparr>w_rows := rows'\<rparr>) \<and> (\<forall>u. r = Ok u \<longrightarrow> rows' = ?rows)"
    if "agrees c A w" "w_rows w = rows" "delete_staged_rows (p_sql p) c ids rows = (r, rows')"
    for w rows' and r :: "(unit, ('a, 'b) asset_error) result"
  proof (cases r)
    case (Inl e)
    with that(3) have "rows' = rows" by (simp add: delete_staged_rows_Err)
    with Inl that(1,2) show ?thesis by (cases w) simp
  next
    case (Inr u)
    with that(3) have "delete_staged_rows (p_sql p) c ids rows = (Ok u :: (unit, ('a, 'b) asset_error) result, rows')" by simp
    from delete_staged_rows_Ok [OF this] only have "rows' = ?rows" by (rule trans)
    with \<open>\<And>w. agrees c A w \<Longrightarrow> w_rows w = rows \<Longrightarrow> agrees c A (w\<lparr>w_rows := ?rows\<rparr>)\<close> [OF that(1,2)] show ?thesis by simp
  qed
  note deleted = this
  have delete: "triple (\<lambda>w. agrees c A w \<and> w_rows w = rows) (if ids = [] then io_return (Ok ())
      else io_step (\<lambda>w. case delete_staged_rows (p_sql p) c ids (w_rows w) of (r, rows') \<Rightarrow> (r, w\<lparr>w_rows := rows'\<rparr>)))
      (\<lambda>r w. agrees c A w \<and> (\<forall>u. r = Ok u \<longrightarrow> w_rows w = ?rows)) (agrees c A)"
  proof (cases "ids = []")
    case True
    with none show ?thesis by (auto intro: triple_return)
  next
    case False
    have "triple (\<lambda>w. agrees c A w \<and> w_rows w = rows)
      (io_step (\<lambda>w. case delete_staged_rows (p_sql p) c ids (w_rows w) of (r, rows') \<Rightarrow> (r, w\<lparr>w_rows := rows'\<rparr>)))
      (\<lambda>r w. agrees c A w \<and> (\<forall>u. r = Ok u \<longrightarrow> w_rows w = ?rows)) (agrees c A)"
    proof (rule triple_step)
      fix w r w'
      assume w: "agrees c A w \<and> w_rows w = rows"
        and "(case delete_staged_rows (p_sql p) c ids (w_rows w) of (r, rows') \<Rightarrow> (r, w\<lparr>w_rows := rows'\<rparr>)) = (r, w')"
      then obtain rows' where "delete_staged_rows (p_sql p) c ids rows = (r, rows')" "w' = w\<lparr>w_rows := rows'\<rparr>"
        by (cases "delete_staged_rows (p_sql p) c ids rows") auto
      with w deleted [of w r rows'] show "agrees c A w' \<and> (\<forall>u. r = Ok u \<longrightarrow> w_rows w' = ?rows)" by simp
    qed simp
    with False show ?thesis by simp
  qed
  have keys: "blob_key c (ad_asset_id d) \<in> set keys" if "published_row c d \<in> set ?rows" for d using that assms(3) by auto
  have clean: "clean_store w" if "w_rows w = ?rows" "w_staging w = []" "fst ` set (w_blobs w) \<subseteq> set keys" for w
  proof -
    have "name \<in> as_blob_key ` set ?rows" if "name \<in> set keys" for name
    proof -
      from that assms(3) obtain d where d: "published_row c d \<in> set rows" "name = blob_key c (ad_asset_id d)" by blast
      then have "published_row c d \<in> set ?rows" "as_blob_key (published_row c d) = name" by simp_all
      then show ?thesis by blast
    qed
    with that show ?thesis by (auto simp: clean_store_def)
  qed
  show ?thesis
  proof (rule triple_try [OF delete], goal_cases)
    case (1 u)
    show ?case
    proof (rule triple_try [OF triple_pre [OF sweep_staging_triple [of c A ?rows]]], fast, goal_cases)
      case (1 u)
      show ?case
        by (rule triple_conseq [OF sweep_blobs_triple [OF assms(1) keys]]) (auto intro: clean)
    qed auto
  qed auto
qed

lemma recover_triple:
  assumes "asset_codec_ok c" and "row_inv c (w_rows w0)"
  shows "triple (\<lambda>w. w = w0) (recover_storage p c)
    (\<lambda>r w. (w = w0 \<or> asset_inv c w0 \<and> agrees c (published_asset c w0) w) \<and>
       (r = Ok () \<longrightarrow> asset_inv c w0 \<and> agrees c (published_asset c w0) w \<and> clean_store w))
    (\<lambda>w. w = w0 \<or> asset_inv c w0 \<and> agrees c (published_asset c w0) w)"
  unfolding recover_storage_def
proof (rule triple_try [where R = "\<lambda>r w. w = w0 \<and> (\<forall>v. r = Ok v \<longrightarrow> load_all_records (p_sql p) c (w_rows w0) = Ok v)"], goal_cases)
  case (2 records)
  show ?case
  proof (rule triple_try [where R = "\<lambda>r w. w = w0 \<and> (\<forall>v. r = Ok v \<longrightarrow>
      load_all_records (p_sql p) c (w_rows w0) = Ok records \<and> fold_res (recover_record p c w0) records ([], []) = Ok v)"], goal_cases)
    case (2 v)
    obtain keys ids where v: "v = (keys, ids)" by fastforce
    show ?case unfolding v prod.case
    proof (cases "load_all_records (p_sql p) c (w_rows w0) = Ok records \<and> fold_res (recover_record p c w0) records ([], []) = Ok (keys, ids)")
      case True
      note scan = recovery_scan [OF assms True [THEN conjunct1] True [THEN conjunct2]]
      show "triple (\<lambda>w. w = w0 \<and> (\<forall>v. Ok (keys, ids) = Ok v \<longrightarrow>
            load_all_records (p_sql p) c (w_rows w0) = Ok records \<and> fold_res (recover_record p c w0) records ([], []) = Ok v))
         (io_try (if ids = [] then io_return (Ok ())
             else io_step (\<lambda>w. case delete_staged_rows (p_sql p) c ids (w_rows w) of (r, rows') \<Rightarrow> (r, w\<lparr>w_rows := rows'\<rparr>))) (\<lambda>_.
          io_try (quarantine_directory_entries p) (\<lambda>_. quarantine_orphan_blobs p keys)))
         (\<lambda>r w. (w = w0 \<or> asset_inv c w0 \<and> agrees c (published_asset c w0) w) \<and>
            (r = Ok () \<longrightarrow> asset_inv c w0 \<and> agrees c (published_asset c w0) w \<and> clean_store w))
         (\<lambda>w. w = w0 \<or> asset_inv c w0 \<and> agrees c (published_asset c w0) w)"
        by (rule triple_conseq [OF sweep_triple [OF assms scan(3,4)]])
          (auto simp: scan(1) intro: agrees_self)
    qed (auto simp: triple_def)
  qed auto
qed auto

lemma recover_agrees:
  assumes "asset_codec_ok c"
  shows "triple (agrees c A) (recover_storage p c) (\<lambda>r w. agrees c A w \<and> (r = Ok () \<longrightarrow> clean_store w)) (agrees c A)"
proof -
  have "case recover_storage p c n w0 of (Crashed, n', w) \<Rightarrow> agrees c A w
      | (Done r, n', w) \<Rightarrow> agrees c A w \<and> (r = Ok () \<longrightarrow> clean_store w)" if w0: "agrees c A w0" for n w0
  proof -
    have "triple (\<lambda>w. w = w0) (recover_storage p c) (\<lambda>r w. agrees c A w \<and> (r = Ok () \<longrightarrow> clean_store w)) (agrees c A)"
      by (rule triple_conseq [OF recover_triple [OF assms agrees_row_inv [OF w0]]]) (use w0 in \<open>auto simp: agrees_def\<close>)
    then show ?thesis by (simp add: triple_def)
  qed
  then show ?thesis by (simp add: triple_def)
qed

lemma initialize_agrees:
  fixes c :: "('id, 'h) asset_codec"
  assumes "asset_codec_ok c"
  shows "triple (agrees c A) (initialize_storage p c parse entity_text fresh quick)
    (\<lambda>r w. agrees c A w \<and> (\<forall>u. r = Ok u \<longrightarrow> clean_store w)) (agrees c A)"
proof -
  have ins: "triple (agrees c A) (insert_metadata_row p msg key v :: (unit, ('id, 'h) asset_error) result asset_io) (\<lambda>r. agrees c A) (agrees c A)" for msg key v
    unfolding insert_metadata_row_def by (rule triple_step) (auto split: sum.splits)
  have schema: "triple (agrees c A) (init_asset_schema p :: (unit, ('id, 'h) asset_error) result asset_io) (\<lambda>r. agrees c A) (agrees c A)"
    unfolding init_asset_schema_def
    by (rule triple_try [where R = "\<lambda>r. agrees c A"]) (auto split: option.split intro: ins)
  have ident: "triple (agrees c A) (init_asset_store_id p parse entity_text fresh :: (_, ('id, 'h) asset_error) result asset_io) (\<lambda>r. agrees c A) (agrees c A)"
    unfolding init_asset_store_id_def
    by (rule triple_try [where R = "\<lambda>r. agrees c A"]) (auto split: option.split intro!: triple_try [OF ins])
  have rec: "triple (agrees c A) (io_try (recover_storage p c) (\<lambda>_. io_return (Ok sid)))
    (\<lambda>r w. agrees c A w \<and> ((\<exists>u. r = Ok u) \<longrightarrow> clean_store w)) (agrees c A)" for sid
    by (rule triple_try [OF recover_agrees [OF assms]]) auto
  show ?thesis
    unfolding initialize_storage_def
    by (intro triple_try [where R = "\<lambda>r. agrees c A"]) (simp_all add: triple_return schema ident rec)
qed

section \<open>Recovery and ingest complete\<close>

lemma runs_for:
  assumes "\<And>ys x zs s. xs = ys @ x # zs \<Longrightarrow> I ys s \<Longrightarrow> \<exists>s'. runs (f x) s (Ok ()) s' \<and> I (ys @ [x]) s'" and "I [] s"
  shows "\<exists>s'. runs (io_for f xs) s (Ok ()) s' \<and> I xs s'"
proof -
  have "xs = ys @ zs \<Longrightarrow> I ys s \<Longrightarrow> \<exists>s'. runs (io_for f zs) s (Ok ()) s' \<and> I xs s'" for ys zs s
  proof (induction zs arbitrary: ys s)
    case (Cons z zs)
    from assms(1) [OF Cons.prems] obtain s1 where s1: "runs (f z) s (Ok ()) s1" "I (ys @ [z]) s1" by blast
    from Cons.IH [OF _ s1(2)] Cons.prems(1) obtain s2 where "runs (io_for f zs) s1 (Ok ()) s2" "I xs s2" by auto
    with runs_try [OF s1(1)] show ?case by fastforce
  qed auto
  from this [of "[]" xs] assms(2) show ?thesis by simp
qed

lemma calm_plan_simps [simp]:
  "p_sql (calm_plan part) = no_faults" "p_fs (calm_plan part) msg n = None" "p_dispatch (calm_plan part) lost = None"
  "p_part (calm_plan part) = part" "p_orphan (calm_plan part) name n = (name, None)"
  by (simp_all add: calm_plan_def)

lemma fs_check_calm [simp]: "fs_check (calm_plan part) msg n = Ok ()"
  by (simp add: fs_check_def)

lemma runs_return_try: "runs (f x) s y s' \<Longrightarrow> runs (io_try (io_return (Ok x)) f) s y s'"
  by (rule runs_try) auto

lemma quarantine_entry_runs:
  assumes "map_of (if b then w_blobs w else w_staging w) name \<noteq> None"
  shows "runs (quarantine_entry (calm_plan part) b name) w (Ok ()) (move_to_quarantine b name (''orphan-'' @ name) w)"
proof -
  have e: "(8 :: nat) = Suc 7" by simp
  show ?thesis
    unfolding quarantine_entry_def e quarantine_attempts.simps
    by (rule runs_bind [where x = "Ok ()", OF runs_step]) (use assms in auto)
qed

lemma move_lookup:
  "name' \<noteq> name \<Longrightarrow> map_of (w_staging (move_to_quarantine b name target w)) name' = map_of (w_staging w) name'"
  "name' \<noteq> name \<Longrightarrow> map_of (w_blobs (move_to_quarantine b name target w)) name' = map_of (w_blobs w) name'"
  by (simp_all add: move_to_quarantine_def delete_conv' split: option.split)

lemma enumerate_split:
  assumes "enumerate 0 names = ys @ (n, name) # zs" and "distinct names"
  shows "name \<in> set names - snd ` set ys"
proof -
  have "names = map snd ys @ name # map snd zs" using arg_cong [OF assms(1), of "map snd"] by simp
  with assms(2) show ?thesis by auto
qed

lemma sweep_staging_runs: "\<exists>w'. runs (quarantine_directory_entries (calm_plan part)) w (Ok () :: (unit, ('id, 'h) asset_error) result) w'"
proof -
  let ?names = "remdups (map fst (w_staging w))"
  let ?I = "\<lambda>ys w. \<forall>name \<in> set ?names - snd ` set ys. map_of (w_staging w) name \<noteq> None"
  have "\<exists>w'. runs (io_for (\<lambda>(n, name). io_try (io_return (fs_check (calm_plan part) ''Asset recovery entry could not be read'' n))
      (\<lambda>_. quarantine_entry (calm_plan part) False name)) (enumerate 0 ?names)) w (Ok () :: (unit, ('id, 'h) asset_error) result) w' \<and> ?I (enumerate 0 ?names) w'"
  proof (rule runs_for)
    fix ys x zs and s :: world
    assume e: "enumerate 0 ?names = ys @ x # zs" and I: "?I ys s"
    obtain n name where x: "x = (n, name)" by fastforce
    from enumerate_split [of ?names ys n name zs] e x I have "map_of (w_staging s) name \<noteq> None" by simp
    then have "runs (quarantine_entry (calm_plan part) False name) s (Ok () :: (unit, ('id, 'h) asset_error) result) (move_to_quarantine False name (''orphan-'' @ name) s)"
      by (intro quarantine_entry_runs) simp
    moreover have "?I (ys @ [x]) (move_to_quarantine False name (''orphan-'' @ name) s)"
      using I x by (auto simp: move_lookup)
    ultimately show "\<exists>s'. runs (case x of (n, name) \<Rightarrow> io_try (io_return (fs_check (calm_plan part) ''Asset recovery entry could not be read'' n))
        (\<lambda>_. quarantine_entry (calm_plan part) False name)) s (Ok () :: (unit, ('id, 'h) asset_error) result) s' \<and> ?I (ys @ [x]) s'"
      unfolding x by (auto intro: runs_return_try)
  qed (auto simp: map_of_eq_None_iff)
  then obtain w' where "runs (io_for (\<lambda>(n, name). io_try (io_return (fs_check (calm_plan part) ''Asset recovery entry could not be read'' n))
      (\<lambda>_. quarantine_entry (calm_plan part) False name)) (enumerate 0 ?names)) w (Ok () :: (unit, ('id, 'h) asset_error) result) w'" by blast
  then show ?thesis
    unfolding quarantine_directory_entries_def by (auto intro!: exI [of _ w'] runs_return_try runs_bind [OF runs_get])
qed

lemma sweep_blobs_runs: "\<exists>w'. runs (quarantine_orphan_blobs (calm_plan part) keys) w (Ok () :: (unit, ('id, 'h) asset_error) result) w'"
proof -
  let ?names = "remdups (map fst (w_blobs w))"
  let ?f = "\<lambda>(n, name). io_try (io_return (fs_check (calm_plan part) ''Asset blob entry could not be read'' n))
      (\<lambda>_. if name \<in> set keys then io_return (Ok ()) else quarantine_entry (calm_plan part) True name)"
  let ?I = "\<lambda>ys w. \<forall>name \<in> set ?names - snd ` set ys. map_of (w_blobs w) name \<noteq> None"
  have "\<exists>w'. runs (io_for ?f (enumerate 0 ?names)) w (Ok () :: (unit, ('id, 'h) asset_error) result) w' \<and> ?I (enumerate 0 ?names) w'"
  proof (rule runs_for)
    fix ys x zs and s :: world
    assume e: "enumerate 0 ?names = ys @ x # zs" and I: "?I ys s"
    obtain n name where x: "x = (n, name)" by fastforce
    show "\<exists>s'. runs (?f x) s (Ok () :: (unit, ('id, 'h) asset_error) result) s' \<and> ?I (ys @ [x]) s'"
    proof (cases "name \<in> set keys")
      case True
      with x I show ?thesis by (auto intro!: exI [of _ s] runs_return_try)
    next
      case False
      from enumerate_split [of ?names ys n name zs] e x I have "map_of (w_blobs s) name \<noteq> None" by simp
      then have "runs (quarantine_entry (calm_plan part) True name) s (Ok () :: (unit, ('id, 'h) asset_error) result) (move_to_quarantine True name (''orphan-'' @ name) s)"
        by (intro quarantine_entry_runs) simp
      moreover have "?I (ys @ [x]) (move_to_quarantine True name (''orphan-'' @ name) s)"
        using I x by (auto simp: move_lookup)
      ultimately show ?thesis using False unfolding x by (auto intro: runs_return_try)
    qed
  qed (auto simp: map_of_eq_None_iff)
  then obtain w' where "runs (io_for ?f (enumerate 0 ?names)) w (Ok () :: (unit, ('id, 'h) asset_error) result) w'" by blast
  then show ?thesis
    unfolding quarantine_orphan_blobs_def by (auto intro!: exI [of _ w'] runs_return_try runs_bind [OF runs_get])
qed

lemma recover_runs:
  assumes "asset_codec_ok c" and "asset_inv c w"
  shows "\<exists>w'. runs (recover_storage (calm_plan part) c) w (Ok ()) w'"
proof -
  have inv: "row_inv c (w_rows w)" using assms(2) by (simp add: asset_inv_def)
  have "\<exists>rc. asset_decode_row c r = Ok rc" if "r \<in> set (w_rows w)" for r
    using row_inv_row [OF inv that] by cases (auto simp: decode_staged [OF assms(1)] decode_published [OF assms(1)])
  from load_all_records_calm [OF this] obtain records where recs: "load_all_records no_faults c (w_rows w) = Ok records" by blast
  have "verify_blob (calm_plan part) c (rec_blob_key rc) (rec_descriptor rc) w = Ok ()"
    if rc: "rc \<in> set records" "rec_state rc = Published" for rc
  proof -
    from load_all_records_Ok(1) [OF recs] rc obtain r where r: "r \<in> set (w_rows w)" "asset_decode_row c r = Ok rc" by blast
    from row_inv_row [OF inv r(1)] r rc(2) obtain d where d: "published_row c d \<in> set (w_rows w)"
      "rc = \<lparr>rec_descriptor = d, rec_blob_key = blob_key c (ad_asset_id d), rec_state = Published\<rparr>"
      by cases (auto simp: decode_staged [OF assms(1)] decode_published [OF assms(1)])
    with assms(2) show ?thesis unfolding asset_inv_def by (auto intro: verify_blob_calm)
  qed
  from recover_records_calm [OF this] obtain keys ids where scan: "fold_res (recover_record (calm_plan part) c w) records ([], []) = Ok (keys, ids)"
    by (metis surj_pair)
  obtain w1 where w1: "runs (if ids = [] then io_return (Ok ())
      else io_step (\<lambda>w. case delete_staged_rows no_faults c ids (w_rows w) of (r, rows') \<Rightarrow> (r, w\<lparr>w_rows := rows'\<rparr>))) w
      (Ok () :: (unit, ('a, 'b) asset_error) result) w1"
  proof (cases "ids = []")
    case True
    with that [of w] show thesis by simp
  next
    case False
    from delete_staged_rows_calm obtain rows' where
      "delete_staged_rows no_faults c ids (w_rows w) = (Ok () :: (unit, ('a, 'b) asset_error) result, rows')" by blast
    then show thesis using False that [of "w\<lparr>w_rows := rows'\<rparr>"] by (simp add: runs_step)
  qed
  from sweep_staging_runs obtain w2 where w2: "runs (quarantine_directory_entries (calm_plan part)) w1 (Ok () :: (unit, ('a, 'b) asset_error) result) w2" by blast
  from sweep_blobs_runs obtain w3 where w3: "runs (quarantine_orphan_blobs (calm_plan part) keys) w2 (Ok () :: (unit, ('a, 'b) asset_error) result) w3" by blast
  have "runs (recover_storage (calm_plan part) c) w (Ok ()) w3"
    unfolding recover_storage_def
    by (rule runs_try [OF runs_get [where y = "Ok records"]], simp add: recs, rule runs_try [OF runs_get [where y = "Ok (keys, ids)"]], simp add: scan,
        unfold prod.case calm_plan_simps, rule runs_try [OF w1], rule runs_try [OF w2], rule w3)
  then show ?thesis by blast
qed

lemma write_chunks_runs:
  assumes "length acc + length (concat chunks) \<le> ad_byte_length d" and "ad_byte_length d \<le> u64_max"
    and "\<forall>chunk \<in> set chunks. chunk \<noteq> []" and "map_of (w_staging w) name = Some (RegularFile acc)"
  shows "\<exists>staging. runs (write_chunks (calm_plan part) name d (map Some chunks) acc) w (Ok (acc @ concat chunks)) (w\<lparr>w_staging := staging\<rparr>) \<and>
    map_of staging name = Some (RegularFile (acc @ concat chunks))"
  using assms
proof (induction chunks arbitrary: acc w)
  case Nil
  then have "runs (write_chunks (calm_plan part) name d (map Some []) acc) w (Ok acc) (w\<lparr>w_staging := w_staging w\<rparr>)" by simp
  with Nil show ?case by (intro exI [of _ "w_staging w"]) auto
next
  case (Cons chunk chunks)
  let ?w = "w\<lparr>w_staging := AList.update name (RegularFile (acc @ chunk)) (w_staging w)\<rparr>"
  from Cons.IH [of "acc @ chunk" ?w] Cons.prems obtain staging where st:
    "runs (write_chunks (calm_plan part) name d (map Some chunks) (acc @ chunk)) ?w (Ok (acc @ concat (chunk # chunks))) (?w\<lparr>w_staging := staging\<rparr>)"
    "map_of staging name = Some (RegularFile (acc @ concat (chunk # chunks)))" by (auto simp: update_conv')
  have "write_chunks (calm_plan part) name d (map Some (chunk # chunks)) acc = io_try (io_step (\<lambda>w.
      (Ok (), w\<lparr>w_staging := AList.update name (RegularFile (acc @ chunk)) (w_staging w)\<rparr>)))
      (\<lambda>_. write_chunks (calm_plan part) name d (map Some chunks) (acc @ chunk))"
    using Cons.prems by (simp add: checked_add_u64_def)
  then have "runs (write_chunks (calm_plan part) name d (map Some (chunk # chunks)) acc) w (Ok (acc @ concat (chunk # chunks))) (w\<lparr>w_staging := staging\<rparr>)"
    using st(1) by (auto intro!: runs_try [where x = "()" and ?s1.0 = ?w] runs_step)
  with st(2) show ?case by blast
qed

lemma write_staging_runs:
  assumes "length (concat chunks) \<le> ad_byte_length d" and "ad_byte_length d \<le> u64_max"
    and "\<forall>chunk \<in> set chunks. chunk \<noteq> []" and "map_of (w_staging w) name = None"
  shows "\<exists>staging. runs (write_staging (calm_plan part) name d (map Some chunks)) w (Ok (concat chunks)) (w\<lparr>w_staging := staging\<rparr>) \<and>
    map_of staging name = Some (RegularFile (concat chunks))"
proof -
  let ?w = "w\<lparr>w_staging := AList.update name (RegularFile []) (w_staging w)\<rparr>"
  from write_chunks_runs [of "[]" chunks d ?w name part] assms obtain staging where st:
    "runs (write_chunks (calm_plan part) name d (map Some chunks) []) ?w (Ok (concat chunks)) (?w\<lparr>w_staging := staging\<rparr>)"
    "map_of staging name = Some (RegularFile (concat chunks))" by (auto simp: update_conv')
  have "runs (write_staging (calm_plan part) name d (map Some chunks)) w (Ok (concat chunks)) (?w\<lparr>w_staging := staging\<rparr>)"
    unfolding write_staging_def
    by (rule runs_try [OF runs_step [where x = "Ok ()" and s' = ?w]], simp add: assms(4), rule runs_try [OF st(1)], simp add: runs_return_try)
  with st(2) show ?thesis by auto
qed

lemma stage_asset_calm:
  assumes "asset_codec_ok c" and "int (ad_byte_length d) \<le> i64_max"
    and "\<forall>r \<in> set rows. as_asset_id r \<noteq> aid_to_string c (ad_asset_id d)"
  shows "stage_asset no_faults c d (blob_key c (ad_asset_id d)) rows = (Ok Inserted, rows @ [staged_row c d])"
proof -
  have "List.find (\<lambda>r. as_asset_id r = aid_to_string c (ad_asset_id d)) rows = None" using assms(3) by (auto simp: find_None_iff)
  then have "select_asset no_faults ''Asset stage lookup failed'' c (ad_asset_id d) rows = Ok None" by (simp add: select_asset_def)
  moreover have "aid_to_string c (ad_asset_id d) \<notin> as_asset_id ` set rows" using assms(3) by auto
  moreover have "i64_try_from (ad_byte_length d) = Some (int (ad_byte_length d))" using assms(2) by simp
  ultimately show ?thesis by (simp add: stage_asset_def staged_row_def i64_try_from_def)
qed

lemma publish_asset_calm:
  assumes "asset_codec_ok c" and "row_inv c rows" and "staged_row c d \<in> set rows"
  shows "publish_asset no_faults c d (blob_key c (ad_asset_id d)) rows = (Ok (), publish_rows c (ad_asset_id d) rows)"
  using select_row(2) [OF assms(1,2) row_inv_valid_staged [OF assms] assms(3)]
  by (simp add: publish_asset_def publish_rows_def)

lemma ingest_runs:
  assumes "asset_codec_ok c" and "asset_inv c w" and "descriptor_valid c d" and "int (ad_byte_length d) \<le> i64_max"
    and "\<forall>r \<in> set (w_rows w). as_asset_id r \<noteq> aid_to_string c (ad_asset_id d)"
    and "blob_matches c d (concat chunks)" and "\<forall>chunk \<in> set chunks. chunk \<noteq> []"
    and "map_of (w_staging w) (aid_to_string c (ad_asset_id d) @ ''-'' @ part @ ''.part'') = None"
    and "map_of (w_blobs w) (blob_key c (ad_asset_id d)) \<noteq> Some Directory"
  shows "\<exists>w'. runs (ingest (calm_plan part) c d (map Some chunks)) w (Ok Inserted) w'"
proof -
  let ?i = "ad_asset_id d" and ?key = "blob_key c (ad_asset_id d)"
  let ?name = "aid_to_string c (ad_asset_id d) @ ''-'' @ part @ ''.part''" and ?content = "concat chunks"
  have len: "length ?content = ad_byte_length d" "hash_of c ?content = ad_content_hash d" "ad_byte_length d \<le> u64_max"
    using assms(4,6) i64_max_le_u64_max [of "ad_byte_length d"] by (auto simp: blob_matches_def)
  from write_staging_runs [of chunks d w ?name part] len assms(7,8) obtain staging where
    st: "runs (write_staging (calm_plan part) ?name d (map Some chunks)) w (Ok ?content) (w\<lparr>w_staging := staging\<rparr>)"
    "map_of staging ?name = Some (RegularFile ?content)" by auto
  let ?w1 = "w\<lparr>w_staging := staging\<rparr>"
  let ?w2 = "?w1\<lparr>w_rows := w_rows w @ [staged_row c d]\<rparr>"
  let ?w3 = "?w2\<lparr>w_staging := AList.delete ?name staging, w_blobs := AList.update ?key (RegularFile ?content) (w_blobs w)\<rparr>"
  let ?w4 = "?w3\<lparr>w_rows := publish_rows c ?i (w_rows w @ [staged_row c d])\<rparr>"
  have inv: "row_inv c (w_rows w @ [staged_row c d])"
    using agrees_row_inv [OF agrees_stage [OF assms(1) agrees_self [OF assms(2)] assms(3,5)]] by simp
  have r1: "runs (dispatch_stage (calm_plan part) c d ?key) ?w1 (Ok Inserted) ?w2"
    unfolding dispatch_stage_def dispatch_asset_def by (rule runs_step) (simp add: stage_asset_calm [OF assms(1,4,5)])
  have r2: "runs (rename_to_blobs (calm_plan part) ?name ?key) ?w2 (Ok ()) ?w3"
    unfolding rename_to_blobs_def by (rule runs_step) (use st(2) assms(9) in simp)
  have r3: "runs (dispatch_publish (calm_plan part) c d ?key) ?w3 (Ok ()) ?w4"
    unfolding dispatch_publish_def dispatch_asset_def by (rule runs_step) (simp add: publish_asset_calm [OF assms(1) inv])
  have "runs (publish_staged (calm_plan part) c d ?name) ?w1 (Ok Inserted) ?w4"
    unfolding publish_staged_def Let_def
    by (rule runs_bind [OF r1], simp only: sum.case asset_insert_outcome.case, rule runs_bind [OF r2], simp only: sum.case,
        rule runs_bind [OF r3], simp)
  then have "runs (stage_and_publish (calm_plan part) c d (map Some chunks)) w (Ok Inserted) ?w4"
    unfolding stage_and_publish_def Let_def calm_plan_simps using len
    by (intro runs_bind [OF st(1)]) (simp only: sum.case simp_thms if_False not_False_eq_True)
  moreover have "lookup (calm_plan part) c ?i w = Ok None"
    using assms(5) by (auto simp: lookup_def lookup_asset_def select_asset_def find_None_iff)
  ultimately have "runs (ingest (calm_plan part) c d (map Some chunks)) w (Ok Inserted) ?w4"
    unfolding ingest_def Let_def using assms(4) by (auto intro!: runs_try [OF runs_get [where y = "Ok None"]])
  then show ?thesis by blast
qed

lemma stream_content_chunks: "\<forall>chunk \<in> set chunks. chunk \<noteq> [] \<Longrightarrow> stream_content (map Some chunks) = concat chunks"
  by (induction chunks) auto

section \<open>Histories of the store\<close>

text \<open>
  Any sequence of ingests and (re)openings, each under its own plan and cut off anywhere.
\<close>

inductive asset_step :: "('id, 'h) asset_codec \<Rightarrow> world \<Rightarrow> world \<Rightarrow> bool" for c where
  step_ingest: "descriptor_valid c d \<Longrightarrow> ingest p c d source n w = (out, n', w') \<Longrightarrow> asset_step c w w'"
| step_open: "initialize_storage p c (parse :: string \<Rightarrow> 'id option) entity_text fresh quick n w = (out, n', w') \<Longrightarrow> asset_step c w w'"

definition asset_history :: "('id, 'h) asset_codec \<Rightarrow> world \<Rightarrow> world \<Rightarrow> bool" where
  "asset_history c = (asset_step c)\<^sup>*\<^sup>*"

lemma ingest_outcome:
  assumes "asset_codec_ok c" and "descriptor_valid c d" and "agrees c A w" and "ingest p c d source n w = (out, n', w')"
  shows "case out of Done r \<Rightarrow> ingest_post c A d (stream_content source) r w' | Crashed \<Rightarrow> agrees c A w'"
  using tripleD [OF ingest_triple [OF assms(1,2)] assms(3)] assms(4) by (cases out) fastforce+

lemma ingest_post_mono:
  assumes "ingest_post c A d content r w"
  shows "asset_inv c w \<and> A \<subseteq>\<^sub>m published_asset c w"
  using assms by (auto simp: ingest_post_def agrees_def map_le_def split: sum.splits asset_insert_outcome.splits)

lemma asset_step_mono:
  assumes "asset_step c w w'" and "asset_codec_ok c" and "asset_inv c w"
  shows "asset_inv c w' \<and> published_asset c w \<subseteq>\<^sub>m published_asset c w'"
  using assms(1)
proof cases
  case (step_ingest d p source n out n')
  note o = ingest_outcome [OF assms(2) step_ingest(1) agrees_self [OF assms(3)] step_ingest(2)]
  show ?thesis
  proof (cases out)
    case Crashed
    with o show ?thesis by (simp add: agrees_def)
  next
    case (Done r)
    with o ingest_post_mono show ?thesis by fastforce
  qed
next
  case (step_open p parse entity_text fresh quick n out n')
  show ?thesis
    using tripleD [OF initialize_agrees [OF assms(2)] agrees_self [OF assms(3)]] step_open
    by (cases out) (fastforce simp: agrees_def)+
qed

lemma asset_history_mono:
  assumes "asset_history c w w'" and "asset_codec_ok c" and "asset_inv c w"
  shows "asset_inv c w' \<and> published_asset c w \<subseteq>\<^sub>m published_asset c w'"
  using assms(1) unfolding asset_history_def
proof (induction rule: rtranclp_induct)
  case base
  with assms(3) show ?case by simp
next
  case (step y z)
  with asset_step_mono [OF step(2) assms(2)] show ?case by (meson map_le_trans)
qed

section \<open>The promises of the store\<close>

text \<open>
  C7. Ingest is atomic at every point where it can stop. Whatever the source delivers,
  whichever engine and file-system calls fail and wherever the process dies, the store stays
  consistent; an error or a crash leaves what clients see unchanged; \<^verbatim>\<open>Existing\<close> means the same
  descriptor was already published; and \<^verbatim>\<open>Inserted\<close> means the identity was free and now
  shows exactly the streamed bytes, whose length and hash are the descriptor's. (A process
  that dies after the publishing commit leaves the state of the returning run.)
\<close>

theorem ingest_atomic:
  assumes "asset_codec_ok c" and "asset_inv c w" and "descriptor_valid c d"
    and "ingest p c d source n w = (out, n', w')"
  shows "asset_inv c w' \<and>
    (case out of
       Crashed \<Rightarrow> published_asset c w' = published_asset c w
     | Done (Inl e) \<Rightarrow> published_asset c w' = published_asset c w
     | Done (Inr Existing) \<Rightarrow> published_asset c w' = published_asset c w \<and>
         (\<exists>bytes. published_asset c w (ad_asset_id d) = Some (d, bytes))
     | Done (Inr Inserted) \<Rightarrow> published_asset c w (ad_asset_id d) = None \<and>
         length (stream_content source) = ad_byte_length d \<and> hash_of c (stream_content source) = ad_content_hash d \<and>
         published_asset c w' = (published_asset c w)(ad_asset_id d \<mapsto> (d, stream_content source)))"
  using ingest_outcome [OF assms(1,3) agrees_self [OF assms(2)] assms(4)]
  by (auto simp: ingest_post_def agrees_def blob_matches_def split: outcome.splits sum.splits asset_insert_outcome.splits)

text \<open>
  C27. Without faults ingest succeeds: a new identity whose bytes, delivered in any non-empty
  chunks, have the length and the hash of its descriptor is published after boundedly many
  steps, with exactly those bytes.
\<close>

theorem ingest_succeeds:
  assumes "asset_codec_ok c" and "asset_inv c w" and "descriptor_valid c d" and "int (ad_byte_length d) \<le> i64_max"
    and "\<forall>r \<in> set (w_rows w). as_asset_id r \<noteq> aid_to_string c (ad_asset_id d)"
    and "length (concat chunks) = ad_byte_length d" and "hash_of c (concat chunks) = ad_content_hash d"
    and "\<forall>chunk \<in> set chunks. chunk \<noteq> []"
    and "map_of (w_staging w) (aid_to_string c (ad_asset_id d) @ ''-'' @ part @ ''.part'') = None"
    and "map_of (w_blobs w) (blob_key c (ad_asset_id d)) \<noteq> Some Directory"
  shows "\<exists>k w'. (\<forall>n. ingest (calm_plan part) c d (map Some chunks) (k + n) w = (Done (Ok Inserted), n, w')) \<and>
    asset_inv c w' \<and> published_asset c w' = (published_asset c w)(ad_asset_id d \<mapsto> (d, concat chunks))"
proof -
  from assms(6,7) have "blob_matches c d (concat chunks)" by (simp add: blob_matches_def)
  from ingest_runs [OF assms(1-5) this assms(8-10)] obtain w'
    where r: "runs (ingest (calm_plan part) c d (map Some chunks)) w (Ok Inserted) w'" by blast
  from runs_triple [OF ingest_triple [OF assms(1,3)] agrees_self [OF assms(2)] r]
  have "asset_inv c w' \<and> published_asset c w' = (published_asset c w)(ad_asset_id d \<mapsto> (d, concat chunks))"
    by (simp add: ingest_post_def agrees_def stream_content_chunks [OF assms(8)])
  with r show ?thesis unfolding runs_def by blast
qed

text \<open>
  C11. A published Asset is immutable and is never lost: through every later sequence of ingests
  and reopenings, with any faults and any crashes between and inside them, it stays
  published with the same descriptor and the same bytes, and the store stays consistent.
\<close>

theorem published_assets_immutable:
  assumes "asset_codec_ok c" and "asset_inv c w" and "asset_history c w w'"
    and "published_asset c w i = Some (d, bytes)"
  shows "asset_inv c w' \<and> published_asset c w' i = Some (d, bytes)"
  using asset_history_mono [OF assms(3,1,2)] assms(4) by (auto simp: map_le_def dom_def)

text \<open>
  C10. Recovery completes and cleans up: from every consistent state, so from every state a
  crash can leave, opening without new faults ends after boundedly many steps with success;
  the staging directory is then empty, no staged metadata is left, every blob belongs to a
  published Asset, and clients see exactly the Assets they saw before.
\<close>

theorem recovery_completes:
  assumes "asset_codec_ok c" and "asset_inv c w"
  shows "\<exists>k w'. (\<forall>n. recover_storage (calm_plan part) c (k + n) w = (Done (Ok ()), n, w')) \<and>
    asset_inv c w' \<and> published_asset c w' = published_asset c w \<and> clean_store w'"
proof -
  from recover_runs [OF assms] obtain w' where r: "runs (recover_storage (calm_plan part) c) w (Ok ()) w'" by blast
  from runs_triple [OF recover_agrees [OF assms(1)] agrees_self [OF assms(2)] r]
  have "asset_inv c w' \<and> published_asset c w' = published_asset c w \<and> clean_store w'" by (simp add: agrees_def)
  with r show ?thesis unfolding runs_def by blast
qed

text \<open>
  A damaged store is refused and left untouched: when the blob of some published row is
  missing, is not a regular file or has another length or hash, recovery does not succeed
  under any plan, and it has moved and deleted nothing.
\<close>

theorem recovery_refuses_damage:
  assumes "asset_codec_ok c" and "row_inv c (w_rows w)" and "\<not> asset_inv c w"
    and "recover_storage p c n w = (out, n', w')"
  shows "out \<noteq> Done (Ok ()) \<and> w' = w"
  using tripleD [OF recover_triple [OF assms(1,2), of p], of w] assms(3,4) by (cases out) fastforce+

text \<open>
  A successful range read returns the requested slice of the published content, clipped
  at its end, with the offset and the total length; a descriptor returned by \<^verbatim>\<open>get_asset\<close> is
  the published one, and an Asset that is only staged is not visible.
\<close>

theorem reads_are_exact:
  assumes "asset_codec_ok c" and "asset_inv c w"
  shows "(\<forall>v. get_asset p c i w = Ok v \<longrightarrow> v = map_option fst (published_asset c w i)) \<and>
    (\<forall>ch. read_range p c i r w = Ok ch \<longrightarrow> (\<exists>d bytes. published_asset c w i = Some (d, bytes) \<and>
       ch = \<lparr>ch_offset = ar_offset r, ch_bytes = slice (ar_offset r) (ar_length r) bytes, ch_total = ad_byte_length d\<rparr>))"
proof (intro conjI allI impI)
  show "v = map_option fst (published_asset c w i)" if "get_asset p c i w = Ok v" for v
    by (rule get_asset_spec [OF assms that])
  show "\<exists>d bytes. published_asset c w i = Some (d, bytes) \<and>
       ch = \<lparr>ch_offset = ar_offset r, ch_bytes = slice (ar_offset r) (ar_length r) bytes, ch_total = ad_byte_length d\<rparr>"
    if "read_range p c i r w = Ok ch" for ch
    using read_range_spec [OF assms that] published_asset_matches [OF assms]
    by (metis asset_chunk.surjective blob_matches_def old.unit.exhaust)
qed

section \<open>An instance\<close>

definition text_asset_codec :: "(string, string) asset_codec" where
  "text_asset_codec = \<lparr>aid_to_string = (\<lambda>i. i), aid_parse = Some, hash_as_str = (\<lambda>h. h), hash_parse = Some,
     hash_of = (\<lambda>bs. ''h'' @ bs), descriptor_valid = (\<lambda>d. ad_media_type d \<noteq> []),
     range_end_offset = (\<lambda>r. checked_add_u64 (ar_offset r) (ar_length r)), chunk_valid = (\<lambda>ch. ch_offset ch + length (ch_bytes ch) \<le> ch_total ch)\<rparr>"

definition empty_world :: world where
  "empty_world = \<lparr>w_blobs = [], w_staging = [], w_quarantine = [], w_rows = [], w_metadata = []\<rparr>"

definition note_asset :: "(string, string) asset_descriptor" where
  "note_asset = \<lparr>ad_asset_id = ''n'', ad_media_type = ''t'', ad_byte_length = 3, ad_content_hash = ''habc'', ad_original_filename = None\<rparr>"

definition note_row :: "string \<Rightarrow> asset_row" where
  "note_row st = \<lparr>as_asset_id = ''n'', as_media_type = ''t'', as_byte_length = 3, as_content_hash = ''habc'',
     as_original_filename = None, as_blob_key = ''n.blob'', as_publication_state = st\<rparr>"

definition note_world :: world where
  "note_world = \<lparr>w_blobs = [(''n.blob'', RegularFile ''abc'')], w_staging = [], w_quarantine = [], w_rows = [note_row PUBLISHED], w_metadata = []\<rparr>"

lemma text_asset_codec_ok: "asset_codec_ok text_asset_codec"
  by (simp add: asset_codec_ok_def text_asset_codec_def)

lemma empty_world_inv: "asset_inv c empty_world"
  by (simp add: inv_defs empty_world_def row_inv_def)

lemma sample_ingest:
  "ingest (calm_plan ''x'') text_asset_codec note_asset [Some ''ab'', Some ''c''] 8 empty_world =
     (Done (Ok Inserted), 2, note_world)"
  by code_simp

lemma sample_crash:
  "ingest (calm_plan ''x'') text_asset_codec note_asset [Some ''ab'', Some ''c''] 4 empty_world =
     (Crashed, 0, \<lparr>w_blobs = [], w_staging = [(''n-x.part'', RegularFile ''abc'')], w_quarantine = [],
        w_rows = [note_row STAGED], w_metadata = []\<rparr>)"
  by code_simp

lemma note_asset_valid: "descriptor_valid text_asset_codec note_asset"
  by (simp add: text_asset_codec_def note_asset_def)

lemma note_world_agrees:
  "agrees text_asset_codec ((published_asset text_asset_codec empty_world)(''n'' \<mapsto> (note_asset, ''abc''))) note_world"
  using ingest_outcome [OF text_asset_codec_ok note_asset_valid agrees_self [OF empty_world_inv] sample_ingest]
  by (simp add: ingest_post_def note_asset_def)

lemma note_world_inv: "asset_inv text_asset_codec note_world"
  using note_world_agrees by (simp add: agrees_def)

lemma note_world_published: "published_asset text_asset_codec note_world ''n'' = Some (note_asset, ''abc'')"
  using note_world_agrees by (simp add: agrees_def)

theorem ingest_atomic_witness:
  "published_asset text_asset_codec note_world = (published_asset text_asset_codec empty_world)(''n'' \<mapsto> (note_asset, ''abc'')) \<and>
   published_asset text_asset_codec (snd (snd (ingest (calm_plan ''x'') text_asset_codec note_asset [Some ''ab'', Some ''c''] 4 empty_world))) =
     published_asset text_asset_codec empty_world"
  using ingest_atomic [OF text_asset_codec_ok empty_world_inv note_asset_valid sample_ingest]
    ingest_atomic [OF text_asset_codec_ok empty_world_inv note_asset_valid sample_crash]
  unfolding sample_crash by (simp add: note_asset_def)

theorem ingest_succeeds_witness:
  "\<exists>k w'. (\<forall>n. ingest (calm_plan ''x'') text_asset_codec note_asset (map Some [''ab'', ''c'']) (k + n) empty_world = (Done (Ok Inserted), n, w')) \<and>
     asset_inv text_asset_codec w' \<and>
     published_asset text_asset_codec w' = (published_asset text_asset_codec empty_world)(ad_asset_id note_asset \<mapsto> (note_asset, concat [''ab'', ''c'']))"
  by (rule ingest_succeeds [OF text_asset_codec_ok empty_world_inv note_asset_valid])
    (simp_all add: note_asset_def empty_world_def text_asset_codec_def i64_max_def)

definition memo_asset :: "(string, string) asset_descriptor" where
  "memo_asset = \<lparr>ad_asset_id = ''m'', ad_media_type = ''t'', ad_byte_length = 1, ad_content_hash = ''hz'', ad_original_filename = None\<rparr>"

definition crashed_world :: world where
  "crashed_world = snd (snd (ingest (calm_plan ''y'') text_asset_codec memo_asset [Some ''z''] 4 note_world))"

lemma crashed_world_history: "asset_history text_asset_codec note_world crashed_world"
proof -
  have "descriptor_valid text_asset_codec memo_asset" by (simp add: text_asset_codec_def memo_asset_def)
  then have "asset_step text_asset_codec note_world crashed_world"
    unfolding crashed_world_def by (rule step_ingest) (simp add: prod_eq_iff)
  then show ?thesis by (auto simp: asset_history_def)
qed

lemma crashed_world_eq:
  "crashed_world = \<lparr>w_blobs = [(''n.blob'', RegularFile ''abc''), (''m.blob'', RegularFile ''z'')], w_staging = [], w_quarantine = [],
     w_rows = [note_row PUBLISHED, staged_row text_asset_codec memo_asset], w_metadata = []\<rparr>"
  by code_simp

lemma crashed_world_inv: "asset_inv text_asset_codec crashed_world"
  using asset_history_mono [OF crashed_world_history text_asset_codec_ok note_world_inv] by blast

theorem published_assets_immutable_witness:
  "published_asset text_asset_codec crashed_world ''n'' = Some (note_asset, ''abc'')"
  using published_assets_immutable [OF text_asset_codec_ok note_world_inv crashed_world_history note_world_published] by blast

theorem recovery_completes_witness:
  "\<exists>k w'. (\<forall>n. recover_storage (calm_plan []) text_asset_codec (k + n) crashed_world = (Done (Ok ()), n, w')) \<and>
     asset_inv text_asset_codec w' \<and> published_asset text_asset_codec w' = published_asset text_asset_codec crashed_world \<and> clean_store w'"
  by (rule recovery_completes [OF text_asset_codec_ok crashed_world_inv])

definition damaged_world :: world where
  "damaged_world = note_world\<lparr>w_blobs := [(''n.blob'', RegularFile ''abd'')]\<rparr>"

lemma damaged_world_facts:
  "row_inv text_asset_codec (w_rows damaged_world)" "\<not> asset_inv text_asset_codec damaged_world"
proof -
  show "row_inv text_asset_codec (w_rows damaged_world)"
    using note_world_inv by (simp add: asset_inv_def damaged_world_def)
  have "published_row text_asset_codec note_asset \<in> set (w_rows damaged_world)" by code_simp
  moreover have "map_of (w_blobs damaged_world) (blob_key text_asset_codec (ad_asset_id note_asset)) = Some (RegularFile ''abd'')" by code_simp
  moreover have "\<not> blob_matches text_asset_codec note_asset ''abd''" by code_simp
  ultimately show "\<not> asset_inv text_asset_codec damaged_world" by (force simp: asset_inv_def)
qed

theorem recovery_refuses_damage_witness:
  "fst (recover_storage (calm_plan []) text_asset_codec 9 damaged_world) \<noteq> Done (Ok ()) \<and>
   snd (snd (recover_storage (calm_plan []) text_asset_codec 9 damaged_world)) = damaged_world"
  by (rule recovery_refuses_damage [OF text_asset_codec_ok damaged_world_facts, of "calm_plan []" 9 _ "fst (snd (recover_storage (calm_plan []) text_asset_codec 9 damaged_world))"]) simp

theorem reads_are_exact_witness:
  "read_range (calm_plan []) text_asset_codec ''n'' \<lparr>ar_offset = 1, ar_length = 5\<rparr> note_world =
     Ok \<lparr>ch_offset = 1, ch_bytes = ''bc'', ch_total = 3\<rparr> \<and>
   (\<exists>d bytes. published_asset text_asset_codec note_world ''n'' = Some (d, bytes) \<and> slice 1 5 bytes = ''bc'')"
proof -
  have "read_range (calm_plan []) text_asset_codec ''n'' \<lparr>ar_offset = 1, ar_length = 5\<rparr> note_world =
     Ok \<lparr>ch_offset = 1, ch_bytes = ''bc'', ch_total = 3\<rparr>" by code_simp
  with reads_are_exact [OF text_asset_codec_ok note_world_inv, of "calm_plan []" "''n''" "\<lparr>ar_offset = 1, ar_length = 5\<rparr>"]
  show ?thesis by fastforce
qed

end
