(* ===== verification/Store_Close.thy ===== *)
theory Store_Close
  imports Worker
begin

text \<open>
  Closing a store, call by call. The \<^verbatim>\<open>close\<close> methods of the three storage crates send
  \<^verbatim>\<open>Shutdown\<close>, wait for its reply and join the worker thread; several callers may be in
  \<^verbatim>\<open>close\<close> at the same time, any of them may be dropped while it waits, and the thread may
  panic while it executes a command. A call that is under way is a point of its program, and the
  callers are polled in any order between the steps of the clients and of the worker.

  The handle outlives the calls that borrow it, so its \<^verbatim>\<open>Drop\<close> is not interleaved with them.
  A panicking command may leave any database behind.
\<close>

datatype close_error = StoppedBeforeShutdown | ShutdownResponseLost | WorkerPanicked

datatype close_point =
    Sending_Shutdown
  | Awaiting_Reply
  | Taking_Join
  | Joining
  | Close_Returned "(unit, close_error) result"
  | Close_Dropped

record ('c, 'r, 'db) closable =
  cb_worker :: "('c, 'r, 'db) worker"
  cb_join :: bool
  cb_replied :: bool
  cb_panicked :: bool
  cb_calls :: "close_point list"

definition open_closable :: "nat \<Rightarrow> 'db \<Rightarrow> ('c, 'r, 'db) closable" where
  "open_closable capacity db =
     \<lparr>cb_worker = worker_open capacity db, cb_join = True, cb_replied = False, cb_panicked = False, cb_calls = []\<rparr>"

text \<open>
  The start of a call, up to its first wait. The EventStore returns at once when the store is
  already closed; the other two go on to join the worker (\<open>rejoin\<close>).
\<close>

definition store_close_call :: "bool \<Rightarrow> ('c, 'r, 'db) closable \<Rightarrow> ('c, 'r, 'db) closable" where
  "store_close_call rejoin s =
     (let w = cb_worker s;
          p = if wk_closed w then if rejoin then Taking_Join else Close_Returned (Ok ())
              else if wk_sender w then Sending_Shutdown else Taking_Join
      in s\<lparr>cb_worker := worker_close_begin w, cb_calls := cb_calls s @ [p]\<rparr>)"

definition event_store_close :: "('c, 'r, 'db) closable \<Rightarrow> ('c, 'r, 'db) closable" where
  "event_store_close = store_close_call False"

definition catalog_store_close :: "('c, 'r, 'db) closable \<Rightarrow> ('c, 'r, 'db) closable" where
  "catalog_store_close = store_close_call True"

definition asset_store_close :: "('c, 'r, 'db) closable \<Rightarrow> ('c, 'r, 'db) closable" where
  "asset_store_close = store_close_call True"

text \<open>One poll of a call; a call that has to wait stays where it is.\<close>

definition close_poll_send :: "nat \<Rightarrow> ('c, 'r, 'db) closable \<Rightarrow> ('c, 'r, 'db) closable" where
  "close_poll_send i s =
     (let w = cb_worker s; w' = worker_close_send w in
      if \<not> wk_running w then s\<lparr>cb_worker := w', cb_calls := (cb_calls s)[i := Close_Returned (Err StoppedBeforeShutdown)]\<rparr>
      else if wk_capacity w \<le> length (wk_queue w) then s
      else s\<lparr>cb_worker := w', cb_calls := (cb_calls s)[i := Awaiting_Reply]\<rparr>)"

definition close_poll_reply :: "nat \<Rightarrow> ('c, 'r, 'db) closable \<Rightarrow> ('c, 'r, 'db) closable" where
  "close_poll_reply i s =
     (if cb_replied s then s\<lparr>cb_calls := (cb_calls s)[i := Taking_Join]\<rparr>
      else if wk_running (cb_worker s) then s
      else s\<lparr>cb_calls := (cb_calls s)[i := Close_Returned (Err ShutdownResponseLost)]\<rparr>)"

definition close_poll_take :: "nat \<Rightarrow> ('c, 'r, 'db) closable \<Rightarrow> ('c, 'r, 'db) closable" where
  "close_poll_take i s =
     (if cb_join s then s\<lparr>cb_join := False, cb_calls := (cb_calls s)[i := Joining]\<rparr>
      else s\<lparr>cb_calls := (cb_calls s)[i := Close_Returned (Ok ())]\<rparr>)"

definition close_poll_join :: "nat \<Rightarrow> ('c, 'r, 'db) closable \<Rightarrow> ('c, 'r, 'db) closable" where
  "close_poll_join i s =
     (if wk_running (cb_worker s) then s
      else s\<lparr>cb_calls := (cb_calls s)[i := Close_Returned (if cb_panicked s then Err WorkerPanicked else Ok ())]\<rparr>)"

definition close_poll :: "nat \<Rightarrow> ('c, 'r, 'db) closable \<Rightarrow> ('c, 'r, 'db) closable" where
  "close_poll i s =
     (if length (cb_calls s) \<le> i then s
      else case cb_calls s ! i of
        Sending_Shutdown \<Rightarrow> close_poll_send i s
      | Awaiting_Reply \<Rightarrow> close_poll_reply i s
      | Taking_Join \<Rightarrow> close_poll_take i s
      | Joining \<Rightarrow> close_poll_join i s
      | Close_Returned r \<Rightarrow> s
      | Close_Dropped \<Rightarrow> s)"

text \<open>A call that waits is dropped; a call that has not sent its \<^verbatim>\<open>Shutdown\<close> drops the sender with it.\<close>

definition close_drop :: "nat \<Rightarrow> ('c, 'r, 'db) closable \<Rightarrow> ('c, 'r, 'db) closable" where
  "close_drop i s =
     (if length (cb_calls s) \<le> i then s
      else case cb_calls s ! i of
        Sending_Shutdown \<Rightarrow>
          s\<lparr>cb_worker := (cb_worker s)\<lparr>wk_closing := False, wk_clones := wk_clones (cb_worker s) - 1\<rparr>,
            cb_calls := (cb_calls s)[i := Close_Dropped]\<rparr>
      | Awaiting_Reply \<Rightarrow> s\<lparr>cb_calls := (cb_calls s)[i := Close_Dropped]\<rparr>
      | Joining \<Rightarrow> s\<lparr>cb_calls := (cb_calls s)[i := Close_Dropped]\<rparr>
      | _ \<Rightarrow> s)"

text \<open>The worker's iteration; taking \<^verbatim>\<open>Shutdown\<close> answers it.\<close>

definition takes_shutdown :: "('c, 'r, 'db) worker \<Rightarrow> bool" where
  "takes_shutdown w \<longleftrightarrow> wk_running w \<and> (case wk_queue w of (t, None) # q \<Rightarrow> True | _ \<Rightarrow> False)"

definition closable_run :: "('c \<Rightarrow> 'db \<Rightarrow> 'r \<times> 'db) \<Rightarrow> ('c, 'r, 'db) closable \<Rightarrow> ('c, 'r, 'db) closable" where
  "closable_run exec s =
     s\<lparr>cb_worker := run_worker_step exec (cb_worker s), cb_replied := (cb_replied s \<or> takes_shutdown (cb_worker s))\<rparr>"

text \<open>The thread panics while it executes the command at the head of the queue.\<close>

definition closable_panic :: "'db \<Rightarrow> ('c, 'r, 'db) closable \<Rightarrow> ('c, 'r, 'db) closable" where
  "closable_panic db' s =
     (if wk_running (cb_worker s) \<and> wk_queue (cb_worker s) \<noteq> [] \<and> \<not> takes_shutdown (cb_worker s)
      then s\<lparr>cb_worker := (cb_worker s)\<lparr>wk_running := False, wk_queue := [], wk_db := db'\<rparr>, cb_panicked := True\<rparr>
      else s)"

inductive closable_step ::
  "bool \<Rightarrow> ('c \<Rightarrow> 'db \<Rightarrow> 'r \<times> 'db) \<Rightarrow> ('c, 'r, 'db) closable \<Rightarrow> ('c, 'r, 'db) closable \<Rightarrow> bool"
  for rejoin exec where
  cl_sender: "closable_step rejoin exec s (s\<lparr>cb_worker := snd (worker_sender (cb_worker s))\<rparr>)"
| cl_send: "(if wk_closing (cb_worker s) then 1 else 0) < wk_clones (cb_worker s) \<Longrightarrow> closable_step rejoin exec s (s\<lparr>cb_worker := snd (worker_try_send c (cb_worker s))\<rparr>)"
| cl_run: "closable_step rejoin exec s (closable_run exec s)"
| cl_panic: "closable_step rejoin exec s (closable_panic db' s)"
| cl_close: "closable_step rejoin exec s (store_close_call rejoin s)"
| cl_poll: "closable_step rejoin exec s (close_poll i s)"
| cl_drop: "closable_step rejoin exec s (close_drop i s)"

definition closable_steps ::
  "bool \<Rightarrow> ('c \<Rightarrow> 'db \<Rightarrow> 'r \<times> 'db) \<Rightarrow> ('c, 'r, 'db) closable \<Rightarrow> ('c, 'r, 'db) closable \<Rightarrow> bool" where
  "closable_steps rejoin exec = (closable_step rejoin exec)\<^sup>*\<^sup>*"

lemmas close_polls = close_poll_send_def close_poll_reply_def close_poll_take_def close_poll_join_def

section \<open>What holds in every interleaving\<close>

text \<open>
  Only the first call can send \<^verbatim>\<open>Shutdown\<close>, and the call that sends it gets past the reply only
  when it was sent. As long as the thread has not panicked, the worker is as its clients expect.
\<close>

definition sends_or_waits :: "close_point \<Rightarrow> bool" where
  "sends_or_waits p \<longleftrightarrow> p = Sending_Shutdown \<or> p = Awaiting_Reply"

definition past_reply :: "close_point \<Rightarrow> bool" where
  "past_reply p \<longleftrightarrow> p = Taking_Join \<or> p = Joining \<or> p = Close_Returned (Ok ())"

definition close_inv :: "('c \<Rightarrow> 'db \<Rightarrow> 'r \<times> 'db) \<Rightarrow> 'db \<Rightarrow> ('c, 'r, 'db) closable \<Rightarrow> bool" where
  "close_inv exec db s \<longleftrightarrow>
     (\<not> cb_panicked s \<longrightarrow> worker_inv exec db (cb_worker s)) \<and>
     (cb_panicked s \<longrightarrow> \<not> wk_running (cb_worker s) \<and> \<not> cb_replied s) \<and>
     (\<not> wk_running (cb_worker s) \<longrightarrow> wk_queue (cb_worker s) = []) \<and>
     (cb_replied s \<longrightarrow> \<not> wk_running (cb_worker s) \<and> \<not> wk_closing (cb_worker s)) \<and>
     (wk_closing (cb_worker s) \<longrightarrow> 0 < wk_clones (cb_worker s)) \<and>
     (case cb_calls s of
        [] \<Rightarrow> \<not> wk_closed (cb_worker s) \<and> wk_sender (cb_worker s) \<and> \<not> wk_closing (cb_worker s) \<and>
          (cb_panicked s \<or> wk_running (cb_worker s)) \<and> None \<notin> snd ` set (wk_queue (cb_worker s))
      | p # ps \<Rightarrow> wk_closed (cb_worker s) \<and> \<not> wk_sender (cb_worker s) \<and>
          (wk_closing (cb_worker s) \<longleftrightarrow> p = Sending_Shutdown) \<and>
          (past_reply p \<longrightarrow> cb_replied s) \<and>
          (p = Sending_Shutdown \<longrightarrow> cb_panicked s \<or> wk_running (cb_worker s) \<and> None \<notin> snd ` set (wk_queue (cb_worker s))) \<and>
          (p = Awaiting_Reply \<longrightarrow> cb_panicked s \<or> cb_replied s \<or> wk_running (cb_worker s) \<and> None \<in> snd ` set (wk_queue (cb_worker s))) \<and>
          ((\<exists>e. p = Close_Returned (Err e)) \<longrightarrow> cb_panicked s) \<and>
          (\<forall>p' \<in> set ps. \<not> sends_or_waits p'))"

lemma close_inv_open: "close_inv exec db (open_closable capacity db)"
  by (simp add: close_inv_def open_closable_def worker_inv_open, simp add: worker_open_def)

lemma close_inv_sender: "close_inv exec db s \<Longrightarrow> close_inv exec db (s\<lparr>cb_worker := snd (worker_sender (cb_worker s))\<rparr>)"
  unfolding close_inv_def by (auto simp: worker_sender_def split: list.splits)

lemma close_inv_send:
  assumes "close_inv exec db s" and "(if wk_closing (cb_worker s) then 1 else 0) < wk_clones (cb_worker s)"
  shows "close_inv exec db (s\<lparr>cb_worker := snd (worker_try_send c (cb_worker s))\<rparr>)"
proof -
  have "\<not> cb_panicked s \<longrightarrow> worker_inv exec db (snd (worker_try_send c (cb_worker s)))"
    using assms(1) by (simp add: close_inv_def worker_try_send_inv)
  with assms show ?thesis
    unfolding close_inv_def by (auto simp: worker_try_send_def Let_def split: list.splits if_splits)
qed

lemma close_inv_run: 
  assumes "close_inv exec db s"
  shows "close_inv exec db (closable_run exec s)"
proof -
  have "\<not> cb_panicked s \<longrightarrow> worker_inv exec db (run_worker_step exec (cb_worker s))"
    using assms by (simp add: close_inv_def run_worker_step_inv)
  with assms show ?thesis
    unfolding close_inv_def closable_run_def run_worker_step_def takes_shutdown_def
    by (auto simp: Let_def past_reply_def split: list.splits if_splits option.splits prod.splits)
qed

lemma close_inv_panic: "close_inv exec db s \<Longrightarrow> close_inv exec db (closable_panic db' s)"
  unfolding close_inv_def closable_panic_def by (auto split: list.splits)

lemma close_inv_call: "close_inv exec db s \<Longrightarrow> close_inv exec db (store_close_call rejoin s)"
  unfolding close_inv_def store_close_call_def worker_close_begin_def
  by (auto simp: Let_def inv_defs sends_or_waits_def past_reply_def split: list.splits)

text \<open>A later call never sends \<^verbatim>\<open>Shutdown\<close> and never waits for its reply.\<close>

lemma later_call_point:
  assumes "close_inv exec db s" and "Suc j < length (cb_calls s)"
  shows "\<not> sends_or_waits (cb_calls s ! Suc j)"
  using assms by (auto simp: close_inv_def split: list.splits)

lemma close_inv_later_call:
  assumes "close_inv exec db s" and "\<not> sends_or_waits p"
  shows "close_inv exec db (s\<lparr>cb_join := b, cb_calls := (cb_calls s)[Suc j := p]\<rparr>)"
  using assms by (auto simp: close_inv_def split: list.splits dest!: set_update_subset_insert [THEN subsetD])

lemma close_inv_poll_first:
  assumes inv: "close_inv exec db s" and "cb_calls s = p # ps"
  shows "close_inv exec db (close_poll 0 s)"
proof (cases p)
  case Sending_Shutdown
  moreover have "\<not> cb_panicked s \<longrightarrow> worker_inv exec db (worker_close_send (cb_worker s))"
    using inv by (simp add: close_inv_def worker_close_send_inv)
  ultimately show ?thesis using assms
    unfolding close_inv_def
    by (auto simp: close_poll_def close_poll_send_def worker_close_send_def Let_def past_reply_def)
next
  case Awaiting_Reply
  with assms show ?thesis
    unfolding close_inv_def by (auto simp: close_poll_def close_poll_reply_def past_reply_def)
next
  case Taking_Join
  with assms show ?thesis
    unfolding close_inv_def by (auto simp: close_poll_def close_poll_take_def past_reply_def)
next
  case Joining
  with assms show ?thesis
    unfolding close_inv_def by (auto simp: close_poll_def close_poll_join_def past_reply_def)
qed (use assms in \<open>simp_all add: close_poll_def\<close>)

lemma close_inv_poll: 
  assumes inv: "close_inv exec db s"
  shows "close_inv exec db (close_poll i s)"
proof (cases "i < length (cb_calls s)")
  case True
  show ?thesis
  proof (cases i)
    case 0
    with True inv show ?thesis by (cases "cb_calls s") (auto intro: close_inv_poll_first)
  next
    case (Suc j)
    with True inv have "\<not> sends_or_waits (cb_calls s ! i)" by (simp add: later_call_point)
    with Suc inv close_inv_later_call [OF inv, of _ j "cb_join s"] close_inv_later_call [OF inv, of Joining j False]
    show ?thesis by (auto simp: close_poll_def close_polls sends_or_waits_def split: close_point.splits)
  qed
qed (simp add: close_poll_def inv)

lemma close_inv_drop:
  assumes inv: "close_inv exec db s"
  shows "close_inv exec db (close_drop i s)"
proof (cases "i < length (cb_calls s)")
  case True
  show ?thesis
  proof (cases i)
    case 0
    with True obtain p ps where "cb_calls s = p # ps" by (cases "cb_calls s") auto
    with 0 inv show ?thesis
      by (cases p) (auto simp: close_inv_def close_drop_def past_reply_def sends_or_waits_def)
  next
    case (Suc j)
    with True inv have "\<not> sends_or_waits (cb_calls s ! i)" by (simp add: later_call_point)
    with Suc inv close_inv_later_call [OF inv, of Close_Dropped j "cb_join s"]
    show ?thesis by (auto simp: close_drop_def sends_or_waits_def split: close_point.splits)
  qed
qed (simp add: close_drop_def inv)

lemma close_inv_step: "closable_step rejoin exec s s' \<Longrightarrow> close_inv exec db s \<Longrightarrow> close_inv exec db s'"
  by (induction rule: closable_step.induct)
    (simp_all add: close_inv_sender close_inv_send close_inv_run close_inv_panic close_inv_call close_inv_poll close_inv_drop)

lemma close_inv_steps: "closable_steps rejoin exec s s' \<Longrightarrow> close_inv exec db s \<Longrightarrow> close_inv exec db s'"
  unfolding closable_steps_def by (induction rule: rtranclp_induct) (auto intro: close_inv_step)

section \<open>The commands accepted before a close\<close>

definition accounted :: "nat \<Rightarrow> ('c, 'r, 'db) worker \<Rightarrow> bool" where
  "accounted n w \<longleftrightarrow> n \<le> wk_next w \<and>
     (\<forall>t < n. t \<in> fst ` set (wk_done w) \<or> t \<in> fst ` set (wk_queue w)) \<and>
     (\<forall>t. (t, None) \<in> set (wk_queue w) \<longrightarrow> n \<le> t)"

lemma accounted_clones [simp]:
  "accounted n (w\<lparr>wk_clones := k\<rparr>) = accounted n w" "accounted n (w\<lparr>wk_closing := b\<rparr>) = accounted n w"
  by (simp_all add: accounted_def)

lemma accounted_sender: "accounted n (snd (worker_sender w)) = accounted n w"
  by (simp add: worker_sender_def)

lemma accounted_begin: "accounted n (worker_close_begin w) = accounted n w"
  by (simp add: worker_close_begin_def accounted_def)

lemma accounted_push:
  "accounted n w \<Longrightarrow> accounted n (w\<lparr>wk_queue := wk_queue w @ [(wk_next w, x)], wk_next := wk_next w + 1\<rparr>)"
  by (auto simp: accounted_def)

lemma accounted_send: "accounted n w \<Longrightarrow> accounted n (snd (worker_try_send c w))"
  using accounted_push [of n "w\<lparr>wk_clones := wk_clones w - 1\<rparr>" "Some c"] by (auto simp: worker_try_send_def Let_def)

lemma accounted_close_send: "accounted n w \<Longrightarrow> accounted n (worker_close_send w)"
  using accounted_push [of n "w\<lparr>wk_closing := False, wk_clones := wk_clones w - 1\<rparr>" None]
  by (auto simp: worker_close_send_def)

text \<open>Tickets are taken in order, so a \<^verbatim>\<open>Shutdown\<close> is taken after every command accepted before it.\<close>

lemma accounted_run:
  assumes "accounted n w" and "worker_inv exec db w"
  shows "accounted n (run_worker_step exec w)"
proof (cases "wk_running w \<and> wk_queue w \<noteq> []")
  case True
  then obtain t oc q where q: "wk_queue w = (t, oc) # q" by (cases "wk_queue w") auto
  show ?thesis
  proof (cases oc)
    case None
    have "\<forall>t' \<in> fst ` set (wk_queue w). t \<le> t'" using assms(2) q by (auto simp: inv_defs sorted_wrt_append)
    moreover have "n \<le> t" using assms(1) q None by (simp add: accounted_def)
    ultimately have "\<forall>t' < n. t' \<in> fst ` set (wk_done w)" using assms(1) by (fastforce simp: accounted_def)
    with True q None assms(1) show ?thesis by (simp add: accounted_def run_worker_step_def)
  next
    case (Some c)
    with True q assms(1) show ?thesis by (auto simp: accounted_def run_worker_step_def split: prod.splits)
  qed
next
  case False
  with assms(1) show ?thesis by (auto simp: accounted_def run_worker_step_def)
qed

lemma close_poll_worker: "cb_worker (close_poll i s) = cb_worker s \<or> cb_worker (close_poll i s) = worker_close_send (cb_worker s)"
  by (auto simp: close_poll_def close_polls Let_def split: close_point.splits)

lemma close_drop_worker:
  "cb_worker (close_drop i s) = cb_worker s \<or>
   cb_worker (close_drop i s) = (cb_worker s)\<lparr>wk_closing := False, wk_clones := wk_clones (cb_worker s) - 1\<rparr>"
  by (auto simp: close_drop_def split: close_point.splits)

lemma closable_panicked:
  "cb_panicked (close_poll i s) = cb_panicked s" "cb_panicked (close_drop i s) = cb_panicked s"
  "cb_panicked (store_close_call rejoin s) = cb_panicked s" "cb_panicked (closable_run exec s) = cb_panicked s"
  by (auto simp: close_poll_def close_polls close_drop_def store_close_call_def closable_run_def Let_def split: close_point.splits)

lemma accounted_step:
  assumes "closable_step rejoin exec s s'" and "close_inv exec db s"
    and "cb_panicked s \<or> accounted n (cb_worker s)"
  shows "cb_panicked s' \<or> accounted n (cb_worker s')"
  using assms
proof (induction rule: closable_step.induct)
  case (cl_run s)
  then show ?case by (auto simp: closable_run_def close_inv_def accounted_run)
next
  case (cl_panic s db')
  then show ?case by (auto simp: closable_panic_def)
next
  case (cl_close s)
  then show ?case by (auto simp: store_close_call_def Let_def accounted_begin)
next
  case (cl_poll s i)
  then show ?case using close_poll_worker [of i s] by (auto simp: closable_panicked accounted_close_send)
next
  case (cl_drop s i)
  then show ?case using close_drop_worker [of i s] by (auto simp: closable_panicked)
qed (auto simp: accounted_sender accounted_send)

lemma accounted_steps:
  assumes "closable_steps rejoin exec s s'" and "close_inv exec db s"
    and "cb_panicked s \<or> accounted n (cb_worker s)"
  shows "cb_panicked s' \<or> accounted n (cb_worker s')"
  using assms(1) unfolding closable_steps_def
proof (induction rule: rtranclp_induct)
  case (step y z)
  have "close_inv exec db y" using close_inv_steps [OF _ assms(2)] step.hyps(1) by (simp add: closable_steps_def)
  from accounted_step [OF step.hyps(2) this step.IH] show ?case .
qed (rule assms(3))

text \<open>Until the first close, every ticket that was given out is executed or queued.\<close>

definition tickets_live :: "('c, 'r, 'db) closable \<Rightarrow> bool" where
  "tickets_live s \<longleftrightarrow> (cb_calls s = [] \<and> \<not> cb_panicked s \<longrightarrow> accounted (wk_next (cb_worker s)) (cb_worker s))"

lemma tickets_live_step:
  assumes "closable_step rejoin exec s s'" and "close_inv exec db s" and "tickets_live s"
  shows "tickets_live s'"
  using assms
proof (induction rule: closable_step.induct)
  case (cl_run s)
  have "wk_next (run_worker_step exec w) = wk_next w" for w :: "('a, 'c, 'b) worker"
    by (auto simp: run_worker_step_def split: list.splits prod.splits option.splits)
  with cl_run show ?case by (auto simp: tickets_live_def closable_run_def close_inv_def accounted_run)
next
  case (cl_send s c)
  have "(t, None) \<notin> set (wk_queue (cb_worker s))" if "cb_calls s = []" for t
    using cl_send.prems(1) that by (force simp: close_inv_def)
  with cl_send show ?case
    by (auto simp: tickets_live_def accounted_def worker_try_send_def Let_def close_inv_def less_Suc_eq image_iff)
next
  case (cl_panic s db')
  then show ?case by (auto simp: tickets_live_def closable_panic_def)
next
  case (cl_poll s i)
  then show ?case by (auto simp: tickets_live_def close_poll_def close_polls Let_def split: close_point.splits)
next
  case (cl_drop s i)
  then show ?case by (auto simp: tickets_live_def close_drop_def split: close_point.splits)
next
  case (cl_sender s)
  then show ?case by (auto simp: tickets_live_def worker_sender_def)
qed (simp add: tickets_live_def store_close_call_def Let_def)

lemma tickets_live_steps:
  assumes "closable_steps rejoin exec (open_closable capacity db) s"
  shows "tickets_live s"
  using assms unfolding closable_steps_def
proof (induction rule: rtranclp_induct)
  case base
  show ?case by (simp add: tickets_live_def open_closable_def worker_open_def accounted_def)
next
  case (step y z)
  have "close_inv exec db y" using close_inv_steps [OF _ close_inv_open] step.hyps(1) by (simp add: closable_steps_def)
  with step show ?case by (blast intro: tickets_live_step)
qed

text \<open>One poll of the first caller after one iteration of the worker.\<close>

definition close_round :: "('c \<Rightarrow> 'db \<Rightarrow> 'r \<times> 'db) \<Rightarrow> ('c, 'r, 'db) closable \<Rightarrow> ('c, 'r, 'db) closable" where
  "close_round exec s = close_poll 0 (closable_run exec s)"

definition close_rank :: "('c, 'r, 'db) closable \<Rightarrow> nat" where
  "close_rank s =
     (case cb_calls s of
        [] \<Rightarrow> 0
      | p # ps \<Rightarrow> (case p of
            Sending_Shutdown \<Rightarrow> length (wk_queue (cb_worker s)) + 5
          | Awaiting_Reply \<Rightarrow> length (wk_queue (cb_worker s)) + 3
          | Taking_Join \<Rightarrow> 2
          | Joining \<Rightarrow> 1
          | Close_Returned r \<Rightarrow> 0
          | Close_Dropped \<Rightarrow> 0))"

lemma run_worker_queue:
  "wk_running w \<Longrightarrow> length (wk_queue (run_worker_step exec w)) \<le> length (wk_queue w) - Suc 0"
  "wk_capacity (run_worker_step exec w) = wk_capacity w"
  "wk_running (run_worker_step exec w) \<Longrightarrow> wk_running w"
  by (auto simp: run_worker_step_def split: list.splits option.splits prod.splits if_splits)

lemma close_inv_round: "close_inv exec db s \<Longrightarrow> close_inv exec db (close_round exec s)"
  by (simp add: close_round_def close_inv_poll close_inv_run)

lemma close_round_rank:
  assumes inv: "close_inv exec db s" and cap: "0 < wk_capacity (cb_worker s)" and "0 < close_rank s"
  shows "close_rank (close_round exec s) < close_rank s"
proof -
  let ?s = "closable_run exec s" let ?w = "cb_worker ?s"
  obtain p ps where p: "cb_calls s = p # ps" using assms(3) by (cases "cb_calls s") (auto simp: close_rank_def)
  then have p': "cb_calls ?s = p # ps" by (simp add: closable_run_def)
  have inv': "close_inv exec db ?s" by (rule close_inv_run [OF inv])
  have len: "wk_running (cb_worker s) \<longrightarrow> length (wk_queue ?w) \<le> length (wk_queue (cb_worker s)) - Suc 0"
    and cap': "wk_capacity ?w = wk_capacity (cb_worker s)"
    and was_running: "wk_running ?w \<Longrightarrow> wk_running (cb_worker s)"
    by (auto simp: closable_run_def run_worker_queue dest: run_worker_queue(3))
  show ?thesis
  proof (cases p)
    case Sending_Shutdown
    show ?thesis
    proof (cases "wk_running ?w")
      case True
      moreover from True inv have "length (wk_queue (cb_worker s)) \<le> wk_capacity (cb_worker s)"
        by (auto simp: close_inv_def inv_defs dest: was_running)
      moreover have "wk_closing ?w" using inv' p' Sending_Shutdown by (simp add: close_inv_def)
      ultimately show ?thesis using Sending_Shutdown p p' len was_running cap cap'
        by (auto simp: close_round_def close_rank_def close_poll_def close_poll_send_def worker_close_send_def Let_def)
    qed (use Sending_Shutdown p p' in
        \<open>simp add: close_round_def close_rank_def close_poll_def close_poll_send_def Let_def\<close>)
  next
    case Awaiting_Reply
    show ?thesis
    proof (cases "wk_running ?w")
      case True
      then have "wk_queue (cb_worker s) \<noteq> []" using inv p Awaiting_Reply was_running by (auto simp: close_inv_def)
      moreover have "\<not> cb_replied ?s" using inv' True by (auto simp: close_inv_def)
      ultimately show ?thesis using Awaiting_Reply p p' len was_running True
        by (auto simp: close_round_def close_rank_def close_poll_def close_poll_reply_def neq_Nil_conv)
    qed (use Awaiting_Reply p p' in
        \<open>simp add: close_round_def close_rank_def close_poll_def close_poll_reply_def\<close>)
  next
    case Taking_Join
    with p p' show ?thesis by (simp add: close_round_def close_rank_def close_poll_def close_poll_take_def)
  next
    case Joining
    with p p' inv' show ?thesis
      by (simp add: close_round_def close_rank_def close_poll_def close_poll_join_def close_inv_def past_reply_def)
  qed (use p assms(3) in \<open>simp_all add: close_rank_def\<close>)
qed

definition close_pending :: "('c, 'r, 'db) closable \<Rightarrow> bool" where
  "close_pending s \<longleftrightarrow> (case cb_calls s of [] \<Rightarrow> False | p # ps \<Rightarrow> p \<noteq> Close_Dropped)"

lemma close_pending_round: "close_pending s \<Longrightarrow> close_pending (close_round exec s)"
  by (auto simp: close_pending_def close_round_def closable_run_def close_poll_def close_polls Let_def
      split: list.splits close_point.splits)

lemma close_rank_zero: "close_pending s \<Longrightarrow> close_rank s = 0 \<Longrightarrow> \<exists>r. cb_calls s ! 0 = Close_Returned r"
  by (auto simp: close_pending_def close_rank_def split: list.splits close_point.splits)

lemma close_round_capacity: "wk_capacity (cb_worker (close_round exec s)) = wk_capacity (cb_worker s)"
  using close_poll_worker [of 0 "closable_run exec s"]
  by (auto simp: close_round_def worker_close_send_def closable_run_def run_worker_queue)

lemma close_rounds:
  "close_inv exec db s \<Longrightarrow> 0 < wk_capacity (cb_worker s) \<Longrightarrow> close_pending s \<Longrightarrow> close_rank s \<le> n \<Longrightarrow>
   \<exists>k \<le> n. \<exists>r. cb_calls ((close_round exec ^^ k) s) ! 0 = Close_Returned r"
proof (induction n arbitrary: s)
  case 0
  then show ?case using close_rank_zero [of s] by simp
next
  case (Suc n)
  show ?case
  proof (cases "close_rank s = 0")
    case True
    with close_rank_zero Suc.prems(3) show ?thesis by (metis funpow_0 le0)
  next
    case False
    with close_round_rank [OF Suc.prems(1,2)] Suc.prems(4) have "close_rank (close_round exec s) \<le> n" by fastforce
    with Suc.IH [of "close_round exec s"] Suc.prems obtain k r where
      "k \<le> n" and "cb_calls ((close_round exec ^^ k) (close_round exec s)) ! 0 = Close_Returned r"
      by (auto simp: close_inv_round close_round_capacity close_pending_round)
    then show ?thesis by (metis Suc_le_mono comp_apply funpow_Suc_right)
  qed
qed

lemma calls_stay: "closable_steps rejoin exec s s' \<Longrightarrow> cb_calls s \<noteq> [] \<Longrightarrow> cb_calls s' \<noteq> []"
  unfolding closable_steps_def
proof (induction rule: rtranclp_induct)
  case (step y z)
  from step.hyps(2) step.IH [OF step.prems] show ?case
    by (induction rule: closable_step.induct)
      (auto simp: closable_run_def closable_panic_def store_close_call_def Let_def close_poll_def close_polls close_drop_def
        split: close_point.splits)
qed

section \<open>What a close promises\<close>



text \<open>
  Only the first call waits for the commands. A second \<^verbatim>\<open>close\<close> of the EventStore returns at once,
  and so does a call on the other two stores that finds the join handle taken.
\<close>

lemma second_close_returns_at_once:
  "wk_closed (cb_worker s) \<Longrightarrow> cb_calls (event_store_close s) = cb_calls s @ [Close_Returned (Ok ())]"
  "wk_closed (cb_worker s) \<Longrightarrow> \<not> cb_join s \<Longrightarrow>
     cb_calls (close_poll (length (cb_calls s)) (catalog_store_close s)) = cb_calls s @ [Close_Returned (Ok ())]"
  by (simp_all add: event_store_close_def catalog_store_close_def store_close_call_def Let_def close_poll_def
      close_poll_take_def)

section \<open>A small run\<close>

text \<open>Two accepted commands and a close by the first of two callers.\<close>

definition busy_closable :: "(nat, nat, nat) closable" where
  "busy_closable = (open_closable 2 1)\<lparr>cb_worker :=
     snd (worker_try_send 7 (snd (worker_sender (snd (worker_try_send 5 (snd (worker_sender (worker_open 2 1))))))))\<rparr>"

lemma busy_closable_steps: "closable_steps False add_exec (open_closable 2 1) busy_closable"
proof -
  let ?o = "open_closable 2 1 :: (nat, nat, nat) closable"
  let ?w1 = "snd (worker_sender (worker_open 2 1)) :: (nat, nat, nat) worker"
  let ?w2 = "snd (worker_try_send 5 ?w1)" let ?w3 = "snd (worker_sender ?w2)"
  have "closable_step False add_exec ?o (?o\<lparr>cb_worker := ?w1\<rparr>)"
    using cl_sender [of False add_exec ?o] by (simp add: open_closable_def)
  moreover have "closable_step False add_exec (?o\<lparr>cb_worker := ?w1\<rparr>) (?o\<lparr>cb_worker := ?w2\<rparr>)"
    using cl_send [of "?o\<lparr>cb_worker := ?w1\<rparr>" False add_exec 5] by (simp add: worker_sender_def worker_open_def)
  moreover have "closable_step False add_exec (?o\<lparr>cb_worker := ?w2\<rparr>) (?o\<lparr>cb_worker := ?w3\<rparr>)"
    using cl_sender [of False add_exec "?o\<lparr>cb_worker := ?w2\<rparr>"] by simp
  moreover have "closable_step False add_exec (?o\<lparr>cb_worker := ?w3\<rparr>) busy_closable"
    using cl_send [of "?o\<lparr>cb_worker := ?w3\<rparr>" False add_exec 7]
    by (simp add: busy_closable_def worker_sender_def worker_open_def worker_try_send_def)
  ultimately show ?thesis
    unfolding closable_steps_def by (meson converse_rtranclp_into_rtranclp rtranclp.rtrancl_refl)
qed

lemma close_rounds_steps: "closable_steps rejoin exec s ((close_round exec ^^ k) s)"
proof (induction k)
  case (Suc k)
  have "closable_steps rejoin exec s' (close_round exec s')" for s'
    unfolding closable_steps_def close_round_def by (meson cl_run cl_poll converse_rtranclp_into_rtranclp rtranclp.rtrancl_refl)
  with Suc show ?case by (auto simp: closable_steps_def intro: rtranclp_trans)
qed (simp add: closable_steps_def)

lemmas closable_eval = busy_closable_def open_closable_def worker_open_def worker_ops store_close_call_def close_round_def
  closable_run_def takes_shutdown_def close_poll_def close_polls add_exec_def Let_def

lemma busy_closed:
  "cb_calls ((close_round add_exec ^^ 5) (store_close_call False busy_closable)) ! 0 = Close_Returned (Ok ())"
  "wk_next (cb_worker busy_closable) = 2" "cb_calls busy_closable = []"
  by (simp_all add: closable_eval numeral_eq_Suc)



text \<open>
  The second caller of the EventStore, and the third one of the other stores, is told that the store
  is closed while both commands are still queued.
\<close>

lemma second_close_before_drain:
  "let s = event_store_close (event_store_close busy_closable) in
   cb_calls s ! 1 = Close_Returned (Ok ()) \<and> wk_running (cb_worker s) \<and> wk_done (cb_worker s) = [] \<and>
   map snd (wk_queue (cb_worker s)) = [Some 5, Some 7]"
  by (simp add: closable_eval event_store_close_def)

lemma third_close_before_drain:
  "let s = close_poll 2 (catalog_store_close (close_poll 1 (catalog_store_close (catalog_store_close busy_closable)))) in
   cb_calls s ! 2 = Close_Returned (Ok ()) \<and> wk_running (cb_worker s) \<and> wk_done (cb_worker s) = [] \<and>
   map snd (wk_queue (cb_worker s)) = [Some 5, Some 7]"
  by (simp add: closable_eval catalog_store_close_def numeral_eq_Suc)

end
