(* ===== verification/Catalog_Store.thy ===== *)
theory Catalog_Store
  imports Sqlite Worker "HOL-Library.List_Lexorder"
begin

text \<open>
  The catalog of Documents and Canvases, \<^verbatim>\<open>orbitrelay-catalog-sqlite/src/lib.rs\<close>: five tables with
  primary keys, uniqueness and foreign keys, loads that rebuild descriptors from rows, and
  publications that insert a whole graph in one transaction. A statement that would break a
  constraint is refused by the engine; the deferred foreign key of a Canvas to its default
  Layer is checked at commit. The fault plan is keyed by a name of the call site, extended by
  the key or the position the statement is about.

  Descriptors are values of the kernel; the checks of their constructors, the text
  conversions of identities and \<^verbatim>\<open>DocumentSummary::from_document\<close> are arguments. \<^verbatim>\<open>f64\<close> columns
  are of an arbitrary type: they are stored, loaded and compared, never computed on.
\<close>

section \<open>Data\<close>

datatype catalog_publish_outcome = PubInserted | PubExisting | PubConflict

record 'id bootstrap_binding =
  bb_session_id :: 'id
  bb_canvas_id :: 'id

datatype catalog_error =
    CatInvalidQueueCapacity
  | CatUnavailable string
  | CatBackend sqlite_error
  | CatCorruption string
  | CatSchema string
  | CatConflict
  | CatInvalidGraph string

datatype document_type = Pdf

record ('id, 'f) canvas_descriptor =
  cv_canvas_id :: 'id
  cv_session_id :: 'id
  cv_width :: 'f
  cv_height :: 'f
  cv_layer_ids :: "'id list"
  cv_default_layer_id :: 'id

record ('id, 'f) page_descriptor =
  pg_page_id :: 'id
  pg_page_index :: nat
  pg_width :: 'f
  pg_height :: 'f
  pg_rotation :: nat
  pg_overlay_canvas_id :: 'id

record ('id, 'f) document_descriptor =
  dd_document_id :: 'id
  dd_session_id :: 'id
  dd_document_type :: document_type
  dd_source_asset_id :: 'id
  dd_title :: string
  dd_pages :: "('id, 'f) page_descriptor list"

record ('id, 'f) document_composition =
  dc_document :: "('id, 'f) document_descriptor"
  dc_page_canvases :: "('id, 'f) canvas_descriptor list"

record document_row =
  dr_document_id :: string
  dr_session_id :: string
  dr_document_type :: string
  dr_source_asset_id :: string
  dr_title :: string
  dr_page_count :: int
  dr_publication_sequence :: int

record 'f canvas_row =
  cr_canvas_id :: string
  cr_session_id :: string
  cr_width :: 'f
  cr_height :: 'f
  cr_layer_count :: int
  cr_default_layer_id :: string

record layer_row =
  lr_canvas_id :: string
  lr_layer_id :: string

record 'f page_row =
  pr_page_id :: string
  pr_document_id :: string
  pr_page_index :: int
  pr_width :: 'f
  pr_height :: 'f
  pr_rotation :: int
  pr_overlay_canvas_id :: string

record binding_row =
  br_binding_key :: string
  br_session_id :: string
  br_canvas_id :: string

record 'f catalog_db =
  tb_metadata :: "(string \<times> string) list"
  tb_documents :: "document_row list"
  tb_canvases :: "'f canvas_row list"
  tb_layers :: "layer_row list"
  tb_pages :: "'f page_row list"
  tb_bindings :: "binding_row list"

record ('id, 'f, 's) catalog_codec =
  cid_to_string :: "'id \<Rightarrow> string"
  cid_parse :: "string \<Rightarrow> 'id option"
  space_valid :: "'f \<Rightarrow> 'f \<Rightarrow> bool"
  rotation_valid :: "nat \<Rightarrow> bool"
  geometry_valid :: "'f \<Rightarrow> 'f \<Rightarrow> nat \<Rightarrow> bool"
  canvas_valid :: "('id, 'f) canvas_descriptor \<Rightarrow> bool"
  document_valid :: "('id, 'f) document_descriptor \<Rightarrow> bool"
  summary_of :: "('id, 'f) document_descriptor \<Rightarrow> 's option"

type_synonym 'a cat_result = "('a, catalog_error) result"

definition CATALOG_SCHEMA_VERSION :: int where
  "CATALOG_SCHEMA_VERSION = 1"

definition CATALOG_QUEUE_CAPACITY :: nat where
  "CATALOG_QUEUE_CAPACITY = 128"

definition BOOTSTRAP_DEFAULT_CANVAS :: string where
  "BOOTSTRAP_DEFAULT_CANVAS = ''development/default_canvas''"

definition map_sqlite :: "string \<Rightarrow> sqlite_error \<Rightarrow> catalog_error" where
  "map_sqlite site error = CatBackend error"

definition cat_call :: "sql_faults \<Rightarrow> string \<Rightarrow> 'a \<Rightarrow> 'a cat_result" where
  "cat_call flt site v = sql_call flt site map_sqlite v"

definition cat_row :: "sql_faults \<Rightarrow> string \<Rightarrow> nat \<Rightarrow> 'a \<Rightarrow> 'a cat_result" where
  "cat_row flt site n v = sql_row flt site n map_sqlite v"

text \<open>A statement that the engine refuses when it breaks a constraint.\<close>

definition cat_insert :: "sql_faults \<Rightarrow> string \<Rightarrow> nat \<Rightarrow> bool \<Rightarrow> 'a \<Rightarrow> 'a cat_result" where
  "cat_insert flt site n allowed v =
     and_then (cat_row flt site n ()) (\<lambda>_. if allowed then Ok v else Err (CatBackend OtherSqliteError))"

definition parse_id :: "('id, 'f, 's) catalog_codec \<Rightarrow> string \<Rightarrow> string \<Rightarrow> 'id cat_result" where
  "parse_id c msg s = ok_or (CatCorruption msg) (cid_parse c s)"

definition parse_document_type :: "string \<Rightarrow> document_type cat_result" where
  "parse_document_type v = (if v = ''pdf'' then Ok Pdf else Err (CatCorruption ''unknown Document type''))"

fun document_type_name :: "document_type \<Rightarrow> string" where
  "document_type_name Pdf = ''pdf''"

fun catalog_dispatch_error :: "dispatch_error \<Rightarrow> catalog_error" where
  "catalog_dispatch_error StoreClosed = CatUnavailable ''catalog is closed''"
| "catalog_dispatch_error SenderTaken = CatUnavailable ''catalog worker is unavailable''"
| "catalog_dispatch_error QueueFull = CatUnavailable ''catalog command queue is full''"
| "catalog_dispatch_error WorkerGone = CatUnavailable ''catalog worker is unavailable''"
| "catalog_dispatch_error ResponseLost = CatUnavailable ''catalog worker response was lost''"

section \<open>Loads\<close>

text \<open>\<^verbatim>\<open>BTreeSet\<close>: ascending, without repetition.\<close>

definition btree_set :: "'id :: linorder list \<Rightarrow> 'id list" where
  "btree_set xs = sort (remdups xs)"

definition u32_max :: int where
  "u32_max = 4294967295"

definition u16_max :: int where
  "u16_max = 65535"

definition load_page ::
  "('id, 'f, 's) catalog_codec \<Rightarrow> 'f page_row \<Rightarrow> ('id, 'f) page_descriptor cat_result" where
  "load_page c row =
     and_then (parse_id c ''malformed Page ID'' (pr_page_id row)) (\<lambda>page_id.
     if pr_page_index row < 0 \<or> u32_max < pr_page_index row then Err (CatCorruption ''invalid Page index'')
     else if pr_rotation row < 0 \<or> u16_max < pr_rotation row then Err (CatCorruption ''invalid Page rotation'')
     else if \<not> rotation_valid c (nat (pr_rotation row)) then Err (CatCorruption ''invalid Page rotation'')
     else if \<not> geometry_valid c (pr_width row) (pr_height row) (nat (pr_rotation row))
     then Err (CatCorruption ''invalid Page geometry'')
     else and_then (parse_id c ''malformed overlay Canvas ID'' (pr_overlay_canvas_id row)) (\<lambda>canvas_id.
     Ok \<lparr>pg_page_id = page_id, pg_page_index = nat (pr_page_index row), pg_width = pr_width row,
         pg_height = pr_height row, pg_rotation = nat (pr_rotation row), pg_overlay_canvas_id = canvas_id\<rparr>))"

definition load_pages ::
  "sql_faults \<Rightarrow> ('id, 'f, 's) catalog_codec \<Rightarrow> 'id \<Rightarrow> 'f catalog_db \<Rightarrow> ('id, 'f) page_descriptor list cat_result" where
  "load_pages flt c document_id db =
     (let key = cid_to_string c document_id in
      and_then (cat_call flt (''pages of '' @ key) ()) (\<lambda>_.
      traverse (\<lambda>(n, row). and_then (cat_row flt (''page of '' @ key) n row) (load_page c))
        (enumerate 0 (sort_key pr_page_index (filter (\<lambda>r. pr_document_id r = key) (tb_pages db))))))"

definition load_document ::
  "sql_faults \<Rightarrow> ('id, 'f, 's) catalog_codec \<Rightarrow> 'id \<Rightarrow> 'f catalog_db \<Rightarrow> ('id, 'f) document_descriptor option cat_result" where
  "load_document flt c document_id db =
     and_then (cat_call flt (''document '' @ cid_to_string c document_id)
        (List.find (\<lambda>r. dr_document_id r = cid_to_string c document_id) (tb_documents db))) (\<lambda>found.
     case found of
       None \<Rightarrow> Ok None
     | Some row \<Rightarrow>
         and_then (parse_id c ''malformed document ID'' (dr_document_id row)) (\<lambda>doc_id.
         and_then (parse_id c ''malformed document Session ID'' (dr_session_id row)) (\<lambda>session.
         and_then (parse_document_type (dr_document_type row)) (\<lambda>kind.
         and_then (parse_id c ''malformed source Asset ID'' (dr_source_asset_id row)) (\<lambda>asset.
         and_then (load_pages flt c doc_id db) (\<lambda>pages.
         if dr_page_count row \<le> 0 \<or> nat (dr_page_count row) \<noteq> length pages
         then Err (CatCorruption ''persisted Document page count mismatch'')
         else
           let d = \<lparr>dd_document_id = doc_id, dd_session_id = session, dd_document_type = kind,
                    dd_source_asset_id = asset, dd_title = dr_title row, dd_pages = pages\<rparr> in
           if document_valid c d then Ok (Some d)
           else Err (CatCorruption ''invalid persisted Document descriptor'')))))))"

definition load_canvas ::
  "sql_faults \<Rightarrow> ('id :: linorder, 'f, 's) catalog_codec \<Rightarrow> 'id \<Rightarrow> 'f catalog_db \<Rightarrow> ('id, 'f) canvas_descriptor option cat_result" where
  "load_canvas flt c canvas_id db =
     and_then (cat_call flt (''canvas '' @ cid_to_string c canvas_id)
        (List.find (\<lambda>r. cr_canvas_id r = cid_to_string c canvas_id) (tb_canvases db))) (\<lambda>found.
     case found of
       None \<Rightarrow> Ok None
     | Some row \<Rightarrow>
         and_then (parse_id c ''malformed Canvas ID'' (cr_canvas_id row)) (\<lambda>cv_id.
         and_then (parse_id c ''malformed Canvas Session ID'' (cr_session_id row)) (\<lambda>session.
         if \<not> space_valid c (cr_width row) (cr_height row) then Err (CatCorruption ''invalid Canvas space'')
         else
         and_then (parse_id c ''malformed default Layer ID'' (cr_default_layer_id row)) (\<lambda>default_layer.
         and_then (cat_call flt (''layers of '' @ cid_to_string c cv_id) ()) (\<lambda>_.
         and_then (traverse (\<lambda>(n, row). and_then (cat_row flt (''layer of '' @ cid_to_string c cv_id) n row)
                      (\<lambda>row. parse_id c ''malformed Layer ID'' (lr_layer_id row)))
             (enumerate 0 (sort_key (\<lambda>r. map of_char (lr_layer_id r) :: nat list)
                (filter (\<lambda>r. lr_canvas_id r = cid_to_string c cv_id) (tb_layers db))))) (\<lambda>ids.
         let layers = btree_set ids in
         if cr_layer_count row \<le> 0 \<or> nat (cr_layer_count row) \<noteq> length layers
         then Err (CatCorruption ''persisted Canvas Layer count mismatch'')
         else
           let d = \<lparr>cv_canvas_id = cv_id, cv_session_id = session, cv_width = cr_width row, cv_height = cr_height row,
                    cv_layer_ids = layers, cv_default_layer_id = default_layer\<rparr> in
           if canvas_valid c d then Ok (Some d)
           else Err (CatCorruption ''invalid persisted Canvas descriptor'')))))))"

definition ordered_documents :: "'f catalog_db \<Rightarrow> document_row list" where
  "ordered_documents db = sort_key dr_publication_sequence (tb_documents db)"

definition load_listed ::
  "sql_faults \<Rightarrow> ('id, 'f, 's) catalog_codec \<Rightarrow> 'f catalog_db \<Rightarrow> nat \<times> document_row \<Rightarrow> ('id, 'f) document_descriptor cat_result" where
  "load_listed flt c db nr =
     and_then (cat_row flt ''listed document'' (fst nr) (snd nr)) (\<lambda>row.
     and_then (parse_id c ''malformed document ID'' (dr_document_id row)) (\<lambda>doc_id.
     and_then (load_document flt c doc_id db) (\<lambda>found.
     ok_or (CatCorruption ''publication order references missing Document'') found)))"

definition list_documents ::
  "sql_faults \<Rightarrow> ('id, 'f, 's) catalog_codec \<Rightarrow> 'id \<Rightarrow> 'f catalog_db \<Rightarrow> 's list cat_result" where
  "list_documents flt c session_id db =
     and_then (cat_call flt ''list documents'' ()) (\<lambda>_.
     traverse (\<lambda>nr. and_then (load_listed flt c db nr) (\<lambda>document.
         ok_or (CatCorruption ''Document page count overflowed'') (summary_of c document)))
       (enumerate 0 (filter (\<lambda>r. dr_session_id r = cid_to_string c session_id) (ordered_documents db))))"

definition list_all_documents ::
  "sql_faults \<Rightarrow> ('id, 'f, 's) catalog_codec \<Rightarrow> 'f catalog_db \<Rightarrow> ('id, 'f) document_descriptor list cat_result" where
  "list_all_documents flt c db =
     and_then (cat_call flt ''list all documents'' ()) (\<lambda>_.
     traverse (load_listed flt c db) (enumerate 0 (ordered_documents db)))"

definition select_binding :: "sql_faults \<Rightarrow> string \<Rightarrow> 'f catalog_db \<Rightarrow> binding_row option cat_result" where
  "select_binding flt key db =
     cat_call flt (''binding '' @ key) (List.find (\<lambda>r. br_binding_key r = key) (tb_bindings db))"

definition load_binding ::
  "sql_faults \<Rightarrow> ('id, 'f, 's) catalog_codec \<Rightarrow> string \<Rightarrow> 'f catalog_db \<Rightarrow> 'id bootstrap_binding option cat_result" where
  "load_binding flt c key db =
     and_then (select_binding flt key db) (\<lambda>row.
     opt_transpose (map_option (\<lambda>r.
       and_then (parse_id c ''malformed bootstrap Session ID'' (br_session_id r)) (\<lambda>session.
       and_then (parse_id c ''malformed bootstrap Canvas ID'' (br_canvas_id r)) (\<lambda>canvas.
       Ok \<lparr>bb_session_id = session, bb_canvas_id = canvas\<rparr>))) row))"

section \<open>Publications\<close>

definition canvas_row_of :: "('id, 'f, 's) catalog_codec \<Rightarrow> ('id, 'f) canvas_descriptor \<Rightarrow> 'f canvas_row" where
  "canvas_row_of c d =
     \<lparr>cr_canvas_id = cid_to_string c (cv_canvas_id d), cr_session_id = cid_to_string c (cv_session_id d),
      cr_width = cv_width d, cr_height = cv_height d, cr_layer_count = int (length (cv_layer_ids d)),
      cr_default_layer_id = cid_to_string c (cv_default_layer_id d)\<rparr>"

definition layer_row_of :: "('id, 'f, 's) catalog_codec \<Rightarrow> 'id \<Rightarrow> 'id \<Rightarrow> layer_row" where
  "layer_row_of c canvas layer = \<lparr>lr_canvas_id = cid_to_string c canvas, lr_layer_id = cid_to_string c layer\<rparr>"

definition insert_layer ::
  "sql_faults \<Rightarrow> layer_row \<Rightarrow> 'f catalog_db \<Rightarrow> 'f catalog_db cat_result" where
  "insert_layer flt row db =
     cat_insert flt ''insert layer'' (length (tb_layers db))
       (lr_layer_id row \<notin> lr_layer_id ` set (tb_layers db) \<and> lr_canvas_id row \<in> cr_canvas_id ` set (tb_canvases db))
       (db\<lparr>tb_layers := tb_layers db @ [row]\<rparr>)"

definition insert_canvas ::
  "sql_faults \<Rightarrow> ('id, 'f, 's) catalog_codec \<Rightarrow> ('id, 'f) canvas_descriptor \<Rightarrow> 'f catalog_db \<Rightarrow> 'f catalog_db cat_result" where
  "insert_canvas flt c d db =
     and_then (ok_or (CatInvalidGraph ''Canvas Layer count exceeds SQLite capacity'') (i64_try_from (length (cv_layer_ids d)))) (\<lambda>_.
     and_then (cat_insert flt ''insert canvas'' (length (tb_canvases db))
        (cid_to_string c (cv_canvas_id d) \<notin> cr_canvas_id ` set (tb_canvases db))
        (db\<lparr>tb_canvases := tb_canvases db @ [canvas_row_of c d]\<rparr>)) (\<lambda>db1.
     fold_res (\<lambda>layer. insert_layer flt (layer_row_of c (cv_canvas_id d) layer)) (cv_layer_ids d) db1))"

text \<open>Commit, with the deferred foreign key from a Canvas to its default Layer.\<close>

definition commit_tx :: "sql_faults \<Rightarrow> string \<Rightarrow> 'f catalog_db \<Rightarrow> 'f catalog_db cat_result" where
  "commit_tx flt site db =
     cat_insert flt site 0
       (\<forall>r \<in> set (tb_canvases db). \<lparr>lr_canvas_id = cr_canvas_id r, lr_layer_id = cr_default_layer_id r\<rparr> \<in> set (tb_layers db)) db"

text \<open>The loop over the Canvases of an already published Document.\<close>

definition same_canvases ::
  "sql_faults \<Rightarrow> ('id :: linorder, 'f, 's) catalog_codec \<Rightarrow> ('id, 'f) canvas_descriptor list \<Rightarrow> 'f catalog_db \<Rightarrow> bool \<Rightarrow> bool cat_result" where
  "same_canvases flt c canvases db same =
     fold_res (\<lambda>d same. and_then (load_canvas flt c (cv_canvas_id d) db) (\<lambda>found.
        and_then (ok_or (CatCorruption ''published Document is missing its Canvas'') found) (\<lambda>existing.
        Ok (same \<and> existing = d)))) canvases same"

fun layers_collide :: "sql_faults \<Rightarrow> ('id, 'f, 's) catalog_codec \<Rightarrow> 'id list \<Rightarrow> 'f catalog_db \<Rightarrow> bool cat_result" where
  "layers_collide flt c [] db = Ok False"
| "layers_collide flt c (layer # rest) db =
     and_then (cat_call flt (''layer '' @ cid_to_string c layer)
        (cid_to_string c layer \<in> lr_layer_id ` set (tb_layers db))) (\<lambda>exists.
     if exists then Ok True else layers_collide flt c rest db)"

fun canvases_collide ::
  "sql_faults \<Rightarrow> ('id, 'f, 's) catalog_codec \<Rightarrow> ('id, 'f) canvas_descriptor list \<Rightarrow> 'f catalog_db \<Rightarrow> bool cat_result" where
  "canvases_collide flt c [] db = Ok False"
| "canvases_collide flt c (d # rest) db =
     and_then (cat_call flt (''canvas id '' @ cid_to_string c (cv_canvas_id d))
        (cid_to_string c (cv_canvas_id d) \<in> cr_canvas_id ` set (tb_canvases db))) (\<lambda>exists.
     if exists then Ok True
     else and_then (layers_collide flt c (cv_layer_ids d) db) (\<lambda>exists.
          if exists then Ok True else canvases_collide flt c rest db))"

definition document_ids_collide ::
  "sql_faults \<Rightarrow> ('id, 'f, 's) catalog_codec \<Rightarrow> ('id, 'f) document_composition \<Rightarrow> 'f catalog_db \<Rightarrow> bool cat_result" where
  "document_ids_collide flt c graph db =
     and_then (cat_call flt ''document id''
        (cid_to_string c (dd_document_id (dc_document graph)) \<in> dr_document_id ` set (tb_documents db))) (\<lambda>exists.
     if exists then Ok True else canvases_collide flt c (dc_page_canvases graph) db)"

definition document_row_of ::
  "('id, 'f, 's) catalog_codec \<Rightarrow> int \<Rightarrow> ('id, 'f) document_descriptor \<Rightarrow> document_row" where
  "document_row_of c sequence d =
     \<lparr>dr_document_id = cid_to_string c (dd_document_id d), dr_session_id = cid_to_string c (dd_session_id d),
      dr_document_type = document_type_name (dd_document_type d), dr_source_asset_id = cid_to_string c (dd_source_asset_id d),
      dr_title = dd_title d, dr_page_count = int (length (dd_pages d)), dr_publication_sequence = sequence\<rparr>"

definition page_row_of ::
  "('id, 'f, 's) catalog_codec \<Rightarrow> 'id \<Rightarrow> ('id, 'f) page_descriptor \<Rightarrow> 'f page_row" where
  "page_row_of c document_id p =
     \<lparr>pr_page_id = cid_to_string c (pg_page_id p), pr_document_id = cid_to_string c document_id,
      pr_page_index = int (pg_page_index p), pr_width = pg_width p, pr_height = pg_height p,
      pr_rotation = int (pg_rotation p), pr_overlay_canvas_id = cid_to_string c (pg_overlay_canvas_id p)\<rparr>"

definition next_sequence :: "sql_faults \<Rightarrow> 'f catalog_db \<Rightarrow> int cat_result" where
  "next_sequence flt db =
     and_then (cat_call flt ''next sequence'' ()) (\<lambda>_.
     ok_or (CatBackend OtherSqliteError)
       (checked_add_i64 (case sql_max (map dr_publication_sequence (tb_documents db)) of None \<Rightarrow> - 1 | Some m \<Rightarrow> m) 1))"

definition insert_document ::
  "sql_faults \<Rightarrow> document_row \<Rightarrow> 'f catalog_db \<Rightarrow> 'f catalog_db cat_result" where
  "insert_document flt row db =
     cat_insert flt ''insert document'' (length (tb_documents db))
       (dr_document_id row \<notin> dr_document_id ` set (tb_documents db) \<and>
        dr_publication_sequence row \<notin> dr_publication_sequence ` set (tb_documents db))
       (db\<lparr>tb_documents := tb_documents db @ [row]\<rparr>)"

definition insert_page :: "sql_faults \<Rightarrow> 'f page_row \<Rightarrow> 'f catalog_db \<Rightarrow> 'f catalog_db cat_result" where
  "insert_page flt row db =
     cat_insert flt ''insert page'' (length (tb_pages db))
       (pr_page_id row \<notin> pr_page_id ` set (tb_pages db) \<and>
        pr_document_id row \<in> dr_document_id ` set (tb_documents db) \<and>
        pr_overlay_canvas_id row \<in> cr_canvas_id ` set (tb_canvases db) \<and>
        (pr_document_id row, pr_page_index row) \<notin> (\<lambda>r. (pr_document_id r, pr_page_index r)) ` set (tb_pages db) \<and>
        (pr_document_id row, pr_overlay_canvas_id row) \<notin> (\<lambda>r. (pr_document_id r, pr_overlay_canvas_id r)) ` set (tb_pages db))
       (db\<lparr>tb_pages := tb_pages db @ [row]\<rparr>)"

text \<open>\<open>in_tx\<close> runs the body of a transaction; an error rolls everything back.\<close>

definition in_tx ::
  "sql_faults \<Rightarrow> string \<Rightarrow> ('f catalog_db \<Rightarrow> ('a \<times> 'f catalog_db) cat_result) \<Rightarrow> 'f catalog_db \<Rightarrow> 'a cat_result \<times> 'f catalog_db" where
  "in_tx flt site body db =
     (case and_then (cat_call flt (''begin '' @ site) ()) (\<lambda>_. body db) of
        Inl e \<Rightarrow> (Err e, db)
      | Inr (x, db') \<Rightarrow> (Ok x, db'))"

definition publish_document ::
  "sql_faults \<Rightarrow> ('id :: linorder, 'f, 's) catalog_codec \<Rightarrow> ('id, 'f) document_composition \<Rightarrow> 'f catalog_db
   \<Rightarrow> catalog_publish_outcome cat_result \<times> 'f catalog_db" where
  "publish_document flt c graph = in_tx flt ''publish document'' (\<lambda>db.
     let document = dc_document graph in
     and_then (load_document flt c (dd_document_id document) db) (\<lambda>found.
     case found of
       Some existing \<Rightarrow>
         and_then (same_canvases flt c (dc_page_canvases graph) db (existing = document)) (\<lambda>same.
         if same then and_then (commit_tx flt ''commit existing document'' db) (\<lambda>db'. Ok (PubExisting, db'))
         else Err CatConflict)
     | None \<Rightarrow>
         and_then (document_ids_collide flt c graph db) (\<lambda>collide.
         if collide then Err CatConflict
         else
           and_then (next_sequence flt db) (\<lambda>sequence.
           and_then (fold_res (insert_canvas flt c) (dc_page_canvases graph) db) (\<lambda>db1.
           and_then (ok_or (CatInvalidGraph ''Document page count exceeds SQLite capacity'') (i64_try_from (length (dd_pages document)))) (\<lambda>_.
           and_then (insert_document flt (document_row_of c sequence document) db1) (\<lambda>db2.
           and_then (fold_res (\<lambda>p. insert_page flt (page_row_of c (dd_document_id document) p)) (dd_pages document) db2) (\<lambda>db3.
           and_then (commit_tx flt ''commit document'' db3) (\<lambda>db4. Ok (PubInserted, db4))))))))))"

definition publish_standalone ::
  "sql_faults \<Rightarrow> ('id :: linorder, 'f, 's) catalog_codec \<Rightarrow> ('id, 'f) canvas_descriptor \<Rightarrow> 'f catalog_db
   \<Rightarrow> catalog_publish_outcome cat_result \<times> 'f catalog_db" where
  "publish_standalone flt c d = in_tx flt ''publish standalone'' (\<lambda>db.
     and_then (load_canvas flt c (cv_canvas_id d) db) (\<lambda>found.
     case found of
       Some existing \<Rightarrow>
         if existing = d then and_then (commit_tx flt ''commit existing canvas'' db) (\<lambda>db'. Ok (PubExisting, db'))
         else Err CatConflict
     | None \<Rightarrow>
         and_then (layers_collide flt c (cv_layer_ids d) db) (\<lambda>collide.
         if collide then Err CatConflict
         else and_then (insert_canvas flt c d db) (\<lambda>db1.
              and_then (commit_tx flt ''commit canvas'' db1) (\<lambda>db2. Ok (PubInserted, db2))))))"

definition binding_row_of :: "('id, 'f, 's) catalog_codec \<Rightarrow> string \<Rightarrow> 'id bootstrap_binding \<Rightarrow> binding_row" where
  "binding_row_of c key b =
     \<lparr>br_binding_key = key, br_session_id = cid_to_string c (bb_session_id b), br_canvas_id = cid_to_string c (bb_canvas_id b)\<rparr>"

definition insert_binding :: "sql_faults \<Rightarrow> binding_row \<Rightarrow> 'f catalog_db \<Rightarrow> 'f catalog_db cat_result" where
  "insert_binding flt row db =
     cat_insert flt ''insert binding'' (length (tb_bindings db))
       (br_binding_key row \<notin> br_binding_key ` set (tb_bindings db) \<and> br_canvas_id row \<in> cr_canvas_id ` set (tb_canvases db))
       (db\<lparr>tb_bindings := tb_bindings db @ [row]\<rparr>)"

definition publish_standalone_with_binding ::
  "sql_faults \<Rightarrow> ('id :: linorder, 'f, 's) catalog_codec \<Rightarrow> string \<Rightarrow> ('id, 'f) canvas_descriptor \<Rightarrow> 'id bootstrap_binding
   \<Rightarrow> 'f catalog_db \<Rightarrow> catalog_publish_outcome cat_result \<times> 'f catalog_db" where
  "publish_standalone_with_binding flt c key d b db =
     (if bb_canvas_id b \<noteq> cv_canvas_id d \<or> bb_session_id b \<noteq> cv_session_id d then (Err CatConflict, db)
      else in_tx flt ''publish with binding'' (\<lambda>db.
        and_then (select_binding flt key db) (\<lambda>existing_binding.
        case existing_binding of
          Some row \<Rightarrow>
            if br_session_id row \<noteq> cid_to_string c (bb_session_id b) \<or> br_canvas_id row \<noteq> cid_to_string c (bb_canvas_id b)
            then Err CatConflict
            else and_then (load_canvas flt c (cv_canvas_id d) db) (\<lambda>found.
                 and_then (ok_or (CatCorruption ''bootstrap binding references missing Canvas'') found) (\<lambda>existing.
                 if existing \<noteq> d then Err CatConflict
                 else and_then (commit_tx flt ''commit existing binding'' db) (\<lambda>db'. Ok (PubExisting, db'))))
        | None \<Rightarrow>
            and_then (load_canvas flt c (cv_canvas_id d) db) (\<lambda>found.
            and_then (case found of
                        Some existing \<Rightarrow> if existing \<noteq> d then Err CatConflict else Ok (PubExisting, db)
                      | None \<Rightarrow> and_then (insert_canvas flt c d db) (\<lambda>db1. Ok (PubInserted, db1))) (\<lambda>(out, db1).
            and_then (insert_binding flt (binding_row_of c key b) db1) (\<lambda>db2.
            and_then (commit_tx flt ''commit binding'' db2) (\<lambda>db3. Ok (out, db3))))))) db)"

definition store_binding ::
  "sql_faults \<Rightarrow> ('id, 'f, 's) catalog_codec \<Rightarrow> string \<Rightarrow> 'id bootstrap_binding \<Rightarrow> 'f catalog_db
   \<Rightarrow> unit cat_result \<times> 'f catalog_db" where
  "store_binding flt c key b = in_tx flt ''store binding'' (\<lambda>db.
     and_then (select_binding flt key db) (\<lambda>existing.
     case existing of
       Some row \<Rightarrow>
         if row = binding_row_of c key b then and_then (commit_tx flt ''commit same binding'' db) (\<lambda>db'. Ok ((), db'))
         else Err CatConflict
     | None \<Rightarrow>
         and_then (insert_binding flt (binding_row_of c key b) db) (\<lambda>db1.
         and_then (commit_tx flt ''commit new binding'' db1) (\<lambda>db2. Ok ((), db2)))))"

section \<open>Opening\<close>

text \<open>\<^verbatim>\<open>PRAGMA foreign_key_check\<close>: the rows whose parent is missing.\<close>

definition foreign_key_violations :: "'f catalog_db \<Rightarrow> nat" where
  "foreign_key_violations db =
     length (filter (\<lambda>r. \<lparr>lr_canvas_id = cr_canvas_id r, lr_layer_id = cr_default_layer_id r\<rparr> \<notin> set (tb_layers db)) (tb_canvases db)) +
     length (filter (\<lambda>r. lr_canvas_id r \<notin> cr_canvas_id ` set (tb_canvases db)) (tb_layers db)) +
     length (filter (\<lambda>r. pr_document_id r \<notin> dr_document_id ` set (tb_documents db)) (tb_pages db)) +
     length (filter (\<lambda>r. pr_overlay_canvas_id r \<notin> cr_canvas_id ` set (tb_canvases db)) (tb_pages db)) +
     length (filter (\<lambda>r. br_canvas_id r \<notin> cr_canvas_id ` set (tb_canvases db)) (tb_bindings db))"

definition check_page ::
  "sql_faults \<Rightarrow> ('id :: linorder, 'f, 's) catalog_codec \<Rightarrow> 'f catalog_db \<Rightarrow> ('id, 'f) document_descriptor
   \<Rightarrow> ('id, 'f) page_descriptor \<Rightarrow> unit cat_result" where
  "check_page flt c db d p =
     and_then (load_canvas flt c (pg_overlay_canvas_id p) db) (\<lambda>found.
     and_then (ok_or (CatCorruption ''Document Page references missing Canvas'') found) (\<lambda>canvas.
     if cv_session_id canvas \<noteq> dd_session_id d \<or> cv_width canvas \<noteq> pg_width p \<or> cv_height canvas \<noteq> pg_height p
     then Err (CatCorruption ''Document Page and Canvas descriptor mismatch'') else Ok ()))"

definition scan_document ::
  "sql_faults \<Rightarrow> ('id :: linorder, 'f, 's) catalog_codec \<Rightarrow> 'f catalog_db \<Rightarrow> nat \<times> document_row \<Rightarrow> int \<Rightarrow> int cat_result" where
  "scan_document flt c db nr expected_sequence =
     and_then (cat_row flt ''scan document'' (fst nr) (snd nr)) (\<lambda>row.
     if dr_publication_sequence row < 0 \<or> dr_publication_sequence row < expected_sequence
     then Err (CatCorruption ''invalid Document publication sequence'')
     else
       and_then (parse_id c ''malformed document ID'' (dr_document_id row)) (\<lambda>doc_id.
       and_then (parse_id c ''malformed document Session ID'' (dr_session_id row)) (\<lambda>session.
       and_then (parse_id c ''malformed source Asset ID'' (dr_source_asset_id row)) (\<lambda>asset.
       and_then (parse_document_type (dr_document_type row)) (\<lambda>kind.
       and_then (load_pages flt c doc_id db) (\<lambda>pages.
       if dr_page_count row \<le> 0 \<or> nat (dr_page_count row) \<noteq> length pages
       then Err (CatCorruption ''persisted Document page count mismatch'')
       else
         let d = \<lparr>dd_document_id = doc_id, dd_session_id = session, dd_document_type = kind,
                  dd_source_asset_id = asset, dd_title = dr_title row, dd_pages = pages\<rparr> in
         if \<not> document_valid c d then Err (CatCorruption ''invalid persisted Document descriptor'')
         else and_then (traverse (check_page flt c db d) (dd_pages d)) (\<lambda>_.
              Ok (saturating_add_i64 (dr_publication_sequence row) 1))))))))"

definition scan_canvas ::
  "sql_faults \<Rightarrow> ('id :: linorder, 'f, 's) catalog_codec \<Rightarrow> 'f catalog_db \<Rightarrow> nat \<times> 'f canvas_row \<Rightarrow> unit cat_result" where
  "scan_canvas flt c db nr =
     and_then (cat_row flt ''scan canvas'' (fst nr) (snd nr)) (\<lambda>row.
     and_then (parse_id c ''malformed Canvas ID'' (cr_canvas_id row)) (\<lambda>cv_id.
     and_then (load_canvas flt c cv_id db) (\<lambda>found.
     and_then (ok_or (CatCorruption ''Canvas disappeared during scan'') found) (\<lambda>_. Ok ()))))"

definition scan_binding ::
  "sql_faults \<Rightarrow> ('id :: linorder, 'f, 's) catalog_codec \<Rightarrow> 'f catalog_db \<Rightarrow> nat \<times> binding_row \<Rightarrow> unit cat_result" where
  "scan_binding flt c db nr =
     and_then (cat_row flt ''scan binding'' (fst nr) (snd nr)) (\<lambda>row.
     and_then (parse_id c ''malformed bootstrap Session ID'' (br_session_id row)) (\<lambda>session.
     and_then (parse_id c ''malformed bootstrap Canvas ID'' (br_canvas_id row)) (\<lambda>canvas.
     and_then (load_canvas flt c canvas db) (\<lambda>found.
     and_then (ok_or (CatCorruption ''bootstrap binding references missing Canvas'') found) (\<lambda>descriptor.
     if cv_session_id descriptor \<noteq> session then Err (CatCorruption ''bootstrap binding Session mismatch'') else Ok ())))))"

definition scan_integrity ::
  "sql_faults \<Rightarrow> ('id :: linorder, 'f, 's) catalog_codec \<Rightarrow> 'f catalog_db \<Rightarrow> unit cat_result" where
  "scan_integrity flt c db =
     and_then (cat_call flt ''foreign key check'' (foreign_key_violations db)) (\<lambda>violations.
     if violations \<noteq> 0 then Err (CatCorruption ''Catalog foreign key check failed'')
     else
       and_then (cat_call flt ''scan documents'' ()) (\<lambda>_.
       and_then (fold_res (scan_document flt c db) (enumerate 0 (ordered_documents db)) 0) (\<lambda>_.
       and_then (cat_call flt ''scan canvases'' ()) (\<lambda>_.
       and_then (traverse (scan_canvas flt c db)
          (enumerate 0 (sort_key (\<lambda>r. map of_char (cr_canvas_id r) :: nat list) (tb_canvases db)))) (\<lambda>_.
       and_then (cat_call flt ''orphan layers''
          (length (filter (\<lambda>l. lr_canvas_id l \<notin> cr_canvas_id ` set (tb_canvases db)) (tb_layers db)))) (\<lambda>orphan.
       if orphan \<noteq> 0 then Err (CatCorruption ''orphan Layer row'')
       else
         and_then (cat_call flt ''scan bindings'' ()) (\<lambda>_.
         and_then (traverse (scan_binding flt c db) (enumerate 0 (tb_bindings db))) (\<lambda>_. Ok ()))))))))"

definition catalog_metadata_value :: "sql_faults \<Rightarrow> string \<Rightarrow> 'f catalog_db \<Rightarrow> string option cat_result" where
  "catalog_metadata_value flt key db = cat_call flt (''metadata '' @ key) (map_of (tb_metadata db) key)"

text \<open>\<^verbatim>\<open>INSERT OR IGNORE\<close>\<close>

definition ensure_metadata :: "sql_faults \<Rightarrow> string \<Rightarrow> string \<Rightarrow> 'f catalog_db \<Rightarrow> 'f catalog_db cat_result" where
  "ensure_metadata flt key v db =
     cat_call flt (''ensure metadata '' @ key)
       (if map_of (tb_metadata db) key = None then db\<lparr>tb_metadata := tb_metadata db @ [(key, v)]\<rparr> else db)"

text \<open>Each statement of \<^verbatim>\<open>create_schema\<close> commits on its own: the tables it leaves are the second result.\<close>

definition create_schema ::
  "sql_faults \<Rightarrow> ('id, 'f, 's) catalog_codec \<Rightarrow> 'id \<Rightarrow> 'f catalog_db \<Rightarrow> unit cat_result \<times> 'f catalog_db" where
  "create_schema flt c fresh db =
     (case cat_call flt ''create tables'' () of
        Inl e \<Rightarrow> (Err e, db)
      | Inr _ \<Rightarrow>
          (case ensure_metadata flt ''schema_version'' (dec_of_nat (nat CATALOG_SCHEMA_VERSION)) db of
             Inl e \<Rightarrow> (Err e, db)
           | Inr db1 \<Rightarrow>
               (case catalog_metadata_value flt ''physical_store_id'' db1 of
                  Inl e \<Rightarrow> (Err e, db1)
                | Inr (Some _) \<Rightarrow> (Ok (), db1)
                | Inr None \<Rightarrow>
                    (case cat_call flt ''insert physical_store_id'' () of
                       Inl e \<Rightarrow> (Err e, db1)
                     | Inr _ \<Rightarrow> (Ok (), db1\<lparr>tb_metadata := tb_metadata db1 @ [(''physical_store_id'', cid_to_string c fresh)]\<rparr>)))))"

definition check_catalog ::
  "sql_faults \<Rightarrow> ('id :: linorder, 'f, 's) catalog_codec \<Rightarrow> string \<Rightarrow> 'f catalog_db \<Rightarrow> 'id cat_result" where
  "check_catalog flt c quick_check db =
     and_then (catalog_metadata_value flt ''schema_version'' db) (\<lambda>schema.
     and_then (ok_or (CatCorruption ''missing catalog schema version'') schema) (\<lambda>schema.
     and_then (ok_or (CatCorruption ''malformed catalog schema version'') (parse_i64 schema)) (\<lambda>schema_version.
     if CATALOG_SCHEMA_VERSION < schema_version then Err (CatSchema ''schema version is newer than this adapter'')
     else if schema_version < CATALOG_SCHEMA_VERSION then Err (CatSchema ''schema migration is required'')
     else
       and_then (catalog_metadata_value flt ''physical_store_id'' db) (\<lambda>physical.
       and_then (ok_or (CatCorruption ''missing physical store identity'') physical) (\<lambda>physical.
       and_then (parse_id c ''malformed physical store identity'' physical) (\<lambda>physical.
       and_then (cat_call flt ''quick check'' quick_check) (\<lambda>quick_check.
       if quick_check \<noteq> ''ok'' then Err (CatCorruption ''SQLite quick_check failed'')
       else and_then (scan_integrity flt c db) (\<lambda>_. Ok physical)))))))) "

definition initialize_catalog ::
  "sql_faults \<Rightarrow> ('id :: linorder, 'f, 's) catalog_codec \<Rightarrow> bool \<Rightarrow> string \<Rightarrow> 'id \<Rightarrow> 'f catalog_db
   \<Rightarrow> 'id cat_result \<times> 'f catalog_db" where
  "initialize_catalog flt c dir_ok quick_check fresh db =
     (if \<not> dir_ok then (Err (CatUnavailable ''catalog database directory could not be created''), db)
      else case traverse (\<lambda>site. cat_call flt site ()) [''open'', ''foreign_keys'', ''journal_mode'', ''synchronous'', ''busy_timeout''] of
        Inl e \<Rightarrow> (Err e, db)
      | Inr _ \<Rightarrow>
          (case create_schema flt c fresh db of
             (Inl e, db1) \<Rightarrow> (Err e, db1)
           | (Inr _, db1) \<Rightarrow> (check_catalog flt c quick_check db1, db1)))"

section \<open>The worker's commands\<close>

datatype ('id, 'f) catalog_command =
    GetDocument 'id
  | ListDocuments 'id
  | ListAllDocuments
  | GetCanvas 'id
  | PublishDocument "('id, 'f) document_composition"
  | PublishStandalone "('id, 'f) canvas_descriptor"
  | PublishStandaloneWithBinding string "('id, 'f) canvas_descriptor" "'id bootstrap_binding"
  | GetBinding string
  | PutBinding string "'id bootstrap_binding"

datatype ('id, 'f, 's) catalog_reply =
    ReplyDocument "('id, 'f) document_descriptor option cat_result"
  | ReplySummaries "'s list cat_result"
  | ReplyDocuments "('id, 'f) document_descriptor list cat_result"
  | ReplyCanvas "('id, 'f) canvas_descriptor option cat_result"
  | ReplyPublished "catalog_publish_outcome cat_result"
  | ReplyBinding "'id bootstrap_binding option cat_result"
  | ReplyUnit "unit cat_result"

fun exec_catalog_command ::
  "('id :: linorder, 'f, 's) catalog_codec \<Rightarrow> sql_faults \<times> ('id, 'f) catalog_command \<Rightarrow> 'f catalog_db
   \<Rightarrow> ('id, 'f, 's) catalog_reply \<times> 'f catalog_db" where
  "exec_catalog_command c (flt, GetDocument i) db = (ReplyDocument (load_document flt c i db), db)"
| "exec_catalog_command c (flt, ListDocuments s) db = (ReplySummaries (list_documents flt c s db), db)"
| "exec_catalog_command c (flt, ListAllDocuments) db = (ReplyDocuments (list_all_documents flt c db), db)"
| "exec_catalog_command c (flt, GetCanvas i) db = (ReplyCanvas (load_canvas flt c i db), db)"
| "exec_catalog_command c (flt, PublishDocument graph) db = map_prod ReplyPublished id (publish_document flt c graph db)"
| "exec_catalog_command c (flt, PublishStandalone d) db = map_prod ReplyPublished id (publish_standalone flt c d db)"
| "exec_catalog_command c (flt, PublishStandaloneWithBinding key d b) db =
     map_prod ReplyPublished id (publish_standalone_with_binding flt c key d b db)"
| "exec_catalog_command c (flt, GetBinding key) db = (ReplyBinding (load_binding flt c key db), db)"
| "exec_catalog_command c (flt, PutBinding key b) db = map_prod ReplyUnit id (store_binding flt c key b db)"

definition open_catalog ::
  "nat \<Rightarrow> bool \<Rightarrow> sql_faults \<Rightarrow> ('id :: linorder, 'f, 's) catalog_codec \<Rightarrow> bool \<Rightarrow> string \<Rightarrow> 'id \<Rightarrow> 'f catalog_db
   \<Rightarrow> ('id \<times> (sql_faults \<times> ('id, 'f) catalog_command, ('id, 'f, 's) catalog_reply, 'f catalog_db) worker) cat_result
      \<times> 'f catalog_db" where
  "open_catalog queue_capacity spawned flt c dir_ok quick_check fresh db =
     (if queue_capacity = 0 then (Err CatInvalidQueueCapacity, db)
      else if \<not> spawned then (Err (CatUnavailable ''could not start catalog worker''), db)
      else case initialize_catalog flt c dir_ok quick_check fresh db of
             (Inl e, db') \<Rightarrow> (Err e, db')
           | (Inr store_id, db') \<Rightarrow> (Ok (store_id, worker_open queue_capacity db'), db'))"

end
