(* ===== verification/Catalog_Graph.thy ===== *)
theory Catalog_Graph
  imports Catalog_Store
begin

text \<open>
  The catalog as an abstract graph: published Canvases, Documents in publication order and
  bootstrap bindings. Every table state the store reaches is the encoding of such a graph;
  loads read it back, publications extend it or change nothing, and the scan at opening
  accepts it.
\<close>

section \<open>Faults only turn results into errors\<close>

lemma res_le_cat_call [fault_intros]: "res_le (cat_call flt m v) (cat_call no_faults m v)"
  unfolding cat_call_def by (rule res_le_sql_call)

lemma res_le_cat_row [fault_intros]: "res_le (cat_row flt m n v) (cat_row no_faults m n v)"
  unfolding cat_row_def by (rule res_le_sql_row)

lemma res_le_cat_insert [fault_intros]: "res_le (cat_insert flt m n ok v) (cat_insert no_faults m n ok v)"
  unfolding cat_insert_def by (intro fault_intros)

lemma cat_calm [simp]:
  "cat_call no_faults m v = Ok v" "cat_row no_faults m n v = Ok v"
  "cat_insert no_faults m n ok v = (if ok then Ok v else Err (CatBackend OtherSqliteError))"
  by (simp_all add: cat_call_def cat_row_def cat_insert_def)

lemma load_pages_le [fault_intros]: "res_le (load_pages flt c i db) (load_pages no_faults c i db)"
  unfolding load_pages_def by (intro fault_intros)

lemma load_document_le [fault_intros]: "res_le (load_document flt c i db) (load_document no_faults c i db)"
  unfolding load_document_def by (intro fault_intros)

lemma load_canvas_le [fault_intros]: "res_le (load_canvas flt c i db) (load_canvas no_faults c i db)"
  unfolding load_canvas_def by (intro fault_intros)

lemma load_listed_le [fault_intros]: "res_le (load_listed flt c db nr) (load_listed no_faults c db nr)"
  unfolding load_listed_def by (intro fault_intros)

lemma select_binding_le [fault_intros]: "res_le (select_binding flt key db) (select_binding no_faults key db)"
  unfolding select_binding_def by (intro fault_intros)

lemma insert_layer_le [fault_intros]: "res_le (insert_layer flt row db) (insert_layer no_faults row db)"
  unfolding insert_layer_def by (intro fault_intros)

lemma insert_canvas_le [fault_intros]: "res_le (insert_canvas flt c d db) (insert_canvas no_faults c d db)"
  unfolding insert_canvas_def by (intro fault_intros)

lemma insert_document_le [fault_intros]: "res_le (insert_document flt row db) (insert_document no_faults row db)"
  unfolding insert_document_def by (intro fault_intros)

lemma insert_page_le [fault_intros]: "res_le (insert_page flt row db) (insert_page no_faults row db)"
  unfolding insert_page_def by (intro fault_intros)

lemma insert_binding_le [fault_intros]: "res_le (insert_binding flt row db) (insert_binding no_faults row db)"
  unfolding insert_binding_def by (intro fault_intros)

lemma commit_le [fault_intros]: "res_le (commit_tx flt site db) (commit_tx no_faults site db)"
  unfolding commit_tx_def by (intro fault_intros)

lemma same_canvases_le [fault_intros]: "res_le (same_canvases flt c vs db b) (same_canvases no_faults c vs db b)"
  unfolding same_canvases_def by (intro fault_intros)

lemma layers_collide_le [fault_intros]: "res_le (layers_collide flt c ls db) (layers_collide no_faults c ls db)"
proof (induction ls)
  case (Cons l ls)
  show ?case unfolding layers_collide.simps by (intro fault_intros Cons.IH)
qed (simp add: res_le_refl)

lemma canvases_collide_le [fault_intros]: "res_le (canvases_collide flt c vs db) (canvases_collide no_faults c vs db)"
proof (induction vs)
  case (Cons v vs)
  show ?case unfolding canvases_collide.simps by (intro fault_intros Cons.IH)
qed (simp add: res_le_refl)

lemma document_ids_collide_le [fault_intros]:
  "res_le (document_ids_collide flt c graph db) (document_ids_collide no_faults c graph db)"
  unfolding document_ids_collide_def by (intro fault_intros)

lemma next_sequence_le [fault_intros]: "res_le (next_sequence flt db) (next_sequence no_faults db)"
  unfolding next_sequence_def by (intro fault_intros)

text \<open>A transaction either does what it does without faults or fails and changes nothing.\<close>

definition tx_le :: "'a cat_result \<times> 'f catalog_db \<Rightarrow> 'a cat_result \<times> 'f catalog_db \<Rightarrow> 'f catalog_db \<Rightarrow> bool" where
  "tx_le r r' db \<longleftrightarrow> r = r' \<or> (\<exists>e. r = (Err e, db))"

lemma in_tx_le:
  assumes "\<And>db. res_le (body db) (body' db)"
  shows "tx_le (in_tx flt site body db) (in_tx no_faults site body' db) db"
proof (cases "and_then (cat_call flt (''begin '' @ site) ()) (\<lambda>_. body db)")
  case (Inl e)
  then show ?thesis by (auto simp: tx_le_def in_tx_def)
next
  case (Inr x)
  moreover from Inr have "body db = Inr x" by (auto simp: cat_call_def)
  then have "body' db = Inr x" using assms by (metis res_leD)
  ultimately show ?thesis by (simp add: tx_le_def in_tx_def)
qed

lemma publish_document_le: "tx_le (publish_document flt c graph db) (publish_document no_faults c graph db) db"
  unfolding publish_document_def by (rule in_tx_le) (intro fault_intros)

lemma publish_standalone_le: "tx_le (publish_standalone flt c d db) (publish_standalone no_faults c d db) db"
  unfolding publish_standalone_def by (rule in_tx_le) (intro fault_intros)

lemma publish_standalone_with_binding_le:
  "tx_le (publish_standalone_with_binding flt c key d b db) (publish_standalone_with_binding no_faults c key d b db) db"
proof (cases "bb_canvas_id b \<noteq> cv_canvas_id d \<or> bb_session_id b \<noteq> cv_session_id d")
  case True
  then show ?thesis by (auto simp: publish_standalone_with_binding_def tx_le_def)
next
  case False
  then show ?thesis unfolding publish_standalone_with_binding_def if_not_P [OF False]
    by (intro in_tx_le) (intro fault_intros)
qed

lemma store_binding_le: "tx_le (store_binding flt c key b db) (store_binding no_faults c key b db) db"
  unfolding store_binding_def by (rule in_tx_le) (intro fault_intros)

section \<open>The graph and its encoding\<close>

record ('id, 'f) catalog =
  ct_canvases :: "('id, 'f) canvas_descriptor list"
  ct_documents :: "('id, 'f) document_descriptor list"
  ct_bindings :: "(string \<times> 'id bootstrap_binding) list"

definition layer_rows_of :: "('id, 'f, 's) catalog_codec \<Rightarrow> ('id, 'f) canvas_descriptor \<Rightarrow> layer_row list" where
  "layer_rows_of c d = map (layer_row_of c (cv_canvas_id d)) (cv_layer_ids d)"

definition page_rows_of :: "('id, 'f, 's) catalog_codec \<Rightarrow> ('id, 'f) document_descriptor \<Rightarrow> 'f page_row list" where
  "page_rows_of c d = map (page_row_of c (dd_document_id d)) (dd_pages d)"

definition encode_catalog ::
  "('id, 'f, 's) catalog_codec \<Rightarrow> (string \<times> string) list \<Rightarrow> ('id, 'f) catalog \<Rightarrow> 'f catalog_db" where
  "encode_catalog c md A =
     \<lparr>tb_metadata = md,
      tb_documents = map (\<lambda>(n, d). document_row_of c (int n) d) (enumerate 0 (ct_documents A)),
      tb_canvases = map (canvas_row_of c) (ct_canvases A),
      tb_layers = concat (map (layer_rows_of c) (ct_canvases A)),
      tb_pages = concat (map (page_rows_of c) (ct_documents A)),
      tb_bindings = map (\<lambda>(k, b). binding_row_of c k b) (ct_bindings A)\<rparr>"

text \<open>What the store relies on in the kernel's conversions and constructors.\<close>

definition catalog_codec_ok :: "('id :: linorder, 'f, 's) catalog_codec \<Rightarrow> bool" where
  "catalog_codec_ok c \<longleftrightarrow> (\<forall>i. cid_parse c (cid_to_string c i) = Some i) \<and>
     (\<forall>d. canvas_valid c d \<longrightarrow> btree_set (cv_layer_ids d) = cv_layer_ids d \<and>
        cv_default_layer_id d \<in> set (cv_layer_ids d) \<and> space_valid c (cv_width d) (cv_height d)) \<and>
     (\<forall>d. document_valid c d \<longrightarrow> dd_pages d \<noteq> [] \<and> sorted_wrt (<) (map pg_page_index (dd_pages d)) \<and>
        (\<forall>p \<in> set (dd_pages d). int (pg_page_index p) \<le> u32_max \<and> int (pg_rotation p) \<le> u16_max \<and>
           rotation_valid c (pg_rotation p) \<and> geometry_valid c (pg_width p) (pg_height p) (pg_rotation p)))"

definition page_on_canvas ::
  "('id, 'f) document_descriptor \<Rightarrow> ('id, 'f) page_descriptor \<Rightarrow> ('id, 'f) canvas_descriptor \<Rightarrow> bool" where
  "page_on_canvas d p v \<longleftrightarrow> cv_canvas_id v = pg_overlay_canvas_id p \<and> cv_session_id v = dd_session_id d \<and>
     cv_width v = pg_width p \<and> cv_height v = pg_height p"

definition catalog_ok :: "('id, 'f, 's) catalog_codec \<Rightarrow> ('id, 'f) catalog \<Rightarrow> bool" where
  [inv_defs]: "catalog_ok c A \<longleftrightarrow>
     (\<forall>v \<in> set (ct_canvases A). canvas_valid c v) \<and> distinct (map cv_canvas_id (ct_canvases A)) \<and>
     distinct (concat (map cv_layer_ids (ct_canvases A))) \<and>
     (\<forall>d \<in> set (ct_documents A). document_valid c d \<and> distinct (map pg_overlay_canvas_id (dd_pages d)) \<and>
        (\<forall>p \<in> set (dd_pages d). \<exists>v \<in> set (ct_canvases A). page_on_canvas d p v)) \<and>
     distinct (map dd_document_id (ct_documents A)) \<and> distinct (concat (map (\<lambda>d. map pg_page_id (dd_pages d)) (ct_documents A))) \<and>
     distinct (map fst (ct_bindings A)) \<and> int (length (ct_documents A)) \<le> i64_max + 1 \<and>
     (\<forall>(k, b) \<in> set (ct_bindings A). \<exists>v \<in> set (ct_canvases A). cv_canvas_id v = bb_canvas_id b)"

text \<open>Every binding names the Session of its Canvas.\<close>

definition bindings_match :: "('id, 'f) catalog \<Rightarrow> bool" where
  "bindings_match A \<longleftrightarrow> (\<forall>(k, b) \<in> set (ct_bindings A). \<forall>v \<in> set (ct_canvases A).
     cv_canvas_id v = bb_canvas_id b \<longrightarrow> cv_session_id v = bb_session_id b)"

definition find_canvas :: "'id \<Rightarrow> ('id, 'f) catalog \<Rightarrow> ('id, 'f) canvas_descriptor option" where
  "find_canvas i A = List.find (\<lambda>v. cv_canvas_id v = i) (ct_canvases A)"

definition find_document :: "'id \<Rightarrow> ('id, 'f) catalog \<Rightarrow> ('id, 'f) document_descriptor option" where
  "find_document i A = List.find (\<lambda>d. dd_document_id d = i) (ct_documents A)"

section \<open>Loads read the graph back\<close>

declare no_faults_apply [simp del]

lemma find_map_conv: "List.find P (map f xs) = map_option f (List.find (P \<circ> f) xs)"
  by (induction xs) auto

lemma traverse_enumerate: "traverse (\<lambda>(n, x). f x) (enumerate k xs) = traverse f xs"
  by (induction xs arbitrary: k) auto

text \<open>The rows of one parent among the rows of all parents.\<close>

lemma filter_concat_parent:
  assumes "distinct (map k vs)" and "v \<in> set vs" and "\<And>w r. r \<in> set (g w) \<Longrightarrow> key r = h (k w)" and "inj h"
  shows "filter (\<lambda>r. key r = h (k v)) (concat (map g vs)) = g v"
  using assms(1,2)
proof (induction vs)
  case (Cons w vs)
  have same: "filter (\<lambda>r. key r = h (k w)) (g w) = g w" for w
    by (rule filter_True) (simp add: assms(3))
  have other: "filter (\<lambda>r. key r = h (k u)) (g w) = []" if "k u \<noteq> k w" for u w
    using that assms(4) by (auto simp: filter_empty_conv assms(3) dest: injD)
  show ?case
  proof (cases "v = w")
    case True
    from Cons.prems(1) have "h (k u) \<noteq> h (k w)" if "u \<in> set vs" for u
      using that assms(4) by (metis distinct.simps(2) image_eqI injD list.set_map list.simps(9))
    then have "filter (\<lambda>r. key r = h (k w)) (concat (map g vs)) = []"
      using assms(3) by (auto simp: filter_empty_conv)
    with True same show ?thesis by simp
  next
    case False
    with Cons.prems(2) have "v \<in> set vs" by simp
    moreover from this Cons.prems(1) have "k v \<noteq> k w" by (auto simp: rev_image_eqI)
    ultimately show ?thesis using Cons.IH Cons.prems(1) other by simp
  qed
qed simp

lemma btree_set_same: "btree_set xs = xs \<Longrightarrow> set ys = set xs \<Longrightarrow> btree_set ys = xs"
  unfolding btree_set_def by (metis sorted_list_of_set_sort_remdups)

lemma codec_parse [simp]: "catalog_codec_ok c \<Longrightarrow> cid_parse c (cid_to_string c i) = Some i"
  by (simp add: catalog_codec_ok_def)

lemma codec_eq [simp]: "catalog_codec_ok c \<Longrightarrow> cid_to_string c i = cid_to_string c j \<longleftrightarrow> i = j"
  by (metis codec_parse option.inject)

lemma codec_inj: "catalog_codec_ok c \<Longrightarrow> inj (cid_to_string c)"
  by (auto intro: injI)

lemma parse_id_ok [simp]: "catalog_codec_ok c \<Longrightarrow> parse_id c msg (cid_to_string c i) = Ok i"
  by (simp add: parse_id_def)

lemma codec_canvas:
  assumes "catalog_codec_ok c" and "canvas_valid c d"
  shows "btree_set (cv_layer_ids d) = cv_layer_ids d" "cv_default_layer_id d \<in> set (cv_layer_ids d)"
    "space_valid c (cv_width d) (cv_height d)"
  using assms by (auto simp: catalog_codec_ok_def)

lemma codec_document:
  assumes "catalog_codec_ok c" and "document_valid c d"
  shows "dd_pages d \<noteq> []" "sorted_wrt (<) (map pg_page_index (dd_pages d))"
    "p \<in> set (dd_pages d) \<Longrightarrow> int (pg_page_index p) \<le> u32_max \<and> int (pg_rotation p) \<le> u16_max \<and>
       rotation_valid c (pg_rotation p) \<and> geometry_valid c (pg_width p) (pg_height p) (pg_rotation p)"
  using assms by (auto simp: catalog_codec_ok_def)

lemma encode_catalog_simps [simp]:
  "tb_metadata (encode_catalog c md A) = md"
  "tb_canvases (encode_catalog c md A) = map (canvas_row_of c) (ct_canvases A)"
  "tb_layers (encode_catalog c md A) = concat (map (layer_rows_of c) (ct_canvases A))"
  "tb_pages (encode_catalog c md A) = concat (map (page_rows_of c) (ct_documents A))"
  "tb_bindings (encode_catalog c md A) = map (\<lambda>(k, b). binding_row_of c k b) (ct_bindings A)"
  "tb_documents (encode_catalog c md A) = map (\<lambda>(n, d). document_row_of c (int n) d) (enumerate 0 (ct_documents A))"
  by (simp_all add: encode_catalog_def)

lemma canvas_row_of_simps [simp]:
  "cr_canvas_id (canvas_row_of c d) = cid_to_string c (cv_canvas_id d)"
  "cr_session_id (canvas_row_of c d) = cid_to_string c (cv_session_id d)"
  "cr_width (canvas_row_of c d) = cv_width d" "cr_height (canvas_row_of c d) = cv_height d"
  "cr_layer_count (canvas_row_of c d) = int (length (cv_layer_ids d))"
  "cr_default_layer_id (canvas_row_of c d) = cid_to_string c (cv_default_layer_id d)"
  by (simp_all add: canvas_row_of_def)

lemma document_row_of_simps [simp]:
  "dr_document_id (document_row_of c s d) = cid_to_string c (dd_document_id d)"
  "dr_session_id (document_row_of c s d) = cid_to_string c (dd_session_id d)"
  "dr_document_type (document_row_of c s d) = document_type_name (dd_document_type d)"
  "dr_source_asset_id (document_row_of c s d) = cid_to_string c (dd_source_asset_id d)"
  "dr_title (document_row_of c s d) = dd_title d"
  "dr_page_count (document_row_of c s d) = int (length (dd_pages d))"
  "dr_publication_sequence (document_row_of c s d) = s"
  by (simp_all add: document_row_of_def)

lemma layer_row_of_simps [simp]:
  "lr_canvas_id (layer_row_of c v l) = cid_to_string c v" "lr_layer_id (layer_row_of c v l) = cid_to_string c l"
  by (simp_all add: layer_row_of_def)

lemma page_row_of_simps [simp]:
  "pr_page_id (page_row_of c i p) = cid_to_string c (pg_page_id p)" "pr_document_id (page_row_of c i p) = cid_to_string c i"
  "pr_page_index (page_row_of c i p) = int (pg_page_index p)" "pr_overlay_canvas_id (page_row_of c i p) = cid_to_string c (pg_overlay_canvas_id p)"
  by (simp_all add: page_row_of_def)

lemma binding_row_of_simps [simp]:
  "br_binding_key (binding_row_of c k b) = k" "br_session_id (binding_row_of c k b) = cid_to_string c (bb_session_id b)"
  "br_canvas_id (binding_row_of c k b) = cid_to_string c (bb_canvas_id b)"
  by (simp_all add: binding_row_of_def)

lemma parse_document_type_name [simp]: "parse_document_type (document_type_name k) = Ok k"
  by (cases k) (simp add: parse_document_type_def)

text \<open>The layer rows of a Canvas, read in any order, are its Layers.\<close>

lemma layers_of_canvas:
  assumes "catalog_codec_ok c" and "catalog_ok c A" and "v \<in> set (ct_canvases A)"
  shows "filter (\<lambda>r. lr_canvas_id r = cid_to_string c (cv_canvas_id v)) (tb_layers (encode_catalog c md A)) = layer_rows_of c v"
  unfolding encode_catalog_simps
  by (rule filter_concat_parent [where k = cv_canvas_id]) (use assms in \<open>auto simp: catalog_ok_def layer_rows_of_def codec_inj\<close>)

lemma traverse_layer_ids:
  assumes "catalog_codec_ok c" and "set rows = set (layer_rows_of c v)" and "canvas_valid c v"
  shows "\<exists>ids. traverse (\<lambda>r. parse_id c msg (lr_layer_id r)) rows = Ok ids \<and> btree_set ids = cv_layer_ids v"
proof -
  let ?g = "\<lambda>r. the (cid_parse c (lr_layer_id r))"
  have "traverse (\<lambda>r. parse_id c msg (lr_layer_id r)) rows = Ok (map ?g rows)"
    by (rule traverse_map_Ok) (use assms in \<open>auto simp: layer_rows_of_def\<close>)
  moreover have "set (map ?g rows) = set (cv_layer_ids v)" using assms by (force simp: layer_rows_of_def)
  ultimately show ?thesis using btree_set_same codec_canvas(1) [OF assms(1,3)] by blast
qed

lemma codec_layers_nonempty: "catalog_codec_ok c \<Longrightarrow> canvas_valid c v \<Longrightarrow> cv_layer_ids v \<noteq> []"
  using codec_canvas(2) by force

lemma load_canvas_exact:
  assumes "catalog_codec_ok c" and "catalog_ok c A"
  shows "load_canvas no_faults c i (encode_catalog c md A) = Ok (find_canvas i A)"
proof (cases "find_canvas i A")
  case None
  with assms(1) show ?thesis by (auto simp: load_canvas_def find_canvas_def find_map_conv o_def)
next
  case (Some v)
  then have v: "v \<in> set (ct_canvases A)" "cv_canvas_id v = i" by (auto simp: find_canvas_def dest: find_Some_in)
  with assms have valid: "canvas_valid c v" by (simp add: catalog_ok_def)
  let ?rows = "sort_key (\<lambda>r. map of_char (lr_layer_id r) :: nat list)
     (filter (\<lambda>r. lr_canvas_id r = cid_to_string c i) (tb_layers (encode_catalog c md A)))"
  have "set ?rows = set (layer_rows_of c v)" using layers_of_canvas [OF assms v(1), of md] v(2) by simp
  from traverse_layer_ids [OF assms(1) this valid] obtain ids
    where ids: "traverse (\<lambda>r. parse_id c ''malformed Layer ID'' (lr_layer_id r)) ?rows = Ok ids" "btree_set ids = cv_layer_ids v" by blast
  have found: "List.find (\<lambda>r. cr_canvas_id r = cid_to_string c i) (tb_canvases (encode_catalog c md A)) = Some (canvas_row_of c v)"
    using Some assms(1) by (simp add: find_canvas_def find_map_conv o_def)
  have same: "\<lparr>cv_canvas_id = i, cv_session_id = cv_session_id v, cv_width = cv_width v, cv_height = cv_height v,
      cv_layer_ids = cv_layer_ids v, cv_default_layer_id = cv_default_layer_id v\<rparr> = v" using v(2) by (cases v) simp
  show ?thesis unfolding load_canvas_def found
    using ids v(2) valid codec_canvas [OF assms(1) valid] codec_layers_nonempty [OF assms(1) valid] assms(1) Some
    by (simp add: traverse_enumerate same Let_def del: encode_catalog_simps)
qed

lemma load_page_exact:
  assumes "catalog_codec_ok c" and "document_valid c d" and "p \<in> set (dd_pages d)"
  shows "load_page c (page_row_of c (dd_document_id d) p) = Ok p"
  using codec_document(3) [OF assms] assms(1)
  by (simp add: load_page_def page_row_of_def)

lemma load_pages_exact:
  assumes "catalog_codec_ok c" and "catalog_ok c A" and "d \<in> set (ct_documents A)"
  shows "load_pages no_faults c (dd_document_id d) (encode_catalog c md A) = Ok (dd_pages d)"
proof -
  have valid: "document_valid c d" using assms(2,3) by (simp add: catalog_ok_def)
  have rows: "filter (\<lambda>r. pr_document_id r = cid_to_string c (dd_document_id d)) (tb_pages (encode_catalog c md A)) = page_rows_of c d"
    unfolding encode_catalog_simps
    by (rule filter_concat_parent [where k = dd_document_id]) (use assms in \<open>auto simp: catalog_ok_def page_rows_of_def codec_inj\<close>)
  have "sorted (map pg_page_index (dd_pages d))"
    using codec_document(2) [OF assms(1) valid] strict_sorted_imp_sorted by blast
  then have "sorted (map pr_page_index (page_rows_of c d))" by (simp add: page_rows_of_def sorted_map sorted_wrt_map o_def)
  then have "sort_key pr_page_index (page_rows_of c d) = page_rows_of c d" by (rule sort_key_sorted)
  moreover have "traverse (load_page c) (page_rows_of c d) = Ok (dd_pages d)"
    using load_page_exact [OF assms(1) valid] by (simp add: page_rows_of_def traverse_Ok_iff list_all2_map1 list.rel_refl_strong)
  ultimately show ?thesis by (simp add: load_pages_def Let_def rows traverse_enumerate del: encode_catalog_simps)
qed

lemma find_enumerate: "List.find (\<lambda>(n, x). P x) (enumerate k xs) = None \<longleftrightarrow> List.find P xs = None"
  by (induction xs arbitrary: k) auto

lemma find_document_row:
  "map_option (\<lambda>r. r\<lparr>dr_publication_sequence := 0\<rparr>) (List.find (\<lambda>r. dr_document_id r = cid_to_string c i) (tb_documents (encode_catalog c md A))) =
   map_option (document_row_of c 0) (List.find (\<lambda>d. cid_to_string c (dd_document_id d) = cid_to_string c i) (ct_documents A))"
proof -
  have "map_option (\<lambda>r. r\<lparr>dr_publication_sequence := 0\<rparr>) (List.find (\<lambda>r. dr_document_id r = cid_to_string c i) (map (\<lambda>(n, d). document_row_of c (int n) d) (enumerate k ds))) =
   map_option (document_row_of c 0) (List.find (\<lambda>d. cid_to_string c (dd_document_id d) = cid_to_string c i) ds)" for k ds
    by (induction ds arbitrary: k) (auto simp: document_row_of_def)
  then show ?thesis by simp
qed

lemma load_document_exact:
  assumes "catalog_codec_ok c" and "catalog_ok c A"
  shows "load_document no_faults c i (encode_catalog c md A) = Ok (find_document i A)"
proof (cases "find_document i A")
  case None
  with find_document_row [of c i md A] assms(1) show ?thesis by (simp add: load_document_def find_document_def del: encode_catalog_simps)
next
  case (Some d)
  then have d: "d \<in> set (ct_documents A)" "dd_document_id d = i" by (auto simp: find_document_def dest: find_Some_in)
  with assms have valid: "document_valid c d" by (simp add: catalog_ok_def)
  from Some find_document_row [of c i md A] assms(1)
  obtain row where row: "List.find (\<lambda>r. dr_document_id r = cid_to_string c i) (tb_documents (encode_catalog c md A)) = Some row"
    and same: "row\<lparr>dr_publication_sequence := 0\<rparr> = document_row_of c 0 d" by (auto simp: find_document_def simp del: encode_catalog_simps)
  from same have "row = document_row_of c (dr_publication_sequence row) d"
    by (cases row) (simp add: document_row_of_def)
  then obtain s where "row = document_row_of c s d" by blast
  moreover have same: "\<lparr>dd_document_id = i, dd_session_id = dd_session_id d, dd_document_type = dd_document_type d,
      dd_source_asset_id = dd_source_asset_id d, dd_title = dd_title d, dd_pages = dd_pages d\<rparr> = d" using d(2) by (cases d) simp
  ultimately show ?thesis unfolding load_document_def row
    using load_pages_exact [OF assms d(1), of md] codec_document(1) [OF assms(1) valid] d(2) valid assms(1) Some
    by (simp add: Let_def same del: encode_catalog_simps)
qed

lemma find_document_member:
  "catalog_ok c A \<Longrightarrow> d \<in> set (ct_documents A) \<Longrightarrow> find_document (dd_document_id d) A = Some d"
  unfolding find_document_def catalog_ok_def by (rule find_map_key_eq) auto

lemma find_canvas_member:
  "catalog_ok c A \<Longrightarrow> v \<in> set (ct_canvases A) \<Longrightarrow> find_canvas (cv_canvas_id v) A = Some v"
  unfolding find_canvas_def catalog_ok_def by (rule find_map_key_eq) auto

lemma encode_sequences:
  "map dr_publication_sequence (tb_documents (encode_catalog c md A)) = map int [0..<length (ct_documents A)]"
proof -
  have "map dr_publication_sequence (tb_documents (encode_catalog c md A)) = map int (map fst (enumerate 0 (ct_documents A)))"
    by (simp only: encode_catalog_simps map_map) (simp add: o_def case_prod_unfold)
  then show ?thesis by (simp only: map_fst_enumerate add_0)
qed

lemma ordered_documents_encode [simp]:
  "ordered_documents (encode_catalog c md A) = tb_documents (encode_catalog c md A)"
proof -
  have "sorted (map dr_publication_sequence (tb_documents (encode_catalog c md A)))"
    unfolding encode_sequences by (simp add: sorted_map)
  then show ?thesis unfolding ordered_documents_def by (rule sort_key_sorted)
qed

text \<open>A loop over the rows of some Documents, whatever their sequence numbers.\<close>

lemma traverse_document_rows:
  assumes "\<And>n s d. d \<in> set ds \<Longrightarrow> f (n, document_row_of c s d) = h d"
  shows "traverse f (enumerate k (map (\<lambda>(s, d). document_row_of c (int s) d) (enumerate j ds))) = traverse h ds"
  using assms by (induction ds arbitrary: k j) auto

lemma load_listed_exact:
  assumes "catalog_codec_ok c" and "catalog_ok c A" and "d \<in> set (ct_documents A)"
  shows "load_listed no_faults c (encode_catalog c md A) (n, document_row_of c s d) = Ok d"
  using assms load_document_exact [OF assms(1,2), of "dd_document_id d" md]
  by (simp add: load_listed_def find_document_member)

lemma traverse_Ok_self: "traverse Ok xs = Ok xs"
  by (induction xs) auto

lemma list_all_documents_exact:
  assumes "catalog_codec_ok c" and "catalog_ok c A"
  shows "list_all_documents no_faults c (encode_catalog c md A) = Ok (ct_documents A)"
proof -
  have "traverse (load_listed no_faults c (encode_catalog c md A)) (enumerate 0 (tb_documents (encode_catalog c md A))) = traverse Ok (ct_documents A)"
    unfolding encode_catalog_simps(6) by (rule traverse_document_rows) (rule load_listed_exact [OF assms])
  then show ?thesis by (simp add: list_all_documents_def traverse_Ok_self del: encode_catalog_simps)
qed

lemma filter_session_rows:
  assumes "catalog_codec_ok c"
  shows "\<exists>ss. filter (\<lambda>r. dr_session_id r = cid_to_string c i) (map (\<lambda>(s, d). document_row_of c (int s) d) (enumerate j ds)) =
    map (\<lambda>(s, d). document_row_of c s d) (zip ss (filter (\<lambda>d. dd_session_id d = i) ds)) \<and> length ss = length (filter (\<lambda>d. dd_session_id d = i) ds)"
  using assms
proof (induction ds arbitrary: j)
  case (Cons d ds)
  from Cons.IH [OF assms, of "Suc j"] obtain ss where
    "filter (\<lambda>r. dr_session_id r = cid_to_string c i) (map (\<lambda>(s, d). document_row_of c (int s) d) (enumerate (Suc j) ds)) =
     map (\<lambda>(s, d). document_row_of c s d) (zip ss (filter (\<lambda>d. dd_session_id d = i) ds))" "length ss = length (filter (\<lambda>d. dd_session_id d = i) ds)" by blast
  with assms show ?case by (cases "dd_session_id d = i") (auto intro: exI [of _ "int j # ss"] exI [of _ ss])
qed simp

lemma traverse_zip_rows:
  assumes "length ss = length ds" and "\<And>n s d. d \<in> set ds \<Longrightarrow> f (n, document_row_of c s d) = h d"
  shows "traverse f (enumerate k (map (\<lambda>(s, d). document_row_of c s d) (zip ss ds))) = traverse h ds"
  using assms by (induction ss ds arbitrary: k rule: list_induct2) auto

lemma list_documents_exact:
  assumes "catalog_codec_ok c" and "catalog_ok c A"
  shows "list_documents no_faults c i (encode_catalog c md A) =
    traverse (\<lambda>d. ok_or (CatCorruption ''Document page count overflowed'') (summary_of c d)) (filter (\<lambda>d. dd_session_id d = i) (ct_documents A))"
proof -
  from filter_session_rows [OF assms(1), of i 0 "ct_documents A"] obtain ss
    where rows: "filter (\<lambda>r. dr_session_id r = cid_to_string c i) (tb_documents (encode_catalog c md A)) =
        map (\<lambda>(s, d). document_row_of c s d) (zip ss (filter (\<lambda>d. dd_session_id d = i) (ct_documents A)))"
      and ss: "length ss = length (filter (\<lambda>d. dd_session_id d = i) (ct_documents A))" by auto
  show ?thesis unfolding list_documents_def ordered_documents_encode rows cat_calm and_then.simps
    by (rule traverse_zip_rows [OF ss]) (simp add: load_listed_exact [OF assms])
qed

lemma load_binding_exact:
  assumes "catalog_codec_ok c"
  shows "load_binding no_faults c key (encode_catalog c md A) = Ok (map_of (ct_bindings A) key)"
proof -
  have "List.find (\<lambda>r. br_binding_key r = key) (map (\<lambda>(k, b). binding_row_of c k b) bs) = map_option (binding_row_of c key) (map_of bs key)" for bs
    by (induction bs) auto
  then show ?thesis using assms by (cases "map_of (ct_bindings A) key") (simp_all add: load_binding_def select_binding_def)
qed

section \<open>Insertions extend the graph\<close>

text \<open>
  A loop of constrained insertions, where the constraints of a statement hold exactly when
  the table they leave is consistent: the loop succeeds exactly when the final table is.
\<close>

lemma fold_constrained:
  assumes step: "\<And>r db. r \<in> set rs \<Longrightarrow> Q db \<Longrightarrow> ins r db = (if Q (push r db) then Ok (push r db) else Err e)"
    and anti: "\<And>r db. Q (push r db) \<Longrightarrow> Q db" and "Q db"
  shows "fold_res ins rs db = (if Q (fold push rs db) then Ok (fold push rs db) else Err e)"
  using assms(1,3)
proof (induction rs arbitrary: db)
  case (Cons r rs)
  have keep: "Q db'" if "Q (fold push rs db')" for db' rs
    using that by (induction rs arbitrary: db') (auto dest: anti)
  show ?case
  proof (cases "Q (push r db)")
    case True
    with Cons show ?thesis by simp
  next
    case False
    with Cons.prems keep show ?thesis by auto
  qed
qed simp

definition canvases_fit :: "('id, 'f) canvas_descriptor list \<Rightarrow> bool" where
  "canvases_fit vs \<longleftrightarrow> distinct (map cv_canvas_id vs) \<and> distinct (concat (map cv_layer_ids vs))"

definition add_canvas :: "('id, 'f) canvas_descriptor \<Rightarrow> ('id, 'f) catalog \<Rightarrow> ('id, 'f) catalog" where
  "add_canvas d A = A\<lparr>ct_canvases := ct_canvases A @ [d]\<rparr>"

lemma add_canvas_simps [simp]:
  "ct_canvases (add_canvas d A) = ct_canvases A @ [d]" "ct_documents (add_canvas d A) = ct_documents A"
  "ct_bindings (add_canvas d A) = ct_bindings A"
  by (simp_all add: add_canvas_def)

lemma fold_add_canvas [simp]: "fold add_canvas vs A = A\<lparr>ct_canvases := ct_canvases A @ vs\<rparr>"
  by (induction vs arbitrary: A) (simp_all add: add_canvas_def)

lemma encode_layer_ids:
  "lr_layer_id ` set (tb_layers (encode_catalog c md A)) = cid_to_string c ` set (concat (map cv_layer_ids (ct_canvases A)))"
  by (force simp: layer_rows_of_def)

lemma encode_canvas_ids:
  "cr_canvas_id ` set (tb_canvases (encode_catalog c md A)) = cid_to_string c ` set (map cv_canvas_id (ct_canvases A))"
  by force

lemma codec_image [simp]: "catalog_codec_ok c \<Longrightarrow> cid_to_string c i \<in> cid_to_string c ` S \<longleftrightarrow> i \<in> S"
  by (auto simp: image_iff)

lemma insert_layers_exact:
  assumes "cid_to_string c v \<in> cr_canvas_id ` set (tb_canvases db)" and "catalog_codec_ok c" and "distinct ls"
  shows "fold_res (\<lambda>l. insert_layer no_faults (layer_row_of c v l)) ls db =
    (if cid_to_string c ` set ls \<inter> lr_layer_id ` set (tb_layers db) = {}
     then Ok (db\<lparr>tb_layers := tb_layers db @ map (layer_row_of c v) ls\<rparr>) else Err (CatBackend OtherSqliteError))"
  using assms(1,3)
proof (induction ls arbitrary: db)
  case (Cons l ls)
  show ?case
  proof (cases "cid_to_string c l \<in> lr_layer_id ` set (tb_layers db)")
    case True
    then show ?thesis by (simp add: insert_layer_def)
  next
    case False
    have "cid_to_string c l \<notin> cid_to_string c ` set ls" using Cons.prems(2) assms(2) by simp
    with False Cons show ?thesis by (simp add: insert_layer_def)
  qed
qed simp

lemma distinct_codec_layers: "catalog_codec_ok c \<Longrightarrow> canvas_valid c d \<Longrightarrow> distinct (cv_layer_ids d)"
  using codec_canvas(1) by (metis btree_set_def distinct_remdups distinct_sort)

lemma insert_canvas_exact:
  assumes "catalog_codec_ok c" and "canvas_valid c d" and "int (length (cv_layer_ids d)) \<le> i64_max"
    and "canvases_fit (ct_canvases A)"
  shows "insert_canvas no_faults c d (encode_catalog c md A) =
    (if canvases_fit (ct_canvases (add_canvas d A)) then Ok (encode_catalog c md (add_canvas d A)) else Err (CatBackend OtherSqliteError))"
proof -
  let ?db = "encode_catalog c md A"
  let ?db1 = "?db\<lparr>tb_canvases := tb_canvases ?db @ [canvas_row_of c d]\<rparr>"
  note dl = distinct_codec_layers [OF assms(1,2)]
  have fit: "canvases_fit (ct_canvases (add_canvas d A)) \<longleftrightarrow> cv_canvas_id d \<notin> set (map cv_canvas_id (ct_canvases A)) \<and>
      set (cv_layer_ids d) \<inter> set (concat (map cv_layer_ids (ct_canvases A))) = {}"
    using assms(4) dl by (auto simp: canvases_fit_def)
  have "inj (cid_to_string c)" by (rule codec_inj [OF assms(1)])
  then have fresh: "cid_to_string c ` set (cv_layer_ids d) \<inter> lr_layer_id ` set (tb_layers ?db1) = {} \<longleftrightarrow>
      set (cv_layer_ids d) \<inter> set (concat (map cv_layer_ids (ct_canvases A))) = {}"
    using encode_layer_ids [of c md A] by (simp add: image_Int [symmetric] del: encode_catalog_simps)
  have ext: "?db1\<lparr>tb_layers := tb_layers ?db1 @ map (layer_row_of c (cv_canvas_id d)) (cv_layer_ids d)\<rparr> = encode_catalog c md (add_canvas d A)"
    by (simp add: encode_catalog_def layer_rows_of_def)
  have layers: "fold_res (\<lambda>l. insert_layer no_faults (layer_row_of c (cv_canvas_id d) l)) (cv_layer_ids d) ?db1 =
    (if set (cv_layer_ids d) \<inter> set (concat (map cv_layer_ids (ct_canvases A))) = {}
     then Ok (encode_catalog c md (add_canvas d A)) else Err (CatBackend OtherSqliteError))"
    using insert_layers_exact [OF _ assms(1) dl, of "cv_canvas_id d" ?db1] unfolding fresh ext
    by (simp del: encode_catalog_simps)
  show ?thesis
    using layers assms(1,3) unfolding fit insert_canvas_def encode_canvas_ids
    by (auto simp del: encode_catalog_simps simp: i64_try_from_def)
qed

lemma insert_canvases_exact:
  assumes "catalog_codec_ok c" and "\<forall>d \<in> set vs. canvas_valid c d \<and> int (length (cv_layer_ids d)) \<le> i64_max"
    and "canvases_fit (ct_canvases A)"
  shows "fold_res (insert_canvas no_faults c) vs (encode_catalog c md A) =
    (if canvases_fit (ct_canvases A @ vs) then Ok (encode_catalog c md (A\<lparr>ct_canvases := ct_canvases A @ vs\<rparr>)) else Err (CatBackend OtherSqliteError))"
  using assms(2,3)
proof (induction vs arbitrary: A)
  case (Cons d vs)
  have split: "canvases_fit (ct_canvases A @ d # vs) \<longleftrightarrow> canvases_fit (ct_canvases (add_canvas d A)) \<and> canvases_fit (ct_canvases (add_canvas d A) @ vs)"
    by (auto simp: canvases_fit_def)
  have eq: "add_canvas d A\<lparr>ct_canvases := ct_canvases (add_canvas d A) @ vs\<rparr> = A\<lparr>ct_canvases := ct_canvases A @ d # vs\<rparr>"
    by (simp add: add_canvas_def)
  show ?case
    using Cons.prems Cons.IH [of "add_canvas d A"] insert_canvas_exact [OF assms(1), of d A md]
    unfolding split eq by auto
qed simp

text \<open>The uniqueness and foreign keys of the table of pages.\<close>

definition pages_fit :: "'f catalog_db \<Rightarrow> bool" where
  "pages_fit db \<longleftrightarrow> distinct (map pr_page_id (tb_pages db)) \<and>
     distinct (map (\<lambda>r. (pr_document_id r, pr_page_index r)) (tb_pages db)) \<and>
     distinct (map (\<lambda>r. (pr_document_id r, pr_overlay_canvas_id r)) (tb_pages db)) \<and>
     (\<forall>r \<in> set (tb_pages db). pr_document_id r \<in> dr_document_id ` set (tb_documents db) \<and>
        pr_overlay_canvas_id r \<in> cr_canvas_id ` set (tb_canvases db))"

definition push_page :: "'f page_row \<Rightarrow> 'f catalog_db \<Rightarrow> 'f catalog_db" where
  "push_page row db = db\<lparr>tb_pages := tb_pages db @ [row]\<rparr>"

lemma fold_push_page: "fold push_page rows db = db\<lparr>tb_pages := tb_pages db @ rows\<rparr>"
  by (induction rows arbitrary: db) (simp_all add: push_page_def)

lemma insert_pages_exact:
  assumes "pages_fit db"
  shows "fold_res (insert_page no_faults) rows db =
    (if pages_fit (db\<lparr>tb_pages := tb_pages db @ rows\<rparr>) then Ok (db\<lparr>tb_pages := tb_pages db @ rows\<rparr>) else Err (CatBackend OtherSqliteError))"
  unfolding fold_push_page [symmetric]
proof (rule fold_constrained [where Q = pages_fit and push = push_page and ins = "insert_page no_faults"])
  show "insert_page no_faults r db = (if pages_fit (push_page r db) then Ok (push_page r db) else Err (CatBackend OtherSqliteError))"
    if "pages_fit db" for r db
  proof -
    have "pages_fit (push_page r db) \<longleftrightarrow> pr_page_id r \<notin> pr_page_id ` set (tb_pages db) \<and>
        pr_document_id r \<in> dr_document_id ` set (tb_documents db) \<and>
        pr_overlay_canvas_id r \<in> cr_canvas_id ` set (tb_canvases db) \<and>
        (pr_document_id r, pr_page_index r) \<notin> (\<lambda>r. (pr_document_id r, pr_page_index r)) ` set (tb_pages db) \<and>
        (pr_document_id r, pr_overlay_canvas_id r) \<notin> (\<lambda>r. (pr_document_id r, pr_overlay_canvas_id r)) ` set (tb_pages db)"
      using that by (auto simp: pages_fit_def push_page_def)
    then show ?thesis by (simp add: insert_page_def push_page_def)
  qed
  show "pages_fit db" if "pages_fit (push_page r db)" for r :: "'a page_row" and db
    using that by (auto simp: pages_fit_def push_page_def)
qed (rule assms)

lemma fold_res_mapped: "fold_res (\<lambda>x. f (g x)) xs a = fold_res f (map g xs) a"
  by (induction xs arbitrary: a) (simp_all, metis and_then_cong)

lemma catalog_ok_fit: "catalog_ok c A \<Longrightarrow> canvases_fit (ct_canvases A)"
  by (simp add: catalog_ok_def canvases_fit_def)

definition add_graph :: "('id, 'f) document_composition \<Rightarrow> ('id, 'f) catalog \<Rightarrow> ('id, 'f) catalog" where
  "add_graph graph A = A\<lparr>ct_canvases := ct_canvases A @ dc_page_canvases graph, ct_documents := ct_documents A @ [dc_document graph]\<rparr>"

lemma add_graph_simps [simp]:
  "ct_canvases (add_graph graph A) = ct_canvases A @ dc_page_canvases graph"
  "ct_documents (add_graph graph A) = ct_documents A @ [dc_document graph]"
  "ct_bindings (add_graph graph A) = ct_bindings A"
  by (simp_all add: add_graph_def)

text \<open>What \<^verbatim>\<open>DocumentComposition\<close> guarantees of its parts, and the sizes of its vectors.\<close>

definition composition_ok :: "('id, 'f, 's) catalog_codec \<Rightarrow> ('id, 'f) document_composition \<Rightarrow> bool" where
  "composition_ok c graph \<longleftrightarrow> document_valid c (dc_document graph) \<and>
     (\<forall>v \<in> set (dc_page_canvases graph). canvas_valid c v \<and> int (length (cv_layer_ids v)) \<le> i64_max) \<and>
     (\<forall>p \<in> set (dd_pages (dc_document graph)). \<exists>v \<in> set (dc_page_canvases graph). page_on_canvas (dc_document graph) p v) \<and>
     int (length (dd_pages (dc_document graph))) \<le> i64_max"

text \<open>Identities that the new graph may use: no Page is published yet, no Canvas or Layer occurs twice.\<close>

definition graph_fits :: "('id, 'f) document_composition \<Rightarrow> ('id, 'f) catalog \<Rightarrow> bool" where
  "graph_fits graph A \<longleftrightarrow> canvases_fit (ct_canvases A @ dc_page_canvases graph) \<and>
     distinct (concat (map (\<lambda>d. map pg_page_id (dd_pages d)) (ct_documents A @ [dc_document graph]))) \<and>
     distinct (map pg_overlay_canvas_id (dd_pages (dc_document graph)))"

lemma encode_document_ids:
  "dr_document_id ` set (tb_documents (encode_catalog c md A)) = cid_to_string c ` set (map dd_document_id (ct_documents A))"
proof -
  have "map dr_document_id (tb_documents (encode_catalog c md A)) = map (\<lambda>d. cid_to_string c (dd_document_id d)) (map snd (enumerate 0 (ct_documents A)))"
    by (simp only: encode_catalog_simps map_map) (simp add: o_def case_prod_unfold)
  then have "set (map dr_document_id (tb_documents (encode_catalog c md A))) = set (map (\<lambda>d. cid_to_string c (dd_document_id d)) (ct_documents A))"
    by (simp only: map_snd_enumerate)
  then show ?thesis by (simp only: list.set_map image_image)
qed

lemma distinct_pairs:
  assumes "distinct (map k ds)"
  shows "distinct (concat (map (\<lambda>d. map (\<lambda>p. (k d, h p)) (ps d)) ds)) \<longleftrightarrow> (\<forall>d \<in> set ds. distinct (map h (ps d)))"
  using assms
proof (induction ds)
  case (Cons d ds)
  have "set (map (\<lambda>p. (k d, h p)) (ps d)) \<inter> set (concat (map (\<lambda>d. map (\<lambda>p. (k d, h p)) (ps d)) ds)) = {}"
    using Cons.prems by (auto simp: rev_image_eqI)
  moreover have "distinct (map (\<lambda>p. (k d, h p)) (ps d)) \<longleftrightarrow> distinct (map h (ps d))"
    by (simp add: distinct_map inj_on_def)
  ultimately show ?case using Cons by simp
qed simp

lemma distinct_map_codec:
  assumes "catalog_codec_ok c"
  shows "distinct (map (\<lambda>x. cid_to_string c (f x)) xs) \<longleftrightarrow> distinct (map f xs)"
  using assms by (auto simp: distinct_map inj_on_def)

lemma pages_fit_encode:
  assumes "catalog_codec_ok c" and "distinct (map dd_document_id (ct_documents A))"
    and "\<forall>d \<in> set (ct_documents A). document_valid c d \<and> (\<forall>p \<in> set (dd_pages d). \<exists>v \<in> set (ct_canvases A). page_on_canvas d p v)"
  shows "pages_fit (encode_catalog c md A) \<longleftrightarrow> distinct (concat (map (\<lambda>d. map pg_page_id (dd_pages d)) (ct_documents A))) \<and>
    (\<forall>d \<in> set (ct_documents A). distinct (map pg_overlay_canvas_id (dd_pages d)))"
proof -
  let ?ds = "ct_documents A" and ?k = "\<lambda>d. cid_to_string c (dd_document_id d)"
  have rows: "map f (concat (map (page_rows_of c) ds)) = concat (map (\<lambda>d. map (\<lambda>p. f (page_row_of c (dd_document_id d) p)) (dd_pages d)) ds)" for f :: "'b page_row \<Rightarrow> 'z" and ds
    by (induction ds) (simp_all add: page_rows_of_def)
  have keys: "distinct (map ?k ?ds)" using assms(1,2) by (simp add: distinct_map_codec)
  have ids: "map (cid_to_string c) (concat (map (\<lambda>d. map pg_page_id (dd_pages d)) ?ds)) = map pr_page_id (concat (map (page_rows_of c) ?ds))"
    unfolding rows by (simp add: map_concat o_def)
  have "distinct (map pr_page_id (tb_pages (encode_catalog c md A))) \<longleftrightarrow> distinct (concat (map (\<lambda>d. map pg_page_id (dd_pages d)) ?ds))"
    using distinct_map_codec [OF assms(1), of "\<lambda>x. x" "concat (map (\<lambda>d. map pg_page_id (dd_pages d)) ?ds)"] unfolding ids by simp
  moreover have "distinct (map (\<lambda>r. (pr_document_id r, pr_page_index r)) (tb_pages (encode_catalog c md A)))"
  proof -
    have "distinct (map (\<lambda>p. int (pg_page_index p)) (dd_pages d))" if "d \<in> set ?ds" for d
    proof -
      from assms(3) that have "distinct (map pg_page_index (dd_pages d))"
        using codec_document(2) [OF assms(1)] strict_sorted_iff by blast
      then show ?thesis by (simp add: distinct_map inj_on_def)
    qed
    then show ?thesis using distinct_pairs [OF keys, of "\<lambda>p. int (pg_page_index p)" dd_pages] by (simp add: rows)
  qed
  moreover have "distinct (map (\<lambda>r. (pr_document_id r, pr_overlay_canvas_id r)) (tb_pages (encode_catalog c md A))) \<longleftrightarrow>
      (\<forall>d \<in> set ?ds. distinct (map pg_overlay_canvas_id (dd_pages d)))"
    using distinct_pairs [OF keys, of "\<lambda>p. cid_to_string c (pg_overlay_canvas_id p)" dd_pages] by (simp add: rows distinct_map_codec [OF assms(1)])
  moreover have "\<forall>r \<in> set (tb_pages (encode_catalog c md A)). pr_document_id r \<in> dr_document_id ` set (tb_documents (encode_catalog c md A)) \<and>
      pr_overlay_canvas_id r \<in> cr_canvas_id ` set (tb_canvases (encode_catalog c md A))"
  proof
    fix r assume "r \<in> set (tb_pages (encode_catalog c md A))"
    then obtain d p where r: "r = page_row_of c (dd_document_id d) p" "d \<in> set ?ds" "p \<in> set (dd_pages d)"
      by (auto simp: page_rows_of_def)
    with assms(3) obtain v where "v \<in> set (ct_canvases A)" "cv_canvas_id v = pg_overlay_canvas_id p" by (auto simp: page_on_canvas_def)
    then have "pg_overlay_canvas_id p \<in> set (map cv_canvas_id (ct_canvases A))" by force
    with r show "pr_document_id r \<in> dr_document_id ` set (tb_documents (encode_catalog c md A)) \<and>
      pr_overlay_canvas_id r \<in> cr_canvas_id ` set (tb_canvases (encode_catalog c md A))"
      unfolding encode_document_ids encode_canvas_ids using assms(1) by simp
  qed
  ultimately show ?thesis unfolding pages_fit_def by blast
qed

section \<open>Publications refine operations on the graph\<close>

definition spec_publish_document ::
  "('id, 'f) document_composition \<Rightarrow> ('id, 'f) catalog \<Rightarrow> catalog_publish_outcome cat_result \<times> ('id, 'f) catalog" where
  "spec_publish_document graph A =
     (case find_document (dd_document_id (dc_document graph)) A of
        Some existing \<Rightarrow>
          if \<exists>v \<in> set (dc_page_canvases graph). find_canvas (cv_canvas_id v) A = None
          then (Err (CatCorruption ''published Document is missing its Canvas''), A)
          else if existing = dc_document graph \<and> set (dc_page_canvases graph) \<subseteq> set (ct_canvases A) then (Ok PubExisting, A)
          else (Err CatConflict, A)
      | None \<Rightarrow>
          if \<exists>v \<in> set (dc_page_canvases graph). find_canvas (cv_canvas_id v) A \<noteq> None \<or>
               (\<exists>l \<in> set (cv_layer_ids v). \<exists>w \<in> set (ct_canvases A). l \<in> set (cv_layer_ids w))
          then (Err CatConflict, A)
          else if int (length (ct_documents A)) \<le> i64_max \<and> graph_fits graph A then (Ok PubInserted, add_graph graph A)
          else (Err (CatBackend OtherSqliteError), A))"

definition spec_publish_standalone ::
  "('id, 'f) canvas_descriptor \<Rightarrow> ('id, 'f) catalog \<Rightarrow> catalog_publish_outcome cat_result \<times> ('id, 'f) catalog" where
  "spec_publish_standalone d A =
     (case find_canvas (cv_canvas_id d) A of
        Some existing \<Rightarrow> (if existing = d then Ok PubExisting else Err CatConflict, A)
      | None \<Rightarrow>
          if \<exists>l \<in> set (cv_layer_ids d). \<exists>w \<in> set (ct_canvases A). l \<in> set (cv_layer_ids w) then (Err CatConflict, A)
          else (Ok PubInserted, add_canvas d A))"

definition spec_publish_with_binding ::
  "string \<Rightarrow> ('id, 'f) canvas_descriptor \<Rightarrow> 'id bootstrap_binding \<Rightarrow> ('id, 'f) catalog
   \<Rightarrow> catalog_publish_outcome cat_result \<times> ('id, 'f) catalog" where
  "spec_publish_with_binding key d b A =
     (if bb_canvas_id b \<noteq> cv_canvas_id d \<or> bb_session_id b \<noteq> cv_session_id d then (Err CatConflict, A)
      else case map_of (ct_bindings A) key of
        Some b' \<Rightarrow> (if b' = b \<and> find_canvas (cv_canvas_id d) A = Some d then Ok PubExisting else Err CatConflict, A)
      | None \<Rightarrow>
          (case find_canvas (cv_canvas_id d) A of
             Some existing \<Rightarrow>
               if existing = d then (Ok PubExisting, A\<lparr>ct_bindings := ct_bindings A @ [(key, b)]\<rparr>) else (Err CatConflict, A)
           | None \<Rightarrow>
               if \<exists>l \<in> set (cv_layer_ids d). \<exists>w \<in> set (ct_canvases A). l \<in> set (cv_layer_ids w)
               then (Err (CatBackend OtherSqliteError), A)
               else (Ok PubInserted, (add_canvas d A)\<lparr>ct_bindings := ct_bindings A @ [(key, b)]\<rparr>)))"

definition spec_store_binding ::
  "string \<Rightarrow> 'id bootstrap_binding \<Rightarrow> ('id, 'f) catalog \<Rightarrow> unit cat_result \<times> ('id, 'f) catalog" where
  "spec_store_binding key b A =
     (case map_of (ct_bindings A) key of
        Some b' \<Rightarrow> (if b' = b then Ok () else Err CatConflict, A)
      | None \<Rightarrow>
          if find_canvas (bb_canvas_id b) A = None then (Err (CatBackend OtherSqliteError), A)
          else (Ok (), A\<lparr>ct_bindings := ct_bindings A @ [(key, b)]\<rparr>))"

lemma find_canvas_None: "find_canvas i A = None \<longleftrightarrow> i \<notin> set (map cv_canvas_id (ct_canvases A))"
  by (auto simp: find_canvas_def find_None_iff)

lemma find_canvas_Some: "catalog_ok c A \<Longrightarrow> find_canvas (cv_canvas_id v) A = Some w \<longleftrightarrow> w \<in> set (ct_canvases A) \<and> cv_canvas_id w = cv_canvas_id v"
  using find_canvas_member [of c A w] by (auto simp: find_canvas_def dest: find_Some_in)

lemma find_document_None: "find_document i A = None \<longleftrightarrow> i \<notin> set (map dd_document_id (ct_documents A))"
  by (auto simp: find_document_def find_None_iff)

lemma same_canvases_exact:
  assumes "catalog_codec_ok c" and "catalog_ok c A"
  shows "same_canvases no_faults c vs (encode_catalog c md A) b =
    (if \<exists>v \<in> set vs. find_canvas (cv_canvas_id v) A = None then Err (CatCorruption ''published Document is missing its Canvas'')
     else Ok (b \<and> set vs \<subseteq> set (ct_canvases A)))"
proof (induction vs arbitrary: b)
  case (Cons v vs)
  have "w = v \<longleftrightarrow> v \<in> set (ct_canvases A)" if "find_canvas (cv_canvas_id v) A = Some w" for w
    using that assms(2) find_canvas_Some find_canvas_member by (metis option.inject)
  with Cons show ?case unfolding same_canvases_def
    by (cases "find_canvas (cv_canvas_id v) A") (auto simp: load_canvas_exact [OF assms])
qed (simp add: same_canvases_def)

lemma layers_collide_exact:
  "catalog_codec_ok c \<Longrightarrow> layers_collide no_faults c ls (encode_catalog c md A) =
     Ok (\<exists>l \<in> set ls. \<exists>w \<in> set (ct_canvases A). l \<in> set (cv_layer_ids w))"
  by (induction ls) (auto simp: encode_layer_ids simp del: encode_catalog_simps)

lemma canvases_collide_exact:
  "catalog_codec_ok c \<Longrightarrow> canvases_collide no_faults c vs (encode_catalog c md A) =
     Ok (\<exists>v \<in> set vs. find_canvas (cv_canvas_id v) A \<noteq> None \<or> (\<exists>l \<in> set (cv_layer_ids v). \<exists>w \<in> set (ct_canvases A). l \<in> set (cv_layer_ids w)))"
  by (induction vs) (auto simp: encode_canvas_ids layers_collide_exact find_canvas_None simp del: encode_catalog_simps)

lemma commit_encode:
  assumes "catalog_codec_ok c" and "\<forall>v \<in> set (ct_canvases A). canvas_valid c v"
  shows "commit_tx no_faults site (encode_catalog c md A) = Ok (encode_catalog c md A)"
proof -
  have "\<lparr>lr_canvas_id = cr_canvas_id r, lr_layer_id = cr_default_layer_id r\<rparr> \<in> set (tb_layers (encode_catalog c md A))"
    if "r \<in> set (tb_canvases (encode_catalog c md A))" for r
    using that assms codec_canvas(2) [OF assms(1)] by (fastforce simp: layer_rows_of_def layer_row_of_def)
  then show ?thesis by (simp add: commit_tx_def del: encode_catalog_simps)
qed

lemma next_sequence_exact:
  "next_sequence no_faults (encode_catalog c md A) =
     (if int (length (ct_documents A)) \<le> i64_max then Ok (int (length (ct_documents A))) else Err (CatBackend OtherSqliteError))"
  unfolding next_sequence_def encode_sequences sql_max_upt by (auto simp: checked_add_i64_def i64_min_def)

lemma in_tx_calm: "in_tx no_faults site body db = (case body db of Inl e \<Rightarrow> (Err e, db) | Inr (x, db') \<Rightarrow> (Ok x, db'))"
  by (simp add: in_tx_def)

text \<open>The statements that insert a new graph.\<close>

lemma encode_add_graph:
  "encode_catalog c md (add_graph graph A) =
     (encode_catalog c md (A\<lparr>ct_canvases := ct_canvases A @ dc_page_canvases graph\<rparr>))
       \<lparr>tb_documents := tb_documents (encode_catalog c md A) @ [document_row_of c (int (length (ct_documents A))) (dc_document graph)],
        tb_pages := tb_pages (encode_catalog c md A) @ page_rows_of c (dc_document graph)\<rparr>"
  by (simp add: encode_catalog_def add_graph_def enumerate_append_eq)

lemma pages_fit_graph:
  assumes "catalog_codec_ok c" and "catalog_ok c A" and "composition_ok c graph"
    and "find_document (dd_document_id (dc_document graph)) A = None"
  shows "pages_fit (encode_catalog c md (add_graph graph A)) \<longleftrightarrow>
    distinct (concat (map (\<lambda>d. map pg_page_id (dd_pages d)) (ct_documents A @ [dc_document graph]))) \<and>
    distinct (map pg_overlay_canvas_id (dd_pages (dc_document graph)))"
proof -
  have "\<forall>d \<in> set (ct_documents (add_graph graph A)). document_valid c d \<and>
      (\<forall>p \<in> set (dd_pages d). \<exists>v \<in> set (ct_canvases (add_graph graph A)). page_on_canvas d p v)"
    using assms(2,3) by (auto simp: catalog_ok_def composition_ok_def bex_Un)
  from pages_fit_encode [OF assms(1) _ this, of md] show ?thesis
    using assms(2,4) by (auto simp: catalog_ok_def find_document_None)
qed

lemma insert_graph_exact:
  assumes "catalog_codec_ok c" and "catalog_ok c A" and "composition_ok c graph"
    and "find_document (dd_document_id (dc_document graph)) A = None"
  shows "and_then (fold_res (insert_canvas no_faults c) (dc_page_canvases graph) (encode_catalog c md A)) (\<lambda>db1.
      and_then (insert_document no_faults (document_row_of c (int (length (ct_documents A))) (dc_document graph)) db1) (\<lambda>db2.
      fold_res (\<lambda>p. insert_page no_faults (page_row_of c (dd_document_id (dc_document graph)) p)) (dd_pages (dc_document graph)) db2)) =
    (if graph_fits graph A then Ok (encode_catalog c md (add_graph graph A)) else Err (CatBackend OtherSqliteError))"
proof (cases "canvases_fit (ct_canvases A @ dc_page_canvases graph)")
  case False
  then show ?thesis using insert_canvases_exact [OF assms(1) _ catalog_ok_fit [OF assms(2)], of "dc_page_canvases graph" md] assms(3)
    by (simp add: composition_ok_def graph_fits_def)
next
  case True
  let ?A1 = "A\<lparr>ct_canvases := ct_canvases A @ dc_page_canvases graph\<rparr>" and ?d = "dc_document graph"
  let ?row = "document_row_of c (int (length (ct_documents A))) ?d"
  let ?db1 = "encode_catalog c md ?A1"
  let ?db2 = "?db1\<lparr>tb_documents := tb_documents ?db1 @ [?row]\<rparr>"
  have c: "fold_res (insert_canvas no_faults c) (dc_page_canvases graph) (encode_catalog c md A) = Ok ?db1"
    using insert_canvases_exact [OF assms(1) _ catalog_ok_fit [OF assms(2)], of "dc_page_canvases graph" md] assms(3) True
    by (simp add: composition_ok_def)
  have seqs: "dr_publication_sequence ` set (tb_documents ?db1) = int ` {..<length (ct_documents A)}"
    using arg_cong [OF encode_sequences [of c md ?A1], of set] by (simp add: atLeast0LessThan del: encode_catalog_simps)
  have d: "insert_document no_faults ?row ?db1 = Ok ?db2"
    using assms(1,4) unfolding insert_document_def seqs encode_document_ids by (auto simp: find_document_None simp del: encode_catalog_simps)
  have old: "pages_fit ?db1"
    using assms(2) by (subst pages_fit_encode [OF assms(1)]) (auto simp: catalog_ok_def bex_Un)
  then have "pages_fit ?db2" by (auto simp: pages_fit_def)
  moreover have "?db2\<lparr>tb_pages := tb_pages ?db2 @ page_rows_of c ?d\<rparr> = encode_catalog c md (add_graph graph A)"
    unfolding encode_add_graph by simp
  ultimately have "fold_res (\<lambda>p. insert_page no_faults (page_row_of c (dd_document_id ?d) p)) (dd_pages ?d) ?db2 =
    (if pages_fit (encode_catalog c md (add_graph graph A)) then Ok (encode_catalog c md (add_graph graph A)) else Err (CatBackend OtherSqliteError))"
    using insert_pages_exact [of ?db2 "page_rows_of c ?d"] unfolding fold_res_mapped page_rows_of_def by simp
  with c d True show ?thesis unfolding pages_fit_graph [OF assms] by (simp add: graph_fits_def)
qed

lemma and_then_assoc: "and_then (and_then r f) g = and_then r (\<lambda>x. and_then (f x) g)"
  by (cases r) auto

lemma catalog_ok_canvases: "catalog_ok c A \<Longrightarrow> \<forall>v \<in> set (ct_canvases A). canvas_valid c v"
  by (simp add: catalog_ok_def)

lemma publish_document_exact:
  assumes "catalog_codec_ok c" and "catalog_ok c A" and "composition_ok c graph"
  shows "publish_document no_faults c graph (encode_catalog c md A) = map_prod id (encode_catalog c md) (spec_publish_document graph A)"
proof (cases "find_document (dd_document_id (dc_document graph)) A")
  case (Some existing)
  then show ?thesis
    unfolding publish_document_def in_tx_calm spec_publish_document_def
    by (simp add: load_document_exact [OF assms(1,2)] same_canvases_exact [OF assms(1,2)] commit_encode [OF assms(1) catalog_ok_canvases [OF assms(2)]])
next
  case None
  let ?col = "\<exists>v \<in> set (dc_page_canvases graph). find_canvas (cv_canvas_id v) A \<noteq> None \<or>
      (\<exists>l \<in> set (cv_layer_ids v). \<exists>w \<in> set (ct_canvases A). l \<in> set (cv_layer_ids w))"
  have collide: "document_ids_collide no_faults c graph (encode_catalog c md A) = Ok ?col"
    using assms(1) None unfolding document_ids_collide_def encode_document_ids
    by (simp add: find_document_None canvases_collide_exact [OF assms(1)] del: encode_catalog_simps)
  have len: "i64_try_from (length (dd_pages (dc_document graph))) = Some (int (length (dd_pages (dc_document graph))))"
    using assms(3) by (simp add: composition_ok_def)
  have "\<forall>v \<in> set (ct_canvases (add_graph graph A)). canvas_valid c v"
    using assms(2,3) by (auto simp: catalog_ok_def composition_ok_def)
  note commit = commit_encode [OF assms(1) this]
  have "publish_document no_faults c graph (encode_catalog c md A) =
    (case (if ?col then Err CatConflict else if i64_max < int (length (ct_documents A)) then Err (CatBackend OtherSqliteError) else
        and_then (if graph_fits graph A then Ok (encode_catalog c md (add_graph graph A)) else Err (CatBackend OtherSqliteError)) (\<lambda>db3.
        and_then (commit_tx no_faults ''commit document'' db3) (\<lambda>db4. Ok (PubInserted, db4))))
     of Inl e \<Rightarrow> (Err e, encode_catalog c md A) | Inr (x, db') \<Rightarrow> (Ok x, db'))"
    unfolding insert_graph_exact [OF assms(1-3) None, symmetric] publish_document_def in_tx_calm
    by (simp add: load_document_exact [OF assms(1,2)] None collide next_sequence_exact len and_then_assoc Let_def)
  then show ?thesis by (simp add: spec_publish_document_def None commit)
qed

text \<open>A Canvas that \<^verbatim>\<open>CanvasDescriptor\<close> admits and whose set of Layers has a size.\<close>

definition descriptor_ok :: "('id, 'f, 's) catalog_codec \<Rightarrow> ('id, 'f) canvas_descriptor \<Rightarrow> bool" where
  "descriptor_ok c d \<longleftrightarrow> canvas_valid c d \<and> int (length (cv_layer_ids d)) \<le> i64_max"

lemma insert_new_canvas:
  assumes "catalog_codec_ok c" and "catalog_ok c A" and "descriptor_ok c d" and "find_canvas (cv_canvas_id d) A = None"
  shows "insert_canvas no_faults c d (encode_catalog c md A) =
    (if \<exists>l \<in> set (cv_layer_ids d). \<exists>w \<in> set (ct_canvases A). l \<in> set (cv_layer_ids w) then Err (CatBackend OtherSqliteError)
     else Ok (encode_catalog c md (add_canvas d A)))"
proof -
  have "canvases_fit (ct_canvases (add_canvas d A)) \<longleftrightarrow> \<not> (\<exists>l \<in> set (cv_layer_ids d). \<exists>w \<in> set (ct_canvases A). l \<in> set (cv_layer_ids w))"
    using catalog_ok_fit [OF assms(2)] assms(3,4) distinct_codec_layers [OF assms(1)]
    by (auto simp: canvases_fit_def find_canvas_None descriptor_ok_def)
  with insert_canvas_exact [OF assms(1) _ _ catalog_ok_fit [OF assms(2)], of d md] assms(3) show ?thesis
    by (simp add: descriptor_ok_def)
qed

lemma commit_added:
  assumes "catalog_codec_ok c" and "catalog_ok c A" and "descriptor_ok c d" and "ct_canvases B \<in> {ct_canvases A, ct_canvases (add_canvas d A)}"
  shows "commit_tx no_faults site (encode_catalog c md B) = Ok (encode_catalog c md B)"
  using assms by (intro commit_encode) (auto simp: catalog_ok_def descriptor_ok_def)

lemma publish_standalone_exact:
  assumes "catalog_codec_ok c" and "catalog_ok c A" and "descriptor_ok c d"
  shows "publish_standalone no_faults c d (encode_catalog c md A) = map_prod id (encode_catalog c md) (spec_publish_standalone d A)"
  unfolding publish_standalone_def in_tx_calm spec_publish_standalone_def load_canvas_exact [OF assms(1,2)]
    layers_collide_exact [OF assms(1)] and_then.simps
  by (cases "find_canvas (cv_canvas_id d) A") (simp_all add: insert_new_canvas [OF assms] commit_added [OF assms])

lemma select_binding_exact:
  "select_binding no_faults key (encode_catalog c md A) = Ok (map_option (binding_row_of c key) (map_of (ct_bindings A) key))"
proof -
  have "List.find (\<lambda>r. br_binding_key r = key) (map (\<lambda>(k, b). binding_row_of c k b) bs) = map_option (binding_row_of c key) (map_of bs key)" for bs
    by (induction bs) auto
  then show ?thesis by (simp add: select_binding_def)
qed

lemma insert_binding_exact:
  assumes "catalog_codec_ok c" and "map_of (ct_bindings A) key = None"
  shows "insert_binding no_faults (binding_row_of c key b) (encode_catalog c md A) =
    (if find_canvas (bb_canvas_id b) A = None then Err (CatBackend OtherSqliteError)
     else Ok (encode_catalog c md (A\<lparr>ct_bindings := ct_bindings A @ [(key, b)]\<rparr>)))"
proof -
  have "br_binding_key ` set (tb_bindings (encode_catalog c md A)) = fst ` set (ct_bindings A)" by force
  moreover have "encode_catalog c md (A\<lparr>ct_bindings := ct_bindings A @ [(key, b)]\<rparr>) =
      (encode_catalog c md A)\<lparr>tb_bindings := tb_bindings (encode_catalog c md A) @ [binding_row_of c key b]\<rparr>"
    by (simp add: encode_catalog_def)
  ultimately show ?thesis using assms unfolding insert_binding_def encode_canvas_ids
    by (simp add: find_canvas_None map_of_eq_None_iff del: encode_catalog_simps)
qed

lemma binding_row_eq [simp]: "catalog_codec_ok c \<Longrightarrow> binding_row_of c key b = binding_row_of c key b' \<longleftrightarrow> b = b'"
  by (auto simp: binding_row_of_def)

lemma store_binding_exact:
  assumes "catalog_codec_ok c" and "catalog_ok c A"
  shows "store_binding no_faults c key b (encode_catalog c md A) = map_prod id (encode_catalog c md) (spec_store_binding key b A)"
proof -
  have commit: "commit_tx no_faults site (encode_catalog c md (A\<lparr>ct_bindings := bs\<rparr>)) = Ok (encode_catalog c md (A\<lparr>ct_bindings := bs\<rparr>))" for site bs
    by (rule commit_encode [OF assms(1)]) (use assms(2) in \<open>simp add: catalog_ok_def\<close>)
  show ?thesis
    unfolding store_binding_def in_tx_calm spec_store_binding_def select_binding_exact and_then.simps
    using commit [of _ "ct_bindings A"]
    by (cases "map_of (ct_bindings A) key") (auto simp: insert_binding_exact [OF assms(1)] commit assms(1))
qed

lemma binding_canvas:
  assumes "catalog_ok c A" and "(key, b) \<in> set (ct_bindings A)"
  obtains v where "v \<in> set (ct_canvases A)" "cv_canvas_id v = bb_canvas_id b" "find_canvas (bb_canvas_id b) A = Some v"
proof -
  from assms(1) have "\<forall>(k, b) \<in> set (ct_bindings A). \<exists>v \<in> set (ct_canvases A). cv_canvas_id v = bb_canvas_id b" by (simp add: catalog_ok_def)
  with assms(2) obtain v where "v \<in> set (ct_canvases A)" "cv_canvas_id v = bb_canvas_id b" by blast
  with find_canvas_member [OF assms(1)] that show ?thesis by metis
qed

lemma publish_standalone_with_binding_exact:
  assumes "catalog_codec_ok c" and "catalog_ok c A" and "descriptor_ok c d"
  shows "publish_standalone_with_binding no_faults c key d b (encode_catalog c md A) =
    map_prod id (encode_catalog c md) (spec_publish_with_binding key d b A)"
proof (cases "bb_canvas_id b \<noteq> cv_canvas_id d \<or> bb_session_id b \<noteq> cv_session_id d")
  case True
  then show ?thesis by (simp add: publish_standalone_with_binding_def spec_publish_with_binding_def)
next
  case False
  then have same: "bb_canvas_id b = cv_canvas_id d" by simp
  note facts = in_tx_calm load_canvas_exact [OF assms(1,2)] select_binding_exact commit_added [OF assms]
  show ?thesis
  proof (cases "map_of (ct_bindings A) key")
    case (Some b')
    from binding_canvas [OF assms(2) map_of_SomeD [OF Some]] have "\<exists>v. find_canvas (bb_canvas_id b') A = Some v" by blast
    moreover have "b' = b \<longleftrightarrow> bb_session_id b' = bb_session_id b \<and> bb_canvas_id b' = bb_canvas_id b" by (cases b, cases b') auto
    ultimately show ?thesis using False assms(1) Some unfolding publish_standalone_with_binding_def spec_publish_with_binding_def
      by (auto simp: facts)
  next
    case None
    show ?thesis
    proof (cases "find_canvas (cv_canvas_id d) A")
      case (Some v)
      with None same show ?thesis unfolding publish_standalone_with_binding_def spec_publish_with_binding_def if_not_P [OF False]
        by (simp add: facts insert_binding_exact [OF assms(1)])
    next
      case new: None
      have "find_canvas (cv_canvas_id d) (add_canvas d A) \<noteq> None" by (simp add: find_canvas_None)
      with None new same show ?thesis unfolding publish_standalone_with_binding_def spec_publish_with_binding_def if_not_P [OF False]
        using insert_binding_exact [OF assms(1), of "add_canvas d A" key b md]
        by (auto simp add: facts insert_new_canvas [OF assms new])
    qed
  qed
qed

section \<open>Every command keeps the graph well-formed\<close>

lemma spec_publish_document_ok:
  assumes "catalog_codec_ok c" and "catalog_ok c A" and "composition_ok c graph"
  shows "catalog_ok c (snd (spec_publish_document graph A))"
proof -
  have "catalog_ok c (add_graph graph A)"
    if "find_document (dd_document_id (dc_document graph)) A = None" and "graph_fits graph A" and "int (length (ct_documents A)) \<le> i64_max"
    using assms(2,3) that
    unfolding catalog_ok_def composition_ok_def graph_fits_def canvases_fit_def find_document_None add_graph_simps set_append bex_Un ball_Un
    by (intro conjI) (auto)
  with assms(2) show ?thesis by (auto simp: spec_publish_document_def split: option.split)
qed

lemma catalog_ok_add_canvas:
  assumes "catalog_codec_ok c" and "catalog_ok c A" and "descriptor_ok c d" and "find_canvas (cv_canvas_id d) A = None"
    and "\<not> (\<exists>l \<in> set (cv_layer_ids d). \<exists>w \<in> set (ct_canvases A). l \<in> set (cv_layer_ids w))"
  shows "catalog_ok c (add_canvas d A)"
  using assms distinct_codec_layers [OF assms(1), of d]
  unfolding catalog_ok_def descriptor_ok_def find_canvas_None add_canvas_simps set_append bex_Un ball_Un
  by (intro conjI) auto

lemma catalog_ok_add_binding:
  assumes "catalog_ok c A" and "map_of (ct_bindings A) key = None" and "find_canvas (bb_canvas_id b) A \<noteq> None"
  shows "catalog_ok c (A\<lparr>ct_bindings := ct_bindings A @ [(key, b)]\<rparr>)"
  using assms by (auto simp: catalog_ok_def map_of_eq_None_iff find_canvas_None image_iff)

lemma spec_publish_standalone_ok:
  assumes "catalog_codec_ok c" and "catalog_ok c A" and "descriptor_ok c d"
  shows "catalog_ok c (snd (spec_publish_standalone d A))"
  using assms catalog_ok_add_canvas [OF assms] by (auto simp: spec_publish_standalone_def split: option.split)

lemma spec_store_binding_ok: "catalog_ok c A \<Longrightarrow> catalog_ok c (snd (spec_store_binding key b A))"
  using catalog_ok_add_binding [of c A key b] by (auto simp: spec_store_binding_def split: option.split)

lemma spec_publish_with_binding_ok:
  assumes "catalog_codec_ok c" and "catalog_ok c A" and "descriptor_ok c d"
  shows "catalog_ok c (snd (spec_publish_with_binding key d b A))"
proof (cases "find_canvas (cv_canvas_id d) A")
  case None
  then have "catalog_ok c ((add_canvas d A)\<lparr>ct_bindings := ct_bindings A @ [(key, b)]\<rparr>)"
    if "map_of (ct_bindings A) key = None" "bb_canvas_id b = cv_canvas_id d"
      "\<not> (\<exists>l \<in> set (cv_layer_ids d). \<exists>w \<in> set (ct_canvases A). l \<in> set (cv_layer_ids w))"
    using catalog_ok_add_binding [OF catalog_ok_add_canvas [OF assms None that(3)], of key b] that by (simp add: find_canvas_None)
  with assms(2) None show ?thesis by (auto simp: spec_publish_with_binding_def split: option.split)
next
  case (Some v)
  with assms(2) catalog_ok_add_binding [OF assms(2), of key b] show ?thesis
    by (auto simp: spec_publish_with_binding_def split: option.split)
qed

fun spec_catalog_command ::
  "('id, 'f, 's) catalog_codec \<Rightarrow> ('id, 'f) catalog_command \<Rightarrow> ('id, 'f) catalog \<Rightarrow> ('id, 'f, 's) catalog_reply \<times> ('id, 'f) catalog" where
  "spec_catalog_command c (GetDocument i) A = (ReplyDocument (Ok (find_document i A)), A)"
| "spec_catalog_command c (ListDocuments s) A =
     (ReplySummaries (traverse (\<lambda>d. ok_or (CatCorruption ''Document page count overflowed'') (summary_of c d))
        (filter (\<lambda>d. dd_session_id d = s) (ct_documents A))), A)"
| "spec_catalog_command c ListAllDocuments A = (ReplyDocuments (Ok (ct_documents A)), A)"
| "spec_catalog_command c (GetCanvas i) A = (ReplyCanvas (Ok (find_canvas i A)), A)"
| "spec_catalog_command c (PublishDocument graph) A = map_prod ReplyPublished id (spec_publish_document graph A)"
| "spec_catalog_command c (PublishStandalone d) A = map_prod ReplyPublished id (spec_publish_standalone d A)"
| "spec_catalog_command c (PublishStandaloneWithBinding key d b) A = map_prod ReplyPublished id (spec_publish_with_binding key d b A)"
| "spec_catalog_command c (GetBinding key) A = (ReplyBinding (Ok (map_of (ct_bindings A) key)), A)"
| "spec_catalog_command c (PutBinding key b) A = map_prod ReplyUnit id (spec_store_binding key b A)"

text \<open>The arguments of a command are values of the kernel's types.\<close>

fun command_ok :: "('id, 'f, 's) catalog_codec \<Rightarrow> ('id, 'f) catalog_command \<Rightarrow> bool" where
  "command_ok c (PublishDocument graph) = composition_ok c graph"
| "command_ok c (PublishStandalone d) = descriptor_ok c d"
| "command_ok c (PublishStandaloneWithBinding key d b) = descriptor_ok c d"
| "command_ok c cmd = True"

fun reply_failed :: "('id, 'f, 's) catalog_reply \<Rightarrow> bool" where
  "reply_failed (ReplyDocument r) = (\<not> is_ok r)"
| "reply_failed (ReplySummaries r) = (\<not> is_ok r)"
| "reply_failed (ReplyDocuments r) = (\<not> is_ok r)"
| "reply_failed (ReplyCanvas r) = (\<not> is_ok r)"
| "reply_failed (ReplyPublished r) = (\<not> is_ok r)"
| "reply_failed (ReplyBinding r) = (\<not> is_ok r)"
| "reply_failed (ReplyUnit r) = (\<not> is_ok r)"

lemma spec_catalog_command_ok:
  "catalog_codec_ok c \<Longrightarrow> catalog_ok c A \<Longrightarrow> command_ok c cmd \<Longrightarrow> catalog_ok c (snd (spec_catalog_command c cmd A))"
  by (cases cmd) (simp_all add: spec_publish_document_ok spec_publish_standalone_ok spec_publish_with_binding_ok spec_store_binding_ok)

lemma exec_catalog_command_calm:
  assumes "catalog_codec_ok c" and "catalog_ok c A" and "command_ok c cmd"
  shows "exec_catalog_command c (no_faults, cmd) (encode_catalog c md A) = map_prod id (encode_catalog c md) (spec_catalog_command c cmd A)"
  using assms
  by (cases cmd) (simp_all add: load_document_exact list_documents_exact list_all_documents_exact load_canvas_exact load_binding_exact
      publish_document_exact publish_standalone_exact publish_standalone_with_binding_exact store_binding_exact
      map_prod.compositionality o_def id_def del: encode_catalog_simps)

lemma list_all_documents_le [fault_intros]: "res_le (list_all_documents flt c db) (list_all_documents no_faults c db)"
  unfolding list_all_documents_def by (intro fault_intros)

lemma list_documents_le [fault_intros]: "res_le (list_documents flt c i db) (list_documents no_faults c i db)"
  unfolding list_documents_def by (intro fault_intros)

lemma load_binding_le [fault_intros]: "res_le (load_binding flt c key db) (load_binding no_faults c key db)"
  unfolding load_binding_def by (intro fault_intros)

lemma res_le_cases: "res_le r r' \<Longrightarrow> r = r' \<or> \<not> is_ok r"
  by (cases r) (auto simp: res_le_def)

lemma tx_le_cases: "tx_le r r' db \<Longrightarrow> r = r' \<or> (\<not> is_ok (fst r) \<and> snd r = db)"
  by (auto simp: tx_le_def)

lemma exec_catalog_command_faults:
  "exec_catalog_command c (flt, cmd) db = exec_catalog_command c (no_faults, cmd) db \<or>
   (reply_failed (fst (exec_catalog_command c (flt, cmd) db)) \<and> snd (exec_catalog_command c (flt, cmd) db) = db)"
proof (cases cmd)
  case (GetDocument i)
  with res_le_cases [OF load_document_le [of flt c i db]] show ?thesis by auto
next
  case (ListDocuments i)
  with res_le_cases [OF list_documents_le [of flt c i db]] show ?thesis by auto
next
  case ListAllDocuments
  with res_le_cases [OF list_all_documents_le [of flt c db]] show ?thesis by auto
next
  case (GetCanvas i)
  with res_le_cases [OF load_canvas_le [of flt c i db]] show ?thesis by auto
next
  case (PublishDocument graph)
  with tx_le_cases [OF publish_document_le [of flt c graph db]] show ?thesis by auto
next
  case (PublishStandalone d)
  with tx_le_cases [OF publish_standalone_le [of flt c d db]] show ?thesis by auto
next
  case (PublishStandaloneWithBinding key d b)
  with tx_le_cases [OF publish_standalone_with_binding_le [of flt c key d b db]] show ?thesis by auto
next
  case (GetBinding key)
  with res_le_cases [OF load_binding_le [of flt c key db]] show ?thesis by auto
next
  case (PutBinding key b)
  with tx_le_cases [OF store_binding_le [of flt c key b db]] show ?thesis by auto
qed

section \<open>The scan at opening\<close>

lemma foreign_keys_hold:
  assumes "catalog_codec_ok c" and "catalog_ok c A"
  shows "foreign_key_violations (encode_catalog c md A) = 0"
proof -
  let ?db = "encode_catalog c md A"
  have default: "\<lparr>lr_canvas_id = cr_canvas_id r, lr_layer_id = cr_default_layer_id r\<rparr> \<in> set (tb_layers ?db)" if "r \<in> set (tb_canvases ?db)" for r
    using that codec_canvas(2) [OF assms(1)] catalog_ok_canvases [OF assms(2)]
    by (fastforce simp: layer_rows_of_def layer_row_of_def)
  have layers: "lr_canvas_id r \<in> cr_canvas_id ` set (tb_canvases ?db)" if "r \<in> set (tb_layers ?db)" for r
    using that by (force simp: layer_rows_of_def)
  have "pages_fit ?db" using assms(2) by (subst pages_fit_encode [OF assms(1)]) (auto simp: catalog_ok_def)
  then have pages: "pr_document_id r \<in> dr_document_id ` set (tb_documents ?db) \<and> pr_overlay_canvas_id r \<in> cr_canvas_id ` set (tb_canvases ?db)"
    if "r \<in> set (tb_pages ?db)" for r using that unfolding pages_fit_def by blast
  have bindings: "br_canvas_id r \<in> cr_canvas_id ` set (tb_canvases ?db)" if "r \<in> set (tb_bindings ?db)" for r
  proof -
    from that obtain k b where r: "r = binding_row_of c k b" "(k, b) \<in> set (ct_bindings A)" by auto
    from binding_canvas [OF assms(2) r(2)] have "bb_canvas_id b \<in> set (map cv_canvas_id (ct_canvases A))" by (metis image_eqI list.set_map)
    with r(1) assms(1) show ?thesis unfolding encode_canvas_ids by simp
  qed
  show ?thesis unfolding foreign_key_violations_def
    using default layers pages bindings by (simp add: filter_empty_conv del: encode_catalog_simps)
qed

lemma check_page_exact:
  assumes "catalog_codec_ok c" and "catalog_ok c A" and "d \<in> set (ct_documents A)" and "p \<in> set (dd_pages d)"
  shows "check_page no_faults c (encode_catalog c md A) d p = Ok ()"
proof -
  from assms(2-4) obtain v where v: "v \<in> set (ct_canvases A)" "page_on_canvas d p v" unfolding catalog_ok_def by blast
  from find_canvas_member [OF assms(2) v(1)] v(2) have "find_canvas (pg_overlay_canvas_id p) A = Some v" by (simp add: page_on_canvas_def)
  with v(2) show ?thesis by (simp add: check_page_def load_canvas_exact [OF assms(1,2)] page_on_canvas_def)
qed

lemma scan_document_exact:
  assumes "catalog_codec_ok c" and "catalog_ok c A" and "d \<in> set (ct_documents A)" and "e \<le> int s"
  shows "scan_document no_faults c (encode_catalog c md A) (n, document_row_of c (int s) d) e = Ok (min i64_max (int s + 1))"
proof -
  have valid: "document_valid c d" using assms(2,3) by (simp add: catalog_ok_def)
  have "traverse (check_page no_faults c (encode_catalog c md A) d) (dd_pages d) = Ok (map (\<lambda>_. ()) (dd_pages d))"
    by (rule traverse_map_Ok) (rule check_page_exact [OF assms(1-3)])
  moreover have same: "\<lparr>dd_document_id = dd_document_id d, dd_session_id = dd_session_id d, dd_document_type = dd_document_type d,
      dd_source_asset_id = dd_source_asset_id d, dd_title = dd_title d, dd_pages = dd_pages d\<rparr> = d" by (cases d) simp
  ultimately show ?thesis
    using assms(1,4) valid load_pages_exact [OF assms(1-3), of md] codec_document(1) [OF assms(1) valid]
    by (auto simp: scan_document_def Let_def same saturating_add_i64_def i64_min_def i64_max_def simp del: encode_catalog_simps)
qed

lemma scan_documents_exact:
  assumes "catalog_codec_ok c" and "catalog_ok c A" and "set ds \<subseteq> set (ct_documents A)" and "e \<le> int j" and "int (j + length ds) \<le> i64_max + 1"
  shows "\<exists>e'. fold_res (scan_document no_faults c (encode_catalog c md A)) (enumerate n (map (\<lambda>(s, d). document_row_of c (int s) d) (enumerate j ds))) e = Ok e'"
  using assms(3-5)
proof (induction ds arbitrary: n j e)
  case (Cons d ds)
  then have "scan_document no_faults c (encode_catalog c md A) (n, document_row_of c (int j) d) e = Ok (min i64_max (int j + 1))"
    using scan_document_exact [OF assms(1,2)] by auto
  with Cons.IH [of "min i64_max (int j + 1)" "Suc j" "Suc n"] Cons.prems show ?case by simp
qed simp

lemma scan_canvases_exact:
  assumes "catalog_codec_ok c" and "catalog_ok c A" and "set rows \<subseteq> set (tb_canvases (encode_catalog c md A))"
  shows "traverse (scan_canvas no_faults c (encode_catalog c md A)) (enumerate n rows) = Ok (map (\<lambda>_. ()) (enumerate n rows))"
proof (rule traverse_map_Ok)
  fix x assume "x \<in> set (enumerate n rows)"
  then have "snd x \<in> set rows" by (metis enumerate_eq_zip prod.collapse set_zip_rightD)
  with assms(3) obtain v where v: "snd x = canvas_row_of c v" "v \<in> set (ct_canvases A)" by auto
  with find_canvas_member [OF assms(2) v(2)] assms(1) show "scan_canvas no_faults c (encode_catalog c md A) x = Ok ()"
    by (simp add: scan_canvas_def load_canvas_exact [OF assms(1,2)] del: encode_catalog_simps)
qed

lemma traverse_unit_or:
  assumes "\<And>n x. x \<in> set xs \<Longrightarrow> f (n, g x) = (if P x then Ok () else Err e)"
  shows "traverse f (enumerate n (map g xs)) = (if \<forall>x \<in> set xs. P x then Ok (map (\<lambda>_. ()) xs) else Err e)"
  using assms by (induction xs arbitrary: n) auto

lemma scan_bindings_exact:
  assumes "catalog_codec_ok c" and "catalog_ok c A"
  shows "and_then (traverse (scan_binding no_faults c (encode_catalog c md A)) (enumerate 0 (tb_bindings (encode_catalog c md A)))) (\<lambda>_. Ok ()) =
    (if bindings_match A then Ok () else Err (CatCorruption ''bootstrap binding Session mismatch''))"
proof -
  let ?P = "\<lambda>(k :: string, b). \<forall>v \<in> set (ct_canvases A). cv_canvas_id v = bb_canvas_id b \<longrightarrow> cv_session_id v = bb_session_id b"
  have "scan_binding no_faults c (encode_catalog c md A) (n, (\<lambda>(k, b). binding_row_of c k b) x) =
      (if ?P x then Ok () else Err (CatCorruption ''bootstrap binding Session mismatch''))" if "x \<in> set (ct_bindings A)" for n x
  proof -
    obtain k b where x: "x = (k, b)" by fastforce
    from binding_canvas [OF assms(2)] that x obtain v
      where v: "v \<in> set (ct_canvases A)" "cv_canvas_id v = bb_canvas_id b" "find_canvas (bb_canvas_id b) A = Some v" by metis
    have "?P x \<longleftrightarrow> cv_session_id v = bb_session_id b"
      using v x find_canvas_member [OF assms(2)] by (auto simp: split_beta) (metis option.inject)
    then show ?thesis using v(3) assms(1) x
      by (simp add: scan_binding_def load_canvas_exact [OF assms] del: encode_catalog_simps)
  qed
  then have "traverse (scan_binding no_faults c (encode_catalog c md A)) (enumerate 0 (map (\<lambda>(k, b). binding_row_of c k b) (ct_bindings A))) =
      (if \<forall>x \<in> set (ct_bindings A). ?P x then Ok (map (\<lambda>_. ()) (ct_bindings A)) else Err (CatCorruption ''bootstrap binding Session mismatch''))"
    by (rule traverse_unit_or)
  then show ?thesis unfolding bindings_match_def encode_catalog_simps by (simp only: if_distrib [of "\<lambda>r. and_then r _"] and_then.simps)
qed

lemma scan_integrity_exact:
  assumes "catalog_codec_ok c" and "catalog_ok c A"
  shows "scan_integrity no_faults c (encode_catalog c md A) =
    (if bindings_match A then Ok () else Err (CatCorruption ''bootstrap binding Session mismatch''))"
proof -
  let ?db = "encode_catalog c md A"
  have "int (0 + length (ct_documents A)) \<le> i64_max + 1" using assms(2) by (simp add: catalog_ok_def)
  from scan_documents_exact [OF assms subset_refl _ this, of 0 md 0] obtain e'
    where docs: "fold_res (scan_document no_faults c ?db) (enumerate 0 (tb_documents ?db)) 0 = Ok e'" by auto
  have orphans: "filter (\<lambda>l. lr_canvas_id l \<notin> cr_canvas_id ` set (tb_canvases ?db)) (tb_layers ?db) = []"
    using foreign_keys_hold [OF assms, of md] by (simp add: foreign_key_violations_def del: encode_catalog_simps)
  show ?thesis unfolding scan_integrity_def
    by (simp add: foreign_keys_hold [OF assms] docs orphans scan_canvases_exact [OF assms] scan_bindings_exact [OF assms]
        del: encode_catalog_simps and_then_Ok and_then_Err)
qed

end
