(* ===== verification/Catalog_Service.thy ===== *)
theory Catalog_Service
  imports Catalog_Graph
begin

text \<open>
  The catalog as a service: opening a database, the histories its worker can serve, and
  opening it again. The properties of the catalog are here, with a small catalog on which
  they are applied.
\<close>

section \<open>Opening, serving and reopening\<close>

definition metadata_ok :: "('id, 'f, 's) catalog_codec \<Rightarrow> (string \<times> string) list \<Rightarrow> 'id \<Rightarrow> bool" where
  "metadata_ok c md sid \<longleftrightarrow> map_of md ''schema_version'' = Some (dec_of_nat (nat CATALOG_SCHEMA_VERSION)) \<and>
     map_of md ''physical_store_id'' = Some (cid_to_string c sid)"

definition empty_catalog :: "('id, 'f) catalog" where
  "empty_catalog = \<lparr>ct_canvases = [], ct_documents = [], ct_bindings = []\<rparr>"

definition empty_tables :: "'f catalog_db" where
  "empty_tables = \<lparr>tb_metadata = [], tb_documents = [], tb_canvases = [], tb_layers = [], tb_pages = [], tb_bindings = []\<rparr>"

definition catalog_grows :: "('id, 'f) catalog \<Rightarrow> ('id, 'f) catalog \<Rightarrow> bool" where
  "catalog_grows A B \<longleftrightarrow> prefix (ct_canvases A) (ct_canvases B) \<and> prefix (ct_documents A) (ct_documents B) \<and> prefix (ct_bindings A) (ct_bindings B)"

lemma empty_catalog_ok: "catalog_ok c empty_catalog \<and> bindings_match empty_catalog"
  by (simp add: catalog_ok_def bindings_match_def empty_catalog_def i64_max_def)

lemma catalog_version_text: "parse_i64 (dec_of_nat (nat CATALOG_SCHEMA_VERSION)) = Some CATALOG_SCHEMA_VERSION"
  by code_simp

lemma check_catalog_exact:
  assumes "catalog_codec_ok c" and "catalog_ok c A" and "metadata_ok c md sid"
  shows "check_catalog no_faults c ''ok'' (encode_catalog c md A) =
    (if bindings_match A then Ok sid else Err (CatCorruption ''bootstrap binding Session mismatch''))"
  using assms(1,3) catalog_version_text
  by (simp add: check_catalog_def catalog_metadata_value_def metadata_ok_def scan_integrity_exact [OF assms(1,2)])

lemma open_catalog_exact:
  assumes "catalog_codec_ok c" and "catalog_ok c A" and "metadata_ok c md sid" and "0 < capacity"
  shows "open_catalog capacity True no_faults c True ''ok'' fresh (encode_catalog c md A) =
    (if bindings_match A then Ok (sid, worker_open capacity (encode_catalog c md A))
     else Err (CatCorruption ''bootstrap binding Session mismatch''), encode_catalog c md A)"
proof -
  have "create_schema no_faults c fresh (encode_catalog c md A) = (Ok (), encode_catalog c md A)"
    using assms(3) by (simp add: create_schema_def ensure_metadata_def catalog_metadata_value_def metadata_ok_def)
  then show ?thesis using assms(4) check_catalog_exact [OF assms(1-3)]
    by (simp add: open_catalog_def initialize_catalog_def del: encode_catalog_simps)
qed

lemma open_catalog_fresh:
  assumes "catalog_codec_ok c" and "0 < capacity"
  shows "\<exists>md. metadata_ok c md fresh \<and> open_catalog capacity True no_faults c True ''ok'' fresh empty_tables =
    (Ok (fresh, worker_open capacity (encode_catalog c md empty_catalog)), encode_catalog c md empty_catalog)"
proof -
  let ?md = "[(''schema_version'', dec_of_nat (nat CATALOG_SCHEMA_VERSION)), (''physical_store_id'', cid_to_string c fresh)]"
  have md: "metadata_ok c ?md fresh" by (simp add: metadata_ok_def)
  have db: "encode_catalog c ?md empty_catalog = empty_tables\<lparr>tb_metadata := ?md\<rparr>"
    by (simp add: encode_catalog_def empty_catalog_def empty_tables_def)
  have "create_schema no_faults c fresh empty_tables = (Ok (), empty_tables\<lparr>tb_metadata := ?md\<rparr>)"
    by (simp add: create_schema_def ensure_metadata_def catalog_metadata_value_def empty_tables_def)
  moreover have "check_catalog no_faults c ''ok'' (empty_tables\<lparr>tb_metadata := ?md\<rparr>) = Ok fresh"
    unfolding db [symmetric] check_catalog_exact [OF assms(1) conjunct1 [OF empty_catalog_ok] md] by (simp add: empty_catalog_ok [of c])
  ultimately have "open_catalog capacity True no_faults c True ''ok'' fresh empty_tables =
    (Ok (fresh, worker_open capacity (encode_catalog c ?md empty_catalog)), encode_catalog c ?md empty_catalog)"
    using assms(2) unfolding db by (simp add: open_catalog_def initialize_catalog_def del: encode_catalog_simps)
  with md show ?thesis by blast
qed

lemma catalog_grows_refl: "catalog_grows A A"
  by (simp add: catalog_grows_def)

lemma catalog_grows_trans: "catalog_grows A B \<Longrightarrow> catalog_grows B C \<Longrightarrow> catalog_grows A C"
  unfolding catalog_grows_def by (meson prefix_order.trans)

lemma catalog_grows_add [simp]:
  "catalog_grows A (add_canvas d A)" "catalog_grows A (add_graph graph A)"
  "catalog_grows A (A\<lparr>ct_bindings := ct_bindings A @ bs\<rparr>)" "catalog_grows A ((add_canvas d A)\<lparr>ct_bindings := ct_bindings A @ bs\<rparr>)"
  by (simp_all add: catalog_grows_def)

lemma spec_catalog_command_grows: "catalog_grows A (snd (spec_catalog_command c cmd A))"
  by (cases cmd) (auto simp: spec_publish_document_def spec_publish_standalone_def spec_publish_with_binding_def spec_store_binding_def
      catalog_grows_refl split: option.split)

text \<open>Commands that cannot name another Session than the Canvas's: all but \<^verbatim>\<open>PutBinding\<close>, which the Server never sends.\<close>

fun binds_by_publication :: "('id, 'f) catalog_command \<Rightarrow> bool" where
  "binds_by_publication (PutBinding key b) = False"
| "binds_by_publication cmd = True"

lemma bindings_match_add_graph:
  assumes "catalog_ok c A" and "bindings_match A" and "graph_fits graph A"
  shows "bindings_match (add_graph graph A)"
  unfolding bindings_match_def add_graph_simps
proof clarify
  fix k b v assume b: "(k, b) \<in> set (ct_bindings A)" and v: "v \<in> set (ct_canvases A @ dc_page_canvases graph)" "cv_canvas_id v = bb_canvas_id b"
  from binding_canvas [OF assms(1) b] obtain w where w: "w \<in> set (ct_canvases A)" "cv_canvas_id w = bb_canvas_id b" by blast
  from assms(3) have "distinct (map cv_canvas_id (ct_canvases A @ dc_page_canvases graph))" by (simp add: graph_fits_def canvases_fit_def)
  with v w have "v = w" unfolding distinct_map inj_on_def by auto
  with w b assms(2) show "cv_session_id v = bb_session_id b" by (auto simp: bindings_match_def)
qed

lemma bindings_match_add_canvas:
  assumes "catalog_ok c A" and "bindings_match A" and "find_canvas (cv_canvas_id d) A = None"
  shows "bindings_match (add_canvas d A)"
  unfolding bindings_match_def add_canvas_simps
proof clarify
  fix k b v assume b: "(k, b) \<in> set (ct_bindings A)" and v: "v \<in> set (ct_canvases A @ [d])" "cv_canvas_id v = bb_canvas_id b"
  from binding_canvas [OF assms(1) b] obtain w where "w \<in> set (ct_canvases A)" "cv_canvas_id w = bb_canvas_id b" by blast
  with assms(3) v have "v \<in> set (ct_canvases A)" by (auto simp: find_canvas_None rev_image_eqI)
  with v(2) b assms(2) show "cv_session_id v = bb_session_id b" by (auto simp: bindings_match_def)
qed

lemma bindings_match_add_binding:
  assumes "catalog_ok c A" and "bindings_match A" and "find_canvas (bb_canvas_id b) A = Some v" and "cv_session_id v = bb_session_id b"
  shows "bindings_match (A\<lparr>ct_bindings := ct_bindings A @ [(key, b)]\<rparr>)"
proof -
  have "cv_session_id w = bb_session_id b" if "w \<in> set (ct_canvases A)" "cv_canvas_id w = bb_canvas_id b" for w
    using find_canvas_member [OF assms(1) that(1)] that(2) assms(3,4) by simp
  with assms(2) show ?thesis by (auto simp: bindings_match_def)
qed

lemma spec_catalog_command_match:
  assumes "catalog_codec_ok c" and "catalog_ok c A" and "bindings_match A" and "command_ok c cmd" and "binds_by_publication cmd"
  shows "bindings_match (snd (spec_catalog_command c cmd A))"
proof (cases cmd)
  case (PublishDocument graph)
  with assms(2,3) bindings_match_add_graph show ?thesis by (auto simp: spec_publish_document_def split: option.split)
next
  case (PublishStandalone d)
  with assms(2,3) bindings_match_add_canvas show ?thesis by (auto simp: spec_publish_standalone_def split: option.split)
next
  case (PublishStandaloneWithBinding key d b)
  show ?thesis
  proof (cases "find_canvas (cv_canvas_id d) A")
    case (Some v)
    with PublishStandaloneWithBinding assms(3) bindings_match_add_binding [OF assms(2,3), of b v key]
    show ?thesis by (auto simp: spec_publish_with_binding_def split: option.split)
  next
    case None
    have "bindings_match ((add_canvas d A)\<lparr>ct_bindings := ct_bindings A @ [(key, b)]\<rparr>)"
      if free: "\<not> (\<exists>l \<in> set (cv_layer_ids d). \<exists>w \<in> set (ct_canvases A). l \<in> set (cv_layer_ids w))"
        and b: "bb_canvas_id b = cv_canvas_id d" "bb_session_id b = cv_session_id d"
    proof -
      have ok: "catalog_ok c (add_canvas d A)"
        using catalog_ok_add_canvas [OF assms(1,2) _ None free] assms(4) PublishStandaloneWithBinding by simp
      have "find_canvas (bb_canvas_id b) (add_canvas d A) = Some d"
        using find_canvas_member [OF ok, of d] b(1) by simp
      with bindings_match_add_binding [OF ok bindings_match_add_canvas [OF assms(2,3) None], of b d key] b(2) show ?thesis by simp
    qed
    with PublishStandaloneWithBinding assms(3) None show ?thesis by (auto simp: spec_publish_with_binding_def split: option.split)
  qed
qed (use assms in auto)

text \<open>How the tables may move: from a well-formed graph to a larger one, with the same metadata.\<close>

definition catalog_moves :: "('id, 'f, 's) catalog_codec \<Rightarrow> 'f catalog_db \<Rightarrow> 'f catalog_db \<Rightarrow> bool" where
  "catalog_moves c db db' \<longleftrightarrow> (\<forall>md A. db = encode_catalog c md A \<longrightarrow> catalog_ok c A \<longrightarrow>
     (\<exists>B. db' = encode_catalog c md B \<and> catalog_ok c B \<and> catalog_grows A B \<and> (bindings_match A \<longrightarrow> bindings_match B)))"

lemma exec_catalog_command_cases:
  assumes "catalog_codec_ok c" and "catalog_ok c A" and "command_ok c cmd"
    and "exec_catalog_command c (flt, cmd) (encode_catalog c md A) = (rep, db')"
  obtains B where "spec_catalog_command c cmd A = (rep, B)" "db' = encode_catalog c md B"
  | "flt \<noteq> no_faults" "reply_failed rep" "db' = encode_catalog c md A"
proof -
  from exec_catalog_command_calm [OF assms(1-3), of md]
  have calm: "exec_catalog_command c (no_faults, cmd) (encode_catalog c md A) = map_prod id (encode_catalog c md) (spec_catalog_command c cmd A)" .
  show ?thesis
  proof (cases "exec_catalog_command c (flt, cmd) (encode_catalog c md A) = exec_catalog_command c (no_faults, cmd) (encode_catalog c md A)")
    case True
    with calm assms(4) show ?thesis by (cases "spec_catalog_command c cmd A") (auto intro: that(1))
  next
    case False
    with exec_catalog_command_faults [of c flt cmd "encode_catalog c md A"] assms(4) show ?thesis by (auto intro: that(2))
  qed
qed

lemma exec_catalog_moves:
  assumes "catalog_codec_ok c" and "command_ok c cmd" and "binds_by_publication cmd" and "exec_catalog_command c (flt, cmd) db = (rep, db')"
  shows "catalog_moves c db db'"
  unfolding catalog_moves_def
proof (intro allI impI)
  fix md A assume db: "db = encode_catalog c md A" and ok: "catalog_ok c A"
  show "\<exists>B. db' = encode_catalog c md B \<and> catalog_ok c B \<and> catalog_grows A B \<and> (bindings_match A \<longrightarrow> bindings_match B)"
  proof (cases rule: exec_catalog_command_cases [OF assms(1) ok assms(2) assms(4) [unfolded db]])
    case (1 B)
    then have "B = snd (spec_catalog_command c cmd A)" by simp
    with 1(2) spec_catalog_command_ok [OF assms(1) ok assms(2)] spec_catalog_command_grows
      spec_catalog_command_match [OF assms(1) ok _ assms(2,3)] show ?thesis by blast
  next
    case 2
    with ok catalog_grows_refl show ?thesis by blast
  qed
qed

interpretation catalog_served: served_tables "exec_catalog_command c" "\<lambda>x. command_ok c (snd x) \<and> binds_by_publication (snd x)"
    "\<lambda>_. catalog_codec_ok c" "catalog_moves c" for c :: "('id :: linorder, 'f, 's) catalog_codec"
proof unfold_locales
  fix db db' x and r :: "('id, 'f, 's) catalog_reply"
  assume "catalog_codec_ok c" and "command_ok c (snd x) \<and> binds_by_publication (snd x)" and "exec_catalog_command c x db = (r, db')"
  then show "catalog_codec_ok c \<and> catalog_moves c db db'"
    using exec_catalog_moves [of c "snd x" "fst x" db r db'] by simp
next
  show "catalog_moves c db db" for db unfolding catalog_moves_def using catalog_grows_refl by blast
next
  show "catalog_moves c a d" if "catalog_moves c a b" "catalog_moves c b d" for a b d
    unfolding catalog_moves_def
  proof (intro allI impI)
    fix md A assume "a = encode_catalog c md A" "catalog_ok c A"
    with that(1) obtain B where B: "b = encode_catalog c md B" "catalog_ok c B" "catalog_grows A B" "bindings_match A \<longrightarrow> bindings_match B"
      unfolding catalog_moves_def by blast
    with that(2) obtain D where "d = encode_catalog c md D" "catalog_ok c D" "catalog_grows B D" "bindings_match B \<longrightarrow> bindings_match D"
      unfolding catalog_moves_def by blast
    with B show "\<exists>D. d = encode_catalog c md D \<and> catalog_ok c D \<and> catalog_grows A D \<and> (bindings_match A \<longrightarrow> bindings_match D)"
      using catalog_grows_trans by blast
  qed
qed

text \<open>
  C8. Every command of the catalog's worker, whatever engine faults it meets, does what the
  abstract catalog does or fails and changes nothing: loads return the published Canvas,
  Document, list or binding, publications add a whole graph or refuse it, and the tables
  remain the encoding of a well-formed catalog. Without faults it does exactly what the
  abstract catalog does.
\<close>

theorem catalog_commands_refine:
  assumes "catalog_codec_ok c" and "catalog_ok c A" and "command_ok c cmd"
    and "exec_catalog_command c (flt, cmd) (encode_catalog c md A) = (rep, db')"
  shows "\<exists>B. db' = encode_catalog c md B \<and> catalog_ok c B \<and>
    (spec_catalog_command c cmd A = (rep, B) \<or> flt \<noteq> no_faults \<and> reply_failed rep \<and> B = A)"
proof (cases rule: exec_catalog_command_cases [OF assms])
  case (1 B)
  with spec_catalog_command_ok [OF assms(1-3)] show ?thesis by auto
next
  case 2
  with assms(2) show ?thesis by blast
qed



text \<open>
  \<^verbatim>\<open>store_binding\<close> accepts a binding whose Session is not the Canvas's; the catalog cannot be
  opened afterwards.
\<close>

lemma mismatched_binding_blocks_reopening:
  assumes "catalog_codec_ok c" and "catalog_ok c A" and "metadata_ok c md sid" and "0 < capacity"
    and "map_of (ct_bindings A) key = None" and "find_canvas (bb_canvas_id b) A = Some v" and "cv_session_id v \<noteq> bb_session_id b"
  shows "\<exists>db. store_binding no_faults c key b (encode_catalog c md A) = (Ok (), db) \<and>
    fst (open_catalog capacity True no_faults c True ''ok'' fresh db) = Err (CatCorruption ''bootstrap binding Session mismatch'')"
proof -
  let ?B = "A\<lparr>ct_bindings := ct_bindings A @ [(key, b)]\<rparr>"
  have "v \<in> set (ct_canvases A)" "cv_canvas_id v = bb_canvas_id b" using assms(6) by (auto simp: find_canvas_def dest: find_Some_in)
  with assms(7) have "\<not> bindings_match ?B" by (auto simp: bindings_match_def)
  moreover have "catalog_ok c ?B" using catalog_ok_add_binding [OF assms(2,5)] assms(6) by simp
  ultimately have "fst (open_catalog capacity True no_faults c True ''ok'' fresh (encode_catalog c md ?B)) = Err (CatCorruption ''bootstrap binding Session mismatch'')"
    using open_catalog_exact [OF assms(1) _ assms(3,4), of ?B fresh] by simp
  moreover have "store_binding no_faults c key b (encode_catalog c md A) = (Ok (), encode_catalog c md ?B)"
    using assms(5,6) by (simp add: store_binding_exact [OF assms(1,2)] spec_store_binding_def)
  ultimately show ?thesis by blast
qed

text \<open>
  A composition under the identity of a published Document that names an unpublished Canvas
  is reported as corruption of the store, not as a conflict.
\<close>

lemma conflicting_canvas_reported_as_corruption:
  assumes "catalog_codec_ok c" and "catalog_ok c A" and "composition_ok c graph"
    and "find_document (dd_document_id (dc_document graph)) A = Some d"
    and "v \<in> set (dc_page_canvases graph)" and "find_canvas (cv_canvas_id v) A = None"
  shows "publish_document no_faults c graph (encode_catalog c md A) =
    (Err (CatCorruption ''published Document is missing its Canvas''), encode_catalog c md A)"
  using assms(4-6) by (auto simp: publish_document_exact [OF assms(1-3)] spec_publish_document_def)

section \<open>A sample catalog\<close>

text \<open>Identities are numbers written in unary, sizes are numbers.\<close>

definition unary_codec :: "(nat, nat, string) catalog_codec" where
  "unary_codec =
     \<lparr>cid_to_string = (\<lambda>n. replicate n (CHR ''x'')), cid_parse = (\<lambda>s. Some (length s)),
      space_valid = (\<lambda>w h. 0 < w \<and> 0 < h), rotation_valid = (\<lambda>r. r \<in> {0, 90, 180, 270}),
      geometry_valid = (\<lambda>w h r. 0 < w \<and> 0 < h),
      canvas_valid = (\<lambda>d. btree_set (cv_layer_ids d) = cv_layer_ids d \<and> cv_default_layer_id d \<in> set (cv_layer_ids d) \<and>
        0 < cv_width d \<and> 0 < cv_height d),
      document_valid = (\<lambda>d. dd_pages d \<noteq> [] \<and> sorted_wrt (<) (map pg_page_index (dd_pages d)) \<and>
        (\<forall>p \<in> set (dd_pages d). int (pg_page_index p) \<le> u32_max \<and> pg_rotation p \<in> {0, 90, 180, 270} \<and> 0 < pg_width p \<and> 0 < pg_height p)),
      summary_of = (\<lambda>d. Some (dd_title d))\<rparr>"

lemma unary_codec_ok: "catalog_codec_ok unary_codec"
  by (auto simp: catalog_codec_ok_def unary_codec_def u16_max_def)

definition overlay_canvas :: "nat \<Rightarrow> (nat, nat) canvas_descriptor" where
  "overlay_canvas i = \<lparr>cv_canvas_id = i, cv_session_id = 9, cv_width = 3, cv_height = 4, cv_layer_ids = [10 * i, 10 * i + 1],
     cv_default_layer_id = 10 * i\<rparr>"

definition sample_page :: "nat \<Rightarrow> (nat, nat) page_descriptor" where
  "sample_page i = \<lparr>pg_page_id = i, pg_page_index = i, pg_width = 3, pg_height = 4, pg_rotation = 90, pg_overlay_canvas_id = i\<rparr>"

definition sample_graph :: "string \<Rightarrow> (nat, nat) document_composition" where
  "sample_graph title = \<lparr>dc_document = \<lparr>dd_document_id = 5, dd_session_id = 9, dd_document_type = Pdf, dd_source_asset_id = 6,
       dd_title = title, dd_pages = [sample_page 1, sample_page 2]\<rparr>,
     dc_page_canvases = [overlay_canvas 1, overlay_canvas 2]\<rparr>"

lemma sample_canvas_ok: "descriptor_ok unary_codec (overlay_canvas i)"
  by (simp add: descriptor_ok_def unary_codec_def overlay_canvas_def btree_set_def i64_max_def)

lemma sample_graph_ok: "composition_ok unary_codec (sample_graph title)"
  using sample_canvas_ok
  by (simp add: composition_ok_def descriptor_ok_def sample_graph_def page_on_canvas_def)
    (simp add: unary_codec_def sample_page_def overlay_canvas_def u32_max_def i64_max_def)

definition sample_md :: "(string \<times> string) list" where
  "sample_md = [(''schema_version'', ''1''), (''physical_store_id'', ''xxx'')]"

lemma sample_md_ok: "metadata_ok unary_codec sample_md 3"
proof -
  have "dec_of_nat (nat CATALOG_SCHEMA_VERSION) = ''1''" by code_simp
  then show ?thesis by (simp add: metadata_ok_def sample_md_def unary_codec_def eval_nat_numeral)
qed

definition sample_db :: "nat catalog_db" where
  "sample_db = encode_catalog unary_codec sample_md (add_graph (sample_graph ''t'') empty_catalog)"

lemma sample_publication:
  "publish_document no_faults unary_codec (sample_graph ''t'') (encode_catalog unary_codec sample_md empty_catalog) = (Ok PubInserted, sample_db)"
proof -
  have "graph_fits (sample_graph ''t'') empty_catalog"
    by (simp add: graph_fits_def canvases_fit_def empty_catalog_def sample_graph_def overlay_canvas_def sample_page_def)
  then have "spec_publish_document (sample_graph ''t'') (empty_catalog :: (nat, nat) catalog) = (Ok PubInserted, add_graph (sample_graph ''t'') empty_catalog)"
    by (simp add: spec_publish_document_def find_document_def find_canvas_def empty_catalog_def i64_max_def)
  then show ?thesis
    using publish_document_exact [OF unary_codec_ok conjunct1 [OF empty_catalog_ok] sample_graph_ok, of "''t''" sample_md]
    by (simp add: sample_db_def)
qed

theorem catalog_commands_refine_witness:
  "\<exists>B. sample_db = encode_catalog unary_codec sample_md B \<and> catalog_ok unary_codec B \<and>
     spec_catalog_command unary_codec (PublishDocument (sample_graph ''t'')) empty_catalog = (ReplyPublished (Ok PubInserted), B)"
  using catalog_commands_refine [OF unary_codec_ok conjunct1 [OF empty_catalog_ok], of "PublishDocument (sample_graph ''t'')" no_faults sample_md
      "ReplyPublished (Ok PubInserted)" sample_db] sample_publication sample_graph_ok
  by auto


definition sample_catalog_worker :: "(sql_faults \<times> (nat, nat) catalog_command, (nat, nat, string) catalog_reply, nat catalog_db) worker" where
  "sample_catalog_worker = run_worker_step (exec_catalog_command unary_codec)
     (snd (worker_try_send (no_faults, PublishStandalone (overlay_canvas 7)) (snd (worker_sender (worker_open 4 sample_db)))))"

lemma sample_catalog_steps: "worker_steps (exec_catalog_command unary_codec) (worker_open 4 sample_db) sample_catalog_worker"
proof -
  let ?x = "exec_catalog_command unary_codec"
  let ?a = "snd (worker_sender (worker_open 4 sample_db))"
  have "worker_step ?x (worker_open 4 sample_db) ?a" by (rule ws_sender)
  moreover have "worker_step ?x ?a (snd (worker_try_send (no_faults, PublishStandalone (overlay_canvas 7)) ?a))"
    by (rule ws_send) (simp add: worker_sender_def worker_open_def)
  moreover have "worker_step ?x (snd (worker_try_send (no_faults, PublishStandalone (overlay_canvas 7)) ?a)) sample_catalog_worker"
    unfolding sample_catalog_worker_def by (rule ws_run)
  ultimately show ?thesis unfolding worker_steps_def by (meson converse_rtranclp_into_rtranclp rtranclp.rtrancl_refl)
qed

lemma sample_catalog_done: "map snd (wk_done sample_catalog_worker) = [(no_faults, PublishStandalone (overlay_canvas 7))]"
  by (simp add: sample_catalog_worker_def worker_sender_def worker_open_def worker_try_send_def run_worker_step_def split: prod.split)


end
