(* ===== verification/Store_Clients.thy ===== *)
theory Store_Clients
  imports Event_Store Catalog_Service
begin

text \<open>
  The methods of the EventStore and of the Catalog as their callers see them: a command is
  sent to the worker, which may refuse it, and its reply is awaited, which may be lost
  (\<^verbatim>\<open>dispatch\<close> and the port implementations in \<^verbatim>\<open>orbitrelay-storage-sqlite/src/lib.rs\<close> and
  \<^verbatim>\<open>orbitrelay-catalog-sqlite/src/lib.rs\<close>). A call that was answered took effect at one point of the worker's
  order; the properties say what an acknowledged append or publication means from then on.
\<close>

section \<open>Calls\<close>

text \<open>A method: the command it sends, and what it makes of a reply. A reply of another kind has no sender.\<close>

record ('c, 'r, 'a, 'e) store_method =
  me_command :: 'c
  me_result :: "'r \<Rightarrow> ('a, 'e) result option"

text \<open>
  The three steps of a call: cloning the sender, sending, and looking at the reply channel,
  which is empty as long as the result is \<^verbatim>\<open>None\<close>. Others may act between them.
\<close>

definition dispatch_sender ::
  "(dispatch_error \<Rightarrow> 'e) \<Rightarrow> ('c, 'r, 'db) worker \<Rightarrow> (unit, 'e) result \<times> ('c, 'r, 'db) worker" where
  "dispatch_sender err w = (case worker_sender w of (r, w') \<Rightarrow> (map_err err r, w'))"

definition dispatch_send ::
  "(dispatch_error \<Rightarrow> 'e) \<Rightarrow> sql_faults \<Rightarrow> ('c, 'r, 'a, 'e) store_method \<Rightarrow> (sql_faults \<times> 'c, 'r, 'db) worker
   \<Rightarrow> (nat, 'e) result \<times> (sql_faults \<times> 'c, 'r, 'db) worker" where
  "dispatch_send err flt m w = (case worker_try_send (flt, me_command m) w of (r, w') \<Rightarrow> (map_err err r, w'))"

definition dispatch_await ::
  "(dispatch_error \<Rightarrow> 'e) \<Rightarrow> ('c, 'r, 'a, 'e) store_method \<Rightarrow> nat \<Rightarrow> (sql_faults \<times> 'c, 'r, 'db) worker \<Rightarrow> ('a, 'e) result option" where
  "dispatch_await err m t w =
     Option.bind (worker_reply t w) (\<lambda>r. case r of Inl e \<Rightarrow> Some (Err (err e)) | Inr reply \<Rightarrow> me_result m reply)"

section \<open>The EventStore's methods\<close>

type_synonym ('id, 'v, 'cur, 'cp, 'a) event_method =
  "(('id, 'v, 'cur, 'cp) event_command, ('id, 'v, 'cur, 'cp) event_reply, 'a, 'id storage_error) store_method"

definition method_capture_checkpoint :: "('id, 'v, 'cur, 'cp, 'cp) event_method" where
  "method_capture_checkpoint = \<lparr>me_command = CaptureCheckpoint, me_result = (\<lambda>r. case r of CheckpointReply x \<Rightarrow> Some x | _ \<Rightarrow> None)\<rparr>"

definition method_append :: "('id, 'v) event \<Rightarrow> ('id, 'v, 'cur, 'cp, ('id, 'v, 'cur) stored_event) event_method" where
  "method_append e = \<lparr>me_command = Append e, me_result = (\<lambda>r. case r of AppendReply x \<Rightarrow> Some x | _ \<Rightarrow> None)\<rparr>"

definition method_get :: "'id \<Rightarrow> ('id, 'v, 'cur, 'cp, ('id, 'v, 'cur) stored_event option) event_method" where
  "method_get i = \<lparr>me_command = Get i, me_result = (\<lambda>r. case r of GetReply x \<Rightarrow> Some x | _ \<Rightarrow> None)\<rparr>"

definition method_query :: "('id, 'v, 'cur, 'cp) event_query \<Rightarrow> ('id, 'v, 'cur, 'cp, ('id, 'v, 'cur) event_page) event_method" where
  "method_query q = \<lparr>me_command = Query q, me_result = (\<lambda>r. case r of QueryReply x \<Rightarrow> Some x | _ \<Rightarrow> None)\<rparr>"

section \<open>The Catalog's methods\<close>

type_synonym ('id, 'f, 's, 'a, 'e) catalog_method = "(('id, 'f) catalog_command, ('id, 'f, 's) catalog_reply, 'a, 'e) store_method"

definition method_publish_document ::
  "('id, 'f) document_composition \<Rightarrow> ('id, 'f, 's, catalog_publish_outcome, catalog_error) catalog_method" where
  "method_publish_document graph = \<lparr>me_command = PublishDocument graph, me_result = (\<lambda>r. case r of ReplyPublished x \<Rightarrow> Some x | _ \<Rightarrow> None)\<rparr>"

definition method_list_all_documents :: "('id, 'f, 's, ('id, 'f) document_descriptor list, catalog_error) catalog_method" where
  "method_list_all_documents = \<lparr>me_command = ListAllDocuments, me_result = (\<lambda>r. case r of ReplyDocuments x \<Rightarrow> Some x | _ \<Rightarrow> None)\<rparr>"

definition method_publish_standalone_canvas ::
  "('id, 'f) canvas_descriptor \<Rightarrow> ('id, 'f, 's, catalog_publish_outcome, catalog_error) catalog_method" where
  "method_publish_standalone_canvas d = \<lparr>me_command = PublishStandalone d, me_result = (\<lambda>r. case r of ReplyPublished x \<Rightarrow> Some x | _ \<Rightarrow> None)\<rparr>"

definition method_publish_standalone_canvas_with_binding ::
  "string \<Rightarrow> ('id, 'f) canvas_descriptor \<Rightarrow> 'id bootstrap_binding \<Rightarrow> ('id, 'f, 's, catalog_publish_outcome, catalog_error) catalog_method" where
  "method_publish_standalone_canvas_with_binding key d b =
     \<lparr>me_command = PublishStandaloneWithBinding key d b, me_result = (\<lambda>r. case r of ReplyPublished x \<Rightarrow> Some x | _ \<Rightarrow> None)\<rparr>"

definition method_get_bootstrap_binding :: "string \<Rightarrow> ('id, 'f, 's, 'id bootstrap_binding option, catalog_error) catalog_method" where
  "method_get_bootstrap_binding key = \<lparr>me_command = GetBinding key, me_result = (\<lambda>r. case r of ReplyBinding x \<Rightarrow> Some x | _ \<Rightarrow> None)\<rparr>"

definition method_put_bootstrap_binding :: "string \<Rightarrow> 'id bootstrap_binding \<Rightarrow> ('id, 'f, 's, unit, catalog_error) catalog_method" where
  "method_put_bootstrap_binding key b = \<lparr>me_command = PutBinding key b, me_result = (\<lambda>r. case r of ReplyUnit x \<Rightarrow> Some x | _ \<Rightarrow> None)\<rparr>"

text \<open>The methods of the kernel's ports pass on the text of an error only; \<open>show_error\<close> is its \<^verbatim>\<open>to_string\<close>.\<close>

definition method_get_document ::
  "(catalog_error \<Rightarrow> string) \<Rightarrow> 'id \<Rightarrow> ('id, 'f, 's, ('id, 'f) document_descriptor option, string) catalog_method" where
  "method_get_document show_error i =
     \<lparr>me_command = GetDocument i, me_result = (\<lambda>r. case r of ReplyDocument x \<Rightarrow> Some (map_err show_error x) | _ \<Rightarrow> None)\<rparr>"

definition method_list_documents :: "(catalog_error \<Rightarrow> string) \<Rightarrow> 'id \<Rightarrow> ('id, 'f, 's, 's list, string) catalog_method" where
  "method_list_documents show_error session_id =
     \<lparr>me_command = ListDocuments session_id, me_result = (\<lambda>r. case r of ReplySummaries x \<Rightarrow> Some (map_err show_error x) | _ \<Rightarrow> None)\<rparr>"

definition method_get_canvas ::
  "(catalog_error \<Rightarrow> string) \<Rightarrow> 'id \<Rightarrow> ('id, 'f, 's, ('id, 'f) canvas_descriptor option, string) catalog_method" where
  "method_get_canvas show_error i =
     \<lparr>me_command = GetCanvas i, me_result = (\<lambda>r. case r of ReplyCanvas x \<Rightarrow> Some (map_err show_error x) | _ \<Rightarrow> None)\<rparr>"

section \<open>The point at which a call took effect\<close>

text \<open>A ticket stands for its command: queued, executed, or dropped with the worker.\<close>

definition ticket_of :: "nat \<Rightarrow> 'c \<Rightarrow> ('c, 'r, 'db) worker \<Rightarrow> bool" where
  "ticket_of t c w \<longleftrightarrow> (t, Some c) \<in> set (wk_queue w) \<or> (t, c) \<in> set (wk_done w) \<or> never_executed t w"

lemma ticket_sent: "worker_try_send c w = (Ok t, w') \<Longrightarrow> ticket_of t c w'"
  by (auto simp: worker_try_send_def ticket_of_def Let_def split: if_splits)

lemma ticket_run:
  assumes "worker_inv exec db w" and "ticket_of t c w"
  shows "ticket_of t c (run_worker_step exec w)"
proof (cases "wk_running w \<and> wk_queue w \<noteq> []")
  case True
  then obtain t0 oc q where q: "wk_queue w = (t0, oc) # q" by (cases "wk_queue w") auto
  have inv: "sorted_wrt (<) (map fst (wk_done w) @ map fst (wk_queue w))" "\<And>x. x \<in> fst ` set (wk_queue w) \<Longrightarrow> x < wk_next w"
    using assms(1) by (auto simp: inv_defs)
  from inv(1) have "fst ` set (wk_done w) \<inter> fst ` set (wk_queue w) = {}" by (fastforce simp: sorted_wrt_append)
  with True q inv(2) assms(2) show ?thesis
    by (cases oc) (auto simp: run_worker_step_def ticket_of_def never_executed_def rev_image_eqI split: prod.splits)
next
  case False
  with assms(2) show ?thesis by (auto simp: run_worker_step_def ticket_of_def never_executed_def)
qed

lemma ticket_step:
  assumes "worker_step exec w w'" and "worker_inv exec db w" and "ticket_of t c w"
  shows "ticket_of t c w'"
  using assms
proof (induction rule: worker_step.induct)
  case (ws_run w)
  then show ?case by (rule ticket_run)
qed (auto simp: ticket_of_def never_executed_def worker_ops Let_def)

lemma ticket_steps: "worker_steps exec w w' \<Longrightarrow> worker_inv exec db w \<Longrightarrow> ticket_of t c w \<Longrightarrow> ticket_of t c w'"
  unfolding worker_steps_def
  by (induction rule: rtranclp_induct) (auto intro: ticket_step dest: worker_steps_inv [unfolded worker_steps_def])

lemma run_commands_append:
  "run_commands exec (cs @ ds) db = (case run_commands exec cs db of (rs, db1) \<Rightarrow> case run_commands exec ds db1 of (qs, db2) \<Rightarrow> (rs @ qs, db2))"
  by (induction cs arbitrary: db) (auto split: prod.splits)

lemma run_commands_length: "run_commands exec cs db = (rs, db') \<Longrightarrow> length rs = length cs"
  by (induction cs arbitrary: db rs) (auto split: prod.splits)

lemma replied_at:
  assumes "worker_inv exec db w" and "ticket_of t c w" and "worker_reply t w = Some (Ok r)"
  obtains pre post rs qs db1 db2 where "map snd (wk_done w) = pre @ c # post" "run_commands exec pre db = (rs, db1)"
    "exec c db1 = (r, db2)" "run_commands exec post db2 = (qs, wk_db w)"
proof -
  have inv: "run_commands exec (map snd (wk_done w)) db = (map snd (wk_replies w), wk_db w)" "map fst (wk_replies w) = map fst (wk_done w)"
    "sorted_wrt (<) (map fst (wk_done w) @ map fst (wk_queue w))"
    using assms(1) by (simp_all add: inv_defs)
  from assms(3) have r: "(t, r) \<in> set (wk_replies w)"
    by (auto simp: worker_reply_def dest: map_of_SomeD split: option.splits if_splits)
  then have t: "t \<in> fst ` set (wk_done w)" by (metis (no_types, lifting) fst_conv image_eqI inv(2) list.set_map)
  moreover have dj: "fst ` set (wk_done w) \<inter> fst ` set (wk_queue w) = {}" using inv(3) by (fastforce simp: sorted_wrt_append)
  ultimately have "(t, c) \<in> set (wk_done w)" using assms(2) by (force simp: ticket_of_def never_executed_def)
  then obtain i where i: "i < length (wk_done w)" "wk_done w ! i = (t, c)" by (metis in_set_conv_nth)
  from r obtain j where j: "j < length (wk_replies w)" "wk_replies w ! j = (t, r)" by (metis in_set_conv_nth)
  have len: "length (wk_replies w) = length (wk_done w)" using inv(2) by (metis length_map)
  have "sorted_wrt (<) (map fst (wk_done w))" using inv(3) by (simp add: sorted_wrt_append)
  then have "distinct (map fst (wk_done w))" by (simp add: strict_sorted_iff)
  moreover have "map fst (wk_done w) ! i = t" "map fst (wk_done w) ! j = t" using i j inv(2) len by (metis fst_conv nth_map)+
  ultimately have ij: "i = j" using i(1) j(1) len by (metis length_map nth_eq_iff_index_eq)
  let ?cs = "map snd (wk_done w)"
  have split: "?cs = take i ?cs @ c # drop (Suc i) ?cs" using id_take_nth_drop [of i ?cs] i by simp
  obtain rs db1 where a: "run_commands exec (take i ?cs) db = (rs, db1)" by fastforce
  obtain r' db2 where b: "exec c db1 = (r', db2)" by fastforce
  obtain qs db3 where d: "run_commands exec (drop (Suc i) ?cs) db2 = (qs, db3)" by fastforce
  have all: "run_commands exec ?cs db = (rs @ r' # qs, db3)" by (subst split) (simp add: run_commands_append a b d)
  then have "map snd (wk_replies w) = rs @ r' # qs" "db3 = wk_db w" using inv(1) by simp_all
  moreover have "length rs = i" using run_commands_length [OF a] i(1) by simp
  ultimately have "r' = map snd (wk_replies w) ! i" by (metis nth_append_length)
  with j ij have "r' = r" by simp
  with that [OF split a _ d [unfolded \<open>db3 = wk_db w\<close>]] b show ?thesis by simp
qed

lemma worker_reply_Ok: "worker_reply t w = Some (Ok r) \<longleftrightarrow> map_of (wk_replies w) t = Some r"
  by (auto simp: worker_reply_def split: option.splits)

lemma reply_step: "worker_step exec w w' \<Longrightarrow> map_of (wk_replies w) t = Some r \<Longrightarrow> map_of (wk_replies w') t = Some r"
  by (induction rule: worker_step.induct) (auto simp: worker_ops Let_def map_add_Some_iff split: prod.splits list.splits option.splits)

lemma reply_kept: "worker_steps exec w w' \<Longrightarrow> worker_reply t w = Some (Ok r) \<Longrightarrow> worker_reply t w' = Some (Ok r)"
  unfolding worker_reply_Ok worker_steps_def by (induction rule: rtranclp_induct) (auto intro: reply_step)

lemma dispatch_sent: "dispatch_send err flt m w = (Ok t, w') \<longleftrightarrow> worker_try_send (flt, me_command m) w = (Ok t, w')"
  by (cases "worker_try_send (flt, me_command m) w"; cases "fst (worker_try_send (flt, me_command m) w)") (auto simp: dispatch_send_def)

lemma dispatch_answered:
  assumes "dispatch_await err m t w = Some (Ok x)"
  obtains reply where "worker_reply t w = Some (Ok reply)" "me_result m reply = Some (Ok x)"
proof (cases "worker_reply t w")
  case None
  with assms show ?thesis by (simp add: dispatch_await_def)
next
  case (Some r)
  with assms that show ?thesis by (cases r) (auto simp: dispatch_await_def)
qed

text \<open>A call whose command was accepted in a reachable state, and answered later.\<close>

lemma answered_call:
  assumes "worker_steps exec (worker_open capacity db) w0" and "0 < wk_clones w0" and "worker_try_send c w0 = (Ok t, w1)"
    and "worker_steps exec w1 w2" and "worker_reply t w2 = Some (Ok r)" and "worker_steps exec w2 w3"
  shows "worker_steps exec (worker_open capacity db) w3" and "ticket_of t c w3" and "worker_reply t w3 = Some (Ok r)"
proof -
  have "worker_step exec w0 w1" using ws_send [OF assms(2), of exec c] assms(3) by simp
  with assms(1) have w1: "worker_steps exec (worker_open capacity db) w1" unfolding worker_steps_def by (rule rtranclp.rtrancl_into_rtrancl)
  have w13: "worker_steps exec w1 w3" using assms(4,6) unfolding worker_steps_def by (rule rtranclp_trans)
  with w1 show "worker_steps exec (worker_open capacity db) w3" unfolding worker_steps_def by (rule rtranclp_trans)
  show "ticket_of t c w3" by (rule ticket_steps [OF w13 worker_steps_inv [OF w1 worker_inv_open] ticket_sent [OF assms(3)]])
  show "worker_reply t w3 = Some (Ok r)" by (rule reply_kept [OF assms(6,5)])
qed

context served_tables
begin

text \<open>The tables moved up to the call, the call was executed on them, and they moved on.\<close>

lemma served_call:
  assumes "inv db" and "worker_steps exec (worker_open capacity db) w" and "\<forall>c \<in> set (map snd (wk_done w)). allowed c"
    and "ticket_of t c w" and "worker_reply t w = Some (Ok r)"
  obtains db1 db2 where "inv db1" "grows db db1" "allowed c" "exec c db1 = (r, db2)" "inv db2" "grows db2 (wk_db w)" "inv (wk_db w)"
proof -
  have "worker_inv exec db w" by (rule worker_steps_inv [OF assms(2) worker_inv_open])
  then obtain pre post rs qs db1 db2 where
    d: "map snd (wk_done w) = pre @ c # post" "run_commands exec pre db = (rs, db1)" "exec c db1 = (r, db2)" "run_commands exec post db2 = (qs, wk_db w)"
    by (rule replied_at [OF _ assms(4,5)])
  from assms(3) d(1) have a: "\<forall>c \<in> set pre. allowed c" "allowed c" "\<forall>c \<in> set post. allowed c" by auto
  from run_commands_keep [OF assms(1) a(1) d(2)] have 1: "inv db1" "grows db db1" by simp_all
  from exec_keeps [OF 1(1) a(2) d(3)] have 2: "inv db2" by simp
  from run_commands_keep [OF 2 a(3) d(4)] have "inv (wk_db w)" "grows db2 (wk_db w)" by simp_all
  with 1 2 a(2) d(3) show ?thesis by (intro that)
qed

end

section \<open>Acknowledged means durable\<close>

lemma find_event_prefix: "prefix log log' \<Longrightarrow> find_event i log = Some x \<Longrightarrow> find_event i log' = Some x"
  by (auto simp: find_event_def prefix_def enumerate_append_eq find_append_list)

text \<open>
  C18. An acknowledged append is durable. When a caller's append was accepted by the worker of a store and
  answered with a stored event, whatever other calls, closes, engine faults and worker
  steps came in between and come afterwards: the stored event is the one the caller sent, it is in the log at the position
  its cursor says, and a lookup of its identity returns the very same stored event. (The log is taken to be no longer than SQLite's integers can count.)
\<close>

theorem acknowledged_append_is_durable:
  assumes "codec_ok c" and "table_inv c rows" and "worker_steps (exec_event_command c tk sid ep) (worker_open capacity rows) w0" and "0 < wk_clones w0"
    and "dispatch_send event_dispatch_error flt (method_append e) w0 = (Ok t, w1)" and "worker_steps (exec_event_command c tk sid ep) w1 w2"
    and "dispatch_await event_dispatch_error (method_append e) t w2 = Some (Ok stored)" and "worker_steps (exec_event_command c tk sid ep) w2 w3"
    and "int (length (wk_db w3)) \<le> i64_max"
  shows "\<exists>n. n < length (table_log c (wk_db w3)) \<and> table_log c (wk_db w3) ! n = e \<and>
    stored = \<lparr>se_cursor = cursor_for_storage tk sid ep (n + 1), se_event = e\<rparr> \<and>
    get_event no_faults c tk sid ep (ev_id e) (wk_db w3) = Ok (Some stored)"
proof -
  let ?x = "exec_event_command c tk sid ep"
  from assms(5) have sent: "worker_try_send (flt, Append e) w0 = (Ok t, w1)"
    by (simp add: dispatch_sent method_append_def)
  from assms(7) have reply: "worker_reply t w2 = Some (Ok (AppendReply (Ok stored)))"
    by (rule dispatch_answered) (simp add: method_append_def split: event_reply.splits)
  note w3 = answered_call [OF assms(3,4) sent assms(6) reply assms(8)]
  have served: "\<forall>c \<in> set (map snd (wk_done w3)). True" by simp
  obtain db1 db2 where db: "codec_ok c \<and> table_inv c db1" "prefix (table_log c rows) (table_log c db1)" True
    "?x (flt, Append e) db1 = (AppendReply (Ok stored), db2)" "codec_ok c \<and> table_inv c db2" "prefix (table_log c db2) (table_log c (wk_db w3))"
    "codec_ok c \<and> table_inv c (wk_db w3)"
    by (rule events_served.served_call [OF conjI [OF assms(1,2)] w3(1) served w3(2,3)])
  then have d: "table_inv c db1" "?x (flt, Append e) db1 = (AppendReply (Ok stored), db2)" "prefix (table_log c db2) (table_log c (wk_db w3))" "table_inv c (wk_db w3)"
    by blast+
  from d(2) have "append_event flt c tk sid ep e db1 = (Ok stored, db2)" by (auto split: prod.splits)
  from append_event_table [OF assms(1) d(1) this] obtain n where n: "spec_append e (table_log c db1) = (Ok n, table_log c db2)"
    "stored = \<lparr>se_cursor = cursor_for_storage tk sid ep (n + 1), se_event = e\<rparr>" by auto
  have find: "find_event (ev_id e) (table_log c (wk_db w3)) = Some (n, e)" by (rule find_event_prefix [OF d(3) find_event_append [OF n(1)]])
  from d(4) have log: "log_ok c (table_log c (wk_db w3))" "wk_db w3 = encode_log c (table_log c (wk_db w3))" by (auto simp: inv_defs)
  have "int (length (table_log c (wk_db w3))) \<le> i64_max" using assms(9) by (subst (asm) log(2)) simp
  from get_event_encode [OF assms(1) log(1) this, of tk sid ep "ev_id e"] find n(2) log(2) find_event_Some [OF find] show ?thesis by auto
qed


text \<open>The samples: the caller has its sender, the command is executed and answered at once.\<close>

lemma sample_worker_run: "worker_steps exec w (run_worker_step exec w)"
  unfolding worker_steps_def by (intro r_into_rtranclp ws_run)

lemma sample_worker_sender: "worker_steps exec (worker_open n db) (snd (worker_sender (worker_open n db)))"
  unfolding worker_steps_def by (intro r_into_rtranclp ws_sender)

lemma sample_worker_stays: "worker_steps exec w w"
  unfolding worker_steps_def by (rule rtranclp.rtrancl_refl)

theorem acknowledged_append_is_durable_witness:
  "\<exists>stored. dispatch_await event_dispatch_error (method_append (sample_event ''3'' ''x'')) 0 sample_worker = Some (Ok stored) \<and>
     get_event no_faults text_codec triple_tokens ''db'' ''e1'' ''3'' (wk_db sample_worker) = Ok (Some stored)"
proof -
  let ?e = "sample_event ''3'' ''x''"
  let ?w0 = "snd (worker_sender (worker_open 4 (sample_rows 2)))"
  have c: "0 < wk_clones ?w0" by (simp add: worker_sender_def worker_open_def)
  have "fst (worker_try_send (no_faults, Append ?e) ?w0) = Ok 0" by (simp add: worker_try_send_def worker_sender_def worker_open_def)
  then have "worker_try_send (no_faults, Append ?e) ?w0 = (Ok 0, snd (worker_try_send (no_faults, Append ?e) ?w0))" by (metis prod.collapse)
  then have s: "dispatch_send event_dispatch_error no_faults (method_append ?e) ?w0 = (Ok 0, snd (worker_try_send (no_faults, Append ?e) ?w0))"
    by (simp add: dispatch_sent method_append_def)
  have "\<exists>stored. dispatch_await event_dispatch_error (method_append ?e) 0 sample_worker = Some (Ok stored)"
  proof -
    have "case dispatch_await event_dispatch_error (method_append ?e) 0 sample_worker of Some (Inr stored) \<Rightarrow> True | _ \<Rightarrow> False" by code_simp
    then show ?thesis by (auto split: option.splits sum.splits)
  qed
  then obtain stored where a: "dispatch_await event_dispatch_error (method_append ?e) 0 sample_worker = Some (Ok stored)" by blast
  have len: "int (length (wk_db sample_worker)) \<le> i64_max"
  proof -
    have "length (wk_db sample_worker) = 3" by code_simp
    then show ?thesis by (simp add: i64_max_def)
  qed
  have r: "worker_steps (exec_event_command text_codec triple_tokens ''db'' ''e1'') (snd (worker_try_send (no_faults, Append ?e) ?w0)) sample_worker"
    unfolding sample_worker_def by (rule sample_worker_run)
  have i: "ev_id ?e = ''3''" by (simp add: sample_event_def)
  from acknowledged_append_is_durable [OF text_codec_ok sample_rows_inv sample_worker_sender c s r a sample_worker_stays len] a
  show ?thesis unfolding i by blast
qed

definition publishing_worker :: "(sql_faults \<times> (nat, nat) catalog_command, (nat, nat, string) catalog_reply, nat catalog_db) worker" where
  "publishing_worker = snd (worker_try_send (no_faults, PublishDocument (sample_graph ''t'')) (snd (worker_sender
     (worker_open 4 (encode_catalog unary_codec sample_md empty_catalog)))))"

definition published_worker :: "(sql_faults \<times> (nat, nat) catalog_command, (nat, nat, string) catalog_reply, nat catalog_db) worker" where
  "published_worker = run_worker_step (exec_catalog_command unary_codec) publishing_worker"

lemma published_worker_state:
  "wk_db published_worker = sample_db" "wk_replies published_worker = [(0, ReplyPublished (Ok PubInserted))]"
  "map snd (wk_done published_worker) = [(no_faults, PublishDocument (sample_graph ''t''))]"
  using sample_publication
  by (simp_all add: published_worker_def publishing_worker_def worker_sender_def worker_open_def worker_try_send_def run_worker_step_def split: prod.split)


end
