(* ===== verification/Coordinator.thy ===== *)
theory Coordinator
  imports Prelude
begin

text \<open>
  The keyed execution coordinator of \<^verbatim>\<open>orbitrelay-server/src/canvas.rs\<close>: one asynchronous mutex
  per scope, kept in a map of weak references that forgets a scope when its last owner goes
  away. Threads interleave at the operations on shared state: the lock around the map of
  entries, upgrading and dropping references, and the mutex of an entry.

  Each thread is at a point of \<^verbatim>\<open>acquire\<close>, \<^verbatim>\<open>key_count\<close>, a lease, or a destructor. A strong
  reference is held exactly by the threads at the points \<open>arc_of\<close> names, so an upgrade
  succeeds when some thread holds one, and a drop runs the destructor when no other does.
  Dropping the last reference inside \<^verbatim>\<open>prune_stale\<close> runs the destructor on a thread that
  holds the map's lock; \<^verbatim>\<open>std::sync::Mutex\<close> does not return from a second \<^verbatim>\<open>lock\<close> there.
\<close>

section \<open>The model\<close>

datatype 'k point =
    Idle
  | PruneStart "'k option"
  | Pruning "'k option" "('k \<times> nat) list"
  | Upgraded "'k option" nat "('k \<times> nat) list"
  | EntryStart 'k
  | CountStart
  | Counted nat
  | Waiting 'k nat
  | Leased 'k nat
  | Releasing nat
  | Destroying nat "'k point"

text \<open>
  \<open>co_entries\<close> is the map from scopes to weak references, \<open>co_lock\<close> the holder of its lock,
  \<open>co_scopes\<close> the scope of every \<^verbatim>\<open>KeyedMutex\<close> allocated so far.
\<close>

record 'k coordinator =
  co_entries :: "('k \<times> nat) list"
  co_lock :: "nat option"
  co_scopes :: "'k list"
  co_threads :: "'k point list"

datatype 'k action = Acquire 'k | KeyCount | Continue | Cancel

definition coordinator_new :: "nat \<Rightarrow> 'k coordinator" where
  "coordinator_new n = \<lparr>co_entries = [], co_lock = None, co_scopes = [], co_threads = replicate n Idle\<rparr>"

fun arc_of :: "'k point \<Rightarrow> nat option" where
  "arc_of (Upgraded g n rest) = Some n"
| "arc_of (Waiting k n) = Some n"
| "arc_of (Leased k n) = Some n"
| "arc_of (Releasing n) = Some n"
| "arc_of _ = None"

text \<open>\<^verbatim>\<open>Weak::upgrade\<close> succeeds.\<close>

definition upgradable :: "'k coordinator \<Rightarrow> nat \<Rightarrow> bool" where
  "upgradable s n \<longleftrightarrow> (\<exists>p \<in> set (co_threads s). arc_of p = Some n)"

definition goto :: "nat \<Rightarrow> 'k point \<Rightarrow> 'k coordinator \<Rightarrow> 'k coordinator" where
  "goto t p s = s\<lparr>co_threads := (co_threads s)[t := p]\<rparr>"

text \<open>Dropping the strong reference of thread \<open>t\<close>, then continuing at \<open>p\<close>.\<close>

definition drop_arc :: "nat \<Rightarrow> nat \<Rightarrow> 'k point \<Rightarrow> 'k coordinator \<Rightarrow> 'k coordinator" where
  "drop_arc t n p s = (if upgradable (goto t p s) n then goto t p s else goto t (Destroying n p) s)"

text \<open>\<^verbatim>\<open>KeyedMutex::drop\<close>: the entry goes only when it is still this one.\<close>

definition keyed_mutex_drop :: "nat \<Rightarrow> 'k coordinator \<Rightarrow> 'k coordinator" where
  "keyed_mutex_drop n s =
     (let k = co_scopes s ! n in
      if map_of (co_entries s) k = Some n then s\<lparr>co_entries := filter (\<lambda>e. fst e \<noteq> k) (co_entries s)\<rparr> else s)"

text \<open>One entry of \<^verbatim>\<open>entries.retain(|_, weak| weak.upgrade().is_some())\<close>.\<close>

definition prune_entry :: "nat \<Rightarrow> 'k option \<Rightarrow> 'k \<times> nat \<Rightarrow> ('k \<times> nat) list \<Rightarrow> 'k coordinator \<Rightarrow> 'k coordinator" where
  "prune_entry t g e rest s =
     (if upgradable s (snd e) then goto t (Upgraded g (snd e) rest) s
      else goto t (Pruning g rest) (s\<lparr>co_entries := filter (\<lambda>e'. fst e' \<noteq> fst e) (co_entries s)\<rparr>))"

text \<open>The live entry of a scope, or a new one.\<close>

definition get_or_insert :: "nat \<Rightarrow> 'k \<Rightarrow> 'k coordinator \<Rightarrow> 'k coordinator" where
  "get_or_insert t k s =
     (case map_of (co_entries s) k of
        Some n \<Rightarrow> if upgradable s n then goto t (Waiting k n) s
                  else goto t (Waiting k (length (co_scopes s)))
                    (s\<lparr>co_entries := (k, length (co_scopes s)) # filter (\<lambda>e. fst e \<noteq> k) (co_entries s), co_scopes := co_scopes s @ [k]\<rparr>)
      | None \<Rightarrow> goto t (Waiting k (length (co_scopes s)))
                    (s\<lparr>co_entries := (k, length (co_scopes s)) # co_entries s, co_scopes := co_scopes s @ [k]\<rparr>))"

definition mutex_free :: "'k coordinator \<Rightarrow> nat \<Rightarrow> bool" where
  "mutex_free s n \<longleftrightarrow> (\<forall>p \<in> set (co_threads s). case p of Leased k m \<Rightarrow> m \<noteq> n | _ \<Rightarrow> True)"

text \<open>The next step of thread \<open>t\<close>, \<open>None\<close> while it is blocked. A waiting call may be cancelled.\<close>

definition coordinator_next :: "nat \<Rightarrow> 'k action \<Rightarrow> 'k coordinator \<Rightarrow> 'k coordinator option" where
  "coordinator_next t a s =
     (case co_threads s ! t of
        Idle \<Rightarrow> (case a of Acquire k \<Rightarrow> Some (goto t (PruneStart (Some k)) s) | KeyCount \<Rightarrow> Some (goto t (PruneStart None) s) | _ \<Rightarrow> None)
      | PruneStart g \<Rightarrow> if co_lock s = None then Some (goto t (Pruning g (co_entries s)) (s\<lparr>co_lock := Some t\<rparr>)) else None
      | Pruning g [] \<Rightarrow> Some (goto t (case g of Some k \<Rightarrow> EntryStart k | None \<Rightarrow> CountStart) (s\<lparr>co_lock := None\<rparr>))
      | Pruning g (e # rest) \<Rightarrow> Some (prune_entry t g e rest s)
      | Upgraded g n rest \<Rightarrow> Some (drop_arc t n (Pruning g rest) s)
      | EntryStart k \<Rightarrow> if co_lock s = None then Some (get_or_insert t k s) else None
      | CountStart \<Rightarrow> if co_lock s = None then Some (goto t (Counted (length (co_entries s))) s) else None
      | Counted n \<Rightarrow> Some (goto t Idle s)
      | Waiting k n \<Rightarrow> if a = Cancel then Some (goto t (Releasing n) s)
                       else if mutex_free s n then Some (goto t (Leased k n) s) else None
      | Leased k n \<Rightarrow> Some (goto t (Releasing n) s)
      | Releasing n \<Rightarrow> Some (drop_arc t n Idle s)
      | Destroying n p \<Rightarrow> if co_lock s = None then Some (goto t p (keyed_mutex_drop n s)) else None)"

inductive coordinator_step :: "'k coordinator \<Rightarrow> 'k coordinator \<Rightarrow> bool" where
  step: "t < length (co_threads s) \<Longrightarrow> coordinator_next t a s = Some s' \<Longrightarrow> coordinator_step s s'"

abbreviation coordinator_steps :: "'k coordinator \<Rightarrow> 'k coordinator \<Rightarrow> bool" where
  "coordinator_steps \<equiv> coordinator_step\<^sup>*\<^sup>*"

inductive_cases coordinator_stepE: "coordinator_step s s'"

section \<open>Invariants\<close>

lemma goto_simps [simp]:
  "co_entries (goto t p s) = co_entries s" "co_lock (goto t p s) = co_lock s" "co_scopes (goto t p s) = co_scopes s"
  "length (co_threads (goto t p s)) = length (co_threads s)"
  "co_threads (goto t p s) = (co_threads s)[t := p]"
  by (simp_all add: goto_def)

lemma upgradable_nth: "upgradable s n \<longleftrightarrow> (\<exists>u < length (co_threads s). arc_of (co_threads s ! u) = Some n)"
  unfolding upgradable_def by (metis in_set_conv_nth)

lemma upgradable_goto:
  "t < length (co_threads s) \<Longrightarrow> upgradable (goto t p s) n \<longleftrightarrow>
     arc_of p = Some n \<or> (\<exists>u < length (co_threads s). u \<noteq> t \<and> arc_of (co_threads s ! u) = Some n)"
  by (auto simp: upgradable_nth nth_list_update)

fun in_section :: "'k point \<Rightarrow> bool" where
  "in_section (Pruning g rest) = True"
| "in_section (Upgraded g n rest) = True"
| "in_section (Destroying n p) = in_section p"
| "in_section _ = False"

fun to_visit :: "'k point \<Rightarrow> ('k \<times> nat) list" where
  "to_visit (Pruning g rest) = rest"
| "to_visit (Upgraded g n rest) = rest"
| "to_visit (Destroying n p) = to_visit p"
| "to_visit _ = []"

text \<open>The lock around the map is held exactly by the thread inside \<^verbatim>\<open>prune_stale\<close>.\<close>

definition lock_inv :: "'k coordinator \<Rightarrow> bool" where
  "lock_inv s \<longleftrightarrow> (\<forall>t < length (co_threads s). in_section (co_threads s ! t) \<longleftrightarrow> co_lock s = Some t) \<and>
     (\<forall>u. co_lock s = Some u \<longrightarrow> u < length (co_threads s))"

text \<open>The transitions, one per point of the program.\<close>

lemma coordinator_next_cases:
  assumes "coordinator_next t a s = Some s'"
  obtains (Call) g where "co_threads s ! t = Idle" "s' = goto t (PruneStart g) s"
  | (Lock) g where "co_threads s ! t = PruneStart g" "co_lock s = None" "s' = goto t (Pruning g (co_entries s)) (s\<lparr>co_lock := Some t\<rparr>)"
  | (Unlock) g p where "co_threads s ! t = Pruning g []" "p = CountStart \<or> (\<exists>k. p = EntryStart k)" "s' = goto t p (s\<lparr>co_lock := None\<rparr>)"
  | (Visit) g e rest where "co_threads s ! t = Pruning g (e # rest)" "upgradable s (snd e)" "s' = goto t (Upgraded g (snd e) rest) s"
  | (Forget) g e rest where "co_threads s ! t = Pruning g (e # rest)" "\<not> upgradable s (snd e)"
      "s' = goto t (Pruning g rest) (s\<lparr>co_entries := filter (\<lambda>e'. fst e' \<noteq> fst e) (co_entries s)\<rparr>)"
  | (Unvisit) g n rest where "co_threads s ! t = Upgraded g n rest" "s' = drop_arc t n (Pruning g rest) s"
  | (Found) k n where "co_threads s ! t = EntryStart k" "co_lock s = None" "map_of (co_entries s) k = Some n" "upgradable s n" "s' = goto t (Waiting k n) s"
  | (New) k where "co_threads s ! t = EntryStart k" "co_lock s = None" "\<And>n. map_of (co_entries s) k = Some n \<Longrightarrow> \<not> upgradable s n"
      "s' = goto t (Waiting k (length (co_scopes s)))
         (s\<lparr>co_entries := (k, length (co_scopes s)) # filter (\<lambda>e. fst e \<noteq> k) (co_entries s), co_scopes := co_scopes s @ [k]\<rparr>)"
  | (Count) p where "co_threads s ! t = CountStart \<and> (\<exists>n. p = Counted n) \<or> (\<exists>n. co_threads s ! t = Counted n) \<and> p = Idle" "s' = goto t p s"
  | (Lease) k n where "co_threads s ! t = Waiting k n" "mutex_free s n" "s' = goto t (Leased k n) s"
  | (Release) n where "arc_of (co_threads s ! t) = Some n" "\<not> in_section (co_threads s ! t)" "s' = goto t (Releasing n) s"
  | (Drop) n where "co_threads s ! t = Releasing n" "s' = drop_arc t n Idle s"
  | (Destroy) n p where "co_threads s ! t = Destroying n p" "co_lock s = None" "s' = goto t p (keyed_mutex_drop n s)"
proof -
  have fresh: "filter (\<lambda>e. fst e \<noteq> k) es = es" if "map_of es k = None" for k :: 'a and es :: "('a \<times> nat) list"
    using that by (auto simp: map_of_eq_None_iff filter_id_conv)
  show ?thesis
  proof (cases "co_threads s ! t")
    case Idle
    with assms that(1) show ?thesis by (auto simp: coordinator_next_def split: action.splits)
  next
    case (PruneStart g)
    with assms that(2) show ?thesis by (auto simp: coordinator_next_def split: if_splits)
  next
    case (Pruning g rest)
    with assms that(3-5) show ?thesis
      by (cases rest; cases g) (auto simp: coordinator_next_def prune_entry_def split: if_splits)
  next
    case (Upgraded g n rest)
    with assms that(6) show ?thesis by (auto simp: coordinator_next_def)
  next
    case (EntryStart k)
    with assms that(7,8) fresh [of "co_entries s" k] show ?thesis
      by (auto simp: coordinator_next_def get_or_insert_def split: if_splits option.splits)
  next
    case CountStart
    with assms that(9) show ?thesis by (auto simp: coordinator_next_def split: if_splits)
  next
    case (Counted n)
    with assms that(9) show ?thesis by (auto simp: coordinator_next_def)
  next
    case (Waiting k n)
    with assms that(10,11) show ?thesis by (auto simp: coordinator_next_def split: if_splits)
  next
    case (Leased k n)
    with assms that(11) show ?thesis by (auto simp: coordinator_next_def)
  next
    case (Releasing n)
    with assms that(12) show ?thesis by (auto simp: coordinator_next_def)
  next
    case (Destroying n p)
    with assms that(13) show ?thesis by (auto simp: coordinator_next_def split: if_splits)
  qed
qed

lemma keyed_mutex_drop_simps [simp]:
  "co_lock (keyed_mutex_drop n s) = co_lock s" "co_scopes (keyed_mutex_drop n s) = co_scopes s" "co_threads (keyed_mutex_drop n s) = co_threads s"
  by (simp_all add: keyed_mutex_drop_def Let_def)

lemma lock_inv_next:
  assumes "lock_inv s" and "t < length (co_threads s)" and "coordinator_next t a s = Some s'"
  shows "lock_inv s'"
proof -
  from assms(1,2) have here: "in_section (co_threads s ! t) \<longleftrightarrow> co_lock s = Some t" by (simp add: lock_inv_def)
  from assms(3) show ?thesis
    by (cases rule: coordinator_next_cases)
      (use assms(1,2) here in \<open>auto simp: lock_inv_def nth_list_update drop_arc_def split: if_splits\<close>)
qed

text \<open>
  Entries are distinct, belong to their scope, and contain every \<^verbatim>\<open>KeyedMutex\<close> that has an
  owner; one that is being destroyed has none, and the entries still to be visited by a
  \<^verbatim>\<open>prune_stale\<close> are in the map.
\<close>

definition map_inv :: "'k coordinator \<Rightarrow> bool" where
  "map_inv s \<longleftrightarrow> distinct (map fst (co_entries s)) \<and>
     (\<forall>e \<in> set (co_entries s). snd e < length (co_scopes s) \<and> co_scopes s ! snd e = fst e) \<and>
     (\<forall>t < length (co_threads s). \<forall>n. arc_of (co_threads s ! t) = Some n \<longrightarrow> n < length (co_scopes s) \<and> (co_scopes s ! n, n) \<in> set (co_entries s)) \<and>
     (\<forall>t < length (co_threads s). \<forall>n p. co_threads s ! t = Destroying n p \<longrightarrow>
        n < length (co_scopes s) \<and> \<not> upgradable s n \<and> arc_of p = None \<and> (\<forall>m q. p \<noteq> Destroying m q)) \<and>
     (\<forall>t < length (co_threads s). \<exists>before. in_section (co_threads s ! t) \<longrightarrow> co_entries s = before @ to_visit (co_threads s ! t))"

lemma map_inv_arc:
  "map_inv s \<Longrightarrow> t < length (co_threads s) \<Longrightarrow> arc_of (co_threads s ! t) = Some n \<Longrightarrow>
     n < length (co_scopes s) \<and> (co_scopes s ! n, n) \<in> set (co_entries s) \<and> upgradable s n"
  by (auto simp: map_inv_def upgradable_nth)

lemma map_inv_entry:
  "map_inv s \<Longrightarrow> e \<in> set (co_entries s) \<Longrightarrow> snd e < length (co_scopes s) \<and> co_scopes s ! snd e = fst e"
  by (auto simp: map_inv_def)

lemma map_inv_visit:
  "map_inv s \<Longrightarrow> t < length (co_threads s) \<Longrightarrow> in_section (co_threads s ! t) \<Longrightarrow> \<exists>before. co_entries s = before @ to_visit (co_threads s ! t)"
  by (auto simp: map_inv_def)

lemma map_inv_goto:
  assumes "map_inv s" and t: "t < length (co_threads s)"
    and arc: "\<And>n. arc_of p = Some n \<Longrightarrow> n < length (co_scopes s) \<and> (co_scopes s ! n, n) \<in> set (co_entries s)"
    and alive: "\<And>n u q. arc_of p = Some n \<Longrightarrow> u < length (co_threads s) \<Longrightarrow> co_threads s ! u \<noteq> Destroying n q"
    and dead: "\<And>n q. p = Destroying n q \<Longrightarrow>
       n < length (co_scopes s) \<and> \<not> upgradable (goto t p s) n \<and> arc_of q = None \<and> (\<forall>m r. q \<noteq> Destroying m r)"
    and visit: "in_section p \<Longrightarrow> \<exists>before. co_entries s = before @ to_visit p"
  shows "map_inv (goto t p s)"
proof -
  have up: "arc_of p = Some n \<or> upgradable s n" if "upgradable (goto t p s) n" for n
    using that t by (auto simp: upgradable_goto) (auto simp: upgradable_nth)
  have "n < length (co_scopes s) \<and> (co_scopes s ! n, n) \<in> set (co_entries s)"
    if "u < length (co_threads (goto t p s))" "arc_of (co_threads (goto t p s) ! u) = Some n" for u n
    using that arc map_inv_arc [OF assms(1), of u n] t by (cases "u = t") auto
  moreover have "n < length (co_scopes s) \<and> \<not> upgradable (goto t p s) n \<and> arc_of q = None \<and> (\<forall>m r. q \<noteq> Destroying m r)"
    if u: "u < length (co_threads (goto t p s))" "co_threads (goto t p s) ! u = Destroying n q" for u n q
  proof (cases "u = t")
    case True
    with u t dead show ?thesis by auto
  next
    case False
    with u have d: "co_threads s ! u = Destroying n q" "u < length (co_threads s)" by auto
    moreover from d alive up assms(1) have "\<not> upgradable (goto t p s) n" unfolding map_inv_def by blast
    ultimately show ?thesis using assms(1) unfolding map_inv_def by blast
  qed
  moreover have "\<exists>before. in_section (co_threads (goto t p s) ! u) \<longrightarrow> co_entries s = before @ to_visit (co_threads (goto t p s) ! u)"
    if "u < length (co_threads (goto t p s))" for u
    using that visit map_inv_visit [OF assms(1), of u] t by (cases "u = t") auto
  moreover have "distinct (map fst (co_entries s))" "\<forall>e \<in> set (co_entries s). snd e < length (co_scopes s) \<and> co_scopes s ! snd e = fst e"
    using assms(1) by (simp_all add: map_inv_def)
  ultimately show ?thesis unfolding map_inv_def goto_simps(1,3) by blast
qed

lemma map_inv_alive: "map_inv s \<Longrightarrow> upgradable s n \<Longrightarrow> u < length (co_threads s) \<Longrightarrow> co_threads s ! u \<noteq> Destroying n q"
  by (auto simp: map_inv_def)

lemma map_inv_lock [simp]: "map_inv (s\<lparr>co_lock := l\<rparr>) = map_inv s"
  by (simp add: map_inv_def upgradable_def)

lemma map_inv_drop_arc:
  assumes "map_inv s" and "t < length (co_threads s)" and "arc_of (co_threads s ! t) = Some n" and "arc_of p = None"
    and "in_section p \<Longrightarrow> \<exists>before. co_entries s = before @ to_visit p" and "\<And>m q. p \<noteq> Destroying m q"
  shows "map_inv (drop_arc t n p s)"
proof (cases "upgradable (goto t p s) n")
  case True
  with assms show ?thesis by (auto simp: drop_arc_def intro!: map_inv_goto)
next
  case False
  then have "\<not> upgradable (goto t (Destroying n p) s) n" using assms(2,4) by (simp add: upgradable_goto)
  with False map_inv_arc [OF assms(1-3)] assms show ?thesis by (auto simp: drop_arc_def intro!: map_inv_goto)
qed

text \<open>Removing an entry that nobody owns, while no other thread is inside \<^verbatim>\<open>prune_stale\<close>.\<close>

lemma map_inv_remove:
  assumes "map_inv s" and "\<And>n. (k, n) \<in> set (co_entries s) \<Longrightarrow> \<not> upgradable s n"
    and "\<forall>u < length (co_threads s). \<not> in_section (co_threads s ! u)"
  shows "map_inv (s\<lparr>co_entries := filter (\<lambda>e. fst e \<noteq> k) (co_entries s)\<rparr>)"
proof -
  have "co_scopes s ! n \<noteq> k" if "u < length (co_threads s)" "arc_of (co_threads s ! u) = Some n" for u n
    using map_inv_arc [OF assms(1) that] assms(2) by metis
  moreover have "distinct (map fst (filter P es))" if "distinct (map fst es)" for P and es :: "('a \<times> nat) list"
    using that by (rule distinct_map_filter)
  ultimately show ?thesis using assms(1,3) unfolding map_inv_def by (auto simp: upgradable_def)
qed

lemma map_inv_next:
  assumes "lock_inv s" and "map_inv s" and t: "t < length (co_threads s)" and "coordinator_next t a s = Some s'"
  shows "map_inv s'"
proof -
  from assms(1) have free: "\<forall>u < length (co_threads s). \<not> in_section (co_threads s ! u)" if "co_lock s = None"
    using that by (simp add: lock_inv_def)
  from assms(4) show ?thesis
  proof (cases rule: coordinator_next_cases)
    case (Call g)
    with assms(2) t show ?thesis by (auto intro!: map_inv_goto)
  next
    case (Lock g)
    with assms(2) t show ?thesis by (auto intro!: map_inv_goto)
  next
    case (Unlock g p)
    with assms(2) t show ?thesis by (auto intro!: map_inv_goto)
  next
    case (Visit g e rest)
    from map_inv_visit [OF assms(2) t] Visit(1) obtain before where b: "co_entries s = before @ e # rest" by auto
    with Visit map_inv_entry [OF assms(2), of e] map_inv_alive [OF assms(2) Visit(2)] assms(2) t show ?thesis by (cases e) (auto intro!: map_inv_goto)
  next
    case (Forget g e rest)
    from map_inv_visit [OF assms(2) t] Forget(1) obtain before where b: "co_entries s = before @ e # rest" by auto
    let ?s0 = "goto t Idle s"
    have "in_section (co_threads s ! t)" using Forget(1) by simp
    then have "\<forall>u < length (co_threads ?s0). \<not> in_section (co_threads ?s0 ! u)"
      using assms(1) t by (auto simp: lock_inv_def nth_list_update)
    moreover have "map_inv ?s0" using assms(2) t by (auto intro!: map_inv_goto)
    moreover have "\<not> upgradable ?s0 n" if "(fst e, n) \<in> set (co_entries ?s0)" for n
    proof -
      have "distinct (map fst (co_entries s))" using assms(2) by (simp add: map_inv_def)
      with that b have "n = snd e" by (cases e) (auto simp: rev_image_eqI)
      then show ?thesis using Forget(1,2) t by (auto simp: upgradable_goto) (auto simp: upgradable_nth)
    qed
    ultimately have "map_inv (?s0\<lparr>co_entries := filter (\<lambda>e'. fst e' \<noteq> fst e) (co_entries ?s0)\<rparr>)"
      by (intro map_inv_remove) auto
    moreover have "filter (\<lambda>e'. fst e' \<noteq> fst e) (co_entries s) = before @ rest"
    proof -
      have "distinct (map fst (before @ e # rest))" using assms(2) b by (simp add: map_inv_def)
      then have "filter (\<lambda>e'. fst e' \<noteq> fst e) before = before" "filter (\<lambda>e'. fst e' \<noteq> fst e) rest = rest"
        by (auto simp: filter_id_conv rev_image_eqI)
      then show ?thesis unfolding b by simp
    qed
    ultimately have "map_inv (goto t (Pruning g rest) (?s0\<lparr>co_entries := filter (\<lambda>e'. fst e' \<noteq> fst e) (co_entries ?s0)\<rparr>))"
      using t by (auto intro!: map_inv_goto)
    then show ?thesis unfolding Forget(3) by (simp add: goto_def)
  next
    case (Unvisit g n rest)
    from map_inv_visit [OF assms(2) t] Unvisit(1) have "\<exists>before. co_entries s = before @ rest" by auto
    with Unvisit assms(2) t show ?thesis by (auto intro!: map_inv_drop_arc)
  next
    case (Found k n)
    have "(k, n) \<in> set (co_entries s)" using Found(3) by (rule map_of_SomeD)
    with map_inv_entry [OF assms(2) this] map_inv_alive [OF assms(2) Found(4)] Found(4,5) assms(2) t show ?thesis by (auto intro!: map_inv_goto)
  next
    case (New k)
    let ?m = "length (co_scopes s)" and ?es = "filter (\<lambda>e. fst e \<noteq> k) (co_entries s)"
    have dist: "distinct (map fst (co_entries s))" using assms(2) by (simp add: map_inv_def)
    have old: "\<not> upgradable s n" if "(k, n) \<in> set (co_entries s)" for n
      using New(3) dist that by simp
    from map_inv_remove [OF assms(2) old free [OF New(2)]]
    have base: "map_inv (s\<lparr>co_entries := ?es\<rparr>)" .
    have "map_inv (s\<lparr>co_entries := (k, ?m) # ?es, co_scopes := co_scopes s @ [k]\<rparr>)"
      using base free [OF New(2)] by (auto simp: map_inv_def upgradable_def nth_append less_Suc_eq)
    moreover have "co_threads s ! u \<noteq> Destroying ?m q" if "u < length (co_threads s)" for u q
      using assms(2) that by (auto simp: map_inv_def)
    ultimately show ?thesis unfolding New(4) using t by (intro map_inv_goto) (auto simp: nth_append)
  next
    case (Count p)
    with assms(2) t show ?thesis by (auto intro!: map_inv_goto)
  next
    case (Lease k n)
    with map_inv_arc [OF assms(2) t, of n] map_inv_alive [OF assms(2), of n] assms(2) t show ?thesis by (auto intro!: map_inv_goto)
  next
    case (Release n)
    with map_inv_arc [OF assms(2) t, of n] map_inv_alive [OF assms(2), of n] assms(2) t show ?thesis by (auto intro!: map_inv_goto)
  next
    case (Drop n)
    with assms(2) t show ?thesis by (auto intro!: map_inv_drop_arc)
  next
    case (Destroy n p)
    from assms(2) t Destroy(1) have n: "\<not> upgradable s n" "arc_of p = None" "\<And>m q. p \<noteq> Destroying m q" by (auto simp: map_inv_def)
    from free [OF Destroy(2)] t Destroy(1) have p: "\<not> in_section p" by fastforce
    have "map_inv (keyed_mutex_drop n s)"
    proof (cases "map_of (co_entries s) (co_scopes s ! n) = Some n")
      case True
      have "distinct (map fst (co_entries s))" using assms(2) by (simp add: map_inv_def)
      with True n(1) have "\<not> upgradable s m" if "(co_scopes s ! n, m) \<in> set (co_entries s)" for m using that by auto
      from map_inv_remove [OF assms(2) this free [OF Destroy(2)]] True show ?thesis by (simp add: keyed_mutex_drop_def)
    next
      case False
      with assms(2) show ?thesis by (simp add: keyed_mutex_drop_def)
    qed
    with n p t show ?thesis unfolding Destroy(3) by (auto intro!: map_inv_goto)
  qed
qed

text \<open>A lease is for the scope of its mutex, and a mutex has one lease.\<close>

definition lease_inv :: "'k coordinator \<Rightarrow> bool" where
  "lease_inv s \<longleftrightarrow>
     (\<forall>t < length (co_threads s). \<forall>k n. co_threads s ! t = Waiting k n \<or> co_threads s ! t = Leased k n \<longrightarrow> co_scopes s ! n = k) \<and>
     (\<forall>t < length (co_threads s). \<forall>u < length (co_threads s). \<forall>k l n. co_threads s ! t = Leased k n \<longrightarrow> co_threads s ! u = Leased l n \<longrightarrow> t = u)"

lemma mutex_freeD: "mutex_free s n \<Longrightarrow> u < length (co_threads s) \<Longrightarrow> co_threads s ! u \<noteq> Leased l n"
  by (auto simp: mutex_free_def dest!: bspec [OF _ nth_mem])

lemma lease_inv_goto:
  assumes "lease_inv s" and "t < length (co_threads s)"
    and "\<And>k n. p = Waiting k n \<or> p = Leased k n \<Longrightarrow> co_scopes s ! n = k"
    and "\<And>k n. p = Leased k n \<Longrightarrow> mutex_free s n"
  shows "lease_inv (goto t p s)"
proof -
  have "co_threads s ! u \<noteq> Leased l n" if "u < length (co_threads s)" "p = Leased k n" for u k l n
    using mutex_freeD [OF assms(4) [OF that(2)] that(1)] .
  with assms(1-3) show ?thesis unfolding lease_inv_def
    by (intro conjI allI impI) (auto simp: nth_list_update split: if_splits)
qed

lemma lease_inv_simps [simp]:
  "lease_inv (s\<lparr>co_lock := l\<rparr>) = lease_inv s" "lease_inv (s\<lparr>co_entries := es\<rparr>) = lease_inv s"
  "lease_inv (keyed_mutex_drop n s) = lease_inv s"
  by (simp_all add: lease_inv_def)

lemma lease_inv_next:
  assumes "map_inv s" and "lease_inv s" and t: "t < length (co_threads s)" and "coordinator_next t a s = Some s'"
  shows "lease_inv s'"
  using assms(4)
proof (cases rule: coordinator_next_cases)
  case (Found k n)
  have "co_scopes s ! n = k" using map_inv_entry [OF assms(1) map_of_SomeD [OF Found(3)]] by simp
  with Found assms(2) t show ?thesis by (auto intro!: lease_inv_goto)
next
  case (New k)
  let ?s1 = "s\<lparr>co_entries := (k, length (co_scopes s)) # filter (\<lambda>e. fst e \<noteq> k) (co_entries s), co_scopes := co_scopes s @ [k]\<rparr>"
  have "(co_scopes s @ [k]) ! n = co_scopes s ! n" if "u < length (co_threads s)" "arc_of (co_threads s ! u) = Some n" for u n
    using map_inv_arc [OF assms(1) that] by (simp add: nth_append)
  then have "lease_inv ?s1" using assms(2) unfolding lease_inv_def by fastforce
  with New t show ?thesis by (auto intro!: lease_inv_goto)
next
  case (Lease k n)
  from assms(2) t Lease(1) have "co_scopes s ! n = k" unfolding lease_inv_def by blast
  with Lease assms(2) t show ?thesis by (auto intro!: lease_inv_goto)
next
  case (Destroy n p)
  with assms(1) t have "arc_of p = None" by (auto simp: map_inv_def)
  with assms(2) t show ?thesis unfolding Destroy(3) by (auto intro!: lease_inv_goto)
qed (use assms(2) t in \<open>auto simp: drop_arc_def intro!: lease_inv_goto\<close>)

text \<open>Every entry of the map has an owner, or a thread that is about to remove it.\<close>

definition attends :: "'k point \<Rightarrow> nat \<Rightarrow> bool" where
  "attends p n \<longleftrightarrow> arc_of p = Some n \<or> (\<exists>q. p = Destroying n q)"

definition leak_inv :: "'k coordinator \<Rightarrow> bool" where
  "leak_inv s \<longleftrightarrow> (\<forall>e \<in> set (co_entries s). \<exists>t < length (co_threads s). attends (co_threads s ! t) (snd e))"

lemma leak_inv_goto:
  assumes "leak_inv s" and "t < length (co_threads s)" and "set (co_entries s') \<subseteq> set (co_entries s)" and "co_threads s' = co_threads s"
    and "\<And>e. e \<in> set (co_entries s') \<Longrightarrow> attends (co_threads s ! t) (snd e) \<Longrightarrow>
       attends p (snd e) \<or> (\<exists>u < length (co_threads s). u \<noteq> t \<and> attends (co_threads s ! u) (snd e))"
  shows "leak_inv (goto t p s')"
  unfolding leak_inv_def
proof
  fix e assume e: "e \<in> set (co_entries (goto t p s'))"
  with assms(1,3) obtain u where u: "u < length (co_threads s)" "attends (co_threads s ! u) (snd e)" by (auto simp: leak_inv_def)
  with assms(5) [of e] e have "attends p (snd e) \<or> (\<exists>u < length (co_threads s). u \<noteq> t \<and> attends (co_threads s ! u) (snd e))" by auto
  with assms(2,4) show "\<exists>v < length (co_threads (goto t p s')). attends (co_threads (goto t p s') ! v) (snd e)"
    by (auto simp: nth_list_update)
qed

lemma leak_inv_drop_arc:
  assumes "leak_inv s" and "t < length (co_threads s)" and "arc_of (co_threads s ! t) = Some n"
  shows "leak_inv (drop_arc t n p s)"
proof (cases "upgradable (goto t p s) n")
  case True
  have "\<not> (\<exists>q. co_threads s ! t = Destroying m q)" for m using assms(3) by auto
  with True assms show ?thesis unfolding drop_arc_def if_P [OF True]
    by (intro leak_inv_goto [OF assms(1,2)]) (auto simp: attends_def upgradable_goto)
next
  case False
  have "\<not> (\<exists>q. co_threads s ! t = Destroying m q)" for m using assms(3) by auto
  with False assms show ?thesis unfolding drop_arc_def if_not_P [OF False]
    by (intro leak_inv_goto [OF assms(1,2)]) (auto simp: attends_def)
qed

lemma leak_inv_next:
  assumes "map_inv s" and "leak_inv s" and t: "t < length (co_threads s)" and "coordinator_next t a s = Some s'"
  shows "leak_inv s'"
  using assms(4)
proof (cases rule: coordinator_next_cases)
  case (Unvisit g n rest)
  with leak_inv_drop_arc [OF assms(2) t] show ?thesis by simp
next
  case (New k)
  let ?s1 = "s\<lparr>co_entries := filter (\<lambda>e. fst e \<noteq> k) (co_entries s)\<rparr>"
  have "leak_inv (goto t (Waiting k (length (co_scopes s))) ?s1)"
    using New(1) by (intro leak_inv_goto [OF assms(2) t]) (auto simp: attends_def)
  with t show ?thesis unfolding New(4) leak_inv_def by (auto simp: attends_def goto_def)
next
  case (Drop n)
  with leak_inv_drop_arc [OF assms(2) t] show ?thesis by simp
next
  case (Destroy n p)
  have "attends (co_threads s ! t) m \<Longrightarrow> m = n" for m using Destroy(1) by (auto simp: attends_def)
  moreover have "snd e \<noteq> n" if "e \<in> set (co_entries (keyed_mutex_drop n s))" for e
  proof
    assume n: "snd e = n"
    have e: "e \<in> set (co_entries s)" using that by (auto simp: keyed_mutex_drop_def Let_def split: if_splits)
    with map_inv_entry [OF assms(1), of e] n have "fst e = co_scopes s ! n" by simp
    moreover have "map_of (co_entries s) (fst e) = Some n"
      using assms(1) e n by (cases e) (simp add: map_inv_def)
    ultimately show False using that by (auto simp: keyed_mutex_drop_def)
  qed
  ultimately show ?thesis unfolding Destroy(3)
    by (intro leak_inv_goto [OF assms(2) t]) (auto simp: keyed_mutex_drop_def Let_def)
qed (use t in \<open>auto simp: attends_def intro!: leak_inv_goto [OF assms(2) t]\<close>)

definition coordinator_inv :: "'k coordinator \<Rightarrow> bool" where
  [inv_defs]: "coordinator_inv s \<longleftrightarrow> lock_inv s \<and> map_inv s \<and> lease_inv s \<and> leak_inv s"

lemma coordinator_inv_new: "coordinator_inv (coordinator_new n)"
  by (simp add: inv_defs coordinator_new_def lock_inv_def map_inv_def lease_inv_def leak_inv_def)

lemma coordinator_step_inv: "coordinator_step s s' \<Longrightarrow> coordinator_inv s \<Longrightarrow> coordinator_inv s'"
  unfolding coordinator_inv_def by (elim coordinator_stepE) (blast intro: lock_inv_next map_inv_next lease_inv_next leak_inv_next)

lemma coordinator_steps_inv: "coordinator_steps s s' \<Longrightarrow> coordinator_inv s \<Longrightarrow> coordinator_inv s'"
  by (induction rule: rtranclp_induct) (blast intro: coordinator_step_inv)+

section \<open>Properties\<close>

text \<open>
  C17. Mutual exclusion: in every state the coordinator can reach, however its threads
  interleave and are cancelled, at most one thread holds a lease for a scope.
\<close>

theorem leases_are_exclusive:
  assumes "coordinator_steps (coordinator_new threads) s"
    and "t < length (co_threads s)" and "u < length (co_threads s)"
    and "co_threads s ! t = Leased k n" and "co_threads s ! u = Leased k m"
  shows "t = u"
proof -
  from coordinator_steps_inv [OF assms(1) coordinator_inv_new] have inv: "map_inv s" "lease_inv s" by (simp_all add: inv_defs)
  from inv(2) assms(2-5) have k: "co_scopes s ! n = k" "co_scopes s ! m = k" unfolding lease_inv_def by blast+
  from map_inv_arc [OF inv(1) assms(2)] map_inv_arc [OF inv(1) assms(3)] assms(4,5) k
  have "(k, n) \<in> set (co_entries s)" "(k, m) \<in> set (co_entries s)" by simp_all
  moreover have "distinct (map fst (co_entries s))" using inv(1) by (simp add: map_inv_def)
  ultimately have "n = m" by (metis eq_key_imp_eq_value)
  with inv(2) assms(2-5) show ?thesis unfolding lease_inv_def by blast
qed

text \<open>
  Scopes are forgotten: the map never has more entries than there are threads inside
  the coordinator, so it is empty once every lease is released and every call is over.
\<close>

theorem scopes_are_forgotten:
  assumes "coordinator_steps (coordinator_new threads) s"
  shows "length (co_entries s) \<le> length (filter (\<lambda>p. p \<noteq> Idle) (co_threads s)) \<and>
    ((\<forall>p \<in> set (co_threads s). p = Idle) \<longrightarrow> co_entries s = [])"
proof -
  from coordinator_steps_inv [OF assms coordinator_inv_new] have inv: "map_inv s" "leak_inv s" by (simp_all add: inv_defs)
  from inv(2) have "\<forall>e \<in> set (co_entries s). \<exists>t. t < length (co_threads s) \<and> attends (co_threads s ! t) (snd e)"
    by (simp add: leak_inv_def)
  then obtain who where who: "\<forall>e \<in> set (co_entries s). who e < length (co_threads s) \<and> attends (co_threads s ! who e) (snd e)"
    by (rule bchoice [THEN exE])
  have key: "fst e = co_scopes s ! snd e" if "e \<in> set (co_entries s)" for e using map_inv_entry [OF inv(1) that] by simp
  have one: "m = n" if "attends p n" "attends p m" for p :: "'a point" and n m using that by (cases p) (auto simp: attends_def)
  have dist: "distinct (map fst (co_entries s))" using inv(1) by (simp add: map_inv_def)
  have "inj_on who (set (co_entries s))"
  proof (rule inj_onI)
    fix e f assume ef: "e \<in> set (co_entries s)" "f \<in> set (co_entries s)" "who e = who f"
    with who have "attends (co_threads s ! who e) (snd e)" "attends (co_threads s ! who e) (snd f)" by auto
    then have "snd f = snd e" by (rule one)
    with key ef(1,2) show "e = f" by (metis prod.expand)
  qed
  moreover have "who ` set (co_entries s) \<subseteq> {t. t < length (co_threads s) \<and> co_threads s ! t \<noteq> Idle}"
  proof clarify
    fix e assume "e \<in> set (co_entries s)"
    with who show "who e < length (co_threads s) \<and> co_threads s ! who e \<noteq> Idle" by (auto simp: attends_def)
  qed
  ultimately have "card (set (co_entries s)) \<le> card {t. t < length (co_threads s) \<and> co_threads s ! t \<noteq> Idle}"
    by (intro card_inj_on_le) auto
  moreover have "card (set (co_entries s)) = length (co_entries s)"
    using dist by (simp add: distinct_card distinct_map)
  ultimately have "length (co_entries s) \<le> length (filter (\<lambda>p. p \<noteq> Idle) (co_threads s))"
    by (simp add: length_filter_conv_card)
  moreover from this have "co_entries s = []" if "\<forall>p \<in> set (co_threads s). p = Idle" using that by simp
  ultimately show ?thesis by blast
qed

text \<open>A thread that runs the destructor of an entry while it is itself inside \<^verbatim>\<open>prune_stale\<close>.\<close>

definition self_deadlocked :: "nat \<Rightarrow> 'k coordinator \<Rightarrow> bool" where
  "self_deadlocked t s \<longleftrightarrow> t < length (co_threads s) \<and> co_lock s = Some t \<and>
     (\<exists>n g rest. co_threads s ! t = Destroying n (Pruning g rest))"

lemma mutex_taken:
  assumes "\<not> mutex_free s n"
  obtains u l where "u < length (co_threads s)" "co_threads s ! u = Leased l n"
proof -
  from assms obtain p where p: "p \<in> set (co_threads s)" "\<not> (case p of Leased k m \<Rightarrow> m \<noteq> n | _ \<Rightarrow> True)" unfolding mutex_free_def by blast
  from p(2) obtain l where "p = Leased l n" by (cases p) auto
  with p(1) that show ?thesis by (metis in_set_conv_nth)
qed

text \<open>
  C28. That is the only way to get stuck: in every reachable state with a call or a lease in
  progress, some thread can take its next step, unless a thread is deadlocked with itself.
\<close>

theorem coordinator_progress:
  assumes "coordinator_steps (coordinator_new threads) s" and "t < length (co_threads s)" and "co_threads s ! t \<noteq> Idle"
    and "\<forall>u. \<not> self_deadlocked u s"
  shows "\<exists>u < length (co_threads s). co_threads s ! u \<noteq> Idle \<and> coordinator_next u Continue s \<noteq> None"
proof (cases "co_lock s")
  case (Some u)
  from coordinator_steps_inv [OF assms(1) coordinator_inv_new] have inv: "lock_inv s" "map_inv s" by (simp_all add: inv_defs)
  from inv(1) Some have u: "u < length (co_threads s)" "in_section (co_threads s ! u)" by (auto simp: lock_inv_def)
  show ?thesis
  proof (cases "co_threads s ! u")
    case (Pruning g rest)
    with u(1) show ?thesis by (cases rest) (auto simp: coordinator_next_def intro!: exI [of _ u])
  next
    case (Upgraded g n rest)
    with u(1) show ?thesis by (auto simp: coordinator_next_def intro!: exI [of _ u])
  next
    case (Destroying n p)
    with inv(2) u(1) have "arc_of p = None" "\<forall>m q. p \<noteq> Destroying m q" by (auto simp: map_inv_def)
    with u(2) Destroying obtain g rest where "p = Pruning g rest" by (cases p) auto
    with u(1) Some Destroying assms(4) show ?thesis by (auto simp: self_deadlocked_def)
  qed (use u(2) in auto)
next
  case None
  show ?thesis
  proof (cases "coordinator_next t Continue s")
    case (Some s')
    with assms(2,3) show ?thesis by auto
  next
    case blocked: None
    then obtain k n where "co_threads s ! t = Waiting k n" "\<not> mutex_free s n"
      using assms(3) None by (auto simp: coordinator_next_def split: point.splits list.splits if_splits)
    from mutex_taken [OF this(2)] obtain l u where "u < length (co_threads s)" "co_threads s ! u = Leased l n" .
    then show ?thesis by (auto simp: coordinator_next_def intro!: exI [of _ u])
  qed
qed

text \<open>Schedules, to name concrete executions.\<close>

fun run_schedule :: "(nat \<times> 'k action) list \<Rightarrow> 'k coordinator \<Rightarrow> 'k coordinator option" where
  "run_schedule [] s = Some s"
| "run_schedule ((t, a) # rest) s =
     (if t < length (co_threads s) then Option.bind (coordinator_next t a s) (run_schedule rest) else None)"

lemma run_schedule_steps: "run_schedule sched s = Some s' \<Longrightarrow> coordinator_steps s s'"
proof (induction sched arbitrary: s)
  case (Cons x sched)
  obtain t a where x: "x = (t, a)" by fastforce
  with Cons.prems obtain s1 where "t < length (co_threads s)" "coordinator_next t a s = Some s1" "run_schedule sched s1 = Some s'"
    by (auto split: if_splits bind_splits)
  with Cons.IH show ?case by (meson converse_rtranclp_into_rtranclp coordinator_step.intros)
qed simp

section \<open>The self-deadlock\<close>

lemma self_deadlock_step:
  assumes "coordinator_inv s" and "self_deadlocked t s" and "coordinator_step s s'"
  shows "self_deadlocked t s' \<and> co_threads s' ! t = co_threads s ! t"
proof -
  from assms(2) obtain n g rest where d: "t < length (co_threads s)" "co_lock s = Some t" "co_threads s ! t = Destroying n (Pruning g rest)"
    by (auto simp: self_deadlocked_def)
  from assms(3) obtain u a where u: "u < length (co_threads s)" "coordinator_next u a s = Some s'" by (blast elim: coordinator_stepE)
  from assms(1) u(1) have sec: "in_section (co_threads s ! u) \<longleftrightarrow> u = t" using d(2) by (auto simp: inv_defs lock_inv_def)
  have "u \<noteq> t" using u(2) d by (auto simp: coordinator_next_def)
  with sec have free: "\<not> in_section (co_threads s ! u)" by simp
  from u(2) have "co_lock s' = Some t \<and> length (co_threads s') = length (co_threads s) \<and> co_threads s' ! t = co_threads s ! t"
    by (cases rule: coordinator_next_cases) (use d(2) free \<open>u \<noteq> t\<close> in \<open>auto simp: drop_arc_def\<close>)
  with d show ?thesis by (auto simp: self_deadlocked_def)
qed

lemma self_deadlock_permanent:
  assumes "coordinator_steps s s'" and "coordinator_inv s" and "self_deadlocked t s"
  shows "self_deadlocked t s' \<and> co_threads s' ! t = co_threads s ! t"
  using assms(1)
proof (induction rule: rtranclp_induct)
  case (step s1 s2)
  with coordinator_steps_inv [OF step.hyps(1) assms(2)] self_deadlock_step [of s1 t s2] show ?case by auto
qed (simp add: assms(3))

text \<open>
  It can be reached: a lease is released while another call to \<^verbatim>\<open>acquire\<close> holds the upgraded
  reference of its entry inside \<^verbatim>\<open>prune_stale\<close>. From then on no call of \<^verbatim>\<open>acquire\<close> or
  \<^verbatim>\<open>key_count\<close> gets past \<^verbatim>\<open>prune_stale\<close>.
\<close>

definition deadlock_schedule :: "(nat \<times> nat action) list" where
  "deadlock_schedule =
     [(0, Acquire 7), (0, Continue), (0, Continue), (0, Continue), (0, Continue), (1, Acquire 8), (1, Continue), (1, Continue),
      (0, Continue), (0, Continue), (1, Continue)]"

definition deadlock_state :: "nat coordinator" where
  "deadlock_state = the (run_schedule deadlock_schedule (coordinator_new 2))"

lemma deadlock_reached:
  "run_schedule deadlock_schedule (coordinator_new 2) = Some deadlock_state" "self_deadlocked 1 deadlock_state"
proof -
  have "run_schedule deadlock_schedule (coordinator_new 2) =
    Some \<lparr>co_entries = [(7, 0)], co_lock = Some 1, co_scopes = [7], co_threads = [Idle, Destroying 0 (Pruning (Some 8) [])]\<rparr>"
    by code_simp
  then show "run_schedule deadlock_schedule (coordinator_new 2) = Some deadlock_state" "self_deadlocked 1 deadlock_state"
    by (simp_all add: deadlock_state_def self_deadlocked_def)
qed

lemma prune_stale_can_deadlock:
  "coordinator_steps (coordinator_new 2) deadlock_state \<and>
   (\<forall>s t g. coordinator_steps deadlock_state s \<longrightarrow> co_threads s ! t = PruneStart g \<longrightarrow> coordinator_next t Continue s = None)"
proof -
  have reach: "coordinator_steps (coordinator_new 2) deadlock_state" by (rule run_schedule_steps [OF deadlock_reached(1)])
  have "co_lock s = Some 1" if "coordinator_steps deadlock_state s" for s
    using self_deadlock_permanent [OF that coordinator_steps_inv [OF reach coordinator_inv_new] deadlock_reached(2)]
    by (simp add: self_deadlocked_def)
  with reach show ?thesis by (auto simp: coordinator_next_def)
qed

section \<open>A sample execution\<close>

definition contended_state :: "nat coordinator" where
  "contended_state = \<lparr>co_entries = [(8, 1), (7, 0)], co_lock = None, co_scopes = [7, 8],
     co_threads = [Leased 7 0, Waiting 7 0, Leased 8 1]\<rparr>"

lemma contended_reached: "coordinator_steps (coordinator_new 3) contended_state"
proof (rule run_schedule_steps)
  show "run_schedule
     ([(0, Acquire 7)] @ replicate 4 (0, Continue) @ [(1, Acquire 7)] @ replicate 5 (1, Continue) @ [(2, Acquire 8)] @ replicate 6 (2, Continue))
     (coordinator_new 3) = Some contended_state"
    by code_simp
qed

theorem leases_are_exclusive_witness:
  "co_threads contended_state ! 0 = Leased 7 0 \<and> {u \<in> {..<3}. \<exists>m. co_threads contended_state ! u = Leased 7 m} = {0}"
proof -
  have len: "length (co_threads contended_state) = 3" and zero: "co_threads contended_state ! 0 = Leased 7 0"
    by (simp_all add: contended_state_def)
  then have "u = 0" if "u < 3" "co_threads contended_state ! u = Leased 7 m" for u m
    using leases_are_exclusive [OF contended_reached, of u 0 7 m 0] that by simp
  with zero show ?thesis by auto
qed

theorem scopes_are_forgotten_witness:
  "length (co_entries contended_state) = 2 \<and> length (co_entries contended_state) \<le> length (filter (\<lambda>p. p \<noteq> Idle) (co_threads contended_state))"
  using scopes_are_forgotten [OF contended_reached] by (simp add: contended_state_def)

theorem coordinator_progress_witness:
  "\<exists>u < 3. co_threads contended_state ! u \<noteq> Idle \<and> coordinator_next u Continue contended_state \<noteq> None"
proof -
  have "co_threads contended_state ! 1 \<noteq> Idle" "1 < length (co_threads contended_state)" "\<forall>u. \<not> self_deadlocked u contended_state"
    "length (co_threads contended_state) = 3"
    by (simp_all add: contended_state_def self_deadlocked_def)
  then show ?thesis using coordinator_progress [OF contended_reached, of 1] by simp
qed

end
