(* ===== verification/Task_Pool.thy ===== *)
theory Task_Pool
  imports Prelude
begin

text \<open>
  What the two accept loops share: a semaphore that hands out permits and a set of
  connection tasks that is waited for at shutdown, first for a grace period and then after
  aborting what is left. The semaphore is tokio's and an argument; \<open>task_pool\<close> is the contract
  of an owner of connection tasks, and the waiting is proved to end from that contract alone.
\<close>

section \<open>Semaphores\<close>

text \<open>
  \<^verbatim>\<open>Semaphore::new\<close> (which panics on a number of permits it cannot represent),
  \<^verbatim>\<open>try_acquire_owned\<close>, and the drop of a permit.
\<close>

record 'q semaphore_ops =
  sem_new :: "nat \<Rightarrow> 'q option"
  sem_try_acquire :: "'q \<Rightarrow> 'q option"
  sem_release :: "'q \<Rightarrow> 'q"

text \<open>Its documentation: \<open>avail\<close> is \<^verbatim>\<open>available_permits\<close>, \<open>max_permits\<close> is \<^verbatim>\<open>Semaphore::MAX_PERMITS\<close>.\<close>

definition semaphore_ok :: "'q semaphore_ops \<Rightarrow> ('q \<Rightarrow> nat) \<Rightarrow> nat \<Rightarrow> bool" where
  "semaphore_ok sem avail max_permits \<longleftrightarrow>
     (\<forall>n. case sem_new sem n of None \<Rightarrow> max_permits < n | Some q \<Rightarrow> n \<le> max_permits \<and> avail q = n) \<and>
     (\<forall>q. case sem_try_acquire sem q of None \<Rightarrow> avail q = 0 | Some q' \<Rightarrow> avail q = Suc (avail q')) \<and>
     (\<forall>q. avail (sem_release sem q) = Suc (avail q))"

lemma semaphore_okD:
  assumes "semaphore_ok sem avail m"
  shows "sem_new sem n = Some q \<Longrightarrow> avail q = n" and "sem_new sem n = None \<longleftrightarrow> m < n"
    and "sem_try_acquire sem q = None \<longleftrightarrow> avail q = 0" and "sem_try_acquire sem q = Some q' \<Longrightarrow> avail q = Suc (avail q')"
    and "avail (sem_release sem q) = Suc (avail q)"
proof -
  from assms have n: "case sem_new sem n of None \<Rightarrow> m < n | Some q \<Rightarrow> n \<le> m \<and> avail q = n"
    and a: "case sem_try_acquire sem q of None \<Rightarrow> avail q = 0 | Some q' \<Rightarrow> avail q = Suc (avail q')" for n q
    by (simp_all add: semaphore_ok_def)
  show "sem_new sem n = Some q \<Longrightarrow> avail q = n" and "sem_new sem n = None \<longleftrightarrow> m < n" using n [of n] by (auto split: option.splits)
  show "sem_try_acquire sem q = None \<longleftrightarrow> avail q = 0" and "sem_try_acquire sem q = Some q' \<Longrightarrow> avail q = Suc (avail q')"
    using a [of q] by (auto split: option.splits)
  show "avail (sem_release sem q) = Suc (avail q)" using assms by (simp add: semaphore_ok_def)
qed

text \<open>Counting the tasks that hold a permit.\<close>

lemma filter_update_length:
  "i < length xs \<Longrightarrow> length (filter P (xs[i := x])) + (if P (xs ! i) then 1 else 0) = length (filter P xs) + (if P x then 1 else 0)"
proof (induction xs arbitrary: i)
  case (Cons y ys)
  then show ?case by (cases i) auto
qed simp

definition remove_at :: "nat \<Rightarrow> 'a list \<Rightarrow> 'a list" where
  "remove_at i xs = take i xs @ drop (Suc i) xs"

lemma filter_remove_at: "i < length xs \<Longrightarrow> length (filter P (remove_at i xs)) + (if P (xs ! i) then 1 else 0) = length (filter P xs)"
  by (subst (3) id_take_nth_drop [of i xs]) (simp_all add: remove_at_def)

section \<open>Waiting for tasks\<close>

text \<open>
  \<^verbatim>\<open>drain\<close>: the loop over \<^verbatim>\<open>join_next\<close> under a timeout, and after the timeout \<^verbatim>\<open>abort_all\<close> and the
  same loop again. \<open>work\<close> is what the tasks do meanwhile; \<open>reap i\<close> is \<^verbatim>\<open>join_next\<close> returning the
  \<open>i\<close>-th task, which it can once that task has ended.
\<close>

datatype drain_phase = DrainWaiting | DrainAborting | DrainDone

inductive drain_step ::
  "('s \<Rightarrow> 's \<Rightarrow> bool) \<Rightarrow> (nat \<Rightarrow> 's \<Rightarrow> 's option) \<Rightarrow> ('s \<Rightarrow> bool) \<Rightarrow> drain_phase \<times> 's \<Rightarrow> drain_phase \<times> 's \<Rightarrow> bool"
  for work reap is_empty where
  task_works: "phase \<noteq> DrainDone \<Longrightarrow> work s s' \<Longrightarrow> drain_step work reap is_empty (phase, s) (phase, s')"
| task_joined: "phase \<noteq> DrainDone \<Longrightarrow> reap i s = Some s' \<Longrightarrow> drain_step work reap is_empty (phase, s) (phase, s')"
| grace_elapsed: "\<not> is_empty s \<Longrightarrow> drain_step work reap is_empty (DrainWaiting, s) (DrainAborting, s)"
| all_joined: "phase \<noteq> DrainDone \<Longrightarrow> is_empty s \<Longrightarrow> drain_step work reap is_empty (phase, s) (DrainDone, s)"

inductive_cases drain_stepE: "drain_step work reap is_empty (phase, s) y"

text \<open>
  The contract of an owner of tasks: \<open>busy t\<close> bounds what a task still does before it
  ends, and every task that has not ended can go on (after an abort, by being cancelled).
\<close>

locale task_pool =
  fixes wf :: "'s \<Rightarrow> bool" and tasks :: "'s \<Rightarrow> 't list" and busy :: "'t \<Rightarrow> nat"
    and work :: "'s \<Rightarrow> 's \<Rightarrow> bool" and reap :: "nat \<Rightarrow> 's \<Rightarrow> 's option"
  assumes work: "wf s \<Longrightarrow> work s s' \<Longrightarrow> wf s' \<and> (\<exists>i t. i < length (tasks s) \<and> tasks s' = (tasks s)[i := t] \<and> busy t < busy (tasks s ! i))"
    and can_work: "wf s \<Longrightarrow> i < length (tasks s) \<Longrightarrow> 0 < busy (tasks s ! i) \<Longrightarrow> \<exists>s'. work s s'"
    and can_reap: "wf s \<Longrightarrow> i < length (tasks s) \<Longrightarrow> busy (tasks s ! i) = 0 \<Longrightarrow> \<exists>s'. reap i s = Some s'"
    and reap: "wf s \<Longrightarrow> reap i s = Some s' \<Longrightarrow> wf s' \<and> i < length (tasks s) \<and> tasks s' = remove_at i (tasks s)"
begin

definition weight :: "'s \<Rightarrow> nat" where
  "weight s = sum_list (map (\<lambda>t. Suc (busy t)) (tasks s))"

lemma weight_at: "i < length ts \<Longrightarrow> sum_list (map f ts) = sum_list (map f (remove_at i ts)) + (f (ts ! i) :: nat)"
  by (subst id_take_nth_drop [of i ts]) (simp_all add: remove_at_def)

lemma weight_work: "wf s \<Longrightarrow> work s s' \<Longrightarrow> weight s' < weight s"
proof -
  assume "wf s" "work s s'"
  from work [OF this] obtain i t where i: "i < length (tasks s)" "tasks s' = (tasks s)[i := t]" "busy t < busy (tasks s ! i)" by blast
  have "remove_at i ((tasks s)[i := t]) = remove_at i (tasks s)" by (simp add: remove_at_def)
  with i weight_at [of i "tasks s" "\<lambda>t. Suc (busy t)"] weight_at [of i "(tasks s)[i := t]" "\<lambda>t. Suc (busy t)"]
  show ?thesis by (simp add: weight_def)
qed

lemma weight_reap: "wf s \<Longrightarrow> reap i s = Some s' \<Longrightarrow> weight s' < weight s"
  using reap [of s i s'] weight_at [of i "tasks s" "\<lambda>t. Suc (busy t)"] by (simp add: weight_def)

fun drain_rank :: "drain_phase \<times> 's \<Rightarrow> nat" where
  "drain_rank (DrainWaiting, s) = weight s + 2"
| "drain_rank (DrainAborting, s) = weight s + 1"
| "drain_rank (DrainDone, s) = 0"

abbreviation draining :: "drain_phase \<times> 's \<Rightarrow> drain_phase \<times> 's \<Rightarrow> bool" where
  "draining \<equiv> drain_step work reap (\<lambda>s. tasks s = [])"

lemma drain_step_decreases: "wf s \<Longrightarrow> draining (phase, s) (phase', s') \<Longrightarrow> wf s' \<and> drain_rank (phase', s') < drain_rank (phase, s)"
  by (erule drain_stepE; cases phase) (auto dest: work reap weight_work weight_reap)

lemma drain_step_done: "draining x (DrainDone, s') \<Longrightarrow> tasks s' = []"
  by (cases x) (auto elim: drain_stepE)

lemma drain_progress:
  assumes "wf s" and "phase \<noteq> DrainDone"
  shows "\<exists>y. draining (phase, s) y"
proof (cases "tasks s")
  case Nil
  with all_joined [where is_empty = "\<lambda>s. tasks s = []", OF assms(2)] show ?thesis by blast
next
  case (Cons t ts)
  then have i: "0 < length (tasks s)" by simp
  show ?thesis
  proof (cases "busy (tasks s ! 0) = 0")
    case True
    from can_reap [OF assms(1) i True] task_joined [where is_empty = "\<lambda>s. tasks s = []", OF assms(2)] show ?thesis by blast
  next
    case False
    with can_work [OF assms(1) i] task_works [where is_empty = "\<lambda>s. tasks s = []", OF assms(2)] show ?thesis by blast
  qed
qed

text \<open>Waiting takes boundedly many steps, is never stuck, and leaves no task behind.\<close>

lemma drain_ends:
  assumes "wf s" and "(draining ^^ n) (DrainWaiting, s) (phase, s')"
  shows "n + drain_rank (phase, s') \<le> drain_rank (DrainWaiting, s)" and "wf s'"
    and "(\<nexists>y. draining (phase, s') y) \<longleftrightarrow> phase = DrainDone" and "phase = DrainDone \<Longrightarrow> tasks s' = []"
proof -
  have "wf s' \<and> n + drain_rank (phase, s') \<le> drain_rank (DrainWaiting, s)"
    using assms(2)
  proof (induction n arbitrary: phase s')
    case (Suc n)
    then obtain p m where m: "(draining ^^ n) (DrainWaiting, s) (p, m)" "draining (p, m) (phase, s')" by auto
    with Suc.IH [OF m(1)] drain_step_decreases [of m p phase s'] show ?case by auto
  qed (use assms(1) in simp)
  then show w: "wf s'" "n + drain_rank (phase, s') \<le> drain_rank (DrainWaiting, s)" by simp_all
  show "(\<nexists>y. draining (phase, s') y) \<longleftrightarrow> phase = DrainDone"
    using drain_progress [OF w(1), of phase] by (auto elim: drain_stepE)
  show "phase = DrainDone \<Longrightarrow> tasks s' = []"
    using assms(2) by (cases n) (auto dest: drain_step_done)
qed

end

end
