(* ===== verification/Server_Lifecycle.thy ===== *)
theory Server_Lifecycle
  imports Prelude
begin

text \<open>
  The process: the lifecycle state machine with its health view (\<^verbatim>\<open>lifecycle.rs\<close>,
  \<^verbatim>\<open>health.rs\<close>), readiness and shutdown of the composed context (\<^verbatim>\<open>context.rs\<close>), and the
  application that binds the listeners, serves and shuts down (\<^verbatim>\<open>application.rs\<close>).

  Calls that leave the process (the node registry, closing a store, binding an address) can
  fail: the \<open>n\<close>-th such call of a run succeeds when \<open>ok n\<close>. The listeners' accept loops
  are a parameter, the result with which they end.
\<close>

section \<open>Lifecycle and health\<close>

datatype lifecycle_state = Starting | Ready | Draining | Stopped

datatype health_state = HealthStarting | HealthReady | HealthDegraded | HealthStopping | HealthStopped

datatype server_error =
    LifecycleFailed lifecycle_state lifecycle_state
  | ConfigFailed string
  | BootstrapFailed string
  | NodeLifecycleFailed string
  | ListenerFailed string
  | ConnectionFailed string
  | ShutdownFailed string

record server_lifecycle =
  lc_state :: lifecycle_state
  lc_health :: health_state

fun health_for :: "lifecycle_state \<Rightarrow> health_state" where
  "health_for Starting = HealthStarting"
| "health_for Ready = HealthReady"
| "health_for Draining = HealthStopping"
| "health_for Stopped = HealthStopped"

definition lifecycle_from_state :: "lifecycle_state \<Rightarrow> server_lifecycle" where
  "lifecycle_from_state st = \<lparr>lc_state = st, lc_health = health_for st\<rparr>"

definition lifecycle_new :: server_lifecycle where
  "lifecycle_new = lifecycle_from_state Stopped"

definition is_ready :: "server_lifecycle \<Rightarrow> bool" where
  "is_ready l \<longleftrightarrow> lc_health l = HealthReady"

definition lifecycle_transition ::
  "lifecycle_state list \<Rightarrow> lifecycle_state \<Rightarrow> server_lifecycle \<Rightarrow> (unit, server_error) result \<times> server_lifecycle" where
  "lifecycle_transition allowed_from to l =
     (if lc_state l \<notin> set allowed_from then (Err (LifecycleFailed (lc_state l) to), l)
      else (Ok (), l\<lparr>lc_state := to, lc_health := health_for to\<rparr>))"

definition lifecycle_start where "lifecycle_start = lifecycle_transition [Stopped] Starting"
definition lifecycle_ready where "lifecycle_ready = lifecycle_transition [Starting] Ready"
definition lifecycle_begin_shutdown where "lifecycle_begin_shutdown = lifecycle_transition [Starting, Ready] Draining"
definition lifecycle_stop where "lifecycle_stop = lifecycle_transition [Draining] Stopped"

section \<open>The context\<close>

datatype node_state = NodeStarting | NodeReady | NodeDraining | NodeOffline

text \<open>
  \<open>ap_registered\<close> is the state under which the registry lists this node. A store is absent,
  open or closed.
\<close>

datatype store_state = Absent | Open | Closed

record application =
  ap_lifecycle :: server_lifecycle
  ap_node_state :: node_state
  ap_registered :: "node_state option"
  ap_event_store :: store_state
  ap_asset_store :: store_state
  ap_catalog_store :: store_state
  ap_listener :: bool
  ap_asset_listener :: bool
  ap_cancelled :: bool
  ap_calls :: nat

type_synonym 'a app = "application \<Rightarrow> ('a, server_error) result \<times> application"

definition app_try :: "'a app \<Rightarrow> ('a \<Rightarrow> 'b app) \<Rightarrow> 'b app" where
  "app_try m f s = (case m s of (Inl e, s') \<Rightarrow> (Err e, s') | (Inr x, s') \<Rightarrow> f x s')"

definition external :: "(nat \<Rightarrow> bool) \<Rightarrow> server_error \<Rightarrow> unit app" where
  "external ok e s = (if ok (ap_calls s) then Ok () else Err e, s\<lparr>ap_calls := Suc (ap_calls s)\<rparr>)"

definition on_lifecycle :: "(server_lifecycle \<Rightarrow> (unit, server_error) result \<times> server_lifecycle) \<Rightarrow> unit app" where
  "on_lifecycle f s = (case f (ap_lifecycle s) of (r, l) \<Rightarrow> (r, s\<lparr>ap_lifecycle := l\<rparr>))"

definition register_node_state :: "(nat \<Rightarrow> bool) \<Rightarrow> node_state \<Rightarrow> unit app" where
  "register_node_state ok st = app_try (external ok (NodeLifecycleFailed ''node state registration failed''))
     (\<lambda>_ s. (Ok (), s\<lparr>ap_registered := Some st, ap_node_state := st\<rparr>))"

definition mark_ready :: "(nat \<Rightarrow> bool) \<Rightarrow> unit app" where
  "mark_ready ok = app_try (register_node_state ok NodeReady) (\<lambda>_. on_lifecycle lifecycle_ready)"

definition begin_shutdown :: "(nat \<Rightarrow> bool) \<Rightarrow> unit app" where
  "begin_shutdown ok s =
     app_try (if lc_state (ap_lifecycle s) \<noteq> Draining then on_lifecycle lifecycle_begin_shutdown else (\<lambda>s. (Ok (), s))) (\<lambda>_ s.
     (if ap_node_state s \<noteq> NodeDraining then register_node_state ok NodeDraining s else (Ok (), s))) s"

text \<open>Closing a store that is present; closing it again succeeds or fails like the first time.\<close>

definition close_event_store :: "(nat \<Rightarrow> bool) \<Rightarrow> unit app" where
  "close_event_store ok = app_try (external ok (ShutdownFailed ''event store shutdown failed'')) (\<lambda>_ s. (Ok (), s\<lparr>ap_event_store := Closed\<rparr>))"

definition close_asset_store :: "(nat \<Rightarrow> bool) \<Rightarrow> unit app" where
  "close_asset_store ok s =
     (if ap_asset_store s = Absent then (Ok (), s)
      else app_try (external ok (ShutdownFailed ''asset store shutdown failed'')) (\<lambda>_ s. (Ok (), s\<lparr>ap_asset_store := Closed\<rparr>)) s)"

definition close_catalog_store :: "(nat \<Rightarrow> bool) \<Rightarrow> unit app" where
  "close_catalog_store ok s =
     (if ap_catalog_store s = Absent then (Ok (), s)
      else app_try (external ok (ShutdownFailed ''catalog store shutdown failed'')) (\<lambda>_ s. (Ok (), s\<lparr>ap_catalog_store := Closed\<rparr>)) s)"

definition finish_shutdown :: "(nat \<Rightarrow> bool) \<Rightarrow> unit app" where
  "finish_shutdown ok =
     app_try (close_event_store ok) (\<lambda>_.
     app_try (close_asset_store ok) (\<lambda>_.
     app_try (close_catalog_store ok) (\<lambda>_.
     app_try (\<lambda>s. if ap_node_state s \<noteq> NodeOffline then register_node_state ok NodeOffline s else (Ok (), s)) (\<lambda>_.
     app_try (external ok (NodeLifecycleFailed ''node unregister failed'')) (\<lambda>_ s.
     (if lc_state (ap_lifecycle s) = Draining then on_lifecycle lifecycle_stop (s\<lparr>ap_registered := None\<rparr>)
      else (Ok (), s\<lparr>ap_registered := None\<rparr>)))))))"

definition context_shutdown :: "(nat \<Rightarrow> bool) \<Rightarrow> unit app" where
  "context_shutdown ok = app_try (begin_shutdown ok) (\<lambda>_. finish_shutdown ok)"

section \<open>The application\<close>

record app_config =
  ac_valid :: "(unit, server_error) result"
  ac_asset_delivery :: bool
  ac_delivery_composed :: bool

text \<open>Errors of the two calls are only logged.\<close>

definition rollback_startup :: "(nat \<Rightarrow> bool) \<Rightarrow> application \<Rightarrow> application" where
  "rollback_startup ok s =
     (if lc_state (ap_lifecycle s) \<noteq> Stopped then snd (finish_shutdown ok (snd (begin_shutdown ok s))) else s)"

definition fail_startup :: "(nat \<Rightarrow> bool) \<Rightarrow> server_error \<Rightarrow> unit app" where
  "fail_startup ok e s = (Err e, rollback_startup ok s)"

definition bind_listener :: "(nat \<Rightarrow> bool) \<Rightarrow> unit app" where
  "bind_listener ok =
     app_try (external ok (ListenerFailed ''failed to bind configured listener'')) (\<lambda>_.
     external ok (ListenerFailed ''listener address unavailable''))"

definition bind_asset_listener :: "(nat \<Rightarrow> bool) \<Rightarrow> unit app" where
  "bind_asset_listener ok =
     app_try (external ok (ListenerFailed ''failed to bind Asset HTTP listener'')) (\<lambda>_.
     external ok (ListenerFailed ''Asset HTTP listener address unavailable''))"

definition app_start :: "app_config \<Rightarrow> (nat \<Rightarrow> bool) \<Rightarrow> unit app" where
  "app_start cfg ok s =
     (if ap_listener s then (Ok (), s)
      else case ac_valid cfg of
        Inl e \<Rightarrow> fail_startup ok e s
      | Inr _ \<Rightarrow>
          (case bind_listener ok s of
             (Inl e, s1) \<Rightarrow> fail_startup ok e s1
           | (Inr _, s1) \<Rightarrow>
               let s2 = s1\<lparr>ap_listener := True\<rparr> in
               (case (if ac_asset_delivery cfg
                      then if \<not> ac_delivery_composed cfg then (Err (BootstrapFailed ''Asset Delivery service was not composed''), s2)
                           else app_try (bind_asset_listener ok) (\<lambda>_ s. (Ok (), s\<lparr>ap_asset_listener := True\<rparr>)) s2
                      else (Ok (), s2)) of
                  (Inl e, s3) \<Rightarrow> fail_startup ok e (s3\<lparr>ap_listener := False\<rparr>)
                | (Inr _, s3) \<Rightarrow>
                    (case mark_ready ok s3 of
                       (Inl e, s4) \<Rightarrow> fail_startup ok e (s4\<lparr>ap_cancelled := True, ap_listener := False, ap_asset_listener := False\<rparr>)
                     | (Inr _, s4) \<Rightarrow> (Ok (), s4)))))"

definition app_shutdown :: "(nat \<Rightarrow> bool) \<Rightarrow> unit app" where
  "app_shutdown ok s =
     (if lc_state (ap_lifecycle s) = Stopped then (Ok (), s)
      else app_try (begin_shutdown ok) (\<lambda>_ s.
           finish_shutdown ok (s\<lparr>ap_cancelled := True, ap_listener := False, ap_asset_listener := False\<rparr>)) s)"

definition serve_after_start :: "(unit, server_error) result \<Rightarrow> unit app" where
  "serve_after_start result s = (if ap_listener s then result else Err (ListenerFailed ''listener was not initialized''), s)"

definition app_serve :: "app_config \<Rightarrow> (nat \<Rightarrow> bool) \<Rightarrow> (unit, server_error) result \<Rightarrow> unit app" where
  "app_serve cfg ok ended = app_try (app_start cfg ok) (\<lambda>_ s.
     case serve_after_start ended s of
       (result, s1) \<Rightarrow>
         if lc_state (ap_lifecycle s1) \<noteq> Stopped
         then (case app_shutdown ok s1 of (shutdown_result, s2) \<Rightarrow> (and_then result (\<lambda>_. shutdown_result), s2))
         else (result, s1))"

text \<open>What ends \<^verbatim>\<open>tokio::select!\<close>: the accept loops, or the signal (input) that may itself fail.\<close>

datatype select_end = LoopEnded "(unit, server_error) result" | SignalReceived | SignalFailed

definition app_run :: "app_config \<Rightarrow> (nat \<Rightarrow> bool) \<Rightarrow> select_end \<Rightarrow> unit app" where
  "app_run cfg ok ended = app_try (app_start cfg ok) (\<lambda>_ s.
     case (case ended of LoopEnded r \<Rightarrow> Some (fst (serve_after_start r s)) | SignalReceived \<Rightarrow> Some (Ok ()) | SignalFailed \<Rightarrow> None) of
       None \<Rightarrow> (Err (ShutdownFailed ''failed to wait for process shutdown signal''), s)
     | Some serve_result \<Rightarrow>
         (case app_shutdown ok s of (shutdown_result, s2) \<Rightarrow> (and_then serve_result (\<lambda>_. shutdown_result), s2)))"

definition app_run_with_stdin_shutdown :: "app_config \<Rightarrow> (nat \<Rightarrow> bool) \<Rightarrow> select_end \<Rightarrow> unit app" where
  "app_run_with_stdin_shutdown cfg ok ended = app_try (app_start cfg ok) (\<lambda>_ s.
     let serve_result = (case ended of LoopEnded r \<Rightarrow> fst (serve_after_start r s) | SignalReceived \<Rightarrow> Ok ()
                         | SignalFailed \<Rightarrow> Err (ShutdownFailed ''failed to wait for process shutdown input'')) in
     (case app_shutdown ok s of (shutdown_result, s2) \<Rightarrow> (and_then serve_result (\<lambda>_. shutdown_result), s2)))"

text \<open>A composed context before its application starts.\<close>

definition app_new :: "bool \<Rightarrow> bool \<Rightarrow> application" where
  "app_new has_assets has_catalog =
     \<lparr>ap_lifecycle = lifecycle_from_state Starting, ap_node_state = NodeStarting, ap_registered = Some NodeStarting,
      ap_event_store = Open, ap_asset_store = (if has_assets then Open else Absent),
      ap_catalog_store = (if has_catalog then Open else Absent),
      ap_listener = False, ap_asset_listener = False, ap_cancelled = False, ap_calls = 0\<rparr>"

section \<open>Readiness and shutdown\<close>

lemmas lifecycle_ops = lifecycle_transition_def lifecycle_start_def lifecycle_ready_def lifecycle_begin_shutdown_def lifecycle_stop_def

lemmas context_ops = app_try_def external_def on_lifecycle_def register_node_state_def

text \<open>
  What the states of the lifecycle promise: a ready process has its listeners bound, is
  registered as ready and has its stores open; a stopped one has released all of it.
\<close>

definition app_inv :: "app_config \<Rightarrow> application \<Rightarrow> bool" where
  [inv_defs]: "app_inv cfg s \<longleftrightarrow>
     lc_health (ap_lifecycle s) = health_for (lc_state (ap_lifecycle s)) \<and> (ap_asset_listener s \<longrightarrow> ap_listener s) \<and>
     (lc_state (ap_lifecycle s) = Ready \<longrightarrow>
        ap_listener s \<and> (ac_asset_delivery cfg \<longrightarrow> ap_asset_listener s) \<and> ap_registered s = Some NodeReady \<and> ap_node_state s = NodeReady) \<and>
     (lc_state (ap_lifecycle s) \<in> {Starting, Ready} \<longrightarrow> ap_event_store s = Open \<and> ap_asset_store s \<noteq> Closed \<and> ap_catalog_store s \<noteq> Closed) \<and>
     (lc_state (ap_lifecycle s) = Starting \<longrightarrow> \<not> ap_listener s \<and> \<not> ap_asset_listener s) \<and>
     (lc_state (ap_lifecycle s) = Stopped \<longrightarrow>
        \<not> ap_listener s \<and> \<not> ap_asset_listener s \<and> ap_event_store s = Closed \<and> ap_asset_store s \<noteq> Open \<and> ap_catalog_store s \<noteq> Open)"

text \<open>\<^verbatim>\<open>begin_shutdown\<close> leaves a running process draining, whether or not the registry answers.\<close>

lemma begin_shutdown_state:
  assumes "begin_shutdown ok s = (r, s')"
  shows "lc_state (ap_lifecycle s) = Stopped \<and> s' = s \<or>
    lc_state (ap_lifecycle s) \<noteq> Stopped \<and> lc_state (ap_lifecycle s') = Draining \<and> lc_health (ap_lifecycle s') = health_for Draining \<or>
    lc_state (ap_lifecycle s) = Draining \<and> ap_lifecycle s' = ap_lifecycle s"
  using assms by (cases "lc_state (ap_lifecycle s)") (auto simp: begin_shutdown_def context_ops lifecycle_ops split: if_splits)

lemma begin_shutdown_frame:
  assumes "begin_shutdown ok s = (r, s')"
  shows "ap_listener s' = ap_listener s \<and> ap_asset_listener s' = ap_asset_listener s \<and> ap_event_store s' = ap_event_store s \<and>
    ap_asset_store s' = ap_asset_store s \<and> ap_catalog_store s' = ap_catalog_store s"
  using assms by (auto simp: begin_shutdown_def context_ops lifecycle_ops split: if_splits)

text \<open>\<^verbatim>\<open>finish_shutdown\<close> of a draining process ends stopped with everything released, or still draining.\<close>

lemma finish_shutdown_state:
  assumes "finish_shutdown ok s = (r, s')" and "lc_state (ap_lifecycle s) = Draining"
  shows "(case r of Inl e \<Rightarrow> lc_state (ap_lifecycle s') = Draining \<and> lc_health (ap_lifecycle s') = lc_health (ap_lifecycle s)
     | Inr _ \<Rightarrow> lc_state (ap_lifecycle s') = Stopped \<and> lc_health (ap_lifecycle s') = HealthStopped \<and> ap_registered s' = None \<and>
         ap_event_store s' = Closed \<and> ap_asset_store s' \<noteq> Open \<and> ap_catalog_store s' \<noteq> Open) \<and>
    ap_listener s' = ap_listener s \<and> ap_asset_listener s' = ap_asset_listener s"
  using assms
  by (auto simp: finish_shutdown_def close_event_store_def close_asset_store_def close_catalog_store_def context_ops lifecycle_ops
      split: if_splits; cases "ap_asset_store s"; cases "ap_catalog_store s"; simp)

lemma rollback_startup_inv:
  assumes "lc_health (ap_lifecycle s) = health_for (lc_state (ap_lifecycle s))" and "\<not> ap_listener s" and "\<not> ap_asset_listener s"
    and "lc_state (ap_lifecycle s) = Stopped \<longrightarrow> app_inv cfg s"
  shows "app_inv cfg (rollback_startup ok s)"
proof (cases "lc_state (ap_lifecycle s) = Stopped")
  case True
  with assms(4) show ?thesis by (simp add: rollback_startup_def)
next
  case False
  obtain r1 s1 where b: "begin_shutdown ok s = (r1, s1)" by fastforce
  obtain r2 s2 where f: "finish_shutdown ok s1 = (r2, s2)" by fastforce
  from begin_shutdown_state [OF b] begin_shutdown_frame [OF b] False assms(1-3)
  have "lc_state (ap_lifecycle s1) = Draining" "lc_health (ap_lifecycle s1) = HealthStopping" "\<not> ap_listener s1" "\<not> ap_asset_listener s1" by auto
  with finish_shutdown_state [OF f] have "app_inv cfg s2" by (cases r2) (auto simp: inv_defs)
  with False b f show ?thesis by (simp add: rollback_startup_def)
qed

lemma app_shutdown_inv:
  assumes "app_inv cfg s" and "app_shutdown ok s = (r, s')"
  shows "app_inv cfg s' \<and> (r = Ok () \<longrightarrow> lc_state (ap_lifecycle s') = Stopped \<and> (lc_state (ap_lifecycle s) \<noteq> Stopped \<longrightarrow> ap_registered s' = None))"
proof (cases "lc_state (ap_lifecycle s) = Stopped")
  case True
  with assms show ?thesis by (simp add: app_shutdown_def)
next
  case False
  obtain r1 s1 where b: "begin_shutdown ok s = (r1, s1)" by fastforce
  let ?s2 = "s1\<lparr>ap_cancelled := True, ap_listener := False, ap_asset_listener := False\<rparr>"
  obtain r2 s3 where f: "finish_shutdown ok ?s2 = (r2, s3)" by fastforce
  from begin_shutdown_state [OF b] False assms(1)
  have d: "lc_state (ap_lifecycle s1) = Draining" "lc_health (ap_lifecycle s1) = HealthStopping" by (auto simp: inv_defs)
  with begin_shutdown_frame [OF b] assms(1) have i1: "app_inv cfg s1" by (simp add: inv_defs)
  from finish_shutdown_state [OF f] d have "app_inv cfg s3 \<and> (r2 = Ok () \<longrightarrow> lc_state (ap_lifecycle s3) = Stopped \<and> ap_registered s3 = None)"
    by (cases r2) (auto simp: inv_defs)
  with False b f i1 assms(2) show ?thesis by (cases r1) (auto simp: app_shutdown_def app_try_def)
qed

text \<open>Binding changes nothing but the number of calls; marking ready ends ready or leaves the state as it was.\<close>

lemma bind_frame:
  "bind_listener ok s = (r, s') \<Longrightarrow> \<exists>n. s' = s\<lparr>ap_calls := n\<rparr>"
  "bind_asset_listener ok s = (r, s') \<Longrightarrow> \<exists>n. s' = s\<lparr>ap_calls := n\<rparr>"
  by (auto simp: bind_listener_def bind_asset_listener_def context_ops split: if_splits)

lemma mark_ready_state:
  assumes "mark_ready ok s = (r, s')"
  shows "(case r of Inl e \<Rightarrow> ap_lifecycle s' = ap_lifecycle s
     | Inr _ \<Rightarrow> lc_state (ap_lifecycle s) = Starting \<and> lc_state (ap_lifecycle s') = Ready \<and> lc_health (ap_lifecycle s') = HealthReady \<and>
         ap_registered s' = Some NodeReady \<and> ap_node_state s' = NodeReady) \<and>
    ap_listener s' = ap_listener s \<and> ap_asset_listener s' = ap_asset_listener s \<and>
    ap_event_store s' = ap_event_store s \<and> ap_asset_store s' = ap_asset_store s \<and> ap_catalog_store s' = ap_catalog_store s"
  using assms by (auto simp: mark_ready_def context_ops lifecycle_ops split: if_splits)

lemma fail_startup_inv:
  assumes "app_inv cfg s" and "ap_lifecycle s1 = ap_lifecycle s" and "\<not> ap_listener s1" and "\<not> ap_asset_listener s1"
    and "ap_event_store s1 = ap_event_store s" and "ap_asset_store s1 = ap_asset_store s" and "ap_catalog_store s1 = ap_catalog_store s"
    and "fail_startup ok e s1 = (r, s')"
  shows "app_inv cfg s' \<and> r = Err e"
  using assms rollback_startup_inv [of s1 cfg ok] by (auto simp: fail_startup_def inv_defs)

lemma app_start_inv:
  assumes "app_inv cfg s" and "app_start cfg ok s = (r, s')"
  shows "app_inv cfg s'"
proof (cases "ap_listener s")
  case True
  with assms show ?thesis by (simp add: app_start_def)
next
  case False
  then have none: "\<not> ap_asset_listener s" using assms(1) by (simp add: inv_defs)
  have quiet: "app_inv cfg t"
    if "fail_startup ok e s1 = (q, t)" "ap_lifecycle s1 = ap_lifecycle s" "\<not> ap_listener s1" "\<not> ap_asset_listener s1"
      "ap_event_store s1 = ap_event_store s" "ap_asset_store s1 = ap_asset_store s" "ap_catalog_store s1 = ap_catalog_store s" for e s1 q t
    using fail_startup_inv [OF assms(1) that(2-7,1)] by simp
  show ?thesis
  proof (cases "ac_valid cfg")
    case (Inl e)
    with assms(2) False none show ?thesis by (auto simp: app_start_def intro: quiet [of e s])
  next
    case valid: (Inr u)
    obtain r1 s1 where b: "bind_listener ok s = (r1, s1)" by fastforce
    with bind_frame(1) obtain n where s1: "s1 = s\<lparr>ap_calls := n\<rparr>" by blast
    show ?thesis
    proof (cases r1)
      case (Inl e)
      with assms(2) False none valid b s1 show ?thesis by (auto simp: app_start_def intro: quiet [of e s1])
    next
      case bound: (Inr u)
      let ?s2 = "s1\<lparr>ap_listener := True\<rparr>"
      define m where "m = (if ac_asset_delivery cfg
          then if \<not> ac_delivery_composed cfg then (Err (BootstrapFailed ''Asset Delivery service was not composed''), ?s2)
               else app_try (bind_asset_listener ok) (\<lambda>_ s. (Ok (), s\<lparr>ap_asset_listener := True\<rparr>)) ?s2
          else (Ok (), ?s2))"
      obtain r3 s3 where m: "m = (r3, s3)" by fastforce
      have start: "app_start cfg ok s = (case r3 of
          Inl e \<Rightarrow> fail_startup ok e (s3\<lparr>ap_listener := False\<rparr>)
        | Inr _ \<Rightarrow> (case mark_ready ok s3 of
             (Inl e, s4) \<Rightarrow> fail_startup ok e (s4\<lparr>ap_cancelled := True, ap_listener := False, ap_asset_listener := False\<rparr>)
           | (Inr _, s4) \<Rightarrow> (Ok (), s4)))"
        using False valid b bound m by (simp add: app_start_def Let_def m_def)
      have s3: "ap_lifecycle s3 = ap_lifecycle s \<and> ap_listener s3 \<and> ap_event_store s3 = ap_event_store s \<and>
          ap_asset_store s3 = ap_asset_store s \<and> ap_catalog_store s3 = ap_catalog_store s \<and>
          (case r3 of Inl e \<Rightarrow> \<not> ap_asset_listener s3 | Inr _ \<Rightarrow> ac_asset_delivery cfg \<longrightarrow> ap_asset_listener s3)"
        using m none s1 by (auto simp: m_def bind_asset_listener_def context_ops split: if_splits)
      show ?thesis
      proof (cases r3)
        case (Inl e)
        with start assms(2) have "fail_startup ok e (s3\<lparr>ap_listener := False\<rparr>) = (r, s')" by simp
        then show ?thesis by (rule quiet) (use Inl s3 in auto)
      next
        case up: (Inr u)
        obtain r4 s4 where r: "mark_ready ok s3 = (r4, s4)" by fastforce
        show ?thesis
        proof (cases r4)
          case (Inl e)
          with start up r assms(2)
          have "fail_startup ok e (s4\<lparr>ap_cancelled := True, ap_listener := False, ap_asset_listener := False\<rparr>) = (r, s')" by simp
          then show ?thesis by (rule quiet) (use Inl s3 mark_ready_state [OF r] in auto)
        next
          case (Inr v)
          with start up r assms(2) have "s' = s4" by simp
          with Inr s3 up mark_ready_state [OF r] assms(1) show ?thesis by (auto simp: inv_defs)
        qed
      qed
    qed
  qed
qed

inductive app_step :: "app_config \<Rightarrow> application \<Rightarrow> application \<Rightarrow> bool" for cfg where
  step_start: "app_start cfg ok s = (r, s') \<Longrightarrow> app_step cfg s s'"
| step_shutdown: "app_shutdown ok s = (r, s') \<Longrightarrow> app_step cfg s s'"
| step_serve: "app_serve cfg ok ended s = (r, s') \<Longrightarrow> app_step cfg s s'"
| step_run: "app_run cfg ok sel s = (r, s') \<Longrightarrow> app_step cfg s s'"
| step_run_stdin: "app_run_with_stdin_shutdown cfg ok sel s = (r, s') \<Longrightarrow> app_step cfg s s'"
| step_cancel: "app_step cfg s (s\<lparr>ap_cancelled := True\<rparr>)"

lemma shutdown_then: "(case app_shutdown ok s of (q, s2) \<Rightarrow> (f q, s2)) = (r, s') \<Longrightarrow> app_inv cfg s \<Longrightarrow> app_inv cfg s'"
  using app_shutdown_inv [of cfg s ok] by (cases "app_shutdown ok s") auto

lemma app_step_inv:
  assumes "app_step cfg s s'" and "app_inv cfg s"
  shows "app_inv cfg s'"
  using assms(1)
proof cases
  case (step_start ok r)
  with app_start_inv [OF assms(2)] show ?thesis by blast
next
  case (step_shutdown ok r)
  with app_shutdown_inv [OF assms(2)] show ?thesis by blast
next
  case (step_serve ok ended r)
  obtain q s1 where a: "app_start cfg ok s = (q, s1)" by fastforce
  with app_start_inv [OF assms(2)] have i: "app_inv cfg s1" by blast
  from step_serve a i show ?thesis
    by (cases q) (auto simp: app_serve_def app_try_def serve_after_start_def split: if_splits dest: shutdown_then)
next
  case (step_run ok sel r)
  obtain q s1 where a: "app_start cfg ok s = (q, s1)" by fastforce
  with app_start_inv [OF assms(2)] have i: "app_inv cfg s1" by blast
  from step_run a i show ?thesis
    by (cases q; cases sel) (auto simp: app_run_def app_try_def dest: shutdown_then app_shutdown_inv)
next
  case (step_run_stdin ok sel r)
  obtain q s1 where a: "app_start cfg ok s = (q, s1)" by fastforce
  with app_start_inv [OF assms(2)] have i: "app_inv cfg s1" by blast
  from step_run_stdin a i show ?thesis
    by (cases q; cases sel) (auto simp: app_run_with_stdin_shutdown_def app_try_def Let_def dest: shutdown_then app_shutdown_inv)
next
  case step_cancel
  with assms(2) show ?thesis by (simp add: inv_defs)
qed

lemma app_steps_inv: "(app_step cfg)\<^sup>*\<^sup>* s s' \<Longrightarrow> app_inv cfg s \<Longrightarrow> app_inv cfg s'"
  by (induction rule: rtranclp_induct) (auto dest: app_step_inv)

lemma app_new_inv: "app_inv cfg (app_new a c)"
  by (simp add: inv_defs app_new_def lifecycle_from_state_def)


text \<open>
  A shutdown that was cut short can be repeated: from every state the application can
  reach other than stopped, a shutdown in which the registry and the stores answer succeeds,
  closes every store, unregisters the node and ends stopped.
\<close>

theorem shutdown_completes:
  assumes "(app_step cfg)\<^sup>*\<^sup>* (app_new has_assets has_catalog) s" and "lc_state (ap_lifecycle s) \<noteq> Stopped" and "\<And>n. ok n"
  shows "\<exists>s'. app_shutdown ok s = (Ok (), s') \<and> lc_state (ap_lifecycle s') = Stopped \<and> ap_registered s' = None \<and>
    ap_event_store s' = Closed \<and> ap_asset_store s' \<noteq> Open \<and> ap_catalog_store s' \<noteq> Open \<and> \<not> ap_listener s'"
proof -
  obtain r s' where r: "app_shutdown ok s = (r, s')" by fastforce
  have "r = Ok ()"
    using r assms(2,3) by (cases "lc_state (ap_lifecycle s)")
      (auto simp: app_shutdown_def begin_shutdown_def finish_shutdown_def close_event_store_def close_asset_store_def close_catalog_store_def
        context_ops lifecycle_ops split: if_splits)
  with app_shutdown_inv [OF app_steps_inv [OF assms(1) app_new_inv] r] assms(2) r show ?thesis by (auto simp: inv_defs)
qed

text \<open>When waiting for the signal fails, \<^verbatim>\<open>run\<close> returns without a shutdown: the process stays ready.\<close>

lemma failed_signal_skips_shutdown:
  assumes "app_start cfg ok s = (Ok (), s1)" and "lc_state (ap_lifecycle s1) = Ready"
  shows "\<exists>e. app_run cfg ok SignalFailed s = (Err e, s1)"
  using assms by (simp add: app_run_def app_try_def)

text \<open>
  Starting a stopped application fails, but leaves the node registered as ready: the
  registration precedes the check of the lifecycle, and the rollback does nothing for a
  process that is stopped.
\<close>

lemma restart_leaves_node_registered:
  assumes "lc_state (ap_lifecycle s) = Stopped" and "\<not> ap_listener s" and "\<And>n. ok n"
    and "ac_valid cfg = Ok ()" and "\<not> ac_asset_delivery cfg"
  shows "\<exists>s'. app_start cfg ok s = (Err (LifecycleFailed Stopped Ready), s') \<and> ap_registered s' = Some NodeReady \<and>
    lc_state (ap_lifecycle s') = Stopped"
  using assms
  by (auto simp: app_start_def bind_listener_def mark_ready_def context_ops lifecycle_ops Let_def fail_startup_def rollback_startup_def)

section \<open>A sample run\<close>

definition sample_app_config :: app_config where
  "sample_app_config = \<lparr>ac_valid = Ok (), ac_asset_delivery = True, ac_delivery_composed = True\<rparr>"

definition started_app :: application where
  "started_app = snd (app_start sample_app_config (\<lambda>_. True) (app_new True True))"

lemma started_app_steps: "(app_step sample_app_config)\<^sup>*\<^sup>* (app_new True True) started_app"
proof -
  have "app_step sample_app_config (app_new True True) started_app"
    unfolding started_app_def by (rule step_start [of _ "\<lambda>_. True"]) (rule prod.collapse [symmetric])
  then show ?thesis by blast
qed


theorem shutdown_completes_witness:
  "\<exists>s'. app_shutdown (\<lambda>_. True) started_app = (Ok (), s') \<and> lc_state (ap_lifecycle s') = Stopped \<and> ap_registered s' = None"
proof -
  have "lc_state (ap_lifecycle started_app) \<noteq> Stopped" by code_simp
  with shutdown_completes [OF started_app_steps, of "\<lambda>_. True"] show ?thesis by auto
qed

end
