(* ===== verification/Server_Config.thy ===== *)
theory Server_Config
  imports Asset_Access Server_Lifecycle
begin

text \<open>
  The configuration of the process, \<^verbatim>\<open>orbitrelay-server/src/config.rs\<close>: the settings with
  their defaults and builders, their validation, and \<^verbatim>\<open>load\<close>, which overrides the defaults from environment
  variables. Identities, floating point numbers and addresses are read by parsers that are
  arguments; the WebSocket adapter's settings, the PDF limits and the node's metadata are values of the kernel.
\<close>

section \<open>Settings\<close>

text \<open>A \<^verbatim>\<open>f64\<close>: not a number, an infinity with its sign, or a finite mantissa times a power of two.\<close>

datatype f64 = F64_NaN | F64_Infinity bool | F64 int int

fun is_finite :: "f64 \<Rightarrow> bool" where
  "is_finite (F64 m e) = True"
| "is_finite x = False"

text \<open>\<^verbatim>\<open>x <= 0.0\<close>: false for a NaN.\<close>

fun not_positive :: "f64 \<Rightarrow> bool" where
  "not_positive F64_NaN = False"
| "not_positive (F64_Infinity negative) = negative"
| "not_positive (F64 m e) = (m \<le> 0)"

record 'id development_canvas_config =
  dv_session_id :: "'id option"
  dv_canvas_id :: "'id option"
  dv_layer_id :: "'id option"
  dv_width :: f64
  dv_height :: f64

definition development_canvas_config_default :: "'id development_canvas_config" where
  "development_canvas_config_default =
     \<lparr>dv_session_id = None, dv_canvas_id = None, dv_layer_id = None, dv_width = F64 1920 0, dv_height = F64 1080 0\<rparr>"

text \<open>Builders.\<close>

definition with_session_id :: "'id \<Rightarrow> 'id development_canvas_config \<Rightarrow> 'id development_canvas_config" where
  "with_session_id v c = c\<lparr>dv_session_id := Some v\<rparr>"

definition with_canvas_id :: "'id \<Rightarrow> 'id development_canvas_config \<Rightarrow> 'id development_canvas_config" where
  "with_canvas_id v c = c\<lparr>dv_canvas_id := Some v\<rparr>"

definition with_layer_id :: "'id \<Rightarrow> 'id development_canvas_config \<Rightarrow> 'id development_canvas_config" where
  "with_layer_id v c = c\<lparr>dv_layer_id := Some v\<rparr>"

definition with_size :: "f64 \<Rightarrow> f64 \<Rightarrow> 'id development_canvas_config \<Rightarrow> 'id development_canvas_config" where
  "with_size w h c = c\<lparr>dv_width := w, dv_height := h\<rparr>"

definition validate_development_canvas :: "'id development_canvas_config \<Rightarrow> (unit, server_error) result" where
  "validate_development_canvas c =
     (if \<not> is_finite (dv_width c) \<or> not_positive (dv_width c)
      then Err (ConfigFailed ''development Canvas width must be finite and positive'')
      else if \<not> is_finite (dv_height c) \<or> not_positive (dv_height c)
      then Err (ConfigFailed ''development Canvas height must be finite and positive'')
      else Ok ())"

record websocket_listener_config =
  wl_bind_addr :: socket_addr
  wl_websocket_path :: string
  wl_max_connections :: nat
  wl_handshake_timeout_milliseconds :: nat
  wl_shutdown_grace_period_milliseconds :: nat

definition websocket_listener_config_default :: websocket_listener_config where
  "websocket_listener_config_default =
     \<lparr>wl_bind_addr = \<lparr>sa_ip = IpV4 127 0 0 1, sa_port = 8080\<rparr>, wl_websocket_path = ''/ws'', wl_max_connections = 1024,
      wl_handshake_timeout_milliseconds = 10000, wl_shutdown_grace_period_milliseconds = 5000\<rparr>"

definition with_bind_addr :: "socket_addr \<Rightarrow> websocket_listener_config \<Rightarrow> websocket_listener_config" where
  "with_bind_addr v c = c\<lparr>wl_bind_addr := v\<rparr>"

definition with_websocket_path :: "string \<Rightarrow> websocket_listener_config \<Rightarrow> websocket_listener_config" where
  "with_websocket_path v c = c\<lparr>wl_websocket_path := v\<rparr>"

definition listener_with_max_connections :: "nat \<Rightarrow> websocket_listener_config \<Rightarrow> websocket_listener_config" where
  "listener_with_max_connections v c = c\<lparr>wl_max_connections := v\<rparr>"

definition with_handshake_timeout_milliseconds :: "nat \<Rightarrow> websocket_listener_config \<Rightarrow> websocket_listener_config" where
  "with_handshake_timeout_milliseconds v c = c\<lparr>wl_handshake_timeout_milliseconds := v\<rparr>"

definition with_shutdown_grace_period_milliseconds :: "nat \<Rightarrow> websocket_listener_config \<Rightarrow> websocket_listener_config" where
  "with_shutdown_grace_period_milliseconds v c = c\<lparr>wl_shutdown_grace_period_milliseconds := v\<rparr>"

definition validate_websocket_listener :: "websocket_listener_config \<Rightarrow> (unit, server_error) result" where
  "validate_websocket_listener c =
     (if wl_websocket_path c = [] \<or> \<not> starts_with ''/'' (wl_websocket_path c)
      then Err (ConfigFailed ''websocket path must start with `/`'')
      else if wl_max_connections c = 0 then Err (ConfigFailed ''max connections must be greater than zero'')
      else if wl_handshake_timeout_milliseconds c = 0 then Err (ConfigFailed ''handshake timeout must be greater than zero'')
      else if wl_shutdown_grace_period_milliseconds c = 0 then Err (ConfigFailed ''shutdown grace period must be greater than zero'')
      else Ok ())"

text \<open>The builders of the delivery plane's settings, which \<^verbatim>\<open>load\<close> goes through.\<close>

definition with_enabled :: "bool \<Rightarrow> delivery_config \<Rightarrow> delivery_config" where
  "with_enabled v c = c\<lparr>dc_enabled := v\<rparr>"

definition with_listen_addr :: "socket_addr \<Rightarrow> delivery_config \<Rightarrow> delivery_config" where
  "with_listen_addr v c = c\<lparr>dc_listen_addr := v\<rparr>"

definition with_public_base_url :: "string \<Rightarrow> delivery_config \<Rightarrow> delivery_config" where
  "with_public_base_url v c = c\<lparr>dc_public_base_url := Some v\<rparr>"

definition without_public_base_url :: "delivery_config \<Rightarrow> delivery_config" where
  "without_public_base_url c = c\<lparr>dc_public_base_url := None\<rparr>"

definition delivery_with_max_connections :: "nat \<Rightarrow> delivery_config \<Rightarrow> delivery_config" where
  "delivery_with_max_connections v c = c\<lparr>dc_max_connections := v\<rparr>"

definition with_max_active_downloads :: "nat \<Rightarrow> delivery_config \<Rightarrow> delivery_config" where
  "with_max_active_downloads v c = c\<lparr>dc_max_active_downloads := v\<rparr>"

definition with_chunk_size :: "nat \<Rightarrow> delivery_config \<Rightarrow> delivery_config" where
  "with_chunk_size v c = c\<lparr>dc_chunk_size := v\<rparr>"

definition with_idle_timeout_milliseconds :: "nat \<Rightarrow> delivery_config \<Rightarrow> delivery_config" where
  "with_idle_timeout_milliseconds v c = c\<lparr>dc_idle_timeout_milliseconds := v\<rparr>"

definition with_grant_ttl_seconds :: "int \<Rightarrow> delivery_config \<Rightarrow> delivery_config" where
  "with_grant_ttl_seconds v c = c\<lparr>dc_grant_ttl_seconds := v\<rparr>"

definition with_max_grants :: "nat \<Rightarrow> delivery_config \<Rightarrow> delivery_config" where
  "with_max_grants v c = c\<lparr>dc_max_grants := v\<rparr>"

definition with_allowed_origins :: "string list \<Rightarrow> delivery_config \<Rightarrow> delivery_config" where
  "with_allowed_origins v c = c\<lparr>dc_allowed_origins := v\<rparr>"

text \<open>The adapter's settings, the PDF limits and the node's metadata are values of the kernel.\<close>

record ('id, 'a, 'l, 'm) server_config =
  sc_node_id :: "'id option"
  sc_node_metadata :: 'm
  sc_development_mode :: bool
  sc_subscription_queue_capacity :: nat
  sc_websocket_listener :: websocket_listener_config
  sc_websocket_adapter :: 'a
  sc_development_canvas :: "'id development_canvas_config"
  sc_development_pdf_path :: "string option"
  sc_development_pdf_inspection_limits :: 'l
  sc_asset_delivery :: delivery_config
  sc_history_store_scan_limit :: nat
  sc_event_store_path :: "string option"
  sc_asset_store_root :: "string option"
  sc_catalog_store_path :: "string option"
  sc_sqlite_command_queue_capacity :: nat

definition DEFAULT_SUBSCRIPTION_QUEUE_CAPACITY :: nat where
  "DEFAULT_SUBSCRIPTION_QUEUE_CAPACITY = 64"

text \<open>What the configuration takes from the kernel and from the parsers of the standard library.\<close>

record ('id, 'a, 'l, 'm) config_codec =
  cc_parse_id :: "string \<Rightarrow> 'id option"
  cc_parse_f64 :: "string \<Rightarrow> f64 option"
  cc_parse_addr :: "string \<Rightarrow> socket_addr option"
  cc_adapter_default :: 'a
  cc_adapter_valid :: "'a \<Rightarrow> bool"
  cc_limits_default :: 'l
  cc_metadata_new :: 'm

definition server_config_default :: "('id, 'a, 'l, 'm) config_codec \<Rightarrow> ('id, 'a, 'l, 'm) server_config" where
  "server_config_default k =
     \<lparr>sc_node_id = None, sc_node_metadata = cc_metadata_new k, sc_development_mode = False,
      sc_subscription_queue_capacity = DEFAULT_SUBSCRIPTION_QUEUE_CAPACITY, sc_websocket_listener = websocket_listener_config_default,
      sc_websocket_adapter = cc_adapter_default k, sc_development_canvas = development_canvas_config_default,
      sc_development_pdf_path = None, sc_development_pdf_inspection_limits = cc_limits_default k,
      sc_asset_delivery = delivery_config_default, sc_history_store_scan_limit = DEFAULT_HISTORY_STORE_SCAN_LIMIT,
      sc_event_store_path = None, sc_asset_store_root = None, sc_catalog_store_path = None,
      sc_sqlite_command_queue_capacity = DEFAULT_COMMAND_QUEUE_CAPACITY\<rparr>"

definition with_node_id :: "'id \<Rightarrow> ('id, 'a, 'l, 'm) server_config \<Rightarrow> ('id, 'a, 'l, 'm) server_config" where
  "with_node_id v c = c\<lparr>sc_node_id := Some v\<rparr>"

definition with_node_metadata :: "'m \<Rightarrow> ('id, 'a, 'l, 'm) server_config \<Rightarrow> ('id, 'a, 'l, 'm) server_config" where
  "with_node_metadata v c = c\<lparr>sc_node_metadata := v\<rparr>"

definition with_subscription_queue_capacity :: "nat \<Rightarrow> ('id, 'a, 'l, 'm) server_config \<Rightarrow> ('id, 'a, 'l, 'm) server_config" where
  "with_subscription_queue_capacity v c = c\<lparr>sc_subscription_queue_capacity := v\<rparr>"

definition with_event_store_path :: "string \<Rightarrow> ('id, 'a, 'l, 'm) server_config \<Rightarrow> ('id, 'a, 'l, 'm) server_config" where
  "with_event_store_path v c = c\<lparr>sc_event_store_path := Some v\<rparr>"

definition with_asset_store_root :: "string \<Rightarrow> ('id, 'a, 'l, 'm) server_config \<Rightarrow> ('id, 'a, 'l, 'm) server_config" where
  "with_asset_store_root v c = c\<lparr>sc_asset_store_root := Some v\<rparr>"

definition with_catalog_store_path :: "string \<Rightarrow> ('id, 'a, 'l, 'm) server_config \<Rightarrow> ('id, 'a, 'l, 'm) server_config" where
  "with_catalog_store_path v c = c\<lparr>sc_catalog_store_path := Some v\<rparr>"

definition with_sqlite_command_queue_capacity :: "nat \<Rightarrow> ('id, 'a, 'l, 'm) server_config \<Rightarrow> ('id, 'a, 'l, 'm) server_config" where
  "with_sqlite_command_queue_capacity v c = c\<lparr>sc_sqlite_command_queue_capacity := v\<rparr>"

definition with_history_store_scan_limit :: "nat \<Rightarrow> ('id, 'a, 'l, 'm) server_config \<Rightarrow> ('id, 'a, 'l, 'm) server_config" where
  "with_history_store_scan_limit v c = c\<lparr>sc_history_store_scan_limit := v\<rparr>"

definition with_development_mode :: "bool \<Rightarrow> ('id, 'a, 'l, 'm) server_config \<Rightarrow> ('id, 'a, 'l, 'm) server_config" where
  "with_development_mode v c = c\<lparr>sc_development_mode := v\<rparr>"

definition with_development_canvas :: "'id development_canvas_config \<Rightarrow> ('id, 'a, 'l, 'm) server_config \<Rightarrow> ('id, 'a, 'l, 'm) server_config" where
  "with_development_canvas v c = c\<lparr>sc_development_canvas := v\<rparr>"

definition with_development_pdf_path :: "string \<Rightarrow> ('id, 'a, 'l, 'm) server_config \<Rightarrow> ('id, 'a, 'l, 'm) server_config" where
  "with_development_pdf_path v c = c\<lparr>sc_development_pdf_path := Some v\<rparr>"

definition with_optional_development_pdf_path :: "string option \<Rightarrow> ('id, 'a, 'l, 'm) server_config \<Rightarrow> ('id, 'a, 'l, 'm) server_config" where
  "with_optional_development_pdf_path v c = c\<lparr>sc_development_pdf_path := v\<rparr>"

definition with_asset_delivery :: "delivery_config \<Rightarrow> ('id, 'a, 'l, 'm) server_config \<Rightarrow> ('id, 'a, 'l, 'm) server_config" where
  "with_asset_delivery v c = c\<lparr>sc_asset_delivery := v\<rparr>"

definition with_development_pdf_inspection_limits :: "'l \<Rightarrow> ('id, 'a, 'l, 'm) server_config \<Rightarrow> ('id, 'a, 'l, 'm) server_config" where
  "with_development_pdf_inspection_limits v c = c\<lparr>sc_development_pdf_inspection_limits := v\<rparr>"

definition with_websocket_listener :: "websocket_listener_config \<Rightarrow> ('id, 'a, 'l, 'm) server_config \<Rightarrow> ('id, 'a, 'l, 'm) server_config" where
  "with_websocket_listener v c = c\<lparr>sc_websocket_listener := v\<rparr>"

definition with_websocket_adapter :: "'a \<Rightarrow> ('id, 'a, 'l, 'm) server_config \<Rightarrow> ('id, 'a, 'l, 'm) server_config" where
  "with_websocket_adapter v c = c\<lparr>sc_websocket_adapter := v\<rparr>"

definition without_event_store_path :: "('id, 'a, 'l, 'm) server_config \<Rightarrow> ('id, 'a, 'l, 'm) server_config" where
  "without_event_store_path c = c\<lparr>sc_event_store_path := None\<rparr>"

definition without_asset_store_root :: "('id, 'a, 'l, 'm) server_config \<Rightarrow> ('id, 'a, 'l, 'm) server_config" where
  "without_asset_store_root c = c\<lparr>sc_asset_store_root := None\<rparr>"

definition without_catalog_store_path :: "('id, 'a, 'l, 'm) server_config \<Rightarrow> ('id, 'a, 'l, 'm) server_config" where
  "without_catalog_store_path c = c\<lparr>sc_catalog_store_path := None\<rparr>"

fun server_config_error :: "config_error \<Rightarrow> server_error" where
  "server_config_error (ConfigError msg) = ConfigFailed msg"

text \<open>The checks on the paths and the queue, after those of the parts.\<close>

definition validate_stores :: "('id, 'a, 'l, 'm) server_config \<Rightarrow> (unit, server_error) result" where
  "validate_stores c =
     (if sc_event_store_path c = Some [] then Err (ConfigFailed ''event store path must not be empty'')
      else if sc_asset_store_root c = Some [] then Err (ConfigFailed ''asset store root must not be empty'')
      else if sc_catalog_store_path c = Some [] then Err (ConfigFailed ''catalog store path must not be empty'')
      else if sc_sqlite_command_queue_capacity c = 0 then Err (ConfigFailed ''SQLite command queue capacity must be greater than zero'')
      else Ok ())"

definition validate_server_config ::
  "('id, 'a, 'l, 'm) config_codec \<Rightarrow> ('id, 'a, 'l, 'm) server_config \<Rightarrow> (unit, server_error) result" where
  "validate_server_config k c =
     (if sc_subscription_queue_capacity c = 0 then Err (ConfigFailed ''subscription queue capacity must be greater than zero'')
      else if sc_history_store_scan_limit c = 0 \<or> MAX_HISTORY_STORE_SCAN_LIMIT < sc_history_store_scan_limit c
      then Err (ConfigFailed (''history Store scan limit must be between 1 and '' @ dec_of_nat MAX_HISTORY_STORE_SCAN_LIMIT))
      else
        and_then (validate_websocket_listener (sc_websocket_listener c)) (\<lambda>_.
        and_then (if cc_adapter_valid k (sc_websocket_adapter c) then Ok () else Err (ConfigFailed ''invalid WebSocket adapter configuration'')) (\<lambda>_.
        and_then (validate_development_canvas (sc_development_canvas c)) (\<lambda>_.
        and_then (map_err server_config_error (validate_delivery_config (sc_asset_delivery c))) (\<lambda>_.
        validate_stores c)))))"

section \<open>The environment\<close>

text \<open>An environment variable, as text or as bytes that are not UTF-8.\<close>

datatype os_string = Utf8 string | NotUtf8

type_synonym environment = "string \<Rightarrow> os_string option"

definition read_utf8_env :: "environment \<Rightarrow> string \<Rightarrow> (string option, server_error) result" where
  "read_utf8_env env name =
     (case env name of
        None \<Rightarrow> Ok None
      | Some (Utf8 v) \<Rightarrow> Ok (Some v)
      | Some NotUtf8 \<Rightarrow> Err (ConfigFailed (name @ '' is not valid UTF-8'')))"

definition parse_bool_env :: "string \<Rightarrow> string \<Rightarrow> (bool, server_error) result" where
  "parse_bool_env name v =
     (if v \<in> {''true'', ''1''} then Ok True
      else if v \<in> {''false'', ''0''} then Ok False
      else Err (ConfigFailed (name @ '' must be true, false, 1, or 0'')))"

text \<open>For \<^verbatim>\<open>usize\<close> and \<^verbatim>\<open>u64\<close>, both of 64 bits.\<close>

definition parse_number_env :: "string \<Rightarrow> string \<Rightarrow> (nat, server_error) result" where
  "parse_number_env name v = ok_or (ConfigFailed (name @ '' must be a positive integer'')) (parse_unsigned u64_max v)"

definition parse_or :: "string \<Rightarrow> (string \<Rightarrow> 'v option) \<Rightarrow> string \<Rightarrow> ('v, server_error) result" where
  "parse_or msg parse v = ok_or (ConfigFailed msg) (parse v)"

text \<open>\<^verbatim>\<open>if let Some(value) = read_utf8_env(name)? { config.field = parse(value)?; }\<close>\<close>

definition override ::
  "environment \<Rightarrow> string \<Rightarrow> (string \<Rightarrow> ('v, server_error) result) \<Rightarrow> ('v \<Rightarrow> 'c \<Rightarrow> 'c) \<Rightarrow> 'c \<Rightarrow> ('c, server_error) result" where
  "override env name parse set_field c =
     and_then (read_utf8_env env name) (\<lambda>found.
     case found of
       None \<Rightarrow> Ok c
     | Some v \<Rightarrow> and_then (parse v) (\<lambda>x. Ok (set_field x c)))"

definition allowed_origins_of :: "string \<Rightarrow> string list" where
  "allowed_origins_of v = filter (\<lambda>origin. origin \<noteq> []) (map trim (split_str '','' v))"

definition load_node ::
  "('id, 'a, 'l, 'm) config_codec \<Rightarrow> environment \<Rightarrow> ('id, 'a, 'l, 'm) server_config \<Rightarrow> (('id, 'a, 'l, 'm) server_config, server_error) result" where
  "load_node k env c =
     and_then (override env ''ORBITRELAY_NODE_ID'' (parse_or ''ORBITRELAY_NODE_ID is not a valid node ID'' (cc_parse_id k))
        (\<lambda>x. sc_node_id_update (\<lambda>_. Some x)) c) (\<lambda>c.
     and_then (override env ''ORBITRELAY_SUBSCRIPTION_QUEUE_CAPACITY'' (parse_number_env ''ORBITRELAY_SUBSCRIPTION_QUEUE_CAPACITY'')
        (\<lambda>x. sc_subscription_queue_capacity_update (\<lambda>_. x)) c) (\<lambda>c.
     and_then (override env ''ORBITRELAY_HISTORY_STORE_SCAN_LIMIT'' (parse_number_env ''ORBITRELAY_HISTORY_STORE_SCAN_LIMIT'')
        (\<lambda>x. sc_history_store_scan_limit_update (\<lambda>_. x)) c) (\<lambda>c.
     and_then (override env ''ORBITRELAY_EVENT_STORE_PATH'' Ok (\<lambda>x. sc_event_store_path_update (\<lambda>_. Some x)) c) (\<lambda>c.
     and_then (override env ''ORBITRELAY_ASSET_STORE_DIR'' Ok (\<lambda>x. sc_asset_store_root_update (\<lambda>_. Some x)) c) (\<lambda>c.
     and_then (override env ''ORBITRELAY_CATALOG_STORE_PATH'' Ok (\<lambda>x. sc_catalog_store_path_update (\<lambda>_. Some x)) c) (\<lambda>c.
     override env ''ORBITRELAY_SQLITE_COMMAND_QUEUE_CAPACITY'' (parse_number_env ''ORBITRELAY_SQLITE_COMMAND_QUEUE_CAPACITY'')
        (\<lambda>x. sc_sqlite_command_queue_capacity_update (\<lambda>_. x)) c))))))"

definition load_canvas_config ::
  "('id, 'a, 'l, 'm) config_codec \<Rightarrow> environment \<Rightarrow> 'id development_canvas_config \<Rightarrow> ('id development_canvas_config, server_error) result" where
  "load_canvas_config k env c =
     and_then (override env ''ORBITRELAY_DEVELOPMENT_CANVAS_SESSION_ID''
        (parse_or ''ORBITRELAY_DEVELOPMENT_CANVAS_SESSION_ID is not a valid SessionId'' (cc_parse_id k)) (\<lambda>x. dv_session_id_update (\<lambda>_. Some x)) c) (\<lambda>c.
     and_then (override env ''ORBITRELAY_DEVELOPMENT_CANVAS_ID''
        (parse_or ''ORBITRELAY_DEVELOPMENT_CANVAS_ID is not a valid CanvasId'' (cc_parse_id k)) (\<lambda>x. dv_canvas_id_update (\<lambda>_. Some x)) c) (\<lambda>c.
     and_then (override env ''ORBITRELAY_DEVELOPMENT_CANVAS_LAYER_ID''
        (parse_or ''ORBITRELAY_DEVELOPMENT_CANVAS_LAYER_ID is not a valid LayerId'' (cc_parse_id k)) (\<lambda>x. dv_layer_id_update (\<lambda>_. Some x)) c) (\<lambda>c.
     and_then (override env ''ORBITRELAY_DEVELOPMENT_CANVAS_WIDTH''
        (parse_or ''ORBITRELAY_DEVELOPMENT_CANVAS_WIDTH must be a number'' (cc_parse_f64 k)) (\<lambda>x. dv_width_update (\<lambda>_. x)) c) (\<lambda>c.
     override env ''ORBITRELAY_DEVELOPMENT_CANVAS_HEIGHT''
        (parse_or ''ORBITRELAY_DEVELOPMENT_CANVAS_HEIGHT must be a number'' (cc_parse_f64 k)) (\<lambda>x. dv_height_update (\<lambda>_. x)) c))))"

definition load_listener_config ::
  "('id, 'a, 'l, 'm) config_codec \<Rightarrow> environment \<Rightarrow> websocket_listener_config \<Rightarrow> (websocket_listener_config, server_error) result" where
  "load_listener_config k env c =
     and_then (override env ''ORBITRELAY_BIND_ADDR''
        (parse_or ''ORBITRELAY_BIND_ADDR is not a valid socket address'' (cc_parse_addr k)) (\<lambda>x. wl_bind_addr_update (\<lambda>_. x)) c) (\<lambda>c.
     and_then (override env ''ORBITRELAY_WEBSOCKET_PATH'' Ok (\<lambda>x. wl_websocket_path_update (\<lambda>_. x)) c) (\<lambda>c.
     and_then (override env ''ORBITRELAY_MAX_CONNECTIONS'' (parse_number_env ''ORBITRELAY_MAX_CONNECTIONS'')
        (\<lambda>x. wl_max_connections_update (\<lambda>_. x)) c) (\<lambda>c.
     and_then (override env ''ORBITRELAY_HANDSHAKE_TIMEOUT_MILLISECONDS'' (parse_number_env ''ORBITRELAY_HANDSHAKE_TIMEOUT_MILLISECONDS'')
        (\<lambda>x. wl_handshake_timeout_milliseconds_update (\<lambda>_. x)) c) (\<lambda>c.
     override env ''ORBITRELAY_SHUTDOWN_GRACE_PERIOD_MILLISECONDS'' (parse_number_env ''ORBITRELAY_SHUTDOWN_GRACE_PERIOD_MILLISECONDS'')
        (\<lambda>x. wl_shutdown_grace_period_milliseconds_update (\<lambda>_. x)) c))))"

definition load_delivery_config ::
  "('id, 'a, 'l, 'm) config_codec \<Rightarrow> environment \<Rightarrow> delivery_config \<Rightarrow> (delivery_config, server_error) result" where
  "load_delivery_config k env c =
     and_then (override env ''ORBITRELAY_ASSET_DELIVERY_ENABLED'' (parse_bool_env ''ORBITRELAY_ASSET_DELIVERY_ENABLED'')
        with_enabled c) (\<lambda>c.
     and_then (override env ''ORBITRELAY_ASSET_LISTEN_ADDR''
        (parse_or ''ORBITRELAY_ASSET_LISTEN_ADDR is not a valid socket address'' (cc_parse_addr k)) with_listen_addr c) (\<lambda>c.
     and_then (override env ''ORBITRELAY_ASSET_PUBLIC_BASE_URL'' Ok with_public_base_url c) (\<lambda>c.
     and_then (override env ''ORBITRELAY_ASSET_MAX_CONNECTIONS'' (parse_number_env ''ORBITRELAY_ASSET_MAX_CONNECTIONS'')
        delivery_with_max_connections c) (\<lambda>c.
     and_then (override env ''ORBITRELAY_ASSET_MAX_ACTIVE_DOWNLOADS'' (parse_number_env ''ORBITRELAY_ASSET_MAX_ACTIVE_DOWNLOADS'')
        with_max_active_downloads c) (\<lambda>c.
     and_then (override env ''ORBITRELAY_ASSET_CHUNK_SIZE'' (parse_number_env ''ORBITRELAY_ASSET_CHUNK_SIZE'')
        with_chunk_size c) (\<lambda>c.
     and_then (override env ''ORBITRELAY_ASSET_IDLE_TIMEOUT_MILLISECONDS'' (parse_number_env ''ORBITRELAY_ASSET_IDLE_TIMEOUT_MILLISECONDS'')
        with_idle_timeout_milliseconds c) (\<lambda>c.
     and_then (override env ''ORBITRELAY_ASSET_GRANT_TTL_SECONDS'' (parse_or ''ORBITRELAY_ASSET_GRANT_TTL_SECONDS must be an integer'' parse_i64)
        with_grant_ttl_seconds c) (\<lambda>c.
     and_then (override env ''ORBITRELAY_ASSET_MAX_GRANTS'' (parse_number_env ''ORBITRELAY_ASSET_MAX_GRANTS'')
        with_max_grants c) (\<lambda>c.
     override env ''ORBITRELAY_ASSET_ALLOWED_ORIGINS'' (\<lambda>v. Ok (allowed_origins_of v)) with_allowed_origins c)))))))))"

definition load_server_config ::
  "('id, 'a, 'l, 'm) config_codec \<Rightarrow> environment \<Rightarrow> (('id, 'a, 'l, 'm) server_config, server_error) result" where
  "load_server_config k env =
     and_then (load_node k env (server_config_default k)) (\<lambda>c.
     and_then (override env ''ORBITRELAY_DEVELOPMENT_MODE'' (parse_bool_env ''ORBITRELAY_DEVELOPMENT_MODE'')
        (\<lambda>x. sc_development_mode_update (\<lambda>_. x)) c) (\<lambda>c.
     and_then (if sc_development_mode c
               then override env ''ORBITRELAY_DEVELOPMENT_PDF_PATH'' Ok (\<lambda>x. sc_development_pdf_path_update (\<lambda>_. Some x)) c
               else Ok c) (\<lambda>c.
     and_then (load_canvas_config k env (sc_development_canvas c)) (\<lambda>canvas.
     and_then (load_listener_config k env (sc_websocket_listener c)) (\<lambda>listener.
     and_then (load_delivery_config k env (sc_asset_delivery c)) (\<lambda>delivery.
     let c = c\<lparr>sc_development_canvas := canvas, sc_websocket_listener := listener, sc_asset_delivery := delivery\<rparr> in
     and_then (validate_server_config k c) (\<lambda>_. Ok c)))))))"

lemmas delivery_builders = with_enabled_def with_listen_addr_def with_public_base_url_def delivery_with_max_connections_def with_max_active_downloads_def
  with_chunk_size_def with_idle_timeout_milliseconds_def with_grant_ttl_seconds_def with_max_grants_def with_allowed_origins_def

section \<open>Which variables matter\<close>

definition config_variables :: "string list" where
  "config_variables =
     [''ORBITRELAY_NODE_ID'', ''ORBITRELAY_SUBSCRIPTION_QUEUE_CAPACITY'', ''ORBITRELAY_HISTORY_STORE_SCAN_LIMIT'', ''ORBITRELAY_EVENT_STORE_PATH'',
      ''ORBITRELAY_ASSET_STORE_DIR'', ''ORBITRELAY_CATALOG_STORE_PATH'', ''ORBITRELAY_SQLITE_COMMAND_QUEUE_CAPACITY'', ''ORBITRELAY_DEVELOPMENT_MODE'',
      ''ORBITRELAY_DEVELOPMENT_PDF_PATH'', ''ORBITRELAY_DEVELOPMENT_CANVAS_SESSION_ID'', ''ORBITRELAY_DEVELOPMENT_CANVAS_ID'',
      ''ORBITRELAY_DEVELOPMENT_CANVAS_LAYER_ID'', ''ORBITRELAY_DEVELOPMENT_CANVAS_WIDTH'', ''ORBITRELAY_DEVELOPMENT_CANVAS_HEIGHT'',
      ''ORBITRELAY_BIND_ADDR'', ''ORBITRELAY_WEBSOCKET_PATH'', ''ORBITRELAY_MAX_CONNECTIONS'', ''ORBITRELAY_HANDSHAKE_TIMEOUT_MILLISECONDS'',
      ''ORBITRELAY_SHUTDOWN_GRACE_PERIOD_MILLISECONDS'', ''ORBITRELAY_ASSET_DELIVERY_ENABLED'', ''ORBITRELAY_ASSET_LISTEN_ADDR'',
      ''ORBITRELAY_ASSET_PUBLIC_BASE_URL'', ''ORBITRELAY_ASSET_MAX_CONNECTIONS'', ''ORBITRELAY_ASSET_MAX_ACTIVE_DOWNLOADS'',
      ''ORBITRELAY_ASSET_CHUNK_SIZE'', ''ORBITRELAY_ASSET_IDLE_TIMEOUT_MILLISECONDS'', ''ORBITRELAY_ASSET_GRANT_TTL_SECONDS'',
      ''ORBITRELAY_ASSET_MAX_GRANTS'', ''ORBITRELAY_ASSET_ALLOWED_ORIGINS'']"

lemma override_cong_env: "env name = env' name \<Longrightarrow> override env name = override env' name"
  by (intro ext) (simp add: override_def read_utf8_env_def)

lemma load_ignores_others:
  assumes "\<And>name. name \<in> set config_variables \<Longrightarrow> env name = env' name"
  shows "load_server_config k env = load_server_config k env'"
proof -
  have e: "override env name = override env' name" if "name \<in> set config_variables" for name
    using assms [OF that] by (rule override_cong_env)
  note e = this [unfolded config_variables_def list.set]
  show ?thesis
    unfolding load_server_config_def load_node_def load_canvas_config_def load_listener_config_def load_delivery_config_def
    by (simp only: e insertI1 insertI2)
qed

section \<open>Writing a configuration down\<close>

text \<open>Settings as the text of environment variables, given printers for identities, numbers and addresses.\<close>

fun join_with :: "string \<Rightarrow> string list \<Rightarrow> string" where
  "join_with sep [] = []"
| "join_with sep [x] = x"
| "join_with sep (x # xs) = x @ sep @ join_with sep xs"

definition print_bool :: "bool \<Rightarrow> string" where
  "print_bool b = (if b then ''true'' else ''false'')"

record 'id config_printer =
  cp_id :: "'id \<Rightarrow> string"
  cp_f64 :: "f64 \<Rightarrow> string"
  cp_addr :: "socket_addr \<Rightarrow> string"

definition settings_of :: "'id config_printer \<Rightarrow> ('id, 'a, 'l, 'm) server_config \<Rightarrow> string option list" where
  "settings_of p c = (let v = sc_development_canvas c; w = sc_websocket_listener c; d = sc_asset_delivery c in
     [map_option (cp_id p) (sc_node_id c), Some (dec_of_nat (sc_subscription_queue_capacity c)), Some (dec_of_nat (sc_history_store_scan_limit c)),
      sc_event_store_path c, sc_asset_store_root c, sc_catalog_store_path c, Some (dec_of_nat (sc_sqlite_command_queue_capacity c)),
      Some (print_bool (sc_development_mode c)), sc_development_pdf_path c,
      map_option (cp_id p) (dv_session_id v), map_option (cp_id p) (dv_canvas_id v), map_option (cp_id p) (dv_layer_id v),
      Some (cp_f64 p (dv_width v)), Some (cp_f64 p (dv_height v)),
      Some (cp_addr p (wl_bind_addr w)), Some (wl_websocket_path w), Some (dec_of_nat (wl_max_connections w)),
      Some (dec_of_nat (wl_handshake_timeout_milliseconds w)), Some (dec_of_nat (wl_shutdown_grace_period_milliseconds w)),
      Some (print_bool (dc_enabled d)), Some (cp_addr p (dc_listen_addr d)), dc_public_base_url d, Some (dec_of_nat (dc_max_connections d)),
      Some (dec_of_nat (dc_max_active_downloads d)), Some (dec_of_nat (dc_chunk_size d)), Some (dec_of_nat (dc_idle_timeout_milliseconds d)),
      Some (dec_of_nat (nat (dc_grant_ttl_seconds d))), Some (dec_of_nat (dc_max_grants d)), Some (join_with '','' (dc_allowed_origins d))])"

definition environment_of :: "'id config_printer \<Rightarrow> ('id, 'a, 'l, 'm) server_config \<Rightarrow> environment" where
  "environment_of p c name = (case map_of (zip config_variables (settings_of p c)) name of Some (Some v) \<Rightarrow> Some (Utf8 v) | _ \<Rightarrow> None)"

text \<open>The parsers read back what the printers wrote for this configuration.\<close>

definition printer_ok :: "('id, 'a, 'l, 'm) config_codec \<Rightarrow> 'id config_printer \<Rightarrow> ('id, 'a, 'l, 'm) server_config \<Rightarrow> bool" where
  "printer_ok k p c \<longleftrightarrow> (\<forall>i. cc_parse_id k (cp_id p i) = Some i) \<and>
     (\<forall>x \<in> {dv_width (sc_development_canvas c), dv_height (sc_development_canvas c)}. cc_parse_f64 k (cp_f64 p x) = Some x) \<and>
     (\<forall>a \<in> {wl_bind_addr (sc_websocket_listener c), dc_listen_addr (sc_asset_delivery c)}. cc_parse_addr k (cp_addr p a) = Some a)"

text \<open>
  What variables can express: machine integers, origins without commas and surrounding
  space, a Development PDF only in Development; the rest is fixed.
\<close>

definition origin_plain :: "string \<Rightarrow> bool" where
  "origin_plain s \<longleftrightarrow> s \<noteq> [] \<and> CHR '','' \<notin> set s \<and> trim s = s"

definition expressible :: "('id, 'a, 'l, 'm) config_codec \<Rightarrow> ('id, 'a, 'l, 'm) server_config \<Rightarrow> bool" where
  "expressible k c \<longleftrightarrow> sc_node_metadata c = cc_metadata_new k \<and> sc_websocket_adapter c = cc_adapter_default k \<and>
     sc_development_pdf_inspection_limits c = cc_limits_default k \<and> (sc_development_pdf_path c \<noteq> None \<longrightarrow> sc_development_mode c) \<and>
     list_all (\<lambda>n. n \<le> u64_max)
       [sc_subscription_queue_capacity c, sc_history_store_scan_limit c, sc_sqlite_command_queue_capacity c,
        wl_max_connections (sc_websocket_listener c), wl_handshake_timeout_milliseconds (sc_websocket_listener c),
        wl_shutdown_grace_period_milliseconds (sc_websocket_listener c), dc_max_connections (sc_asset_delivery c),
        dc_max_active_downloads (sc_asset_delivery c), dc_chunk_size (sc_asset_delivery c), dc_idle_timeout_milliseconds (sc_asset_delivery c),
        dc_max_grants (sc_asset_delivery c)] \<and>
     dc_grant_ttl_seconds (sc_asset_delivery c) \<le> i64_max \<and> list_all origin_plain (dc_allowed_origins (sc_asset_delivery c))"

lemma split_once_comma: "split_once_str '','' s = split_once_char CHR '','' s"
  by (induction s) (auto split: option.split)

lemma split_joined: "xs \<noteq> [] \<Longrightarrow> list_all (\<lambda>s. CHR '','' \<notin> set s) xs \<Longrightarrow> split_str '','' (join_with '','' xs) = xs"
proof (induction "'',''" xs rule: join_with.induct)
  case (2 x)
  then show ?case by (subst split_str.simps) (simp add: split_once_comma split_once_char_None [THEN iffD2])
next
  case (3 x y ys)
  then show ?case by (subst split_str.simps) (simp add: split_once_comma)
qed simp

lemma allowed_origins_join: "list_all origin_plain xs \<Longrightarrow> allowed_origins_of (join_with '','' xs) = xs"
proof (cases "xs = []")
  case True
  have "trim [] = []" by code_simp
  with True show ?thesis by (simp add: allowed_origins_of_def split_str.simps)
next
  case False
  assume all: "list_all origin_plain xs"
  then have "map trim xs = xs" "filter (\<lambda>origin. origin \<noteq> []) xs = xs" by (induction xs) (auto simp: origin_plain_def)
  moreover have "list_all (\<lambda>s. CHR '','' \<notin> set s) xs" using all by (induction xs) (auto simp: origin_plain_def)
  ultimately show ?thesis using split_joined [OF False] by (simp add: allowed_origins_of_def)
qed

lemma parse_i64_dec: "int n \<le> i64_max \<Longrightarrow> parse_i64 (dec_of_nat n) = Some (int n)"
proof -
  assume n: "int n \<le> i64_max"
  obtain x xs where s: "dec_of_nat n = x # xs" using dec_of_nat_nonempty by (cases "dec_of_nat n") auto
  have "is_digit x" using dec_of_nat_digits [of x n] s by simp
  then have "x \<noteq> CHR ''-''" by (auto simp: is_digit_def)
  moreover have "n \<le> 2 ^ 63 - 1" using n by (simp add: i64_max_def)
  ultimately show ?thesis using s parse_unsigned_dec_of_nat [of n "2 ^ 63 - 1"] by (simp add: parse_i64_def)
qed


lemma override_Some:
  assumes "env name = Some (Utf8 v)" and "parse v = Ok x"
  shows "override env name parse set_field c = Ok (set_field x c)"
  using assms by (simp add: override_def read_utf8_env_def)

lemma override_None: "env name = None \<Longrightarrow> override env name parse set_field c = Ok c"
  by (simp add: override_def read_utf8_env_def)

lemma config_variables_distinct: "distinct config_variables" "length config_variables = 29"
  by code_simp+

lemma environment_of_nth:
  assumes "i < 29"
  shows "environment_of p c (config_variables ! i) = map_option Utf8 (settings_of p c ! i)"
proof -
  have l: "length (settings_of p c) = 29" by (simp add: settings_of_def Let_def)
  have "map_of (zip config_variables (settings_of p c)) (config_variables ! i) = Some (settings_of p c ! i)"
    using assms l config_variables_distinct by (intro map_of_zip_nth) simp_all
  then show ?thesis by (simp add: environment_of_def split: option.split)
qed

lemma environment_of_variables:
  "list_all2 (\<lambda>name s. environment_of p c name = map_option Utf8 s) config_variables (settings_of p c)"
  unfolding list_all2_conv_all_nth using environment_of_nth [of _ p c] config_variables_distinct(2)
  by (simp add: settings_of_def Let_def)

lemmas environment_of_settings = environment_of_variables [unfolded config_variables_def settings_of_def Let_def, simplified]

lemma parse_bool_print: "parse_bool_env name (print_bool b) = Ok b"
  by (simp add: parse_bool_env_def print_bool_def)

lemma parse_number_dec: "n \<le> u64_max \<Longrightarrow> parse_number_env name (dec_of_nat n) = Ok n"
  by (simp add: parse_number_env_def parse_unsigned_dec_of_nat)

lemma printer_okD:
  assumes "printer_ok k p c"
  shows "parse_or msg (cc_parse_id k) (cp_id p i) = Ok i"
    "parse_or msg (cc_parse_f64 k) (cp_f64 p (dv_width (sc_development_canvas c))) = Ok (dv_width (sc_development_canvas c))"
    "parse_or msg (cc_parse_f64 k) (cp_f64 p (dv_height (sc_development_canvas c))) = Ok (dv_height (sc_development_canvas c))"
    "parse_or msg (cc_parse_addr k) (cp_addr p (wl_bind_addr (sc_websocket_listener c))) = Ok (wl_bind_addr (sc_websocket_listener c))"
    "parse_or msg (cc_parse_addr k) (cp_addr p (dc_listen_addr (sc_asset_delivery c))) = Ok (dc_listen_addr (sc_asset_delivery c))"
  using assms by (simp_all add: printer_ok_def parse_or_def)

text \<open>An optional setting is left alone or set.\<close>

lemma override_option:
  assumes "\<And>i. parse (pr i) = Ok i"
  shows "env name = map_option Utf8 (map_option pr x) \<Longrightarrow>
    override env name parse set_field c = Ok (case x of None \<Rightarrow> c | Some i \<Rightarrow> set_field i c)"
  using assms by (cases x) (simp_all add: override_def read_utf8_env_def)

lemma override_text: "env name = map_option Utf8 x \<Longrightarrow>
    override env name Ok set_field c = Ok (case x of None \<Rightarrow> c | Some i \<Rightarrow> set_field i c)"
  by (cases x) (simp_all add: override_def read_utf8_env_def)

lemma override_var:
  assumes "env name = Some (Utf8 v)"
  shows "override env name parse set_field c = and_then (parse v) (\<lambda>x. Ok (set_field x c))"
  using assms by (simp add: override_def read_utf8_env_def)

lemma load_canvas_config_roundtrip:
  assumes "printer_ok k p c"
  shows "load_canvas_config k (environment_of p c) development_canvas_config_default = Ok (sc_development_canvas c)"
proof -
  note e = environment_of_settings [of p c]
  let ?v = "sc_development_canvas c"
  note opt = override_option [where pr = "cp_id p" and env = "environment_of p c", OF printer_okD(1) [OF assms]]
  have ids: "environment_of p c ''ORBITRELAY_DEVELOPMENT_CANVAS_SESSION_ID'' = map_option Utf8 (map_option (cp_id p) (dv_session_id ?v))"
    "environment_of p c ''ORBITRELAY_DEVELOPMENT_CANVAS_ID'' = map_option Utf8 (map_option (cp_id p) (dv_canvas_id ?v))"
    "environment_of p c ''ORBITRELAY_DEVELOPMENT_CANVAS_LAYER_ID'' = map_option Utf8 (map_option (cp_id p) (dv_layer_id ?v))"
    by (simp_all only: e)
  show ?thesis
    unfolding load_canvas_config_def opt [OF ids(1)] opt [OF ids(2)] opt [OF ids(3)] and_then.simps
    by (simp add: e override_var printer_okD [OF assms])
      (cases ?v, simp add: development_canvas_config_default_def split: option.split)
qed

lemma load_listener_config_roundtrip:
  assumes "printer_ok k p c" and "expressible k c"
  shows "load_listener_config k (environment_of p c) w = Ok (sc_websocket_listener c)"
  using assms(2) unfolding load_listener_config_def
  by (simp add: environment_of_settings [of p c] override_var printer_okD [OF assms(1)] parse_number_dec expressible_def)

lemma load_delivery_config_roundtrip:
  assumes "printer_ok k p c" and "expressible k c" and "validate_delivery_config (sc_asset_delivery c) = Ok ()"
  shows "load_delivery_config k (environment_of p c) delivery_config_default = Ok (sc_asset_delivery c)"
proof -
  note e = environment_of_settings [of p c]
  let ?d = "sc_asset_delivery c"
  have url: "environment_of p c ''ORBITRELAY_ASSET_PUBLIC_BASE_URL'' = map_option Utf8 (dc_public_base_url ?d)" by (simp only: e)
  have pos: "0 < dc_grant_ttl_seconds ?d" using assms(3) by (auto simp: validate_delivery_config_def split: if_splits)
  then have ttl: "parse_or msg parse_i64 (dec_of_nat (nat (dc_grant_ttl_seconds ?d))) = Ok (dc_grant_ttl_seconds ?d)" for msg
    using assms(2) parse_i64_dec [of "nat (dc_grant_ttl_seconds ?d)"] by (simp add: parse_or_def expressible_def)
  show ?thesis
    using assms(2) unfolding load_delivery_config_def override_text [where env = "environment_of p c", OF url]
    by (simp add: e override_var printer_okD [OF assms(1)] parse_number_dec expressible_def parse_bool_print ttl allowed_origins_join delivery_builders)
      (cases ?d, simp add: delivery_config_default_def delivery_builders split: option.split)
qed

lemma load_node_roundtrip:
  assumes "printer_ok k p c" and "expressible k c"
  shows "load_node k (environment_of p c) (server_config_default k) = Ok ((server_config_default k)
    \<lparr>sc_node_id := sc_node_id c, sc_subscription_queue_capacity := sc_subscription_queue_capacity c,
     sc_history_store_scan_limit := sc_history_store_scan_limit c, sc_event_store_path := sc_event_store_path c,
     sc_asset_store_root := sc_asset_store_root c, sc_catalog_store_path := sc_catalog_store_path c,
     sc_sqlite_command_queue_capacity := sc_sqlite_command_queue_capacity c\<rparr>)"
proof -
  note e = environment_of_settings [of p c]
  note opt = override_option [where pr = "cp_id p" and env = "environment_of p c", OF printer_okD(1) [OF assms(1)]]
  have node: "environment_of p c ''ORBITRELAY_NODE_ID'' = map_option Utf8 (map_option (cp_id p) (sc_node_id c))" by (simp only: e)
  have paths: "environment_of p c ''ORBITRELAY_EVENT_STORE_PATH'' = map_option Utf8 (sc_event_store_path c)"
    "environment_of p c ''ORBITRELAY_ASSET_STORE_DIR'' = map_option Utf8 (sc_asset_store_root c)"
    "environment_of p c ''ORBITRELAY_CATALOG_STORE_PATH'' = map_option Utf8 (sc_catalog_store_path c)" by (simp_all only: e)
  show ?thesis
    using assms(2) unfolding load_node_def opt [OF node] override_text [where env = "environment_of p c", OF paths(1)] override_text [where env = "environment_of p c", OF paths(2)] override_text [where env = "environment_of p c", OF paths(3)]
    by (simp add: e override_var parse_number_dec expressible_def) (simp add: server_config_default_def split: option.split)
qed

text \<open>
  C26. Every valid configuration that variables can express is loaded as written: when each setting is
  printed into its variable, \<^verbatim>\<open>load\<close> returns exactly that configuration, whatever other
  variables the environment has.
\<close>

theorem load_returns_written_config:
  assumes "printer_ok k p c" and "expressible k c" and "validate_server_config k c = Ok ()"
    and "\<forall>name \<in> set config_variables. env name = environment_of p c name"
  shows "load_server_config k env = Ok c"
proof -
  have env: "load_server_config k env = load_server_config k (environment_of p c)"
    by (rule load_ignores_others) (use assms(4) in blast)
  note e = environment_of_settings [of p c]
  have delivery: "validate_delivery_config (sc_asset_delivery c) = Ok ()"
    using assms(3) by (auto simp: validate_server_config_def split: if_splits)
  have mode: "override (environment_of p c) ''ORBITRELAY_DEVELOPMENT_MODE'' (parse_bool_env ''ORBITRELAY_DEVELOPMENT_MODE'') set_field c0 =
      Ok (set_field (sc_development_mode c) c0)" for set_field :: "bool \<Rightarrow> 'cfg \<Rightarrow> 'cfg" and c0
    by (simp add: e override_var parse_bool_print)
  have pdf: "environment_of p c ''ORBITRELAY_DEVELOPMENT_PDF_PATH'' = map_option Utf8 (sc_development_pdf_path c)" by (simp only: e)
  let ?c1 = "(server_config_default k)
    \<lparr>sc_node_id := sc_node_id c, sc_subscription_queue_capacity := sc_subscription_queue_capacity c,
     sc_history_store_scan_limit := sc_history_store_scan_limit c, sc_event_store_path := sc_event_store_path c,
     sc_asset_store_root := sc_asset_store_root c, sc_catalog_store_path := sc_catalog_store_path c,
     sc_sqlite_command_queue_capacity := sc_sqlite_command_queue_capacity c, sc_development_mode := sc_development_mode c\<rparr>"
  let ?c2 = "?c1\<lparr>sc_development_pdf_path := sc_development_pdf_path c\<rparr>"
  have step: "(if sc_development_mode ?c1 then override (environment_of p c) ''ORBITRELAY_DEVELOPMENT_PDF_PATH'' Ok
      (\<lambda>x. sc_development_pdf_path_update (\<lambda>_. Some x)) ?c1 else Ok ?c1) = Ok ?c2"
    using assms(2) unfolding override_text [where env = "environment_of p c", OF pdf]
    by (cases "sc_development_pdf_path c") (simp_all add: expressible_def server_config_default_def)
  have parts: "sc_development_canvas ?c2 = development_canvas_config_default" "sc_asset_delivery ?c2 = delivery_config_default"
    by (simp_all add: server_config_default_def)
  have whole: "?c2\<lparr>sc_development_canvas := sc_development_canvas c, sc_websocket_listener := sc_websocket_listener c, sc_asset_delivery := sc_asset_delivery c\<rparr> = c"
    using assms(2) by (intro server_config.equality) (simp_all add: server_config_default_def expressible_def)
  show ?thesis
    unfolding env
    unfolding load_server_config_def load_node_roundtrip [OF assms(1,2)] mode step and_then.simps parts
      load_canvas_config_roundtrip [OF assms(1)] load_listener_config_roundtrip [OF assms(1,2)]
      load_delivery_config_roundtrip [OF assms(1,2) delivery] Let_def whole assms(3) by (rule refl)
qed

section \<open>What validation ensures\<close>

lemma validated_config:
  assumes "validate_server_config k c = Ok ()"
  shows "0 < sc_subscription_queue_capacity c" "0 < sc_history_store_scan_limit c" "sc_history_store_scan_limit c \<le> MAX_HISTORY_STORE_SCAN_LIMIT"
    "cc_adapter_valid k (sc_websocket_adapter c)" "0 < sc_sqlite_command_queue_capacity c"
    "validate_websocket_listener (sc_websocket_listener c) = Ok ()" "validate_delivery_config (sc_asset_delivery c) = Ok ()"
    "is_finite (dv_width (sc_development_canvas c))" "\<not> not_positive (dv_width (sc_development_canvas c))"
    "is_finite (dv_height (sc_development_canvas c))" "\<not> not_positive (dv_height (sc_development_canvas c))"
  using assms by (auto simp: validate_server_config_def validate_stores_def validate_development_canvas_def split: if_splits)

lemma load_validates: "load_server_config k env = Ok c \<Longrightarrow> validate_server_config k c = Ok ()"
  by (auto simp: load_server_config_def Let_def)

text \<open>The defaults are valid when the adapter's are.\<close>

lemma default_config_valid: "cc_adapter_valid k (cc_adapter_default k) \<Longrightarrow> validate_server_config k (server_config_default k) = Ok ()"
  by (simp add: validate_server_config_def server_config_default_def validate_websocket_listener_def websocket_listener_config_default_def
      validate_development_canvas_def development_canvas_config_default_def validate_delivery_config_def delivery_config_default_def
      validate_stores_def starts_with_def DEFAULT_SUBSCRIPTION_QUEUE_CAPACITY_def DEFAULT_HISTORY_STORE_SCAN_LIMIT_def MAX_HISTORY_STORE_SCAN_LIMIT_def
      DEFAULT_COMMAND_QUEUE_CAPACITY_def)

section \<open>A sample configuration\<close>

text \<open>Identities are texts; a number is a mantissa in unary and an address is a port in unary.\<close>

definition sample_config_codec :: "(string, unit, unit, unit) config_codec" where
  "sample_config_codec =
     \<lparr>cc_parse_id = Some, cc_parse_f64 = (\<lambda>s. Some (F64 (int (length s)) 0)), cc_parse_addr = (\<lambda>s. Some \<lparr>sa_ip = IpV4 127 0 0 1, sa_port = length s\<rparr>),
      cc_adapter_default = (), cc_adapter_valid = (\<lambda>_. True), cc_limits_default = (), cc_metadata_new = ()\<rparr>"

text \<open>Variables that are set, one of them twice its default, and one that the server does not know.\<close>

definition sample_environment :: environment where
  "sample_environment = map_of [(''ORBITRELAY_DEVELOPMENT_MODE'', Utf8 ''1''), (''ORBITRELAY_DEVELOPMENT_PDF_PATH'', Utf8 ''/tmp/a.pdf''),
     (''ORBITRELAY_ASSET_STORE_DIR'', Utf8 ''/var/assets''), (''ORBITRELAY_CATALOG_STORE_PATH'', Utf8 ''/var/catalog''),
     (''ORBITRELAY_ASSET_ALLOWED_ORIGINS'', Utf8 ''http://a, ,http://b''), (''HOME'', NotUtf8)]"

lemma sample_environment_loaded:
  "\<exists>c. load_server_config sample_config_codec sample_environment = Ok c \<and> sc_development_mode c \<and> sc_development_pdf_path c = Some ''/tmp/a.pdf'' \<and>
     sc_asset_store_root c = Some ''/var/assets'' \<and> dc_allowed_origins (sc_asset_delivery c) = [''http://a'', ''http://b''] \<and>
     sc_subscription_queue_capacity c = 64"
proof -
  let ?check = "\<lambda>c :: (string, unit, unit, unit) server_config. sc_development_mode c \<and> sc_development_pdf_path c = Some ''/tmp/a.pdf'' \<and>
     sc_asset_store_root c = Some ''/var/assets'' \<and> dc_allowed_origins (sc_asset_delivery c) = [''http://a'', ''http://b''] \<and>
     sc_subscription_queue_capacity c = 64"
  have "case load_server_config sample_config_codec sample_environment of Inl e \<Rightarrow> False | Inr c \<Rightarrow> ?check c"
    by code_simp
  then show ?thesis by (cases "load_server_config sample_config_codec sample_environment") auto
qed

definition sample_printer :: "string config_printer" where
  "sample_printer = \<lparr>cp_id = (\<lambda>i. i), cp_f64 = (\<lambda>x. case x of F64 m e \<Rightarrow> replicate (nat m) (CHR ''1'') | _ \<Rightarrow> []),
     cp_addr = (\<lambda>a. replicate (sa_port a) (CHR ''1''))\<rparr>"

definition sample_server_config :: "(string, unit, unit, unit) server_config" where
  "sample_server_config = (server_config_default sample_config_codec)\<lparr>sc_node_id := Some ''n'', sc_development_mode := True,
     sc_development_pdf_path := Some ''/a.pdf'', sc_sqlite_command_queue_capacity := 7\<rparr>"

theorem load_returns_written_config_witness:
  "load_server_config sample_config_codec (environment_of sample_printer sample_server_config) = Ok sample_server_config"
proof (rule load_returns_written_config [where p = sample_printer])
  show "printer_ok sample_config_codec sample_printer sample_server_config"
    by (simp add: printer_ok_def sample_config_codec_def sample_printer_def sample_server_config_def server_config_default_def
        development_canvas_config_default_def websocket_listener_config_default_def delivery_config_default_def)
  show "expressible sample_config_codec sample_server_config"
    by (simp add: expressible_def sample_server_config_def server_config_default_def websocket_listener_config_default_def delivery_config_default_def
        u64_max_def i64_max_def DEFAULT_SUBSCRIPTION_QUEUE_CAPACITY_def DEFAULT_HISTORY_STORE_SCAN_LIMIT_def DEFAULT_COMMAND_QUEUE_CAPACITY_def)
  have "validate_server_config sample_config_codec (server_config_default sample_config_codec) = Ok ()"
    by (rule default_config_valid) (simp add: sample_config_codec_def)
  then show "validate_server_config sample_config_codec sample_server_config = Ok ()"
    by (simp add: sample_server_config_def validate_server_config_def validate_stores_def server_config_default_def split: if_splits)
qed simp

end
