(* ===== verification/Listeners.thy ===== *)
theory Listeners
  imports Task_Pool Server_Config "HOL-Library.AList"
begin

text \<open>
  The two accept loops: the WebSocket listener with its supervisor
  (\<^verbatim>\<open>orbitrelay-server/src/listener.rs\<close>) and the Asset HTTP listener
  (\<^verbatim>\<open>asset_delivery/http.rs\<close>). A loop is followed event by event: the branches of its
  \<^verbatim>\<open>tokio::select!\<close>, and what the connection tasks do in between. The semaphore, the
  WebSocket handshake and session are tokio's, tungstenite's and the transport's; they are arguments.
\<close>

section \<open>One WebSocket connection\<close>

text \<open>The errors of the transport's adapter that the listener makes or looks at.\<close>

datatype websocket_adapter_error = FrameError string | TaskError string | WriteTimeout string nat | OtherAdapterError string

type_synonym session_result = "(unit, websocket_adapter_error) result"

record handshake_response =
  rs_status :: nat
  rs_headers :: "(string \<times> string) list"
  rs_body :: "string option"

text \<open>The header map compares names in lower case and keeps one value of an inserted name.\<close>

definition insert_header :: "string \<Rightarrow> string \<Rightarrow> (string \<times> string) list \<Rightarrow> (string \<times> string) list" where
  "insert_header name value headers = AList.update name value headers"

text \<open>The callback of the handshake.\<close>

definition handshake_callback ::
  "string \<Rightarrow> string \<Rightarrow> handshake_response \<Rightarrow> (handshake_response, handshake_response) result" where
  "handshake_callback callback_path request_path response =
     (if request_path = callback_path then Ok response
      else let rejected = response\<lparr>rs_body := Some ''WebSocket path not found'', rs_status := 404\<rparr> in
        Err (rejected\<lparr>rs_headers := insert_header ''content-length'' ''23'' (insert_header ''connection'' ''close'' (rs_headers rejected))\<rparr>))"

text \<open>
  What surrounds one connection: the conversions of the socket, \<^verbatim>\<open>accept_hdr_async\<close> (\<^verbatim>\<open>None\<close>
  when the handshake times out), the session until the cancellation, and within two
  seconds after the socket was shut down.
\<close>

record 'ws connection_env =
  ce_into_std :: bool
  ce_try_clone :: bool
  ce_from_std :: bool
  ce_accept :: "(string \<Rightarrow> handshake_response \<Rightarrow> (handshake_response, handshake_response) result) \<Rightarrow> ('ws, unit) result option"
  ce_session :: "'ws \<Rightarrow> session_result option"
  ce_after_shutdown :: "'ws \<Rightarrow> session_result option"

text \<open>
  The task of one connection: its result, the WebSocket it ran a session on, and whether it
  shut the socket down.
\<close>

definition run_connection :: "string \<Rightarrow> 'ws connection_env \<Rightarrow> session_result \<times> 'ws option \<times> bool" where
  "run_connection expected_path env =
     (if \<not> ce_into_std env then (Err (FrameError ''could not prepare accepted TCP stream''), None, False)
      else if \<not> ce_try_clone env then (Err (FrameError ''could not create TCP shutdown handle''), None, False)
      else if \<not> ce_from_std env then (Err (FrameError ''could not restore accepted TCP stream''), None, False)
      else case ce_accept env (handshake_callback expected_path) of
        None \<Rightarrow> (Err (FrameError ''WebSocket handshake timed out''), None, False)
      | Some (Inl _) \<Rightarrow> (Err (FrameError ''WebSocket handshake rejected''), None, False)
      | Some (Inr websocket) \<Rightarrow>
          (case ce_session env websocket of
             Some result \<Rightarrow> (result, Some websocket, False)
           | None \<Rightarrow>
               (case ce_after_shutdown env websocket of
                  Some result \<Rightarrow> (result, Some websocket, True)
                | None \<Rightarrow> (Err (TaskError ''WebSocket session did not stop after TCP shutdown''), Some websocket, True))))"

section \<open>The connection supervisor\<close>

text \<open>A connection task, or what \<^verbatim>\<open>join_next\<close> will return for it: \<^verbatim>\<open>None\<close> is a \<^verbatim>\<open>JoinError\<close>, after a panic or an abort.\<close>

datatype websocket_task = ConnectionRunning | ConnectionEnded "session_result option"

record 'q connection_supervisor =
  sv_tasks :: "websocket_task list"
  sv_permits :: 'q

text \<open>The outer option is a panic of \<^verbatim>\<open>Semaphore::new\<close>.\<close>

definition supervisor_new :: "'q semaphore_ops \<Rightarrow> nat \<Rightarrow> ('q connection_supervisor, server_error) result option" where
  "supervisor_new sem max_connections =
     (if max_connections = 0 then Some (Err (ConfigFailed ''max connections must be greater than zero''))
      else map_option (\<lambda>permits. Ok \<lparr>sv_tasks = [], sv_permits = permits\<rparr>) (sem_new sem max_connections))"

definition supervisor_task_count :: "'q connection_supervisor \<Rightarrow> nat" where
  "supervisor_task_count sv = length (sv_tasks sv)"

definition has_tasks :: "'q connection_supervisor \<Rightarrow> bool" where
  "has_tasks sv \<longleftrightarrow> sv_tasks sv \<noteq> []"

definition try_spawn :: "'q semaphore_ops \<Rightarrow> 'q connection_supervisor \<Rightarrow> bool \<times> 'q connection_supervisor" where
  "try_spawn sem sv =
     (case sem_try_acquire sem (sv_permits sv) of
        None \<Rightarrow> (False, sv)
      | Some permits \<Rightarrow> (True, sv\<lparr>sv_tasks := sv_tasks sv @ [ConnectionRunning], sv_permits := permits\<rparr>))"

text \<open>A task ends and its permit is dropped.\<close>

definition end_connection ::
  "'q semaphore_ops \<Rightarrow> nat \<Rightarrow> session_result option \<Rightarrow> 'q connection_supervisor \<Rightarrow> 'q connection_supervisor option" where
  "end_connection sem i result sv =
     (if i < length (sv_tasks sv) \<and> sv_tasks sv ! i = ConnectionRunning
      then Some (sv\<lparr>sv_tasks := (sv_tasks sv)[i := ConnectionEnded result], sv_permits := sem_release sem (sv_permits sv)\<rparr>)
      else None)"

definition supervisor_join_next :: "nat \<Rightarrow> 'q connection_supervisor \<Rightarrow> 'q connection_supervisor option" where
  "supervisor_join_next i sv =
     (if i < length (sv_tasks sv) \<and> sv_tasks sv ! i \<noteq> ConnectionRunning then Some (sv\<lparr>sv_tasks := remove_at i (sv_tasks sv)\<rparr>) else None)"

definition connection_works :: "'q semaphore_ops \<Rightarrow> 'q connection_supervisor \<Rightarrow> 'q connection_supervisor \<Rightarrow> bool" where
  "connection_works sem sv sv' \<longleftrightarrow> (\<exists>i result. end_connection sem i result sv = Some sv')"

definition supervisor_drain ::
  "'q semaphore_ops \<Rightarrow> drain_phase \<times> 'q connection_supervisor \<Rightarrow> drain_phase \<times> 'q connection_supervisor \<Rightarrow> bool" where
  "supervisor_drain sem = drain_step (connection_works sem) supervisor_join_next (\<lambda>sv. sv_tasks sv = [])"

section \<open>The WebSocket listener\<close>

record ('q, 'a) websocket_listener =
  wo_config :: websocket_listener_config
  wo_adapter_config :: 'a
  wo_supervisor :: "'q connection_supervisor"

text \<open>\<open>bound\<close> and \<open>address\<close> are the outcomes of the operating system's calls.\<close>

definition websocket_listener_bind ::
  "'q semaphore_ops \<Rightarrow> ('a \<Rightarrow> bool) \<Rightarrow> bool \<Rightarrow> socket_addr option \<Rightarrow> websocket_listener_config \<Rightarrow> 'a
   \<Rightarrow> (('q, 'a) websocket_listener, server_error) result option" where
  "websocket_listener_bind sem adapter_valid bound address config adapter_config =
     (case validate_websocket_listener config of
        Inl e \<Rightarrow> Some (Err e)
      | Inr _ \<Rightarrow>
          if \<not> adapter_valid adapter_config then Some (Err (ConfigFailed ''invalid WebSocket adapter configuration''))
          else if \<not> bound then Some (Err (ListenerFailed ''failed to bind configured listener''))
          else map_option (\<lambda>r. and_then r (\<lambda>supervisor.
            case address of
              None \<Rightarrow> Err (ListenerFailed ''listener address unavailable'')
            | Some _ \<Rightarrow> Ok \<lparr>wo_config = config, wo_adapter_config = adapter_config, wo_supervisor = supervisor\<rparr>))
            (supervisor_new sem (wl_max_connections config)))"

definition websocket_local_addr :: "socket_addr option \<Rightarrow> (socket_addr, server_error) result" where
  "websocket_local_addr address = ok_or (ListenerFailed ''listener address unavailable'') address"

definition websocket_task_count :: "('q, 'a) websocket_listener \<Rightarrow> nat" where
  "websocket_task_count l = supervisor_task_count (wo_supervisor l)"

text \<open>
  The branches of \<^verbatim>\<open>select!\<close>, the connection being accepted or the call failing, and a task that
  ends by returning or by a panic.
\<close>

datatype 'ws websocket_event =
    WsCancelled
  | WsCompleted nat
  | WsAccepted
  | WsAcceptFailed
  | WsReturns nat "'ws connection_env"
  | WsPanics nat

text \<open>One event, \<^verbatim>\<open>None\<close> if it cannot happen; the loop's result when it ends the loop.\<close>

fun on_websocket_event ::
  "'q semaphore_ops \<Rightarrow> 'ws websocket_event \<Rightarrow> ('q, 'a) websocket_listener
   \<Rightarrow> ((unit, server_error) result option \<times> ('q, 'a) websocket_listener) option" where
  "on_websocket_event sem WsCancelled l = Some (Some (Ok ()), l)"
| "on_websocket_event sem (WsCompleted i) l =
     (if has_tasks (wo_supervisor l) then map_option (\<lambda>sv. (None, l\<lparr>wo_supervisor := sv\<rparr>)) (supervisor_join_next i (wo_supervisor l)) else None)"
| "on_websocket_event sem WsAccepted l = Some (None, l\<lparr>wo_supervisor := snd (try_spawn sem (wo_supervisor l))\<rparr>)"
| "on_websocket_event sem WsAcceptFailed l = Some (Some (Err (ListenerFailed ''accept failed'')), l)"
| "on_websocket_event sem (WsReturns i env) l =
     map_option (\<lambda>sv. (None, l\<lparr>wo_supervisor := sv\<rparr>))
       (end_connection sem i (Some (fst (run_connection (wl_websocket_path (wo_config l)) env))) (wo_supervisor l))"
| "on_websocket_event sem (WsPanics i) l = map_option (\<lambda>sv. (None, l\<lparr>wo_supervisor := sv\<rparr>)) (end_connection sem i None (wo_supervisor l))"

text \<open>The accept loop over a sequence of events; it stops at the first that ends it.\<close>

fun websocket_run ::
  "'q semaphore_ops \<Rightarrow> 'ws websocket_event list \<Rightarrow> ('q, 'a) websocket_listener
   \<Rightarrow> ((unit, server_error) result option \<times> ('q, 'a) websocket_listener) option" where
  "websocket_run sem [] l = Some (None, l)"
| "websocket_run sem (e # es) l =
     (case on_websocket_event sem e l of
        None \<Rightarrow> None
      | Some (Some r, l') \<Rightarrow> if es = [] then Some (Some r, l') else None
      | Some (None, l') \<Rightarrow> websocket_run sem es l')"

section \<open>The Asset HTTP listener\<close>

text \<open>
  The task of one HTTP connection, cut at the point where it has decided on its answer and
  holds what it needs for it: \<^verbatim>\<open>None\<close> is a request that could not be read.
\<close>

definition decide_reply ::
  "('id, 'h, 'ts) delivery \<Rightarrow> ('id \<Rightarrow> (('id, 'h) asset_descriptor option, 'e) result) \<Rightarrow> bool \<Rightarrow> 'ts \<Rightarrow> string list
   \<Rightarrow> ('id, 'ts) grant_issuer \<Rightarrow> 'id http_reply option \<times> ('id, 'ts) grant_issuer" where
  "decide_reply dl get permit now chunks g =
     (case read_request chunks of
        Inl _ \<Rightarrow> (None, g)
      | Inr req \<Rightarrow> (case respond dl get permit now req g of (reply, g') \<Rightarrow> (Some reply, g')))"

fun write_reply ::
  "(nat \<Rightarrow> nat option) \<Rightarrow> nat \<Rightarrow> (nat \<Rightarrow> 'id \<Rightarrow> asset_range_req \<Rightarrow> (asset_chunk, 'id asset_read_error) result)
   \<Rightarrow> (nat \<Rightarrow> nat \<Rightarrow> bool) \<Rightarrow> (nat \<Rightarrow> bool) \<Rightarrow> 'id http_reply option \<Rightarrow> http_stream \<Rightarrow> (unit, http_task_error) result \<times> http_stream" where
  "write_reply wfail chunk_size rd range_valid cancelled None st = (Ok (), snd (write_simple_response wfail 400 ''bad request'' [] st))"
| "write_reply wfail chunk_size rd range_valid cancelled (Some (SimpleReply status message extra)) st = write_simple_response wfail status message extra st"
| "write_reply wfail chunk_size rd range_valid cancelled (Some (HeadersReply status headers)) st = write_response wfail status headers None st"
| "write_reply wfail chunk_size rd range_valid cancelled (Some (StreamReply asset_id status headers start len)) st =
     (case write_response wfail status headers None st of
        (Inl e, st') \<Rightarrow> (Err e, st')
      | (Inr _, st') \<Rightarrow> stream_asset wfail (\<lambda>n. rd n asset_id) range_valid cancelled chunk_size 0 start len st')"

lemma handle_connection_split:
  "handle_connection wfail dl get rd range_valid cancelled permit now chunks g =
     (case decide_reply dl get permit now chunks g of
        (reply, g') \<Rightarrow> (case write_reply wfail (dl_chunk_size dl) rd range_valid cancelled reply \<lparr>hs_out = [], hs_writes = 0\<rparr> of (r, st) \<Rightarrow> (r, st, g')))"
  by (auto simp: handle_connection_def decide_reply_def Let_def split: sum.split prod.split http_reply.split)

text \<open>Only a stream holds a download permit.\<close>

fun holds_download :: "'id http_reply option \<Rightarrow> bool" where
  "holds_download (Some (StreamReply asset_id status headers start len)) = True"
| "holds_download reply = False"

datatype 'id http_task =
    HttpReading
  | HttpWriting "'id http_reply option"
  | HttpEnded "(unit, http_task_error) result option"

record ('id, 'ts, 'q) asset_http_listener =
  al_config :: delivery_config
  al_delivery :: "('id, 'ts) delivery_service"
  al_connections :: 'q
  al_downloads :: 'q
  al_tasks :: "'id http_task list"

definition asset_listener_bind ::
  "'q semaphore_ops \<Rightarrow> bool \<Rightarrow> socket_addr option \<Rightarrow> delivery_config \<Rightarrow> ('id, 'ts) delivery_service
   \<Rightarrow> (('id, 'ts, 'q) asset_http_listener, server_error) result option" where
  "asset_listener_bind sem bound address config delivery =
     (case validate_delivery_config config of
        Inl e \<Rightarrow> Some (Err (server_config_error e))
      | Inr _ \<Rightarrow>
          if \<not> bound then Some (Err (ListenerFailed ''failed to bind Asset HTTP listener''))
          else case address of
            None \<Rightarrow> Some (Err (ListenerFailed ''Asset HTTP listener address unavailable''))
          | Some a \<Rightarrow>
              Option.bind (sem_new sem (dc_max_connections config)) (\<lambda>connections.
              Option.bind (sem_new sem (dc_max_active_downloads config)) (\<lambda>downloads.
              Some (Ok \<lparr>al_config = config, al_delivery = set_bound_public_base_url a delivery,
                        al_connections = connections, al_downloads = downloads, al_tasks = []\<rparr>))))"

definition asset_local_addr :: "socket_addr option \<Rightarrow> (socket_addr, server_error) result" where
  "asset_local_addr address = ok_or (ListenerFailed ''Asset HTTP listener address unavailable'') address"

definition http_task_count :: "('id, 'ts, 'q) asset_http_listener \<Rightarrow> nat" where
  "http_task_count l = length (al_tasks l)"

definition reject_connection :: "(nat \<Rightarrow> nat option) \<Rightarrow> nat \<Rightarrow> string \<Rightarrow> (unit, http_task_error) result \<times> http_stream" where
  "reject_connection wfail status message = write_simple_response wfail status message [] \<lparr>hs_out = [], hs_writes = 0\<rparr>"

text \<open>An accepted connection: its task, or what the refused peer was sent.\<close>

definition http_accept ::
  "'q semaphore_ops \<Rightarrow> (nat \<Rightarrow> nat option) \<Rightarrow> ('id, 'ts, 'q) asset_http_listener \<Rightarrow> string option \<times> ('id, 'ts, 'q) asset_http_listener" where
  "http_accept sem wfail l =
     (case sem_try_acquire sem (al_connections l) of
        None \<Rightarrow> (Some (hs_out (snd (reject_connection wfail 503 ''server busy''))), l)
      | Some connections \<Rightarrow> (None, l\<lparr>al_connections := connections, al_tasks := al_tasks l @ [HttpReading]\<rparr>))"

text \<open>A task decides on its answer, at time \<open>now\<close>, with the chunks it has read.\<close>

definition http_decides ::
  "'q semaphore_ops \<Rightarrow> ('id, 'h, 'ts) delivery \<Rightarrow> ('id \<Rightarrow> (('id, 'h) asset_descriptor option, string) result) \<Rightarrow> 'ts \<Rightarrow> string list \<Rightarrow> nat
   \<Rightarrow> ('id, 'ts, 'q) asset_http_listener \<Rightarrow> ('id, 'ts, 'q) asset_http_listener option" where
  "http_decides sem dl get now chunks i l =
     (if i < length (al_tasks l) \<and> al_tasks l ! i = HttpReading
      then (let permit = sem_try_acquire sem (al_downloads l) in
            case decide_reply dl get (permit \<noteq> None) now chunks (ds_grants (al_delivery l)) of
              (reply, g) \<Rightarrow>
                Some (l\<lparr>al_tasks := (al_tasks l)[i := HttpWriting reply], al_delivery := (al_delivery l)\<lparr>ds_grants := g\<rparr>,
                       al_downloads := (case permit of Some downloads \<Rightarrow> if holds_download reply then downloads else al_downloads l | None \<Rightarrow> al_downloads l)\<rparr>))
      else None)"

definition permits_after :: "'q semaphore_ops \<Rightarrow> bool \<Rightarrow> 'q \<Rightarrow> 'q" where
  "permits_after sem held q = (if held then sem_release sem q else q)"

fun task_holds_download :: "'id http_task \<Rightarrow> bool" where
  "task_holds_download (HttpWriting reply) = holds_download reply"
| "task_holds_download t = False"

text \<open>A task ends, and drops the permits it holds.\<close>

definition end_http ::
  "'q semaphore_ops \<Rightarrow> nat \<Rightarrow> (unit, http_task_error) result option \<Rightarrow> ('id, 'ts, 'q) asset_http_listener \<Rightarrow> ('id, 'ts, 'q) asset_http_listener" where
  "end_http sem i result l =
     l\<lparr>al_tasks := (al_tasks l)[i := HttpEnded result], al_connections := sem_release sem (al_connections l),
       al_downloads := permits_after sem (task_holds_download (al_tasks l ! i)) (al_downloads l)\<rparr>"

fun is_live :: "'id http_task \<Rightarrow> bool" where
  "is_live (HttpEnded result) = False"
| "is_live t = True"

definition http_join_next :: "nat \<Rightarrow> ('id, 'ts, 'q) asset_http_listener \<Rightarrow> ('id, 'ts, 'q) asset_http_listener option" where
  "http_join_next i l =
     (if i < length (al_tasks l) \<and> \<not> is_live (al_tasks l ! i) then Some (l\<lparr>al_tasks := remove_at i (al_tasks l)\<rparr>) else None)"

text \<open>What one answer meets while it is written: the socket, the Asset store, the cancellation.\<close>

record 'id answer_env =
  an_wfail :: "nat \<Rightarrow> nat option"
  an_read :: "nat \<Rightarrow> 'id \<Rightarrow> asset_range_req \<Rightarrow> (asset_chunk, 'id asset_read_error) result"
  an_range_valid :: "nat \<Rightarrow> nat \<Rightarrow> bool"
  an_cancelled :: "nat \<Rightarrow> bool"

datatype ('id, 'h, 'ts) http_event =
    HttpCancelled
  | HttpCompleted nat
  | HttpAccepted "nat \<Rightarrow> nat option"
  | HttpAcceptFailed
  | HttpDecides nat "'id \<Rightarrow> (('id, 'h) asset_descriptor option, string) result" 'ts "string list"
  | HttpReturns nat "'id answer_env"
  | HttpPanics nat

fun on_http_event ::
  "'q semaphore_ops \<Rightarrow> ('id, 'h, 'ts) delivery \<Rightarrow> ('id, 'h, 'ts) http_event \<Rightarrow> ('id, 'ts, 'q) asset_http_listener
   \<Rightarrow> ((unit, server_error) result option \<times> ('id, 'ts, 'q) asset_http_listener) option" where
  "on_http_event sem dl HttpCancelled l = Some (Some (Ok ()), l)"
| "on_http_event sem dl (HttpCompleted i) l = map_option (\<lambda>l'. (None, l')) (http_join_next i l)"
| "on_http_event sem dl (HttpAccepted wfail) l = Some (None, snd (http_accept sem wfail l))"
| "on_http_event sem dl HttpAcceptFailed l = Some (Some (Err (ListenerFailed ''Asset HTTP accept failed'')), l)"
| "on_http_event sem dl (HttpDecides i get now chunks) l = map_option (\<lambda>l'. (None, l')) (http_decides sem dl get now chunks i l)"
| "on_http_event sem dl (HttpReturns i env) l =
     (if i < length (al_tasks l)
      then (case al_tasks l ! i of
              HttpWriting reply \<Rightarrow>
                Some (None, end_http sem i (Some (fst (write_reply (an_wfail env) (dc_chunk_size (al_config l)) (an_read env) (an_range_valid env)
                  (an_cancelled env) reply \<lparr>hs_out = [], hs_writes = 0\<rparr>))) l)
            | _ \<Rightarrow> None)
      else None)"
| "on_http_event sem dl (HttpPanics i) l =
     (if i < length (al_tasks l) \<and> is_live (al_tasks l ! i) then Some (None, end_http sem i None l) else None)"

fun http_run ::
  "'q semaphore_ops \<Rightarrow> ('id, 'h, 'ts) delivery \<Rightarrow> ('id, 'h, 'ts) http_event list \<Rightarrow> ('id, 'ts, 'q) asset_http_listener
   \<Rightarrow> ((unit, server_error) result option \<times> ('id, 'ts, 'q) asset_http_listener) option" where
  "http_run sem dl [] l = Some (None, l)"
| "http_run sem dl (e # es) l =
     (case on_http_event sem dl e l of
        None \<Rightarrow> None
      | Some (Some r, l') \<Rightarrow> if es = [] then Some (Some r, l') else None
      | Some (None, l') \<Rightarrow> http_run sem dl es l')"

text \<open>What the tasks do while the loop does not run.\<close>

definition http_works ::
  "'q semaphore_ops \<Rightarrow> ('id, 'h, 'ts) delivery \<Rightarrow> ('id, 'ts, 'q) asset_http_listener \<Rightarrow> ('id, 'ts, 'q) asset_http_listener \<Rightarrow> bool" where
  "http_works sem dl l l' \<longleftrightarrow>
     (\<exists>i get now chunks. on_http_event sem dl (HttpDecides i get now chunks) l = Some (None, l')) \<or>
     (\<exists>i env. on_http_event sem dl (HttpReturns i env) l = Some (None, l')) \<or>
     (\<exists>i. on_http_event sem dl (HttpPanics i) l = Some (None, l'))"

definition asset_listener_shutdown ::
  "'q semaphore_ops \<Rightarrow> ('id, 'h, 'ts) delivery \<Rightarrow> drain_phase \<times> ('id, 'ts, 'q) asset_http_listener
   \<Rightarrow> drain_phase \<times> ('id, 'ts, 'q) asset_http_listener \<Rightarrow> bool" where
  "asset_listener_shutdown sem dl = drain_step (http_works sem dl) http_join_next (\<lambda>l. al_tasks l = [])"

section \<open>Permits and tasks\<close>

text \<open>
  Every connection task that has not ended holds one permit of its listener, so the free
  permits and these tasks add up to the configured limit.
\<close>

definition connections_open :: "'q connection_supervisor \<Rightarrow> nat" where
  "connections_open sv = length (filter (\<lambda>t. t = ConnectionRunning) (sv_tasks sv))"

definition supervisor_ok :: "'q semaphore_ops \<Rightarrow> ('q \<Rightarrow> nat) \<Rightarrow> nat \<Rightarrow> nat \<Rightarrow> 'q connection_supervisor \<Rightarrow> bool" where
  "supervisor_ok sem avail m cap sv \<longleftrightarrow> semaphore_ok sem avail m \<and> avail (sv_permits sv) + connections_open sv = cap"

lemma supervisor_new_ok:
  "semaphore_ok sem avail m \<Longrightarrow> supervisor_new sem cap = Some (Ok sv) \<Longrightarrow> supervisor_ok sem avail m cap sv"
  by (auto simp: supervisor_new_def supervisor_ok_def connections_open_def semaphore_okD split: if_splits)

lemma try_spawn_ok:
  assumes "supervisor_ok sem avail m cap sv" and "try_spawn sem sv = (spawned, sv')"
  shows "supervisor_ok sem avail m cap sv'" and "spawned \<longleftrightarrow> connections_open sv < cap"
    and "sv_tasks sv' = sv_tasks sv @ (if spawned then [ConnectionRunning] else [])"
  using assms semaphore_okD(3,4) [of sem avail m "sv_permits sv"]
  by (auto simp: supervisor_ok_def try_spawn_def connections_open_def split: option.splits)

lemma end_connection_ok:
  assumes "supervisor_ok sem avail m cap sv" and "end_connection sem i result sv = Some sv'"
  shows "supervisor_ok sem avail m cap sv'"
  using assms filter_update_length [of i "sv_tasks sv" "\<lambda>t. t = ConnectionRunning" "ConnectionEnded result"]
  by (auto simp: supervisor_ok_def end_connection_def connections_open_def semaphore_okD(5) split: if_splits)

lemma supervisor_join_next_ok:
  assumes "supervisor_ok sem avail m cap sv" and "supervisor_join_next i sv = Some sv'"
  shows "supervisor_ok sem avail m cap sv'"
  using assms filter_remove_at [of i "sv_tasks sv" "\<lambda>t. t = ConnectionRunning"]
  by (auto simp: supervisor_ok_def supervisor_join_next_def connections_open_def split: if_splits)

interpretation websockets: task_pool "supervisor_ok sem avail m cap" sv_tasks "\<lambda>t. if t = ConnectionRunning then 1 else 0"
  "connection_works sem" supervisor_join_next for sem avail m cap
proof
  fix sv sv' :: "'a connection_supervisor" and i
  assume ok: "supervisor_ok sem avail m cap sv"
  { assume "connection_works sem sv sv'"
    then obtain i r where i: "end_connection sem i r sv = Some sv'" by (auto simp: connection_works_def)
    with end_connection_ok [OF ok i] show "supervisor_ok sem avail m cap sv' \<and> (\<exists>i t. i < length (sv_tasks sv) \<and> sv_tasks sv' = (sv_tasks sv)[i := t] \<and>
        (if t = ConnectionRunning then 1 else 0) < (if sv_tasks sv ! i = ConnectionRunning then 1 else 0 :: nat))"
      by (auto simp: end_connection_def split: if_splits intro!: exI [of _ i] exI [of _ "ConnectionEnded r"]) }
  { assume "i < length (sv_tasks sv)" "0 < (if sv_tasks sv ! i = ConnectionRunning then 1 else 0 :: nat)"
    then show "\<exists>s'. connection_works sem sv s'" by (auto simp: connection_works_def end_connection_def split: if_splits) }
  { assume "i < length (sv_tasks sv)" "(if sv_tasks sv ! i = ConnectionRunning then 1 else 0 :: nat) = 0"
    then show "\<exists>s'. supervisor_join_next i sv = Some s'" by (auto simp: supervisor_join_next_def split: if_splits) }
  { assume "supervisor_join_next i sv = Some sv'"
    with supervisor_join_next_ok [OF ok this] show "supervisor_ok sem avail m cap sv' \<and> i < length (sv_tasks sv) \<and> sv_tasks sv' = remove_at i (sv_tasks sv)"
      by (auto simp: supervisor_join_next_def split: if_splits) }
qed

definition http_connections :: "('id, 'ts, 'q) asset_http_listener \<Rightarrow> nat" where
  "http_connections l = length (filter is_live (al_tasks l))"

definition http_downloads :: "('id, 'ts, 'q) asset_http_listener \<Rightarrow> nat" where
  "http_downloads l = length (filter task_holds_download (al_tasks l))"

definition asset_listener_ok :: "'q semaphore_ops \<Rightarrow> ('q \<Rightarrow> nat) \<Rightarrow> nat \<Rightarrow> delivery_config \<Rightarrow> ('id, 'ts, 'q) asset_http_listener \<Rightarrow> bool" where
  "asset_listener_ok sem avail m cfg l \<longleftrightarrow> semaphore_ok sem avail m \<and> al_config l = cfg \<and>
     avail (al_connections l) + http_connections l = dc_max_connections cfg \<and> avail (al_downloads l) + http_downloads l = dc_max_active_downloads cfg"

lemma downloads_are_connections: "http_downloads l \<le> http_connections l"
proof -
  have "length (filter task_holds_download ts) \<le> length (filter is_live ts)" for ts :: "'a http_task list"
  proof (induction ts)
    case (Cons t ts)
    then show ?case by (cases t) auto
  qed simp
  then show ?thesis by (simp add: http_connections_def http_downloads_def)
qed

lemma asset_listener_bind_ok:
  assumes "semaphore_ok sem avail m" and "asset_listener_bind sem bound address cfg delivery = Some (Ok l)"
  shows "asset_listener_ok sem avail m cfg l"
  using assms semaphore_okD(1) [OF assms(1)]
  by (auto simp: asset_listener_bind_def asset_listener_ok_def http_connections_def http_downloads_def bind_eq_Some_conv split: sum.splits if_splits option.splits)

lemma http_accept_ok:
  assumes "asset_listener_ok sem avail m cfg l" and "http_accept sem wfail l = (refused, l')"
  shows "asset_listener_ok sem avail m cfg l'" and "refused = None \<longleftrightarrow> http_connections l < dc_max_connections cfg"
  using assms semaphore_okD(3,4) [of sem avail m "al_connections l"]
  by (auto simp: asset_listener_ok_def http_accept_def http_connections_def http_downloads_def split: option.splits)

lemma respond_get_permit: "respond_get i permit origin rh mt total_len hash = StreamReply j status headers start len \<Longrightarrow> permit"
  by (auto simp: respond_get_def Let_def split: if_splits sum.splits option.splits range_parse_error.splits prod.splits)

lemma decide_reply_permit: "decide_reply dl get permit now chunks g = (reply, g') \<Longrightarrow> holds_download reply \<Longrightarrow> permit"
  by (cases reply rule: holds_download.cases)
    (auto simp: decide_reply_def elim!: respond_stream dest: respond_get_permit split: sum.splits prod.splits)

lemma http_decides_ok:
  assumes "asset_listener_ok sem avail m cfg l" and "http_decides sem dl get now chunks i l = Some l'"
  shows "asset_listener_ok sem avail m cfg l'" and "\<exists>reply. i < length (al_tasks l) \<and> al_tasks l ! i = HttpReading \<and> al_tasks l' = (al_tasks l)[i := HttpWriting reply]"
proof -
  let ?permit = "sem_try_acquire sem (al_downloads l)"
  obtain reply g where d: "decide_reply dl get (?permit \<noteq> None) now chunks (ds_grants (al_delivery l)) = (reply, g)" by fastforce
  with assms(2) have i: "i < length (al_tasks l)" "al_tasks l ! i = HttpReading" and l': "al_tasks l' = (al_tasks l)[i := HttpWriting reply]"
    "al_connections l' = al_connections l" "al_config l' = al_config l"
    "al_downloads l' = (case ?permit of Some q \<Rightarrow> if holds_download reply then q else al_downloads l | None \<Rightarrow> al_downloads l)"
    by (auto simp: http_decides_def Let_def split: if_splits)
  then show "\<exists>reply. i < length (al_tasks l) \<and> al_tasks l ! i = HttpReading \<and> al_tasks l' = (al_tasks l)[i := HttpWriting reply]" by blast
  have "http_connections l' = http_connections l"
    using filter_update_length [OF i(1), of is_live "HttpWriting reply"] i(2) l'(1) by (simp add: http_connections_def)
  moreover have "http_downloads l' = http_downloads l + (if holds_download reply then 1 else 0)"
    using filter_update_length [OF i(1), of task_holds_download "HttpWriting reply"] i(2) l'(1) by (simp add: http_downloads_def)
  moreover from decide_reply_permit [OF d] have "holds_download reply \<Longrightarrow> \<exists>q. ?permit = Some q" by auto
  ultimately show "asset_listener_ok sem avail m cfg l'"
    using assms(1) l' semaphore_okD(4) [of sem avail m "al_downloads l"] by (auto simp: asset_listener_ok_def split: option.splits)
qed

lemma end_http_ok:
  assumes "asset_listener_ok sem avail m cfg l" and "i < length (al_tasks l)" and "is_live (al_tasks l ! i)"
  shows "asset_listener_ok sem avail m cfg (end_http sem i result l)"
  using assms filter_update_length [OF assms(2), of is_live "HttpEnded result"] filter_update_length [OF assms(2), of task_holds_download "HttpEnded result"]
  by (auto simp: asset_listener_ok_def end_http_def http_connections_def http_downloads_def permits_after_def semaphore_okD(5) split: if_splits)

lemma http_join_next_ok:
  assumes "asset_listener_ok sem avail m cfg l" and "http_join_next i l = Some l'"
  shows "asset_listener_ok sem avail m cfg l'"
proof -
  have "is_live t" if "task_holds_download t" for t :: "'b http_task" using that by (cases t) auto
  with assms filter_remove_at [of i "al_tasks l" is_live] filter_remove_at [of i "al_tasks l" task_holds_download]
  show ?thesis by (auto simp: asset_listener_ok_def http_join_next_def http_connections_def http_downloads_def split: if_splits)
qed

lemma on_http_event_ok:
  assumes "asset_listener_ok sem avail m cfg l" and "on_http_event sem dl e l = Some (r, l')"
  shows "asset_listener_ok sem avail m cfg l'"
  using assms
  by (cases e) (auto intro: http_accept_ok [OF _ surjective_pairing] http_decides_ok(1) end_http_ok http_join_next_ok split: if_splits http_task.splits)

lemma http_run_ok:
  "asset_listener_ok sem avail m cfg l \<Longrightarrow> http_run sem dl es l = Some (r, l') \<Longrightarrow> asset_listener_ok sem avail m cfg l'"
proof (induction es arbitrary: l)
  case (Cons e es)
  then obtain q l1 where e: "on_http_event sem dl e l = Some (q, l1)" by (auto split: option.splits)
  with on_http_event_ok [OF Cons.prems(1) e] Cons show ?case by (cases q) (auto split: if_splits)
qed simp

fun http_steps_left :: "'id http_task \<Rightarrow> nat" where
  "http_steps_left HttpReading = 2"
| "http_steps_left (HttpWriting reply) = 1"
| "http_steps_left (HttpEnded result) = 0"

lemma steps_left_live: "0 < http_steps_left t \<longleftrightarrow> is_live t"
  by (cases t) auto

interpretation http_tasks: task_pool "asset_listener_ok sem avail m cfg" al_tasks http_steps_left "http_works sem dl" http_join_next for sem avail m cfg dl
proof
  fix l l' :: "('b, 'c, 'a) asset_http_listener" and i
  assume ok: "asset_listener_ok sem avail m cfg l"
  { assume w: "http_works sem dl l l'"
    have "\<exists>i t. i < length (al_tasks l) \<and> al_tasks l' = (al_tasks l)[i := t] \<and> http_steps_left t < http_steps_left (al_tasks l ! i)"
      using w ok unfolding http_works_def
      by (auto dest!: http_decides_ok(2) [OF ok] simp: end_http_def steps_left_live split: if_splits http_task.splits intro!: exI)
    moreover have "asset_listener_ok sem avail m cfg l'" using w ok on_http_event_ok unfolding http_works_def by blast
    ultimately show "asset_listener_ok sem avail m cfg l' \<and> (\<exists>i t. i < length (al_tasks l) \<and> al_tasks l' = (al_tasks l)[i := t] \<and>
      http_steps_left t < http_steps_left (al_tasks l ! i))" by blast }
  { assume "i < length (al_tasks l)" "0 < http_steps_left (al_tasks l ! i)"
    then have "on_http_event sem dl (HttpPanics i) l = Some (None, end_http sem i None l)" by (simp add: steps_left_live)
    then show "\<exists>s'. http_works sem dl l s'" unfolding http_works_def by blast }
  { assume "i < length (al_tasks l)" "http_steps_left (al_tasks l ! i) = 0"
    then show "\<exists>s'. http_join_next i l = Some s'" using steps_left_live [of "al_tasks l ! i"] by (simp add: http_join_next_def) }
  { assume "http_join_next i l = Some l'"
    with http_join_next_ok [OF ok this] show "asset_listener_ok sem avail m cfg l' \<and> i < length (al_tasks l) \<and> al_tasks l' = remove_at i (al_tasks l)"
      by (auto simp: http_join_next_def split: if_splits) }
qed

text \<open>The same for the WebSocket loop.\<close>

lemma websocket_event_ok:
  assumes "supervisor_ok sem avail m cap (wo_supervisor l)" and "on_websocket_event sem e l = Some (r, l')"
  shows "supervisor_ok sem avail m cap (wo_supervisor l') \<and> wo_config l' = wo_config l"
  using assms
  by (cases e) (auto intro: try_spawn_ok(1) [OF _ surjective_pairing] end_connection_ok supervisor_join_next_ok split: if_splits)

lemma websocket_run_ok:
  "supervisor_ok sem avail m cap (wo_supervisor l) \<Longrightarrow> websocket_run sem es l = Some (r, l') \<Longrightarrow>
     supervisor_ok sem avail m cap (wo_supervisor l') \<and> wo_config l' = wo_config l"
proof (induction es arbitrary: l)
  case (Cons e es)
  then obtain q l1 where e: "on_websocket_event sem e l = Some (q, l1)" by (auto split: option.splits)
  with websocket_event_ok [OF Cons.prems(1) e] Cons show ?case by (cases q) (auto split: if_splits)
qed simp

lemma websocket_bind_ok:
  assumes "semaphore_ok sem avail m" and "websocket_listener_bind sem adapter_valid bound address cfg adapter = Some (Ok l)"
  shows "supervisor_ok sem avail m (wl_max_connections cfg) (wo_supervisor l)" and "wo_config l = cfg"
  using assms by (auto simp: websocket_listener_bind_def intro: supervisor_new_ok split: sum.splits if_splits option.splits)

section \<open>Shutting both down\<close>

text \<open>
  The middle of \<^verbatim>\<open>ServerApplication::shutdown\<close>: the WebSocket listener is drained, and then the
  Asset HTTP listener, whose tasks go on in the meantime.
\<close>

type_synonym ('id, 'ts, 'q) shutdown_state =
  "(drain_phase \<times> 'q connection_supervisor) \<times> drain_phase \<times> ('id, 'ts, 'q) asset_http_listener"

inductive shutdown_step ::
  "'q semaphore_ops \<Rightarrow> ('id, 'h, 'ts) delivery \<Rightarrow> ('id, 'ts, 'q) shutdown_state \<Rightarrow> ('id, 'ts, 'q) shutdown_state \<Rightarrow> bool"
  for sem dl where
  drain_websockets: "supervisor_drain sem x x' \<Longrightarrow> shutdown_step sem dl (x, y) (x', y)"
| http_goes_on: "phase \<noteq> DrainDone \<Longrightarrow> http_works sem dl l l' \<Longrightarrow> shutdown_step sem dl ((phase, sv), DrainWaiting, l) ((phase, sv), DrainWaiting, l')"
| drain_http: "asset_listener_shutdown sem dl y y' \<Longrightarrow> shutdown_step sem dl ((DrainDone, sv), y) ((DrainDone, sv), y')"

inductive_cases shutdown_stepE: "shutdown_step sem dl x y"

fun shutdown_ok ::
  "'q semaphore_ops \<Rightarrow> ('q \<Rightarrow> nat) \<Rightarrow> nat \<Rightarrow> nat \<Rightarrow> delivery_config \<Rightarrow> ('id, 'ts, 'q) shutdown_state \<Rightarrow> bool" where
  "shutdown_ok sem avail m cap cfg ((p, sv), q, l) \<longleftrightarrow> supervisor_ok sem avail m cap sv \<and> asset_listener_ok sem avail m cfg l \<and>
     (p = DrainDone \<longrightarrow> sv_tasks sv = []) \<and> (q = DrainDone \<longrightarrow> al_tasks l = []) \<and> (p \<noteq> DrainDone \<longrightarrow> q = DrainWaiting)"

fun shutdown_rank :: "('id, 'ts, 'q) shutdown_state \<Rightarrow> nat" where
  "shutdown_rank (x, y) = websockets.drain_rank x + http_tasks.drain_rank y"

lemma shutdown_step_decreases:
  assumes "shutdown_ok sem avail m cap cfg x" and "shutdown_step sem dl x y"
  shows "shutdown_ok sem avail m cap cfg y" and "shutdown_rank y < shutdown_rank x"
proof -
  have "shutdown_ok sem avail m cap cfg y \<and> shutdown_rank y < shutdown_rank x"
    using assms(2)
  proof cases
    case (drain_websockets a a' b)
    obtain p sv p' sv' q l where e: "a = (p, sv)" "a' = (p', sv')" "b = (q, l)" by (metis surj_pair)
    from drain_websockets e have d: "websockets.draining sem (p, sv) (p', sv')" by (simp add: supervisor_drain_def)
    then have "p \<noteq> DrainDone" by (auto elim: drain_stepE)
    with websockets.drain_step_decreases [OF _ d] websockets.drain_step_done [of sem "(p, sv)" sv'] d assms(1) drain_websockets e show ?thesis by auto
  next
    case (http_goes_on phase l l' sv)
    with http_tasks.work [of sem avail m cfg l dl l'] http_tasks.weight_work [of sem avail m cfg l dl l'] assms(1) show ?thesis by auto
  next
    case (drain_http b b' sv)
    obtain q l q' l' where e: "b = (q, l)" "b' = (q', l')" by (metis surj_pair)
    from drain_http e have d: "drain_step (http_works sem dl) http_join_next (\<lambda>l. al_tasks l = []) (q, l) (q', l')" by (simp add: asset_listener_shutdown_def)
    with http_tasks.drain_step_decreases [OF _ d] http_tasks.drain_step_done [of sem dl "(q, l)" l'] assms(1) drain_http e show ?thesis by auto
  qed
  then show "shutdown_ok sem avail m cap cfg y" "shutdown_rank y < shutdown_rank x" by simp_all
qed

lemma shutdown_progress:
  assumes "shutdown_ok sem avail m cap cfg ((p, sv), q, l)" and "p \<noteq> DrainDone \<or> q \<noteq> DrainDone"
  shows "\<exists>y. shutdown_step sem dl ((p, sv), q, l) y"
proof (cases "p = DrainDone")
  case True
  with assms http_tasks.drain_progress [of sem avail m cfg l q dl] obtain y where "asset_listener_shutdown sem dl (q, l) y"
    by (auto simp: asset_listener_shutdown_def)
  with True show ?thesis by (blast intro: drain_http)
next
  case False
  with assms websockets.drain_progress [of sem avail m cap sv p] obtain y where "supervisor_drain sem (p, sv) y"
    by (auto simp: supervisor_drain_def)
  then show ?thesis by (blast intro: drain_websockets)
qed

lemma shutdown_run:
  assumes "shutdown_ok sem avail m cap cfg x" and "(shutdown_step sem dl ^^ n) x y"
  shows "shutdown_ok sem avail m cap cfg y \<and> n + shutdown_rank y \<le> shutdown_rank x"
  using assms(2)
proof (induction n arbitrary: y)
  case (Suc n)
  then obtain z where z: "(shutdown_step sem dl ^^ n) x z" "shutdown_step sem dl z y" by auto
  with Suc.IH [OF z(1)] shutdown_step_decreases [OF _ z(2)] show ?case by fastforce
qed (use assms(1) in simp)

lemma sum_list_bound: "(\<And>x. f x \<le> (k :: nat)) \<Longrightarrow> sum_list (map f xs) \<le> k * length xs"
proof (induction xs)
  case (Cons x xs)
  from Cons.IH [OF Cons.prems] Cons.prems [of x] show ?case by simp
qed simp

lemma shutdown_rank_start:
  "shutdown_rank ((DrainWaiting, sv), DrainWaiting, l) \<le> 2 * length (sv_tasks sv) + 3 * length (al_tasks l) + 4"
proof -
  have "Suc (http_steps_left t) \<le> 3" for t :: "'b http_task" by (cases t) auto
  from sum_list_bound [OF this] have "http_tasks.weight l \<le> 3 * length (al_tasks l)" by (simp add: http_tasks.weight_def)
  moreover have "websockets.weight sv \<le> 2 * length (sv_tasks sv)"
    unfolding websockets.weight_def by (rule sum_list_bound) simp
  ultimately show ?thesis by simp
qed

section \<open>The handshake and the limits of binding\<close>

text \<open>What tungstenite documents of \<^verbatim>\<open>accept_hdr_async\<close>: it succeeds only if the callback accepted the request that was read.\<close>

definition handshake_ok :: "'ws connection_env \<Rightarrow> string \<Rightarrow> bool" where
  "handshake_ok env request_path \<longleftrightarrow> (\<forall>callback ws. ce_accept env callback = Some (Ok ws) \<longrightarrow> (\<exists>response accepted. callback request_path response = Ok accepted))"

text \<open>A peer that asks for another path never gets a session.\<close>

lemma other_path_rejected:
  assumes "handshake_ok env request_path" and "request_path \<noteq> expected_path"
  shows "\<exists>msg. run_connection expected_path env = (Err (FrameError msg), None, False)"
proof (cases "ce_accept env (handshake_callback expected_path)")
  case None
  then show ?thesis by (simp add: run_connection_def)
next
  case (Some r)
  with assms show ?thesis by (cases r) (auto simp: run_connection_def handshake_ok_def handshake_callback_def Let_def)
qed

lemma session_result_kept:
  "run_connection expected_path env = (r, Some ws, False) \<Longrightarrow> ce_session env ws = Some r"
  by (auto simp: run_connection_def split: if_splits option.splits sum.splits)

text \<open>The rejection announces one byte less than its text has.\<close>

lemma rejection_length_wrong:
  assumes "handshake_callback expected_path request_path response = Err rejected"
  shows "map_of (rs_headers rejected) ''content-length'' = Some (dec_of_nat 23) \<and> map_option length (rs_body rejected) = Some 24"
proof -
  have "dec_of_nat 23 = ''23''" by code_simp
  with assms show ?thesis by (auto simp: handshake_callback_def insert_header_def Let_def update_conv split: if_splits)
qed

text \<open>Validation has no upper limit, and a limit the semaphore cannot represent makes \<^verbatim>\<open>bind\<close> panic.\<close>

lemma bind_panics:
  assumes "semaphore_ok sem avail m"
  shows "websocket_listener_bind sem adapter_valid bound address cfg adapter = None \<longleftrightarrow>
    validate_websocket_listener cfg = Ok () \<and> adapter_valid adapter \<and> bound \<and> m < wl_max_connections cfg"
  using semaphore_okD(2) [OF assms, of "wl_max_connections cfg"]
  by (auto simp: websocket_listener_bind_def supervisor_new_def validate_websocket_listener_def split: sum.splits if_splits)

section \<open>Properties\<close>

text \<open>
  C25. The WebSocket listener stays within its limit. After any sequence of accepted
  connections, ended and reaped tasks since it was bound, at most the configured number of
  connections is open; the permits that are free are exactly those that are missing
  to the limit, so none leaks when a task returns or panics; and the next connection gets a
  task if and only if the limit is not reached. Ended tasks that were not reaped do not
  count.
\<close>

theorem websocket_connections_bounded:
  assumes "semaphore_ok sem avail m" and "websocket_listener_bind sem adapter_valid bound address cfg adapter = Some (Ok l)"
    and "websocket_run sem es l = Some (r, l')"
  shows "connections_open (wo_supervisor l') \<le> wl_max_connections cfg \<and>
    avail (sv_permits (wo_supervisor l')) = wl_max_connections cfg - connections_open (wo_supervisor l') \<and>
    (fst (try_spawn sem (wo_supervisor l')) \<longleftrightarrow> connections_open (wo_supervisor l') < wl_max_connections cfg)"
proof -
  from websocket_run_ok [OF websocket_bind_ok(1) [OF assms(1,2)] assms(3)]
  have ok: "supervisor_ok sem avail m (wl_max_connections cfg) (wo_supervisor l')" by simp
  with try_spawn_ok(2) [OF ok surjective_pairing] show ?thesis by (auto simp: supervisor_ok_def)
qed

text \<open>
  C24. The Asset HTTP listener stays within both of its limits, whatever its connections do
  and in whatever order: open connections and running downloads are bounded by the
  configuration and account for every permit, and a new connection is refused, with the
  answer 503, exactly when the connections are at their limit.
\<close>

theorem asset_connections_bounded:
  assumes "semaphore_ok sem avail m" and "asset_listener_bind sem bound address cfg delivery = Some (Ok l)"
    and "http_run sem dl es l = Some (r, l')"
  shows "http_connections l' \<le> dc_max_connections cfg \<and> http_downloads l' \<le> dc_max_active_downloads cfg \<and> http_downloads l' \<le> http_connections l' \<and>
    avail (al_connections l') + http_connections l' = dc_max_connections cfg \<and>
    avail (al_downloads l') + http_downloads l' = dc_max_active_downloads cfg \<and>
    (fst (http_accept sem wfail l') = (if http_connections l' = dc_max_connections cfg then Some (hs_out (snd (reject_connection wfail 503 ''server busy''))) else None))"
proof -
  have ok: "asset_listener_ok sem avail m cfg l'" by (rule http_run_ok [OF asset_listener_bind_ok [OF assms(1,2)] assms(3)])
  have "fst (http_accept sem wfail l') = None \<or> fst (http_accept sem wfail l') = Some (hs_out (snd (reject_connection wfail 503 ''server busy'')))"
    by (simp add: http_accept_def split: option.split)
  then show ?thesis
    using ok http_accept_ok(2) [OF ok surjective_pairing, of wfail] downloads_are_connections [of l'] by (auto simp: asset_listener_ok_def)
qed


section \<open>Sample listeners\<close>

definition counting_semaphore :: "nat \<Rightarrow> nat semaphore_ops" where
  "counting_semaphore m = \<lparr>sem_new = (\<lambda>n. if n \<le> m then Some n else None), sem_try_acquire = (\<lambda>q. if q = 0 then None else Some (q - 1)), sem_release = Suc\<rparr>"

lemma counting_semaphore_ok: "semaphore_ok (counting_semaphore m) (\<lambda>q. q) m"
  by (simp add: semaphore_ok_def counting_semaphore_def split: option.split)

definition sample_websocket :: "(nat, unit) websocket_listener" where
  "sample_websocket = \<lparr>wo_config = websocket_listener_config_default\<lparr>wl_max_connections := 1\<rparr>, wo_adapter_config = (),
     wo_supervisor = \<lparr>sv_tasks = [], sv_permits = 1\<rparr>\<rparr>"

lemma sample_websocket_bound:
  "websocket_listener_bind (counting_semaphore 9) (\<lambda>_. True) True (Some (dc_listen_addr delivery_config_default))
     (websocket_listener_config_default\<lparr>wl_max_connections := 1\<rparr>) () = Some (Ok sample_websocket)"
  by code_simp

text \<open>Two connections, of which the second is refused; the first ends and a third is accepted before it is reaped.\<close>

definition sample_websocket_events :: "unit websocket_event list" where
  "sample_websocket_events = [WsAccepted, WsAccepted, WsPanics 0, WsAccepted]"

definition busy_websocket :: "(nat, unit) websocket_listener" where
  "busy_websocket = sample_websocket\<lparr>wo_supervisor := \<lparr>sv_tasks = [ConnectionEnded None, ConnectionRunning], sv_permits = 0\<rparr>\<rparr>"

lemma busy_websocket_run: "websocket_run (counting_semaphore 9) sample_websocket_events sample_websocket = Some (None, busy_websocket)"
  by code_simp

theorem websocket_connections_bounded_witness:
  "connections_open (wo_supervisor busy_websocket) = 1 \<and> websocket_task_count busy_websocket = 2 \<and>
   \<not> fst (try_spawn (counting_semaphore 9) (wo_supervisor busy_websocket))"
proof -
  have "connections_open (wo_supervisor busy_websocket) = 1" "websocket_task_count busy_websocket = 2" by code_simp+
  with websocket_connections_bounded [OF counting_semaphore_ok sample_websocket_bound busy_websocket_run] show ?thesis by simp
qed

definition sample_asset_config :: delivery_config where
  "sample_asset_config = delivery_config_default\<lparr>dc_max_connections := 1, dc_max_active_downloads := 1\<rparr>"

definition sample_asset_listener :: "(string, int, nat) asset_http_listener" where
  "sample_asset_listener = \<lparr>al_config = sample_asset_config, al_delivery = set_bound_public_base_url (dc_listen_addr delivery_config_default) sample_service,
     al_connections = 1, al_downloads = 1, al_tasks = []\<rparr>"

lemma sample_asset_bound:
  "asset_listener_bind (counting_semaphore 9) True (Some (dc_listen_addr delivery_config_default)) sample_asset_config sample_service = Some (Ok sample_asset_listener)"
  by code_simp

definition sample_http_events :: "(string, string, int) http_event list" where
  "sample_http_events = [HttpAccepted (\<lambda>_. None), HttpDecides 0 (\<lambda>_. Ok None) 0 [''GET / HTTP/1.1'' @ CRLF @ CRLF]]"

definition busy_asset_listener :: "(string, int, nat) asset_http_listener" where
  "busy_asset_listener = sample_asset_listener\<lparr>al_connections := 0, al_tasks := [HttpWriting (Some (SimpleReply 404 ''not found'' []))]\<rparr>"

lemma busy_asset_run: "http_run (counting_semaphore 9) sample_delivery sample_http_events sample_asset_listener = Some (None, busy_asset_listener)"
proof -
  have "decide_reply sample_delivery (\<lambda>_ :: string. Ok None :: ((string, string) asset_descriptor option, string) result) True 0 [''GET / HTTP/1.1'' @ CRLF @ CRLF] g =
    (Some (SimpleReply 404 ''not found'' []), g)" for g
  proof -
    have "read_request [''GET / HTTP/1.1'' @ CRLF @ CRLF] = Ok \<lparr>hr_method = ''GET'', hr_target = ''/'', hr_headers = []\<rparr>" by code_simp
    then show ?thesis by (simp add: decide_reply_def respond_def contains_char_def strip_prefix_def Let_def)
  qed
  then show ?thesis
    by (simp add: sample_http_events_def http_accept_def http_decides_def counting_semaphore_def sample_asset_listener_def busy_asset_listener_def Let_def)
qed

theorem asset_connections_bounded_witness:
  "\<exists>text. fst (http_accept (counting_semaphore 9) (\<lambda>_. None) busy_asset_listener) = Some text"
proof -
  have "http_connections busy_asset_listener = dc_max_connections sample_asset_config"
    by (simp add: http_connections_def busy_asset_listener_def sample_asset_config_def)
  with asset_connections_bounded [where wfail = "\<lambda>_. None", OF counting_semaphore_ok sample_asset_bound busy_asset_run] show ?thesis by simp
qed


end
