(* ===== verification/Server_Context.thy ===== *)
theory Server_Context
  imports Server_Lifecycle
begin

text \<open>
  The server context (\<^verbatim>\<open>context.rs\<close>) with the node it speaks for, and the part of the bootstrap
  (\<^verbatim>\<open>bootstrap.rs\<close>) that registers this node and composes the context. \<open>Server_Lifecycle\<close> follows
  the state under which the node is registered; here the registry is shared with other nodes and
  holds whole descriptions.

  The registry is the kernel's, an argument with the laws \<open>registry_ok\<close>; so are the names of
  capabilities. The handles of the Runtime and the event bus, which no operation below uses, are left out.
\<close>

section \<open>Nodes and the registry\<close>

record ('id, 'md, 'c) node =
  nd_id :: 'id
  nd_metadata :: 'md
  nd_state :: node_state
  nd_capabilities :: "'c set"

record ('id, 'md, 'c, 'r) registry_ops =
  rg_register :: "('id, 'md, 'c) node \<Rightarrow> 'r \<Rightarrow> (unit, unit) result \<times> 'r"
  rg_unregister :: "'id \<Rightarrow> 'r \<Rightarrow> (unit, unit) result \<times> 'r"

text \<open>What a registry documents: a call that fails changes nothing, the others change one entry.\<close>

definition registry_ok :: "('id, 'md, 'c, 'r) registry_ops \<Rightarrow> ('r \<Rightarrow> 'id \<Rightarrow> ('id, 'md, 'c) node option) \<Rightarrow> bool" where
  "registry_ok ops get \<longleftrightarrow>
     (\<forall>n r. get (snd (rg_register ops n r)) = (if is_ok (fst (rg_register ops n r)) then (get r)(nd_id n \<mapsto> n) else get r)) \<and>
     (\<forall>i r. get (snd (rg_unregister ops i r)) = (if is_ok (fst (rg_unregister ops i r)) then (get r)(i := None) else get r))"

section \<open>The context\<close>

record ('id, 'md, 'c, 'cv, 'qe, 'ad) server_context =
  cx_node_id :: 'id
  cx_node_metadata :: 'md
  cx_node_capabilities :: "'c set"
  cx_node_state :: node_state
  cx_lifecycle :: server_lifecycle
  cx_event_store :: store_state
  cx_development_canvas :: "'cv option"
  cx_query_executor :: "'qe option"
  cx_asset_delivery :: "'ad option"
  cx_asset_store :: store_state
  cx_catalog_store :: store_state

definition new_composed_with_services ::
  "('id, 'md, 'c) node \<Rightarrow> server_lifecycle \<Rightarrow> store_state \<Rightarrow> 'cv option \<Rightarrow> 'qe option \<Rightarrow> 'ad option \<Rightarrow> store_state \<Rightarrow> store_state
   \<Rightarrow> ('id, 'md, 'c, 'cv, 'qe, 'ad) server_context" where
  "new_composed_with_services local_node lifecycle event_store development_canvas query_executor asset_delivery asset_store catalog_store =
     \<lparr>cx_node_id = nd_id local_node, cx_node_metadata = nd_metadata local_node, cx_node_capabilities = nd_capabilities local_node,
      cx_node_state = nd_state local_node, cx_lifecycle = lifecycle, cx_event_store = event_store,
      cx_development_canvas = development_canvas, cx_query_executor = query_executor, cx_asset_delivery = asset_delivery,
      cx_asset_store = asset_store, cx_catalog_store = catalog_store\<rparr>"

definition new_composed_with_canvas ::
  "('id, 'md, 'c) node \<Rightarrow> server_lifecycle \<Rightarrow> store_state \<Rightarrow> 'cv option \<Rightarrow> ('id, 'md, 'c, 'cv, 'qe, 'ad) server_context" where
  "new_composed_with_canvas local_node lifecycle event_store development_canvas =
     new_composed_with_services local_node lifecycle event_store development_canvas None None Absent Absent"

definition new_composed ::
  "('id, 'md, 'c) node \<Rightarrow> server_lifecycle \<Rightarrow> store_state \<Rightarrow> ('id, 'md, 'c, 'cv, 'qe, 'ad) server_context" where
  "new_composed local_node lifecycle event_store = new_composed_with_canvas local_node lifecycle event_store None"

text \<open>\<^verbatim>\<open>new\<close>, from dependencies that are composed already; \<open>no_metadata\<close> is \<^verbatim>\<open>Metadata::new()\<close>.\<close>

definition context_new :: "'md \<Rightarrow> 'id \<Rightarrow> store_state \<Rightarrow> ('id, 'md, 'c, 'cv, 'qe, 'ad) server_context" where
  "context_new no_metadata node_id event_store =
     new_composed \<lparr>nd_id = node_id, nd_metadata = no_metadata, nd_state = NodeReady, nd_capabilities = {}\<rparr> (lifecycle_from_state Ready) event_store"

text \<open>The operations change the context and the registry; \<open>cs_closes\<close> counts the closes of stores, of which the \<open>n\<close>-th succeeds when \<open>ok n\<close>.\<close>

record ('id, 'md, 'c, 'cv, 'qe, 'ad, 'r) context_state =
  cs_context :: "('id, 'md, 'c, 'cv, 'qe, 'ad) server_context"
  cs_registry :: 'r
  cs_closes :: nat

type_synonym ('id, 'md, 'c, 'cv, 'qe, 'ad, 'r) context_op =
  "('id, 'md, 'c, 'cv, 'qe, 'ad, 'r) context_state \<Rightarrow> (unit, server_error) result \<times> ('id, 'md, 'c, 'cv, 'qe, 'ad, 'r) context_state"

definition cs_try ::
  "('id, 'md, 'c, 'cv, 'qe, 'ad, 'r) context_op \<Rightarrow> ('id, 'md, 'c, 'cv, 'qe, 'ad, 'r) context_op \<Rightarrow> ('id, 'md, 'c, 'cv, 'qe, 'ad, 'r) context_op" where
  "cs_try f g s = (case f s of (Inl e, s') \<Rightarrow> (Err e, s') | (Inr _, s') \<Rightarrow> g s')"

definition local_node :: "('id, 'md, 'c, 'cv, 'qe, 'ad) server_context \<Rightarrow> node_state \<Rightarrow> ('id, 'md, 'c) node" where
  "local_node cx st = \<lparr>nd_id = cx_node_id cx, nd_metadata = cx_node_metadata cx, nd_state = st, nd_capabilities = cx_node_capabilities cx\<rparr>"

definition cs_register_node_state :: "('id, 'md, 'c, 'r) registry_ops \<Rightarrow> node_state \<Rightarrow> ('id, 'md, 'c, 'cv, 'qe, 'ad, 'r) context_op" where
  "cs_register_node_state ops st s =
     (case rg_register ops (local_node (cs_context s) st) (cs_registry s) of
        (Inl _, r) \<Rightarrow> (Err (NodeLifecycleFailed ''node state registration failed''), s\<lparr>cs_registry := r\<rparr>)
      | (Inr _, r) \<Rightarrow> (Ok (), s\<lparr>cs_registry := r, cs_context := (cs_context s)\<lparr>cx_node_state := st\<rparr>\<rparr>))"

definition cs_lifecycle ::
  "(server_lifecycle \<Rightarrow> (unit, server_error) result \<times> server_lifecycle) \<Rightarrow> ('id, 'md, 'c, 'cv, 'qe, 'ad, 'r) context_op" where
  "cs_lifecycle f s = (case f (cx_lifecycle (cs_context s)) of (r, l) \<Rightarrow> (r, s\<lparr>cs_context := (cs_context s)\<lparr>cx_lifecycle := l\<rparr>\<rparr>))"

definition cs_mark_ready :: "('id, 'md, 'c, 'r) registry_ops \<Rightarrow> ('id, 'md, 'c, 'cv, 'qe, 'ad, 'r) context_op" where
  "cs_mark_ready ops = cs_try (cs_register_node_state ops NodeReady) (cs_lifecycle lifecycle_ready)"

definition cs_begin_shutdown :: "('id, 'md, 'c, 'r) registry_ops \<Rightarrow> ('id, 'md, 'c, 'cv, 'qe, 'ad, 'r) context_op" where
  "cs_begin_shutdown ops =
     cs_try (\<lambda>s. if lc_state (cx_lifecycle (cs_context s)) \<noteq> Draining then cs_lifecycle lifecycle_begin_shutdown s else (Ok (), s))
       (\<lambda>s. if cx_node_state (cs_context s) \<noteq> NodeDraining then cs_register_node_state ops NodeDraining s else (Ok (), s))"

definition cs_close ::
  "(nat \<Rightarrow> bool) \<Rightarrow> string
   \<Rightarrow> (('id, 'md, 'c, 'cv, 'qe, 'ad) server_context \<Rightarrow> ('id, 'md, 'c, 'cv, 'qe, 'ad) server_context)
   \<Rightarrow> ('id, 'md, 'c, 'cv, 'qe, 'ad, 'r) context_op" where
  "cs_close ok msg closed s =
     (if ok (cs_closes s) then (Ok (), s\<lparr>cs_closes := Suc (cs_closes s), cs_context := closed (cs_context s)\<rparr>)
      else (Err (ShutdownFailed msg), s\<lparr>cs_closes := Suc (cs_closes s)\<rparr>))"

definition cs_unregister :: "('id, 'md, 'c, 'r) registry_ops \<Rightarrow> ('id, 'md, 'c, 'cv, 'qe, 'ad, 'r) context_op" where
  "cs_unregister ops s =
     (case rg_unregister ops (cx_node_id (cs_context s)) (cs_registry s) of
        (Inl _, r) \<Rightarrow> (Err (NodeLifecycleFailed ''node unregister failed''), s\<lparr>cs_registry := r\<rparr>)
      | (Inr _, r) \<Rightarrow> (Ok (), s\<lparr>cs_registry := r\<rparr>))"

definition cs_finish_shutdown :: "(nat \<Rightarrow> bool) \<Rightarrow> ('id, 'md, 'c, 'r) registry_ops \<Rightarrow> ('id, 'md, 'c, 'cv, 'qe, 'ad, 'r) context_op" where
  "cs_finish_shutdown ok ops =
     cs_try (cs_close ok ''event store shutdown failed'' (\<lambda>cx. cx\<lparr>cx_event_store := Closed\<rparr>))
     (cs_try (\<lambda>s. if cx_asset_store (cs_context s) = Absent then (Ok (), s)
                   else cs_close ok ''asset store shutdown failed'' (\<lambda>cx. cx\<lparr>cx_asset_store := Closed\<rparr>) s)
     (cs_try (\<lambda>s. if cx_catalog_store (cs_context s) = Absent then (Ok (), s)
                   else cs_close ok ''catalog store shutdown failed'' (\<lambda>cx. cx\<lparr>cx_catalog_store := Closed\<rparr>) s)
     (cs_try (\<lambda>s. if cx_node_state (cs_context s) \<noteq> NodeOffline then cs_register_node_state ops NodeOffline s else (Ok (), s))
     (cs_try (cs_unregister ops)
     (\<lambda>s. if lc_state (cx_lifecycle (cs_context s)) = Draining then cs_lifecycle lifecycle_stop s else (Ok (), s))))))"

definition cs_shutdown :: "(nat \<Rightarrow> bool) \<Rightarrow> ('id, 'md, 'c, 'r) registry_ops \<Rightarrow> ('id, 'md, 'c, 'cv, 'qe, 'ad, 'r) context_op" where
  "cs_shutdown ok ops = cs_try (cs_begin_shutdown ops) (cs_finish_shutdown ok ops)"

section \<open>The node of a bootstrap\<close>

definition boot_node :: "(string \<Rightarrow> 'c) \<Rightarrow> 'md \<Rightarrow> 'id \<Rightarrow> node_state \<Rightarrow> ('id, 'md, 'c) node" where
  "boot_node capability metadata node_id st =
     \<lparr>nd_id = node_id, nd_metadata = metadata, nd_state = st,
      nd_capabilities = {capability ''runtime'', capability ''storage'', capability ''sync''}\<rparr>"

definition register_state_with ::
  "('id, 'md, 'c, 'r) registry_ops \<Rightarrow> (string \<Rightarrow> 'c) \<Rightarrow> 'md \<Rightarrow> 'id \<Rightarrow> node_state \<Rightarrow> 'r \<Rightarrow> (unit, server_error) result \<times> 'r" where
  "register_state_with ops capability metadata node_id st r =
     (case rg_register ops (boot_node capability metadata node_id st) r of
        (result, r') \<Rightarrow> (map_err (\<lambda>_. NodeLifecycleFailed ''node state registration failed'') result, r'))"

text \<open>What the composition hands to the context: canvas, executor, delivery, and which stores are persistent.\<close>

record ('cv, 'qe, 'ad) composition =
  cp_canvas :: "'cv option"
  cp_executor :: 'qe
  cp_delivery :: "'ad option"
  cp_asset_store :: bool
  cp_catalog_store :: bool

text \<open>
  \<^verbatim>\<open>initialize_with\<close> around the composition, whose result is an argument; \<open>fresh\<close> is the
  identity that is made up when none is configured.
\<close>

definition initialize_node ::
  "('id, 'md, 'c, 'r) registry_ops \<Rightarrow> (string \<Rightarrow> 'c) \<Rightarrow> 'md \<Rightarrow> 'id option \<Rightarrow> 'id \<Rightarrow> (('cv, 'qe, 'ad) composition, server_error) result
   \<Rightarrow> 'r \<Rightarrow> (('id, 'md, 'c, 'cv, 'qe, 'ad) server_context, server_error) result \<times> 'r" where
  "initialize_node ops capability metadata configured fresh composed r =
     (let node_id = (case configured of Some i \<Rightarrow> i | None \<Rightarrow> fresh) in
      case lifecycle_start lifecycle_new of
        (Inl e, _) \<Rightarrow> (Err e, r)
      | (Inr _, lifecycle) \<Rightarrow>
          (case register_state_with ops capability metadata node_id NodeStarting r of
             (Inl e, r1) \<Rightarrow> (Err e, r1)
           | (Inr _, r1) \<Rightarrow>
               (case composed of
                  Inr cp \<Rightarrow>
                    (Ok (new_composed_with_services (boot_node capability metadata node_id NodeStarting) lifecycle Open (cp_canvas cp)
                       (Some (cp_executor cp)) (cp_delivery cp) (if cp_asset_store cp then Open else Absent)
                       (if cp_catalog_store cp then Open else Absent)), r1)
                | Inl e \<Rightarrow>
                    (Err e, snd (rg_unregister ops node_id (snd (rg_register ops (boot_node capability metadata node_id NodeOffline) r1)))))))"

section \<open>What the registry shows of this node\<close>

text \<open>
  The entries of other nodes are as they were; this node's is its description with the state the
  context believes in, or absent after the node went offline.
\<close>

definition shows_node ::
  "('r \<Rightarrow> 'id \<Rightarrow> ('id, 'md, 'c) node option) \<Rightarrow> ('id \<Rightarrow> ('id, 'md, 'c) node option) \<Rightarrow> (node_state \<Rightarrow> ('id, 'md, 'c) node)
   \<Rightarrow> ('id, 'md, 'c, 'cv, 'qe, 'ad, 'r) context_state \<Rightarrow> bool" where
  "shows_node get others node s \<longleftrightarrow> (\<forall>st. local_node (cs_context s) st = node st) \<and>
     (\<forall>i. i \<noteq> cx_node_id (cs_context s) \<longrightarrow> get (cs_registry s) i = others i) \<and>
     (get (cs_registry s) (cx_node_id (cs_context s)) = Some (node (cx_node_state (cs_context s))) \<or>
      get (cs_registry s) (cx_node_id (cs_context s)) = None \<and> cx_node_state (cs_context s) = NodeOffline)"

definition keeps_node ::
  "('r \<Rightarrow> 'id \<Rightarrow> ('id, 'md, 'c) node option) \<Rightarrow> ('id, 'md, 'c, 'cv, 'qe, 'ad, 'r) context_op \<Rightarrow> bool" where
  "keeps_node get f \<longleftrightarrow> (\<forall>others node s. shows_node get others node s \<longrightarrow> shows_node get others node (snd (f s)))"

lemma keeps_node_try: "keeps_node get f \<Longrightarrow> keeps_node get g \<Longrightarrow> keeps_node get (cs_try f g)"
  by (auto simp: keeps_node_def cs_try_def split: prod.split sum.split) (metis snd_conv)+

lemma keeps_node_if: "keeps_node get f \<Longrightarrow> keeps_node get (\<lambda>s. if b s then f s else (Ok (), s))"
  "keeps_node get f \<Longrightarrow> keeps_node get (\<lambda>s. if b s then (Ok (), s) else f s)"
  by (auto simp: keeps_node_def)

lemma keeps_node_register: "registry_ok ops get \<Longrightarrow> keeps_node get (cs_register_node_state ops st)"
  unfolding keeps_node_def
proof (intro allI impI)
  fix others node s
  assume ok: "registry_ok ops get" and s: "shows_node get others node s"
  let ?n = "local_node (cs_context s) st"
  from ok have "get (snd (rg_register ops ?n (cs_registry s))) =
      (if is_ok (fst (rg_register ops ?n (cs_registry s))) then (get (cs_registry s))(nd_id ?n \<mapsto> ?n) else get (cs_registry s))"
    by (simp add: registry_ok_def)
  with s show "shows_node get others node (snd (cs_register_node_state ops st s))"
    by (auto simp: shows_node_def cs_register_node_state_def local_node_def split: prod.split sum.split)
qed

lemma keeps_node_lifecycle: "keeps_node get (cs_lifecycle f)"
  by (auto simp: keeps_node_def shows_node_def cs_lifecycle_def local_node_def split: prod.split)

lemma keeps_node_close:
  "keeps_node get (cs_close ok msg (\<lambda>cx. cx\<lparr>cx_event_store := x\<rparr>))" "keeps_node get (cs_close ok msg (\<lambda>cx. cx\<lparr>cx_asset_store := x\<rparr>))"
  "keeps_node get (cs_close ok msg (\<lambda>cx. cx\<lparr>cx_catalog_store := x\<rparr>))"
  by (auto simp: keeps_node_def shows_node_def cs_close_def local_node_def)

lemmas keeps_node_intros = keeps_node_try keeps_node_if keeps_node_register keeps_node_lifecycle keeps_node_close

text \<open>The node is unregistered only once it is known as offline.\<close>

lemma register_offline_state:
  assumes "(if cx_node_state (cs_context s) \<noteq> NodeOffline then cs_register_node_state ops NodeOffline s else (Ok (), s)) = (Ok (), s')"
  shows "cx_node_state (cs_context s') = NodeOffline"
  using assms by (auto simp: cs_register_node_state_def split: if_splits prod.splits sum.splits)

lemma keeps_node_unregister:
  assumes "registry_ok ops get" and "shows_node get others node s" and "cx_node_state (cs_context s) = NodeOffline"
  shows "shows_node get others node (snd (cs_unregister ops s))"
proof -
  let ?i = "cx_node_id (cs_context s)"
  from assms(1) have "get (snd (rg_unregister ops ?i (cs_registry s))) =
      (if is_ok (fst (rg_unregister ops ?i (cs_registry s))) then (get (cs_registry s))(?i := None) else get (cs_registry s))"
    by (simp add: registry_ok_def)
  with assms(2,3) show ?thesis
    by (auto simp: shows_node_def cs_unregister_def split: prod.split sum.split)
qed

lemma keeps_node_offline:
  fixes g :: "('id, 'md, 'c, 'cv, 'qe, 'ad, 'r) context_op"
  assumes "registry_ok ops get" and "keeps_node get g"
  shows "keeps_node get (cs_try (\<lambda>s. if cx_node_state (cs_context s) \<noteq> NodeOffline then cs_register_node_state ops NodeOffline s else (Ok (), s))
    (cs_try (cs_unregister ops) g))"
  unfolding keeps_node_def
proof (intro allI impI)
  let ?off = "\<lambda>s. if cx_node_state (cs_context s) \<noteq> NodeOffline then cs_register_node_state ops NodeOffline s else (Ok (), s)"
  fix others node and s :: "('id, 'md, 'c, 'cv, 'qe, 'ad, 'r) context_state"
  assume s: "shows_node get others node s"
  obtain r s1 where off: "?off s = (r, s1)" by fastforce
  have s1: "shows_node get others node s1"
    using keeps_node_if(1) [OF keeps_node_register [OF assms(1)], unfolded keeps_node_def, rule_format, OF s,
        of "\<lambda>s. cx_node_state (cs_context s) \<noteq> NodeOffline" NodeOffline]
    by (simp only: off snd_conv)
  show "shows_node get others node (snd (cs_try ?off (cs_try (cs_unregister ops) g) s))"
  proof (cases r)
    case (Inl e)
    with off s1 show ?thesis by (simp only: cs_try_def prod.case sum.case snd_conv)
  next
    case (Inr u)
    then have "cx_node_state (cs_context s1) = NodeOffline" using register_offline_state off by simp
    note un = keeps_node_unregister [OF assms(1) s1 this]
    obtain r2 s2 where u2: "cs_unregister ops s1 = (r2, s2)" by fastforce
    with off Inr have "cs_try ?off (cs_try (cs_unregister ops) g) s = (case r2 of Inl e \<Rightarrow> (Err e, s2) | Inr _ \<Rightarrow> g s2)"
      unfolding cs_try_def by (simp only: prod.case sum.case)
    with un u2 assms(2) show ?thesis unfolding keeps_node_def by (cases r2) simp_all
  qed
qed

lemma keeps_node_operations:
  assumes "registry_ok ops get"
  shows "keeps_node get (cs_mark_ready ops)" "keeps_node get (cs_begin_shutdown ops)" "keeps_node get (cs_finish_shutdown ok ops)"
    "keeps_node get (cs_shutdown ok ops)"
proof -
  show ready: "keeps_node get (cs_mark_ready ops)"
    unfolding cs_mark_ready_def by (intro keeps_node_intros assms)
  show draining: "keeps_node get (cs_begin_shutdown ops)"
    unfolding cs_begin_shutdown_def by (intro keeps_node_intros assms)
  show finish: "keeps_node get (cs_finish_shutdown ok ops)"
    unfolding cs_finish_shutdown_def
    by (rule keeps_node_try [OF keeps_node_close(1) keeps_node_try [OF keeps_node_if(2) [OF keeps_node_close(2)]
          keeps_node_try [OF keeps_node_if(2) [OF keeps_node_close(3)] keeps_node_offline [OF assms keeps_node_if(1) [OF keeps_node_lifecycle]]]]])
  show "keeps_node get (cs_shutdown ok ops)"
    unfolding cs_shutdown_def by (rule keeps_node_try [OF draining finish])
qed

text \<open>Calls of the application, in any order and however they end.\<close>

datatype context_call = MarkReady | BeginShutdown | FinishShutdown | Shutdown

fun on_context_call :: "(nat \<Rightarrow> bool) \<Rightarrow> ('id, 'md, 'c, 'r) registry_ops \<Rightarrow> context_call \<Rightarrow> ('id, 'md, 'c, 'cv, 'qe, 'ad, 'r) context_op" where
  "on_context_call ok ops MarkReady = cs_mark_ready ops"
| "on_context_call ok ops BeginShutdown = cs_begin_shutdown ops"
| "on_context_call ok ops FinishShutdown = cs_finish_shutdown ok ops"
| "on_context_call ok ops Shutdown = cs_shutdown ok ops"

fun context_calls ::
  "(nat \<Rightarrow> bool) \<Rightarrow> ('id, 'md, 'c, 'r) registry_ops \<Rightarrow> context_call list \<Rightarrow> ('id, 'md, 'c, 'cv, 'qe, 'ad, 'r) context_state
   \<Rightarrow> (unit, server_error) result list \<times> ('id, 'md, 'c, 'cv, 'qe, 'ad, 'r) context_state" where
  "context_calls ok ops [] s = ([], s)"
| "context_calls ok ops (c # cs) s =
     (case on_context_call ok ops c s of (r, s1) \<Rightarrow> case context_calls ok ops cs s1 of (rs, s2) \<Rightarrow> (r # rs, s2))"

lemma context_calls_keep:
  assumes "registry_ok ops get"
  shows "shows_node get others node s \<Longrightarrow> context_calls ok ops calls s = (rs, s') \<Longrightarrow> shows_node get others node s'"
proof (induction calls arbitrary: s rs)
  case (Cons c calls)
  obtain r s1 where c: "on_context_call ok ops c s = (r, s1)" by fastforce
  have "keeps_node get (on_context_call ok ops c :: ('a, 'b, 'c, 'e, 'f, 'g, 'd) context_op)"
    by (cases c) (simp_all add: keeps_node_operations [OF assms])
  with Cons.prems(1) c have "shows_node get others node s1" unfolding keeps_node_def by (metis snd_conv)
  with Cons.IH Cons.prems(2) c show ?case by (auto split: prod.splits)
qed simp

text \<open>A bootstrap, whether it succeeds or not.\<close>

lemma initialize_node_shows:
  assumes "registry_ok ops get" and "initialize_node ops capability metadata configured fresh composed r = (Ok cx, r')"
  shows "shows_node get (get r) (boot_node capability metadata (cx_node_id cx)) \<lparr>cs_context = cx, cs_registry = r', cs_closes = 0\<rparr> \<and>
    cx_node_id cx = (case configured of Some i \<Rightarrow> i | None \<Rightarrow> fresh)"
proof -
  let ?i = "case configured of Some i \<Rightarrow> i | None \<Rightarrow> fresh" let ?n = "boot_node capability metadata ?i NodeStarting"
  have "get (snd (rg_register ops ?n r)) = (if is_ok (fst (rg_register ops ?n r)) then (get r)(nd_id ?n \<mapsto> ?n) else get r)"
    using assms(1) by (simp add: registry_ok_def)
  with assms(2) show ?thesis
    by (auto simp: initialize_node_def register_state_with_def shows_node_def new_composed_with_services_def boot_node_def local_node_def Let_def
        split: prod.splits sum.splits)
qed

lemma failed_boot_unregisters:
  assumes "registry_ok ops get" and "initialize_node ops capability metadata configured fresh composed r = (Err e, r')"
    and "\<And>n r. is_ok (fst (rg_register ops n r))" and "\<And>i r. is_ok (fst (rg_unregister ops i r))"
  shows "get r' = (get r)((case configured of Some i \<Rightarrow> i | None \<Rightarrow> fresh) := None)"
proof -
  let ?i = "case configured of Some i \<Rightarrow> i | None \<Rightarrow> fresh"
  have reg: "get (snd (rg_register ops n q)) = (get q)(nd_id n \<mapsto> n)" for n q using assms(1,3) by (simp add: registry_ok_def)
  have un: "get (snd (rg_unregister ops i q)) = (get q)(i := None)" for i q using assms(1,4) by (simp add: registry_ok_def)
  obtain u r1 where r1: "rg_register ops (boot_node capability metadata ?i NodeStarting) r = (Ok u, r1)"
    using assms(3) [of "boot_node capability metadata ?i NodeStarting" r] by (auto simp: is_ok_iff) (metis prod.collapse)
  with assms(2) have "r' = snd (rg_unregister ops ?i (snd (rg_register ops (boot_node capability metadata ?i NodeOffline) r1)))"
    by (auto simp: initialize_node_def register_state_with_def lifecycle_start_def lifecycle_transition_def lifecycle_new_def
        lifecycle_from_state_def Let_def split: sum.splits)
  moreover have "get r1 = (get r)(?i \<mapsto> boot_node capability metadata ?i NodeStarting)"
    using reg [of "boot_node capability metadata ?i NodeStarting" r] unfolding r1 by (simp add: boot_node_def)
  ultimately show ?thesis by (simp add: un reg boot_node_def)
qed

text \<open>
  C35. The registry tells the truth about this node and leaves the others alone. After a successful
  bootstrap, and any sequence of calls that mark the context ready, drain it or shut it down,
  with a registry and stores that may fail at any of them, the entry of this node has the
  configured metadata, the three capabilities of a server and exactly the state the context
  believes in, or it is absent and the context is offline; every other entry is as the bootstrap
  found it.
\<close>

theorem registry_shows_local_node:
  assumes "registry_ok ops get" and "initialize_node ops capability metadata configured fresh composed r = (Ok cx, r')"
    and "context_calls ok ops calls \<lparr>cs_context = cx, cs_registry = r', cs_closes = 0\<rparr> = (rs, s)"
  shows "\<exists>i. (configured = Some i \<or> configured = None \<and> i = fresh) \<and>
    (\<forall>j. j \<noteq> i \<longrightarrow> get (cs_registry s) j = get r j) \<and>
    (get (cs_registry s) i = None \<and> cx_node_state (cs_context s) = NodeOffline \<or>
     get (cs_registry s) i = Some \<lparr>nd_id = i, nd_metadata = metadata, nd_state = cx_node_state (cs_context s),
       nd_capabilities = {capability ''runtime'', capability ''storage'', capability ''sync''}\<rparr>)"
proof -
  from initialize_node_shows [OF assms(1,2)] have i: "cx_node_id cx = (case configured of Some i \<Rightarrow> i | None \<Rightarrow> fresh)"
    and "shows_node get (get r) (boot_node capability metadata (cx_node_id cx)) s"
    by (auto intro: context_calls_keep [OF assms(1) _ assms(3)])
  then have s: "local_node (cs_context s) st = boot_node capability metadata (cx_node_id cx) st"
      "\<forall>j. j \<noteq> cx_node_id (cs_context s) \<longrightarrow> get (cs_registry s) j = get r j"
      "get (cs_registry s) (cx_node_id (cs_context s)) = Some (boot_node capability metadata (cx_node_id cx) (cx_node_state (cs_context s))) \<or>
       get (cs_registry s) (cx_node_id (cs_context s)) = None \<and> cx_node_state (cs_context s) = NodeOffline" for st
    by (auto simp: shows_node_def)
  have "cx_node_id (cs_context s) = cx_node_id cx" using s(1) by (simp add: local_node_def boot_node_def)
  with s(2,3) i show ?thesis by (intro exI [of _ "cx_node_id cx"]) (auto simp: boot_node_def split: option.split)
qed

section \<open>The lifecycle model as an abstraction\<close>

text \<open>
  \<open>Server_Lifecycle\<close> keeps of the registry only the state of this node, and draws the outcomes of
  external calls from a sequence. An operation of the context implements one of that model when,
  for the outcomes its own calls meet, both give the same result and end in related states.
\<close>

definition app_of ::
  "('r \<Rightarrow> 'id \<Rightarrow> ('id, 'md, 'c) node option) \<Rightarrow> application \<Rightarrow> nat \<Rightarrow> ('id, 'md, 'c, 'cv, 'qe, 'ad, 'r) context_state \<Rightarrow> application" where
  "app_of get base n s = base\<lparr>ap_lifecycle := cx_lifecycle (cs_context s), ap_node_state := cx_node_state (cs_context s),
     ap_registered := map_option nd_state (get (cs_registry s) (cx_node_id (cs_context s))),
     ap_event_store := cx_event_store (cs_context s), ap_asset_store := cx_asset_store (cs_context s),
     ap_catalog_store := cx_catalog_store (cs_context s), ap_calls := n\<rparr>"

definition implements ::
  "('r \<Rightarrow> 'id \<Rightarrow> ('id, 'md, 'c) node option) \<Rightarrow> ('id, 'md, 'c, 'cv, 'qe, 'ad, 'r) context_op \<Rightarrow> ((nat \<Rightarrow> bool) \<Rightarrow> unit app) \<Rightarrow> bool" where
  "implements get f g \<longleftrightarrow> (\<forall>base n s. \<exists>oks. \<forall>ok. (\<forall>i < length oks. ok (n + i) = oks ! i) \<longrightarrow>
     g ok (app_of get base n s) = (fst (f s), app_of get base (n + length oks) (snd (f s))))"

lemma implementsI:
  "(\<And>base n s. \<exists>oks. \<forall>ok. (\<forall>i < length oks. ok (n + i) = oks ! i) \<longrightarrow>
     g ok (app_of get base n s) = (fst (f s), app_of get base (n + length oks) (snd (f s)))) \<Longrightarrow> implements get f g"
  by (simp add: implements_def)

lemma implementsE:
  assumes "implements get f g"
  obtains oks where "\<And>ok. (\<And>i. i < length oks \<Longrightarrow> ok (n + i) = oks ! i) \<Longrightarrow>
    g ok (app_of get base n s) = (fst (f s), app_of get base (n + length oks) (snd (f s)))"
  using assms unfolding implements_def by metis

lemma implements_try:
  assumes "implements get f g" and "implements get f' g'"
  shows "implements get (cs_try f f') (\<lambda>ok. app_try (g ok) (\<lambda>_. g' ok))"
proof (rule implementsI)
  fix base n s
  obtain r s1 where f: "f s = (r, s1)" by fastforce
  obtain oks where 1: "\<And>ok. (\<And>i. i < length oks \<Longrightarrow> ok (n + i) = oks ! i) \<Longrightarrow> g ok (app_of get base n s) = (r, app_of get base (n + length oks) s1)"
    using implementsE [OF assms(1), of n base s] f by auto
  obtain oks' where 2: "\<And>ok. (\<And>i. i < length oks' \<Longrightarrow> ok (n + length oks + i) = oks' ! i) \<Longrightarrow>
      g' ok (app_of get base (n + length oks) s1) = (fst (f' s1), app_of get base (n + length oks + length oks') (snd (f' s1)))"
    using implementsE [OF assms(2), of "n + length oks" base s1] by auto
  show "\<exists>oks. \<forall>ok. (\<forall>i < length oks. ok (n + i) = oks ! i) \<longrightarrow>
     app_try (g ok) (\<lambda>_. g' ok) (app_of get base n s) = (fst (cs_try f f' s), app_of get base (n + length oks) (snd (cs_try f f' s)))"
  proof (cases r)
    case (Inl e)
    with 1 f show ?thesis by (intro exI [of _ oks]) (auto simp: app_try_def cs_try_def)
  next
    case (Inr u)
    have "g ok (app_of get base n s) = (r, app_of get base (n + length oks) s1) \<and>
        g' ok (app_of get base (n + length oks) s1) = (fst (f' s1), app_of get base (n + length oks + length oks') (snd (f' s1)))"
      if *: "\<forall>i < length (oks @ oks'). ok (n + i) = (oks @ oks') ! i" for ok
    proof (intro conjI 1 2)
      show "ok (n + i) = oks ! i" if "i < length oks" for i using * [rule_format, of i] that by (simp add: nth_append)
      show "ok (n + length oks + i) = oks' ! i" if "i < length oks'" for i using * [rule_format, of "length oks + i"] that by (simp add: add.assoc)
    qed
    with Inr f show ?thesis by (intro exI [of _ "oks @ oks'"]) (auto simp: app_try_def cs_try_def add.assoc)
  qed
qed

lemma implements_if:
  assumes "implements get f g" and "\<And>base n s. b' (app_of get base n s) = b s"
  shows "implements get (\<lambda>s. if b s then f s else (Ok (), s)) (\<lambda>ok s. if b' s then g ok s else (Ok (), s))"
    and "implements get (\<lambda>s. if b s then (Ok (), s) else f s) (\<lambda>ok s. if b' s then (Ok (), s) else g ok s)"
proof -
  have skip: "\<exists>oks. \<forall>ok. (\<forall>i < length oks. ok (n + i) = oks ! i) \<longrightarrow> (Ok (), app_of get base n s) = (Ok (), app_of get base (n + length oks) s)"
    for base n and s :: "('b, 'c, 'd, 'e, 'f, 'g, 'a) context_state"
    by (rule exI [of _ "[]"]) simp
  show "implements get (\<lambda>s. if b s then f s else (Ok (), s)) (\<lambda>ok s. if b' s then g ok s else (Ok (), s))"
    "implements get (\<lambda>s. if b s then (Ok (), s) else f s) (\<lambda>ok s. if b' s then (Ok (), s) else g ok s)"
    using assms skip by (auto simp: implements_def)
qed

lemma implements_lifecycle: "implements get (cs_lifecycle f) (\<lambda>_. on_lifecycle f)"
  by (rule implementsI, rule exI [of _ "[]"]) (auto simp: cs_lifecycle_def on_lifecycle_def app_of_def split: prod.split)

lemma implements_register:
  fixes ops :: "('id, 'md, 'c, 'r) registry_ops"
  assumes "registry_ok ops get"
  shows "implements get (cs_register_node_state ops st :: ('id, 'md, 'c, 'cv, 'qe, 'ad, 'r) context_op) (\<lambda>ok. register_node_state ok st)"
proof (rule implementsI)
  fix base n and s :: "('id, 'md, 'c, 'cv, 'qe, 'ad, 'r) context_state"
  let ?n = "local_node (cs_context s) st"
  from assms have "get (snd (rg_register ops ?n (cs_registry s))) =
      (if is_ok (fst (rg_register ops ?n (cs_registry s))) then (get (cs_registry s))(nd_id ?n \<mapsto> ?n) else get (cs_registry s))"
    by (simp add: registry_ok_def)
  then show "\<exists>oks. \<forall>ok. (\<forall>i < length oks. ok (n + i) = oks ! i) \<longrightarrow> register_node_state ok st (app_of get base n s) =
      (fst (cs_register_node_state ops st s), app_of get base (n + length oks) (snd (cs_register_node_state ops st s)))"
    by (intro exI [of _ "[is_ok (fst (rg_register ops ?n (cs_registry s)))]"])
      (auto simp: cs_register_node_state_def context_ops app_of_def local_node_def split: prod.split sum.split)
qed

lemma implements_unregister:
  fixes ops :: "('id, 'md, 'c, 'r) registry_ops"
  assumes "registry_ok ops get"
  shows "implements get (cs_unregister ops :: ('id, 'md, 'c, 'cv, 'qe, 'ad, 'r) context_op)
    (\<lambda>ok. app_try (external ok (NodeLifecycleFailed ''node unregister failed'')) (\<lambda>_ s. (Ok (), s\<lparr>ap_registered := None\<rparr>)))"
proof (rule implementsI)
  fix base n and s :: "('id, 'md, 'c, 'cv, 'qe, 'ad, 'r) context_state"
  let ?i = "cx_node_id (cs_context s)"
  from assms have "get (snd (rg_unregister ops ?i (cs_registry s))) =
      (if is_ok (fst (rg_unregister ops ?i (cs_registry s))) then (get (cs_registry s))(?i := None) else get (cs_registry s))"
    by (simp add: registry_ok_def)
  then show "\<exists>oks. \<forall>ok. (\<forall>i < length oks. ok (n + i) = oks ! i) \<longrightarrow>
      app_try (external ok (NodeLifecycleFailed ''node unregister failed'')) (\<lambda>_ s. (Ok (), s\<lparr>ap_registered := None\<rparr>)) (app_of get base n s) =
      (fst (cs_unregister ops s), app_of get base (n + length oks) (snd (cs_unregister ops s)))"
    by (intro exI [of _ "[is_ok (fst (rg_unregister ops ?i (cs_registry s)))]"])
      (auto simp: cs_unregister_def context_ops app_of_def split: prod.split sum.split)
qed

lemma implements_close:
  "implements get (cs_close okc ''event store shutdown failed'' (\<lambda>cx. cx\<lparr>cx_event_store := Closed\<rparr>)) close_event_store"
  "implements get (\<lambda>s. if cx_asset_store (cs_context s) = Absent then (Ok (), s)
     else cs_close okc ''asset store shutdown failed'' (\<lambda>cx. cx\<lparr>cx_asset_store := Closed\<rparr>) s) close_asset_store"
  "implements get (\<lambda>s. if cx_catalog_store (cs_context s) = Absent then (Ok (), s)
     else cs_close okc ''catalog store shutdown failed'' (\<lambda>cx. cx\<lparr>cx_catalog_store := Closed\<rparr>) s) close_catalog_store"
proof -
  show "implements get (cs_close okc ''event store shutdown failed'' (\<lambda>cx. cx\<lparr>cx_event_store := Closed\<rparr>)) close_event_store"
    by (rule implementsI) (rule exI [of _ "[okc (cs_closes s)]" for s], auto simp: cs_close_def close_event_store_def context_ops app_of_def)
  have "implements get (cs_close okc ''asset store shutdown failed'' (\<lambda>cx. cx\<lparr>cx_asset_store := Closed\<rparr>))
      (\<lambda>ok. app_try (external ok (ShutdownFailed ''asset store shutdown failed'')) (\<lambda>_ s. (Ok (), s\<lparr>ap_asset_store := Closed\<rparr>)))"
    by (rule implementsI) (rule exI [of _ "[okc (cs_closes s)]" for s], auto simp: cs_close_def context_ops app_of_def)
  from implements_if(2) [OF this, where b' = "\<lambda>s. ap_asset_store s = Absent" and b = "\<lambda>s. cx_asset_store (cs_context s) = Absent"]
  show "implements get (\<lambda>s. if cx_asset_store (cs_context s) = Absent then (Ok (), s)
      else cs_close okc ''asset store shutdown failed'' (\<lambda>cx. cx\<lparr>cx_asset_store := Closed\<rparr>) s) close_asset_store"
    by (simp add: app_of_def close_asset_store_def [abs_def])
  have "implements get (cs_close okc ''catalog store shutdown failed'' (\<lambda>cx. cx\<lparr>cx_catalog_store := Closed\<rparr>))
      (\<lambda>ok. app_try (external ok (ShutdownFailed ''catalog store shutdown failed'')) (\<lambda>_ s. (Ok (), s\<lparr>ap_catalog_store := Closed\<rparr>)))"
    by (rule implementsI) (rule exI [of _ "[okc (cs_closes s)]" for s], auto simp: cs_close_def context_ops app_of_def)
  from implements_if(2) [OF this, where b' = "\<lambda>s. ap_catalog_store s = Absent" and b = "\<lambda>s. cx_catalog_store (cs_context s) = Absent"]
  show "implements get (\<lambda>s. if cx_catalog_store (cs_context s) = Absent then (Ok (), s)
      else cs_close okc ''catalog store shutdown failed'' (\<lambda>cx. cx\<lparr>cx_catalog_store := Closed\<rparr>) s) close_catalog_store"
    by (simp add: app_of_def close_catalog_store_def [abs_def])
qed

lemma implements_operations:
  assumes "registry_ok ops get"
  shows "implements get (cs_mark_ready ops) mark_ready" "implements get (cs_begin_shutdown ops) begin_shutdown"
    "implements get (cs_finish_shutdown okc ops) finish_shutdown" "implements get (cs_shutdown okc ops) context_shutdown"
proof -
  note reg = implements_register [OF assms]
  show "implements get (cs_mark_ready ops) mark_ready"
    unfolding cs_mark_ready_def mark_ready_def [abs_def] by (rule implements_try [OF reg implements_lifecycle])
  have "implements get (cs_begin_shutdown ops) (\<lambda>ok. app_try (\<lambda>s. if lc_state (ap_lifecycle s) \<noteq> Draining then on_lifecycle lifecycle_begin_shutdown s else (Ok (), s))
      (\<lambda>_ s. if ap_node_state s \<noteq> NodeDraining then register_node_state ok NodeDraining s else (Ok (), s)))"
    unfolding cs_begin_shutdown_def
    by (intro implements_try implements_if(1) implements_lifecycle reg) (simp_all add: app_of_def)
  moreover have "begin_shutdown = (\<lambda>ok. app_try (\<lambda>s. if lc_state (ap_lifecycle s) \<noteq> Draining then on_lifecycle lifecycle_begin_shutdown s else (Ok (), s))
      (\<lambda>_ s. if ap_node_state s \<noteq> NodeDraining then register_node_state ok NodeDraining s else (Ok (), s)))"
    by (intro ext) (simp add: begin_shutdown_def app_try_def)
  ultimately show draining: "implements get (cs_begin_shutdown ops) begin_shutdown" by simp
  have "implements get (cs_finish_shutdown okc ops) (\<lambda>ok. app_try (close_event_store ok) (\<lambda>_. app_try (close_asset_store ok) (\<lambda>_.
      app_try (close_catalog_store ok) (\<lambda>_. app_try (\<lambda>s. if ap_node_state s \<noteq> NodeOffline then register_node_state ok NodeOffline s else (Ok (), s)) (\<lambda>_.
      app_try (app_try (external ok (NodeLifecycleFailed ''node unregister failed'')) (\<lambda>_ s. (Ok (), s\<lparr>ap_registered := None\<rparr>)))
        (\<lambda>_ s. if lc_state (ap_lifecycle s) = Draining then on_lifecycle lifecycle_stop s else (Ok (), s)))))))"
    unfolding cs_finish_shutdown_def
    by (intro implements_try implements_close implements_if(1) implements_lifecycle implements_unregister [OF assms] reg) (simp_all add: app_of_def)
  moreover have "app_try (app_try (external ok e) (\<lambda>_ s. (Ok (), s\<lparr>ap_registered := None\<rparr>)))
      (\<lambda>_ s. if lc_state (ap_lifecycle s) = Draining then on_lifecycle lifecycle_stop s else (Ok (), s)) =
    app_try (external ok e) (\<lambda>_ s. (if lc_state (ap_lifecycle s) = Draining then on_lifecycle lifecycle_stop (s\<lparr>ap_registered := None\<rparr>)
      else (Ok (), s\<lparr>ap_registered := None\<rparr>)))" for ok e
    by (rule ext) (auto simp: app_try_def split: prod.split sum.split)
  ultimately show finish: "implements get (cs_finish_shutdown okc ops) finish_shutdown"
    by (simp add: finish_shutdown_def [abs_def])
  show "implements get (cs_shutdown okc ops) context_shutdown"
    unfolding cs_shutdown_def context_shutdown_def [abs_def] by (rule implements_try [OF draining finish])
qed

fun on_app_call :: "(nat \<Rightarrow> bool) \<Rightarrow> context_call \<Rightarrow> unit app" where
  "on_app_call ok MarkReady = mark_ready ok"
| "on_app_call ok BeginShutdown = begin_shutdown ok"
| "on_app_call ok FinishShutdown = finish_shutdown ok"
| "on_app_call ok Shutdown = context_shutdown ok"

fun app_calls :: "(nat \<Rightarrow> bool) \<Rightarrow> context_call list \<Rightarrow> application \<Rightarrow> (unit, server_error) result list \<times> application" where
  "app_calls ok [] s = ([], s)"
| "app_calls ok (c # cs) s = (case on_app_call ok c s of (r, s1) \<Rightarrow> case app_calls ok cs s1 of (rs, s2) \<Rightarrow> (r # rs, s2))"

lemma implements_calls:
  assumes "registry_ok ops get"
  shows "\<exists>oks. \<forall>ok. (\<forall>i < length oks. ok (n + i) = oks ! i) \<longrightarrow> app_calls ok calls (app_of get base n s) =
    (fst (context_calls okc ops calls s), app_of get base (n + length oks) (snd (context_calls okc ops calls s)))"
proof (induction calls arbitrary: n s)
  case Nil
  show ?case by (rule exI [of _ "[]"]) simp
next
  case (Cons c calls)
  have "implements get (on_context_call okc ops c) (\<lambda>ok. on_app_call ok c)"
    by (cases c) (simp_all add: implements_operations [OF assms])
  from implementsE [OF this, of n base s] obtain oks where
    1: "\<And>ok. (\<And>i. i < length oks \<Longrightarrow> ok (n + i) = oks ! i) \<Longrightarrow> on_app_call ok c (app_of get base n s) =
      (fst (on_context_call okc ops c s), app_of get base (n + length oks) (snd (on_context_call okc ops c s)))" by metis
  obtain r s1 where c: "on_context_call okc ops c s = (r, s1)" by fastforce
  from Cons.IH [of "n + length oks" s1] obtain oks' where
    2: "\<And>ok. (\<forall>i < length oks'. ok (n + length oks + i) = oks' ! i) \<Longrightarrow> app_calls ok calls (app_of get base (n + length oks) s1) =
      (fst (context_calls okc ops calls s1), app_of get base (n + length oks + length oks') (snd (context_calls okc ops calls s1)))" by metis
  have "app_calls ok (c # calls) (app_of get base n s) = (fst (context_calls okc ops (c # calls) s),
      app_of get base (n + length (oks @ oks')) (snd (context_calls okc ops (c # calls) s)))"
    if *: "\<forall>i < length (oks @ oks'). ok (n + i) = (oks @ oks') ! i" for ok
  proof -
    have "ok (n + i) = oks ! i" if "i < length oks" for i using * [rule_format, of i] that by (simp add: nth_append)
    from 1 [OF this] have "on_app_call ok c (app_of get base n s) = (r, app_of get base (n + length oks) s1)" using c by simp
    moreover have "ok (n + length oks + i) = oks' ! i" if "i < length oks'" for i using * [rule_format, of "length oks + i"] that by (simp add: add.assoc)
    ultimately show ?thesis using 2 [of ok] c by (auto simp: add.assoc split: prod.split)
  qed
  then show ?case by blast
qed


text \<open>A bootstrap composes the context from which the lifecycle model starts.\<close>

lemma initialize_node_app_new:
  assumes "registry_ok ops get" and "initialize_node ops capability metadata configured fresh (Ok cp) r = (Ok cx, r')"
  shows "app_of get (app_new a c) 0 \<lparr>cs_context = cx, cs_registry = r', cs_closes = 0\<rparr> = app_new (cp_asset_store cp) (cp_catalog_store cp)"
proof -
  have "get r' (cx_node_id cx) = Some (boot_node capability metadata (cx_node_id cx) NodeStarting)"
    using initialize_node_shows [OF assms] assms(2)
    by (auto simp: shows_node_def initialize_node_def new_composed_with_services_def boot_node_def Let_def split: prod.splits sum.splits)
  with assms(2) show ?thesis
    by (auto simp: initialize_node_def register_state_with_def new_composed_with_services_def boot_node_def app_of_def app_new_def lifecycle_start_def
        lifecycle_transition_def lifecycle_new_def lifecycle_from_state_def Let_def split: prod.splits sum.splits)
qed

section \<open>A registry with a neighbour\<close>

definition list_registry :: "(nat, string, string, (nat \<times> (nat, string, string) node) list) registry_ops" where
  "list_registry = \<lparr>rg_register = (\<lambda>n r. (Ok (), (nd_id n, n) # r)), rg_unregister = (\<lambda>i r. (Ok (), filter (\<lambda>(j, _). j \<noteq> i) r))\<rparr>"

lemma list_registry_ok: "registry_ok list_registry map_of"
proof -
  have "map_of (filter (\<lambda>(j, _). j \<noteq> i) r) = (map_of r)(i := None)" for i and r :: "(nat \<times> (nat, string, string) node) list"
    by (induction r) auto
  then show ?thesis by (simp add: registry_ok_def list_registry_def)
qed

definition neighbour :: "(nat, string, string) node" where
  "neighbour = \<lparr>nd_id = 9, nd_metadata = ''n'', nd_state = NodeReady, nd_capabilities = {}\<rparr>"

definition composed_context :: "(nat, string, string, unit, unit, unit) server_context" where
  "composed_context = \<lparr>cx_node_id = 7, cx_node_metadata = ''m'', cx_node_capabilities = {''runtime'', ''storage'', ''sync''},
     cx_node_state = NodeStarting, cx_lifecycle = lifecycle_from_state Starting, cx_event_store = Open, cx_development_canvas = None,
     cx_query_executor = Some (), cx_asset_delivery = None, cx_asset_store = Open, cx_catalog_store = Absent\<rparr>"

lemma sample_initialize:
  "initialize_node list_registry (\<lambda>c. c) ''m'' (Some 7) 1 (Ok \<lparr>cp_canvas = None, cp_executor = (), cp_delivery = None, cp_asset_store = True, cp_catalog_store = False\<rparr>)
     [(9, neighbour)] = (Ok composed_context, [(7, boot_node (\<lambda>c. c) ''m'' 7 NodeStarting), (9, neighbour)])"
  by (simp add: initialize_node_def lifecycle_start_def lifecycle_transition_def lifecycle_new_def lifecycle_from_state_def register_state_with_def
      list_registry_def new_composed_with_services_def boot_node_def composed_context_def Let_def)

text \<open>Ready, then a shutdown that fails at the Asset store: the node stays registered as draining.\<close>

theorem registry_shows_local_node_witness:
  "let s = snd (context_calls (\<lambda>n. n = 0) list_registry [MarkReady, Shutdown] \<lparr>cs_context = composed_context,
       cs_registry = [(7, boot_node (\<lambda>c. c) ''m'' 7 NodeStarting), (9, neighbour)], cs_closes = 0\<rparr>) in
   map_of (cs_registry s) 9 = Some neighbour \<and> map_option nd_state (map_of (cs_registry s) 7) = Some NodeDraining"
proof -
  let ?s = "snd (context_calls (\<lambda>n. n = 0) list_registry [MarkReady, Shutdown] \<lparr>cs_context = composed_context,
       cs_registry = [(7, boot_node (\<lambda>c. c) ''m'' 7 NodeStarting), (9, neighbour)], cs_closes = 0\<rparr>)"
  have "cx_node_state (cs_context ?s) = NodeDraining"
    by (simp add: cs_mark_ready_def cs_shutdown_def cs_begin_shutdown_def cs_finish_shutdown_def cs_try_def cs_close_def
        cs_register_node_state_def cs_lifecycle_def lifecycle_ops lifecycle_from_state_def list_registry_def composed_context_def local_node_def)
  with registry_shows_local_node [OF list_registry_ok sample_initialize surjective_pairing, of "\<lambda>n. n = 0" "[MarkReady, Shutdown]"] show ?thesis
    by (auto simp: Let_def)
qed


end
