(* ===== verification/Bootstrap.thy ===== *)
theory Bootstrap
  imports Catalog_Service Asset_Recovery Server_Lifecycle
begin

text \<open>
  The composition root, \<^verbatim>\<open>orbitrelay-server/src/bootstrap.rs\<close>: it opens the stores, finds or
  publishes the Development Canvas and Document, checks every published Document against
  the Asset store, and unregisters the node when any of this fails.

  The bootstrap runs on the two persistent stores of the development, the Asset directories
  with their table and the Catalog tables, as a program that can be cut off at every effect
  (\<open>Crash_Io\<close>). Calls of the Catalog go through its worker: a call site may fail to be
  sent, or meet engine faults. Memory stores, the PDF inspector, the Document composer and
  read service and the handler registries are the kernel's; they are arguments.
\<close>

section \<open>The Development Canvas catalog\<close>

text \<open>\<^verbatim>\<open>DevelopmentCanvasCatalog\<close>, a map from identities to descriptors.\<close>

type_synonym ('id, 'f) canvas_map = "('id \<times> ('id, 'f) canvas_descriptor) list"

definition development_catalog_new :: "('id, 'f) canvas_descriptor \<Rightarrow> ('id, 'f) canvas_map" where
  "development_catalog_new d = [(cv_canvas_id d, d)]"

definition development_catalog_from ::
  "('id, 'f) canvas_descriptor list \<Rightarrow> (('id, 'f) canvas_map, string) result" where
  "development_catalog_from ds =
     fold_res (\<lambda>d m. if map_of m (cv_canvas_id d) \<noteq> None then Err ''duplicate Canvas identity'' else Ok ((cv_canvas_id d, d) # m)) ds []"

definition development_catalog_get :: "'id \<Rightarrow> ('id, 'f) canvas_map \<Rightarrow> ('id, 'f) canvas_descriptor option" where
  "development_catalog_get i m = map_of m i"

section \<open>The world and the environment\<close>

datatype node_call = NodeRegistered node_state | NodeUnregistered

record 'f boot_world =
  bw_assets :: world
  bw_catalog :: "'f catalog_db"
  bw_nodes :: "node_call list"

type_synonym ('f, 'a) boot = "('f boot_world, ('a, server_error) result) io"

record pdf_file =
  pf_length :: "nat option"
  pf_bytes :: "octets option"
  pf_name :: "string option"

text \<open>Configuration, then the environment of one run.\<close>

record ('id, 'f, 'h, 's, 'pdf, 'input) boot_env =
  bt_valid :: "(unit, server_error) result"
  bt_development :: bool
  bt_persistent_assets :: bool
  bt_persistent_catalog :: bool
  bt_queue_capacity :: nat
  bt_canvas_session :: "'id option"
  bt_canvas_id :: "'id option"
  bt_canvas_layer :: "'id option"
  bt_canvas_width :: 'f
  bt_canvas_height :: 'f
  bt_pdf :: "pdf_file option"
  bt_max_asset_bytes :: nat
  bt_delivery :: "(unit, server_error) result option"
  bt_catalog :: "('id, 'f, 's) catalog_codec"
  bt_assets :: "('id, 'h) asset_codec"
  bt_plan :: "string \<Rightarrow> plan"
  bt_faults :: "string \<Rightarrow> sql_faults"
  bt_sent :: "string \<Rightarrow> dispatch_error option"
  bt_opens :: "string \<Rightarrow> bool"
  bt_quick_check :: string
  bt_registry :: "string \<Rightarrow> bool"
  bt_handlers :: "string \<Rightarrow> bool"
  bt_fresh :: "string \<Rightarrow> 'id"
  bt_inspect :: "world \<Rightarrow> 'id \<Rightarrow> ('id \<times> 'pdf) option"
  bt_compose_input :: "'id \<Rightarrow> ('id, 'h) asset_descriptor \<Rightarrow> 'pdf \<Rightarrow> 'input option"
  bt_compose :: "'input \<Rightarrow> ('id, 'f) document_composition option"
  bt_memory_insert_asset :: "('id, 'h) asset_descriptor \<Rightarrow> octets \<Rightarrow> bool"
  bt_memory_has_asset :: "'id \<Rightarrow> bool option"
  bt_memory_documents :: "'id \<Rightarrow> 'id list option"
  bt_memory_insert_document :: "('id, 'f) document_descriptor \<Rightarrow> asset_insert_outcome option"
  bt_view :: "'f boot_world \<Rightarrow> 'id \<Rightarrow> bool"

definition boot_fail :: "string \<Rightarrow> ('f, 'a) boot" where
  "boot_fail msg = io_return (Err (BootstrapFailed msg))"

definition boot_check :: "bool \<Rightarrow> string \<Rightarrow> ('f, unit) boot" where
  "boot_check b msg = io_return (if b then Ok () else Err (BootstrapFailed msg))"

definition on_assets :: "(world, 'a) io \<Rightarrow> ('f boot_world, 'a) io" where
  "on_assets m = (\<lambda>n s. case m n (bw_assets s) of (r, n', w) \<Rightarrow> (r, n', s\<lparr>bw_assets := w\<rparr>))"

text \<open>A call of the Catalog; a call that is not answered was not executed.\<close>

definition catalog_call ::
  "('id, 'f, 'h, 's, 'pdf, 'input) boot_env \<Rightarrow> string \<Rightarrow> (sql_faults \<Rightarrow> 'f catalog_db \<Rightarrow> 'a cat_result \<times> 'f catalog_db) \<Rightarrow> ('f, 'a) boot" where
  "catalog_call env msg f = io_step (\<lambda>s.
     case bt_sent env msg of
       Some e \<Rightarrow> (Err (BootstrapFailed msg), s)
     | None \<Rightarrow> (case f (bt_faults env msg) (bw_catalog s) of (r, db) \<Rightarrow> (map_err (\<lambda>_. BootstrapFailed msg) r, s\<lparr>bw_catalog := db\<rparr>)))"

definition node_call :: "('id, 'f, 'h, 's, 'pdf, 'input) boot_env \<Rightarrow> string \<Rightarrow> node_call \<Rightarrow> ('f, unit) boot" where
  "node_call env site call = io_step (\<lambda>s.
     if bt_registry env site then (Ok (), s\<lparr>bw_nodes := bw_nodes s @ [call]\<rparr>)
     else (Err (NodeLifecycleFailed ''node state registration failed''), s))"

section \<open>Opening the stores\<close>

definition boot_open_assets :: "('id, 'f, 'h, 's, 'pdf, 'input) boot_env \<Rightarrow> ('f, unit) boot" where
  "boot_open_assets env =
     (if bt_persistent_assets env
      then on_assets (io_bind (open_asset_store (bt_queue_capacity env) (bt_opens env ''asset worker'') (bt_plan env ''open'') (bt_assets env)
               (aid_parse (bt_assets env)) (aid_to_string (bt_assets env)) (bt_fresh env ''asset store'') (Some (bt_quick_check env)))
             (\<lambda>r. io_return (case r of Inl e \<Rightarrow> Err (BootstrapFailed ''persistent Asset store initialization failed'') | Inr _ \<Rightarrow> Ok ())))
      else io_return (Ok ()))"

definition boot_open_catalog :: "('id :: linorder, 'f, 'h, 's, 'pdf, 'input) boot_env \<Rightarrow> ('f, unit) boot" where
  "boot_open_catalog env =
     (if bt_persistent_catalog env
      then io_step (\<lambda>s. case open_catalog (bt_queue_capacity env) (bt_opens env ''catalog worker'') (bt_faults env ''open catalog'')
               (bt_catalog env) (bt_opens env ''catalog directory'') (bt_quick_check env) (bt_fresh env ''catalog'') (bw_catalog s) of
             (Inl e, db) \<Rightarrow> (Err (BootstrapFailed ''persistent Catalog initialization failed''), s\<lparr>bw_catalog := db\<rparr>)
           | (Inr _, db) \<Rightarrow> (Ok (), s\<lparr>bw_catalog := db\<rparr>))
      else io_return (Ok ()))"

section \<open>The Development Canvas\<close>

definition development_canvas_descriptor ::
  "('id, 'f, 'h, 's, 'pdf, 'input) boot_env \<Rightarrow> (('id, 'f) canvas_descriptor, unit) result" where
  "development_canvas_descriptor env =
     (let session = (case bt_canvas_session env of Some i \<Rightarrow> i | None \<Rightarrow> bt_fresh env ''session'');
          canvas = (case bt_canvas_id env of Some i \<Rightarrow> i | None \<Rightarrow> bt_fresh env ''canvas'');
          layer = (case bt_canvas_layer env of Some i \<Rightarrow> i | None \<Rightarrow> bt_fresh env ''layer'');
          d = \<lparr>cv_canvas_id = canvas, cv_session_id = session, cv_width = bt_canvas_width env, cv_height = bt_canvas_height env,
               cv_layer_ids = [layer], cv_default_layer_id = layer\<rparr>
      in if \<not> space_valid (bt_catalog env) (bt_canvas_width env) (bt_canvas_height env) then Err ()
         else if canvas_valid (bt_catalog env) d then Ok d else Err ())"

definition configured_canvas :: "('id, 'f, 'h, 's, 'pdf, 'input) boot_env \<Rightarrow> ('f, ('id, 'f) canvas_descriptor) boot" where
  "configured_canvas env =
     io_return (map_err (\<lambda>_. BootstrapFailed ''development Canvas configuration is invalid'') (development_canvas_descriptor env))"

text \<open>The Canvas that is bound, or the configured one, published with its binding.\<close>

definition persistent_development_canvas ::
  "('id :: linorder, 'f, 'h, 's, 'pdf, 'input) boot_env \<Rightarrow> ('f, ('id, 'f) canvas_descriptor) boot" where
  "persistent_development_canvas env =
     io_try (catalog_call env ''Development bootstrap binding lookup failed''
        (\<lambda>flt db. (load_binding flt (bt_catalog env) BOOTSTRAP_DEFAULT_CANVAS db, db))) (\<lambda>found.
     case found of
       Some b \<Rightarrow>
         io_try (catalog_call env ''Development Canvas lookup failed'' (\<lambda>flt db. (load_canvas flt (bt_catalog env) (bb_canvas_id b) db, db))) (\<lambda>canvas.
         (case canvas of
            None \<Rightarrow> boot_fail ''Development bootstrap binding references a missing Canvas''
          | Some d \<Rightarrow> if cv_session_id d \<noteq> bb_session_id b then boot_fail ''Development bootstrap Session mismatch'' else io_return (Ok d)))
     | None \<Rightarrow>
         io_try (configured_canvas env) (\<lambda>d.
         io_try (catalog_call env ''Development Canvas publication failed'' (\<lambda>flt db.
            publish_standalone_with_binding flt (bt_catalog env) BOOTSTRAP_DEFAULT_CANVAS d
              \<lparr>bb_session_id = cv_session_id d, bb_canvas_id = cv_canvas_id d\<rparr> db)) (\<lambda>published.
         if published = PubConflict then boot_fail ''Development Canvas identity conflict'' else io_return (Ok d))))"

definition development_canvas :: "('id :: linorder, 'f, 'h, 's, 'pdf, 'input) boot_env \<Rightarrow> ('f, ('id, 'f) canvas_descriptor) boot" where
  "development_canvas env = (if bt_persistent_catalog env then persistent_development_canvas env else configured_canvas env)"

section \<open>The Development Document\<close>

definition ingest_development_pdf ::
  "('id, 'f, 'h, 's, 'pdf, 'input) boot_env \<Rightarrow> ('id, 'h) asset_descriptor \<Rightarrow> octets \<Rightarrow> ('f, unit) boot" where
  "ingest_development_pdf env d bytes =
     (if bt_persistent_assets env
      then on_assets (io_bind (insert_verified (bt_plan env ''ingest'') (bt_assets env) d bytes)
             (\<lambda>r. io_return (case r of Inl e \<Rightarrow> Err (BootstrapFailed ''development PDF asset verification failed'') | Inr _ \<Rightarrow> Ok ())))
      else boot_check (bt_memory_insert_asset env d bytes) ''development PDF asset verification failed'')"

definition bootstrap_development_pdf ::
  "('id, 'f, 'h, 's, 'pdf, 'input) boot_env \<Rightarrow> pdf_file \<Rightarrow> 'id \<Rightarrow> ('f, ('id, 'f) document_composition) boot" where
  "bootstrap_development_pdf env file session =
     (case pf_length file of
        None \<Rightarrow> boot_fail ''development PDF metadata could not be read''
      | Some len \<Rightarrow>
          if bt_max_asset_bytes env < len then boot_fail ''development PDF exceeds the inspection size limit''
          else case pf_bytes file of
            None \<Rightarrow> boot_fail ''development PDF bytes could not be read''
          | Some bytes \<Rightarrow>
              let asset = \<lparr>ad_asset_id = bt_fresh env ''asset'', ad_media_type = ''application/pdf'', ad_byte_length = len,
                           ad_content_hash = hash_of (bt_assets env) bytes, ad_original_filename = pf_name file\<rparr> in
              if \<not> descriptor_valid (bt_assets env) asset then boot_fail ''development PDF asset metadata is invalid''
              else
                io_try (ingest_development_pdf env asset bytes) (\<lambda>_.
                io_try (io_get (\<lambda>s. ok_or (BootstrapFailed ''development PDF inspection failed'') (bt_inspect env (bw_assets s) (ad_asset_id asset)))) (\<lambda>(pdf_asset, pdf).
                if pdf_asset \<noteq> ad_asset_id asset then boot_fail ''development PDF metadata identity mismatch''
                else
                  io_try (io_return (ok_or (BootstrapFailed ''development Document composition input is invalid'') (bt_compose_input env session asset pdf))) (\<lambda>input.
                  io_return (ok_or (BootstrapFailed ''development Document composition failed'') (bt_compose env input))))))"

text \<open>Whether any Document is known already.\<close>

definition catalog_has_documents :: "('id, 'f, 'h, 's, 'pdf, 'input) boot_env \<Rightarrow> 'id \<Rightarrow> ('f, bool) boot" where
  "catalog_has_documents env session =
     (if bt_persistent_catalog env
      then io_try (catalog_call env ''Development Document catalog lookup failed'' (\<lambda>flt db. (list_all_documents flt (bt_catalog env) db, db)))
             (\<lambda>documents. io_return (Ok (documents \<noteq> [])))
      else io_return (map_ok (\<lambda>ids. ids \<noteq> []) (ok_or (BootstrapFailed ''Development Document catalog lookup failed'') (bt_memory_documents env session))))"

text \<open>Publishes the composed Document; the Canvases to add to the memory catalog are the result.\<close>

definition publish_composition ::
  "('id :: linorder, 'f, 'h, 's, 'pdf, 'input) boot_env \<Rightarrow> ('id, 'f) document_composition \<Rightarrow> ('f, ('id, 'f) canvas_descriptor list) boot" where
  "publish_composition env graph =
     (if bt_persistent_catalog env
      then io_try (catalog_call env ''Development Document publication failed'' (\<lambda>flt db. publish_document flt (bt_catalog env) graph db)) (\<lambda>published.
           if published = PubConflict then boot_fail ''development Document identity conflict'' else io_return (Ok []))
      else if bt_memory_insert_document env (dc_document graph) = Some Inserted then io_return (Ok (dc_page_canvases graph))
      else boot_fail ''development Document identity collision'')"

definition development_document ::
  "('id :: linorder, 'f, 'h, 's, 'pdf, 'input) boot_env \<Rightarrow> 'id \<Rightarrow> ('f, ('id, 'f) canvas_descriptor list) boot" where
  "development_document env session =
     io_try (catalog_has_documents env session) (\<lambda>known.
     if known then io_return (Ok [])
     else case bt_pdf env of
       None \<Rightarrow> io_return (Ok [])
     | Some file \<Rightarrow> io_try (bootstrap_development_pdf env file session) (publish_composition env))"

definition development_content ::
  "('id :: linorder, 'f, 'h, 's, 'pdf, 'input) boot_env \<Rightarrow> ('f, ('id, 'f) canvas_descriptor option \<times> ('id, 'f) canvas_descriptor list) boot" where
  "development_content env =
     (if bt_development env
      then io_try (boot_check (bt_handlers env ''dev.echo'') ''development handler registration failed'') (\<lambda>_.
           io_try (development_canvas env) (\<lambda>d.
           io_try (development_document env (cv_session_id d)) (\<lambda>canvases. io_return (Ok (Some d, d # canvases)))))
      else io_return (Ok (None, [])))"

section \<open>Validation and composition\<close>

definition boot_has_asset :: "('id, 'f, 'h, 's, 'pdf, 'input) boot_env \<Rightarrow> 'id \<Rightarrow> ('f, bool) boot" where
  "boot_has_asset env i =
     io_get (\<lambda>s. map_err (\<lambda>_. BootstrapFailed ''Document source Asset lookup failed'')
       (if bt_persistent_assets env then map_ok (\<lambda>found. found \<noteq> None) (get_asset (bt_plan env ''validate'') (bt_assets env) i (bw_assets s))
        else ok_or '''' (bt_memory_has_asset env i)))"

definition validate_document :: "('id, 'f, 'h, 's, 'pdf, 'input) boot_env \<Rightarrow> ('id, 'f) document_descriptor \<Rightarrow> ('f, unit) boot" where
  "validate_document env d =
     io_try (boot_has_asset env (dd_source_asset_id d)) (\<lambda>present.
     if \<not> present then boot_fail ''Document references a missing published Asset''
     else io_get (\<lambda>s. if bt_view env s (dd_document_id d) then Ok () else Err (BootstrapFailed ''Document read model is inconsistent'')))"

definition validate_documents ::
  "('id, 'f, 'h, 's, 'pdf, 'input) boot_env \<Rightarrow> ('id, 'f) canvas_descriptor option \<Rightarrow> ('f, unit) boot" where
  "validate_documents env canvas =
     (if bt_persistent_catalog env
      then io_try (catalog_call env ''Document catalog validation failed'' (\<lambda>flt db. (list_all_documents flt (bt_catalog env) db, db)))
             (io_for (validate_document env))
      else case canvas of
        None \<Rightarrow> io_return (Ok ())
      | Some d \<Rightarrow>
          io_try (io_return (ok_or (BootstrapFailed ''Document catalog validation failed'') (bt_memory_documents env (cv_session_id d))))
            (io_for (\<lambda>i. io_get (\<lambda>s. if bt_view env s i then Ok () else Err (BootstrapFailed ''Document read model is inconsistent'')))))"

text \<open>The registrations of handlers, between the content and the validation.\<close>

definition register_handlers :: "('id, 'f, 'h, 's, 'pdf, 'input) boot_env \<Rightarrow> ('f, unit) boot" where
  "register_handlers env =
     io_try (boot_check (bt_development env \<longrightarrow> bt_handlers env ''canvas'') ''Canvas handler registration failed'') (\<lambda>_.
     io_try (io_return (case bt_delivery env of None \<Rightarrow> Ok () | Some r \<Rightarrow> r)) (\<lambda>_.
     io_try (boot_check (bt_handlers env ''document queries'') ''Document Query handler registration failed'') (\<lambda>_.
     io_try (boot_check (bt_handlers env ''canvas history'') ''Canvas history Query registration failed'') (\<lambda>_.
     boot_check (bt_delivery env \<noteq> None \<longrightarrow> bt_handlers env ''asset access'') ''Asset access Query handler registration failed''))))"

definition compose_context :: "('id :: linorder, 'f, 'h, 's, 'pdf, 'input) boot_env \<Rightarrow> ('f, ('id, 'f) canvas_descriptor option) boot" where
  "compose_context env =
     io_try (boot_open_assets env) (\<lambda>_.
     io_try (boot_open_catalog env) (\<lambda>_.
     io_try (development_content env) (\<lambda>(canvas, descriptors).
     io_try (io_return (if bt_persistent_catalog env then Ok ()
                        else map_err (\<lambda>_. BootstrapFailed ''duplicate Canvas identity'') (map_ok (\<lambda>_. ()) (development_catalog_from descriptors)))) (\<lambda>_.
     io_try (register_handlers env) (\<lambda>_.
     io_try (validate_documents env canvas) (\<lambda>_. io_return (Ok canvas)))))))"

definition initialize_with :: "('id :: linorder, 'f, 'h, 's, 'pdf, 'input) boot_env \<Rightarrow> ('f, ('id, 'f) canvas_descriptor option) boot" where
  "initialize_with env =
     io_try (io_return (bt_valid env)) (\<lambda>_.
     io_try (io_return (fst (lifecycle_start lifecycle_new))) (\<lambda>_.
     io_try (node_call env ''starting'' (NodeRegistered NodeStarting)) (\<lambda>_.
     io_bind (compose_context env) (\<lambda>result.
     if is_ok result then io_return result
     else io_bind (node_call env ''offline'' (NodeRegistered NodeOffline)) (\<lambda>_.
          io_bind (node_call env ''unregister'' NodeUnregistered) (\<lambda>_. io_return result))))))"

text \<open>\<^verbatim>\<open>initialize\<close>: validation, the EventStore and the bus come first.\<close>

definition boot_initialize ::
  "('id :: linorder, 'f, 'h, 's, 'pdf, 'input) boot_env \<Rightarrow> bool \<Rightarrow> bool \<Rightarrow> ('f, ('id, 'f) canvas_descriptor option) boot" where
  "boot_initialize env events_open bus_ok =
     io_try (io_return (bt_valid env)) (\<lambda>_.
     io_try (boot_check events_open ''SQLite EventStore initialization failed'') (\<lambda>_.
     io_try (boot_check bus_ok ''event bus initialization failed'') (\<lambda>_. initialize_with env)))"

section \<open>Identities of the memory catalog\<close>

text \<open>The memory catalog accepts descriptors iff no identity occurs twice, and then finds each of them.\<close>

lemma fold_catalog:
  "fold_res (\<lambda>d m. if map_of m (cv_canvas_id d) \<noteq> None then Err e else Ok ((cv_canvas_id d, d) # m)) ds m =
     (if distinct (map cv_canvas_id ds) \<and> fst ` set m \<inter> cv_canvas_id ` set ds = {} then Ok (rev (map (\<lambda>d. (cv_canvas_id d, d)) ds) @ m) else Err e)"
  by (induction ds arbitrary: m) (auto simp: map_of_eq_None_iff dest: map_of_SomeD rev_image_eqI)

lemma development_catalog_from_iff:
  "development_catalog_from ds =
     (if distinct (map cv_canvas_id ds) then Ok (rev (map (\<lambda>d. (cv_canvas_id d, d)) ds)) else Err ''duplicate Canvas identity'')"
  unfolding development_catalog_from_def fold_catalog by simp

lemma map_of_find: "map_of (map (\<lambda>d. (cv_canvas_id d, d)) ds) i = List.find (\<lambda>d. cv_canvas_id d = i) ds"
  by (induction ds) auto

lemma development_catalog_get_from:
  assumes "development_catalog_from ds = Ok m"
  shows "development_catalog_get i m = List.find (\<lambda>d. cv_canvas_id d = i) ds"
proof -
  let ?kv = "map (\<lambda>d. (cv_canvas_id d, d)) ds"
  from assms have "distinct (map cv_canvas_id ds)" and m: "m = rev ?kv" by (auto simp: development_catalog_from_iff split: if_splits)
  then have "distinct (map fst ?kv)" by (simp add: comp_def)
  then have "map_of (rev ?kv) = map_of ?kv" by (intro map_of_inject_set [THEN iffD2]) (simp_all add: rev_map [symmetric])
  then show ?thesis by (simp add: development_catalog_get_def m map_of_find)
qed

end
