(* ===== verification/Bootstrap_Stores.thy ===== *)
theory Bootstrap_Stores
  imports Bootstrap
begin

text \<open>
  What the bootstrap promises of the persistent stores and the node registry. The rules for
  \<open>keeps\<close> lift the triples of the Asset store and the exactness of the catalog's commands to
  programs over both stores: each step of the bootstrap keeps the stores consistent, at every
  point where it can be cut off, and what it learnt is available to the next step. The
  registry is followed by \<open>quiet\<close> steps, and \<open>runs\<close> shows that a restart without faults succeeds.
\<close>

section \<open>What a bootstrap keeps\<close>

text \<open>
  The two stores together: both well-formed, with the property \<open>K\<close> of the catalog and the
  published Assets, and the source Asset of every Document published, but for the identities
  in \<open>X\<close>.
\<close>

type_synonym ('id, 'h) asset_view = "'id \<Rightarrow> (('id, 'h) asset_descriptor \<times> octets) option"
type_synonym ('id, 'f, 'h) stores_pred = "('id, 'f) catalog \<Rightarrow> ('id, 'h) asset_view \<Rightarrow> bool"

definition stores_ok ::
  "('id :: linorder, 'f, 's) catalog_codec \<Rightarrow> ('id, 'h) asset_codec \<Rightarrow> 'id set \<Rightarrow> ('id, 'f, 'h) stores_pred \<Rightarrow> 'f boot_world \<Rightarrow> bool" where
  "stores_ok c a X K s \<longleftrightarrow> asset_inv a (bw_assets s) \<and>
     (\<exists>md A. bw_catalog s = encode_catalog c md A \<and> catalog_ok c A \<and> bindings_match A \<and> K A (published_asset a (bw_assets s)) \<and>
        (\<forall>d \<in> set (ct_documents A). dd_source_asset_id d \<in> X \<union> dom (published_asset a (bw_assets s))))"

lemma stores_ok_nodes [simp]: "stores_ok c a X K (s\<lparr>bw_nodes := ns\<rparr>) = stores_ok c a X K s"
  by (simp add: stores_ok_def)

lemma stores_okE:
  assumes "stores_ok c a X K s"
  obtains md A where "bw_catalog s = encode_catalog c md A" "catalog_ok c A" "bindings_match A" "K A (published_asset a (bw_assets s))"
    "\<forall>d \<in> set (ct_documents A). dd_source_asset_id d \<in> X \<union> dom (published_asset a (bw_assets s))" "asset_inv a (bw_assets s)"
  using assms unfolding stores_ok_def by blast

lemma stores_okI:
  assumes "bw_catalog s = encode_catalog c md A" "catalog_ok c A" "bindings_match A" "K A (published_asset a (bw_assets s))"
    "\<forall>d \<in> set (ct_documents A). dd_source_asset_id d \<in> X \<union> dom (published_asset a (bw_assets s))" "asset_inv a (bw_assets s)"
  shows "stores_ok c a X K s"
  using assms unfolding stores_ok_def by blast

lemma stores_ok_weaken: "stores_ok c a X K s \<Longrightarrow> (\<And>A Q. K A Q \<Longrightarrow> L A Q) \<Longrightarrow> stores_ok c a X L s"
  unfolding stores_ok_def by blast

text \<open>Properties that publications keep.\<close>

definition grows_to :: "('id, 'f, 'h) stores_pred \<Rightarrow> bool" where
  "grows_to K \<longleftrightarrow> (\<forall>A B Q R. K A Q \<longrightarrow> catalog_grows A B \<longrightarrow> Q \<subseteq>\<^sub>m R \<longrightarrow> K B R)"

lemma grows_toD: "grows_to K \<Longrightarrow> K A Q \<Longrightarrow> catalog_grows A B \<Longrightarrow> Q \<subseteq>\<^sub>m R \<Longrightarrow> K B R"
  unfolding grows_to_def by blast

text \<open>
  A step keeps \<open>K\<close>, wherever it is cut off; it relies on \<open>J\<close> at its start, and when it returns
  \<^verbatim>\<open>Ok(v)\<close> then \<open>L v\<close> holds.
\<close>

definition keeps ::
  "('id :: linorder, 'f, 's) catalog_codec \<Rightarrow> ('id, 'h) asset_codec \<Rightarrow> 'id set \<Rightarrow> ('id, 'f, 'h) stores_pred \<Rightarrow> ('id, 'f, 'h) stores_pred
   \<Rightarrow> ('f, 'v) boot \<Rightarrow> ('v \<Rightarrow> ('id, 'f, 'h) stores_pred) \<Rightarrow> bool" where
  "keeps c a X K J m L \<longleftrightarrow> triple (stores_ok c a X (\<lambda>A Q. K A Q \<and> J A Q)) m
     (\<lambda>r. stores_ok c a X (\<lambda>A Q. K A Q \<and> (\<forall>v. r = Ok v \<longrightarrow> L v A Q))) (stores_ok c a X K)"

lemma keeps_try [intro]:
  assumes "keeps c a X K J m L" and "\<And>v. keeps c a X K (L v) (f v) M"
  shows "keeps c a X K J (io_try m f) M"
  unfolding keeps_def
proof (rule triple_try [OF assms(1) [unfolded keeps_def]], goal_cases)
  case (1 v)
  show ?case by (rule triple_pre [OF assms(2) [unfolded keeps_def]]) (auto elim: stores_ok_weaken)
qed (auto elim: stores_ok_weaken)

lemma keeps_conseq:
  assumes "keeps c a X K J m L" and "\<And>A Q. J' A Q \<Longrightarrow> J A Q" and "\<And>v A Q. L v A Q \<Longrightarrow> L' v A Q"
  shows "keeps c a X K J' m L'"
  using assms(1) unfolding keeps_def by (rule triple_conseq) (auto elim!: stores_ok_weaken intro: assms(2,3))

lemma keeps_return [intro]: "(\<And>v A Q. r = Ok v \<Longrightarrow> J A Q \<Longrightarrow> L v A Q) \<Longrightarrow> keeps c a X K J (io_return r) L"
  unfolding keeps_def by (auto elim!: stores_ok_weaken)

lemma keeps_fail [intro]: "keeps c a X K J (boot_fail msg) L"
  unfolding boot_fail_def by auto

lemma keeps_check [intro]: "(\<And>A Q. b \<Longrightarrow> J A Q \<Longrightarrow> L () A Q) \<Longrightarrow> keeps c a X K J (boot_check b msg) L"
  unfolding boot_check_def by (auto split: if_splits)

lemma keeps_get [intro]:
  assumes "\<And>s v A. f s = Ok v \<Longrightarrow> asset_inv a (bw_assets s) \<Longrightarrow> J A (published_asset a (bw_assets s)) \<Longrightarrow> L v A (published_asset a (bw_assets s))"
  shows "keeps c a X K J (io_get f) L"
  unfolding keeps_def
proof (rule triple_get)
  fix s assume "stores_ok c a X (\<lambda>A Q. K A Q \<and> J A Q) s"
  then obtain md A where "bw_catalog s = encode_catalog c md A" "catalog_ok c A" "bindings_match A"
    "K A (published_asset a (bw_assets s)) \<and> J A (published_asset a (bw_assets s))"
    "\<forall>d \<in> set (ct_documents A). dd_source_asset_id d \<in> X \<union> dom (published_asset a (bw_assets s))" "asset_inv a (bw_assets s)"
    by (rule stores_okE)
  with assms show "stores_ok c a X (\<lambda>A Q. K A Q \<and> (\<forall>v. f s = Ok v \<longrightarrow> L v A Q)) s" by (intro stores_okI) auto
qed

lemma keeps_on_assets:
  assumes "grows_to K"
    and "\<And>A. triple (agrees a A) m (\<lambda>r w. asset_inv a w \<and> A \<subseteq>\<^sub>m published_asset a w \<and> (\<forall>v. r = Ok v \<longrightarrow> E v (published_asset a w))) (agrees a A)"
  shows "keeps c a X K J (on_assets m) (\<lambda>v A. E v)"
  unfolding keeps_def triple_def
proof (intro allI impI)
  fix n s assume "stores_ok c a X (\<lambda>A Q. K A Q \<and> J A Q) s"
  then obtain md A where A: "bw_catalog s = encode_catalog c md A" "catalog_ok c A" "bindings_match A"
    "K A (published_asset a (bw_assets s)) \<and> J A (published_asset a (bw_assets s))"
    "\<forall>d \<in> set (ct_documents A). dd_source_asset_id d \<in> X \<union> dom (published_asset a (bw_assets s))" "asset_inv a (bw_assets s)"
    by (rule stores_okE)
  let ?A = "published_asset a (bw_assets s)"
  have inv: "agrees a ?A (bw_assets s)" using A(6) by (rule agrees_self)
  have keep: "stores_ok c a X (\<lambda>A Q. K A Q \<and> F Q) (s\<lparr>bw_assets := w\<rparr>)"
    if w: "asset_inv a w" "?A \<subseteq>\<^sub>m published_asset a w" "F (published_asset a w)" for w F
    using A w map_le_implies_dom_le [OF w(2)] grows_toD [OF assms(1) _ catalog_grows_refl w(2)] by (intro stores_okI [where A = A and md = md]) auto
  show "case on_assets m n s of (Crashed, n', s') \<Rightarrow> stores_ok c a X K s'
    | (Done r, n', s') \<Rightarrow> stores_ok c a X (\<lambda>A Q. K A Q \<and> (\<forall>v. r = Ok v \<longrightarrow> E v Q)) s'"
  proof (cases "m n (bw_assets s)")
    case (fields out n' w)
    show ?thesis
    proof (cases out)
      case Crashed
      with tripleD(1) [OF assms(2) inv fields [unfolded Crashed]] keep [of w "\<lambda>_. True"] fields show ?thesis by (simp add: on_assets_def agrees_def)
    next
      case (Done r)
      with tripleD(2) [OF assms(2) inv fields [unfolded Done]] keep [of w "\<lambda>Q. \<forall>v. r = Ok v \<longrightarrow> E v Q"] fields show ?thesis by (simp add: on_assets_def)
    qed
  qed
qed

text \<open>What a call of the Catalog has to do for this, on the encoding of a well-formed catalog.\<close>

lemma keeps_catalog_call:
  assumes "grows_to K"
    and "\<And>flt md A Q r db'. catalog_ok c A \<Longrightarrow> bindings_match A \<Longrightarrow> J A Q \<Longrightarrow> f flt (encode_catalog c md A) = (r, db') \<Longrightarrow>
      \<exists>B. db' = encode_catalog c md B \<and> catalog_ok c B \<and> bindings_match B \<and> catalog_grows A B \<and> (\<forall>v. r = Ok v \<longrightarrow> L v B Q) \<and>
        (\<forall>d \<in> set (ct_documents B). d \<in> set (ct_documents A) \<or> dd_source_asset_id d \<in> dom Q)"
  shows "keeps c a X K J (catalog_call env msg f) L"
  unfolding keeps_def catalog_call_def
proof (rule triple_step, goal_cases)
  case (1 s r s')
  from 1(1) obtain md A where A: "bw_catalog s = encode_catalog c md A" "catalog_ok c A" "bindings_match A"
    "K A (published_asset a (bw_assets s)) \<and> J A (published_asset a (bw_assets s))"
    "\<forall>d \<in> set (ct_documents A). dd_source_asset_id d \<in> X \<union> dom (published_asset a (bw_assets s))" "asset_inv a (bw_assets s)"
    by (rule stores_okE)
  show ?case
  proof (cases "bt_sent env msg")
    case (Some e)
    with 1 show ?thesis by (auto elim: stores_ok_weaken)
  next
    case None
    obtain r0 db' where f: "f (bt_faults env msg) (bw_catalog s) = (r0, db')" by fastforce
    with 1 None have r: "r = map_err (\<lambda>_. BootstrapFailed msg) r0" "s' = s\<lparr>bw_catalog := db'\<rparr>" by auto
    from assms(2) [OF A(2,3) conjunct2 [OF A(4)] f [unfolded A(1)]] obtain B where B: "db' = encode_catalog c md B" "catalog_ok c B" "bindings_match B"
      "catalog_grows A B" "\<forall>v. r0 = Ok v \<longrightarrow> L v B (published_asset a (bw_assets s))"
      "\<forall>d \<in> set (ct_documents B). d \<in> set (ct_documents A) \<or> dd_source_asset_id d \<in> dom (published_asset a (bw_assets s))"
      by blast
    have "K B (published_asset a (bw_assets s))" using grows_toD [OF assms(1) conjunct1 [OF A(4)] B(4)] by simp
    with A B r show ?thesis by (intro stores_okI [where A = B and md = md]) auto
  qed
qed (auto elim: stores_ok_weaken)

lemma keeps_catalog_query:
  assumes "grows_to K" and "\<And>flt md A Q v. catalog_ok c A \<Longrightarrow> bindings_match A \<Longrightarrow> J A Q \<Longrightarrow> f flt (encode_catalog c md A) = Ok v \<Longrightarrow> L v A Q"
  shows "keeps c a X K J (catalog_call env msg (\<lambda>flt db. (f flt db, db))) L"
  by (rule keeps_catalog_call [OF assms(1)]) (use assms(2) catalog_grows_refl in fastforce)

section \<open>The steps of the bootstrap\<close>

lemma keeps_open_assets:
  assumes "asset_codec_ok (bt_assets env)" and "grows_to K"
  shows "keeps c (bt_assets env) X K (\<lambda>A Q. True) (boot_open_assets env) (\<lambda>v A Q. True)"
proof -
  let ?a = "bt_assets env"
  let ?wrap = "\<lambda>r. io_return (case r of Inl e \<Rightarrow> Err (BootstrapFailed ''persistent Asset store initialization failed'') | Inr _ \<Rightarrow> Ok ())"
  have init: "triple (agrees ?a A) (initialize_storage p ?a parse entity_text fresh quick) (\<lambda>r. agrees ?a A) (agrees ?a A)"
    for p parse entity_text fresh quick A
    by (rule triple_conseq [OF initialize_agrees [OF assms(1)]]) auto
  have opened: "triple (agrees ?a A) (open_asset_store cap spawned p ?a parse entity_text fresh quick) (\<lambda>r. agrees ?a A) (agrees ?a A)"
    for cap spawned p parse entity_text fresh quick A
    unfolding open_asset_store_def by (auto intro!: triple_try [OF init])
  have "triple (agrees ?a A) (io_bind (open_asset_store cap spawned p ?a parse entity_text fresh quick) ?wrap)
    (\<lambda>r w. asset_inv ?a w \<and> A \<subseteq>\<^sub>m published_asset ?a w \<and> (\<forall>v. r = Ok v \<longrightarrow> True)) (agrees ?a A)"
    for cap spawned p parse entity_text fresh quick A
    by (rule triple_bind [OF opened]) (auto simp: agrees_def)
  from keeps_on_assets [OF assms(2) this] show ?thesis unfolding boot_open_assets_def by auto
qed

lemma create_schema_metadata: "create_schema flt c fresh db = (r, db') \<Longrightarrow> \<exists>md. db' = db\<lparr>tb_metadata := md\<rparr>"
  by (auto simp: create_schema_def ensure_metadata_def cat_call_def split: sum.splits option.splits if_splits intro: exI [of _ "tb_metadata db"])

lemma open_catalog_metadata:
  assumes "open_catalog cap spawned flt c dir quick fresh (encode_catalog c md A) = (r, db')"
  shows "\<exists>md'. db' = encode_catalog c md' A"
proof -
  have same: "\<exists>md. db = db\<lparr>tb_metadata := md\<rparr>" for db :: "'b catalog_db" by (intro exI [of _ "tb_metadata db"]) simp
  have "\<exists>md. db' = db\<lparr>tb_metadata := md\<rparr>" if "open_catalog cap spawned flt c dir quick fresh db = (r, db')" for db
    using that same create_schema_metadata [of flt c fresh db]
    by (auto simp: open_catalog_def initialize_catalog_def split: sum.splits if_splits prod.splits)
  from this [OF assms] show ?thesis by (simp add: encode_catalog_def)
qed

lemma keeps_open_catalog:
  "keeps (bt_catalog env) a X K (\<lambda>A Q. True) (boot_open_catalog env) (\<lambda>v A Q. True)"
proof -
  let ?open = "open_catalog (bt_queue_capacity env) (bt_opens env ''catalog worker'') (bt_faults env ''open catalog'')
               (bt_catalog env) (bt_opens env ''catalog directory'') (bt_quick_check env) (bt_fresh env ''catalog'')"
  have "stores_ok (bt_catalog env) a X K (s\<lparr>bw_catalog := db'\<rparr>)"
    if s: "stores_ok (bt_catalog env) a X K s" and r: "?open (bw_catalog s) = (r, db')" for s r db'
  proof -
    from s obtain md A where A: "bw_catalog s = encode_catalog (bt_catalog env) md A" "catalog_ok (bt_catalog env) A" "bindings_match A"
      "K A (published_asset a (bw_assets s))"
      "\<forall>d \<in> set (ct_documents A). dd_source_asset_id d \<in> X \<union> dom (published_asset a (bw_assets s))" "asset_inv a (bw_assets s)"
      by (rule stores_okE)
    from open_catalog_metadata [OF r [unfolded A(1)]] obtain md' where "db' = encode_catalog (bt_catalog env) md' A" by blast
    with A show ?thesis by (intro stores_okI [where A = A and md = md']) auto
  qed
  then show ?thesis unfolding boot_open_catalog_def keeps_def by (auto intro!: triple_step split: prod.splits sum.splits)
qed

text \<open>The binding of the Development Canvas stays, as every Canvas does.\<close>

definition development_bound :: "('id, 'f) canvas_descriptor \<Rightarrow> ('id, 'f) catalog \<Rightarrow> bool" where
  "development_bound d A \<longleftrightarrow> d \<in> set (ct_canvases A) \<and>
     map_of (ct_bindings A) BOOTSTRAP_DEFAULT_CANVAS = Some \<lparr>bb_session_id = cv_session_id d, bb_canvas_id = cv_canvas_id d\<rparr>"

lemma map_of_prefix: "prefix xs ys \<Longrightarrow> map_of xs k = Some v \<Longrightarrow> map_of ys k = Some v"
  by (auto elim!: prefixE simp: map_add_def)

lemma development_bound_grows: "development_bound d A \<Longrightarrow> catalog_grows A B \<Longrightarrow> development_bound d B"
  by (auto simp: development_bound_def catalog_grows_def map_of_prefix dest: set_mono_prefix)

lemma development_bound_unique:
  assumes "catalog_ok c A" and "development_bound d A" and "development_bound d' A"
  shows "d = d'"
proof -
  have "d \<in> set (ct_canvases A)" "d' \<in> set (ct_canvases A)" "cv_canvas_id d = cv_canvas_id d'"
    using assms(2,3) by (simp_all add: development_bound_def)
  with find_canvas_member [OF assms(1)] show ?thesis by (metis option.inject)
qed

text \<open>The Development Canvas.\<close>

lemma development_canvas_descriptor_ok: "development_canvas_descriptor env = Ok d \<Longrightarrow> descriptor_ok (bt_catalog env) d"
  by (auto simp: development_canvas_descriptor_def descriptor_ok_def Let_def i64_max_def split: if_splits)

lemma load_binding_sound:
  assumes "catalog_codec_ok c" and "load_binding flt c key (encode_catalog c md A) = Ok v"
  shows "v = map_of (ct_bindings A) key"
  using load_binding_le [of flt c key "encode_catalog c md A"] assms(2) by (auto simp: res_le_def load_binding_exact [OF assms(1)])

lemma load_canvas_sound:
  assumes "catalog_codec_ok c" and "catalog_ok c A" and "load_canvas flt c i (encode_catalog c md A) = Ok v"
  shows "v = find_canvas i A"
  using load_canvas_le [of flt c i "encode_catalog c md A"] assms(3) by (auto simp: res_le_def load_canvas_exact [OF assms(1,2)])

lemma list_all_documents_sound:
  assumes "catalog_codec_ok c" and "catalog_ok c A" and "list_all_documents flt c (encode_catalog c md A) = Ok v"
  shows "v = ct_documents A"
  using list_all_documents_le [of flt c "encode_catalog c md A"] assms(3) by (auto simp: res_le_def list_all_documents_exact [OF assms(1,2)])

lemma spec_publish_with_binding_bound:
  assumes "spec_publish_with_binding BOOTSTRAP_DEFAULT_CANVAS d \<lparr>bb_session_id = cv_session_id d, bb_canvas_id = cv_canvas_id d\<rparr> A = (Ok v, B)"
  shows "development_bound d B"
  using assms unfolding spec_publish_with_binding_def development_bound_def
  by (auto simp: find_canvas_def find_Some_iff map_add_def split: option.splits if_splits)

lemma publish_with_binding_cases:
  assumes "catalog_codec_ok c" and "catalog_ok c A" and "bindings_match A" and "descriptor_ok c d"
    and "publish_standalone_with_binding flt c BOOTSTRAP_DEFAULT_CANVAS d \<lparr>bb_session_id = cv_session_id d, bb_canvas_id = cv_canvas_id d\<rparr>
      (encode_catalog c md A) = (r, db')"
  shows "\<exists>B. db' = encode_catalog c md B \<and> catalog_ok c B \<and> bindings_match B \<and> catalog_grows A B \<and> (\<forall>v. r = Ok v \<longrightarrow> development_bound d B) \<and>
    ct_documents B = ct_documents A"
proof -
  let ?cmd = "PublishStandaloneWithBinding BOOTSTRAP_DEFAULT_CANVAS d \<lparr>bb_session_id = cv_session_id d, bb_canvas_id = cv_canvas_id d\<rparr>"
  from assms(5) have e: "exec_catalog_command c (flt, ?cmd) (encode_catalog c md A) = (ReplyPublished r, db')" by simp
  have cmd: "command_ok c ?cmd" using assms(4) by simp
  show ?thesis
  proof (cases rule: exec_catalog_command_cases [OF assms(1,2) cmd e])
    case (1 B)
    then have B: "spec_publish_with_binding BOOTSTRAP_DEFAULT_CANVAS d \<lparr>bb_session_id = cv_session_id d, bb_canvas_id = cv_canvas_id d\<rparr> A = (r, B)"
      by (cases "spec_publish_with_binding BOOTSTRAP_DEFAULT_CANVAS d \<lparr>bb_session_id = cv_session_id d, bb_canvas_id = cv_canvas_id d\<rparr> A") simp
    moreover have "snd (spec_catalog_command c ?cmd A) = B" using 1(1) by simp
    moreover have "ct_documents B = ct_documents A"
      using B by (auto simp: spec_publish_with_binding_def split: option.splits if_splits)
    ultimately show ?thesis
      using 1(2) spec_catalog_command_ok [OF assms(1,2) cmd] spec_catalog_command_grows [of A c ?cmd] spec_catalog_command_match [OF assms(1-3) cmd]
        spec_publish_with_binding_bound [of d A] by auto
  next
    case 2
    with assms(2,3) catalog_grows_refl show ?thesis by (intro exI [of _ A]) auto
  qed
qed

lemma publish_document_cases:
  assumes "catalog_codec_ok c" and "catalog_ok c A" and "bindings_match A" and "composition_ok c graph"
    and "publish_document flt c graph (encode_catalog c md A) = (r, db')"
  shows "\<exists>B. db' = encode_catalog c md B \<and> catalog_ok c B \<and> bindings_match B \<and> catalog_grows A B \<and>
    set (ct_documents B) \<subseteq> insert (dc_document graph) (set (ct_documents A))"
proof -
  let ?cmd = "PublishDocument graph"
  from assms(5) have e: "exec_catalog_command c (flt, ?cmd) (encode_catalog c md A) = (ReplyPublished r, db')" by simp
  have cmd: "command_ok c ?cmd" using assms(4) by simp
  show ?thesis
  proof (cases rule: exec_catalog_command_cases [OF assms(1,2) cmd e])
    case (1 B)
    then have "snd (spec_publish_document graph A) = B" "snd (spec_catalog_command c ?cmd A) = B"
      by (cases "spec_publish_document graph A", simp)+
    moreover from this(1) have "set (ct_documents B) \<subseteq> insert (dc_document graph) (set (ct_documents A))"
      by (auto simp: spec_publish_document_def split: option.splits if_splits)
    ultimately show ?thesis
      using 1(2) spec_catalog_command_ok [OF assms(1,2) cmd] spec_catalog_command_grows [of A c ?cmd] spec_catalog_command_match [OF assms(1-3) cmd]
      by auto
  next
    case 2
    with assms(2,3) catalog_grows_refl show ?thesis by (intro exI [of _ A]) auto
  qed
qed

text \<open>What the bootstrap relies on in the kernel's composer: a valid graph over the Asset it was given.\<close>

definition composer_ok :: "('id :: linorder, 'f, 'h, 's, 'pdf, 'input) boot_env \<Rightarrow> bool" where
  "composer_ok env \<longleftrightarrow> (\<forall>session asset pdf input graph. bt_compose_input env session asset pdf = Some input \<longrightarrow>
     bt_compose env input = Some graph \<longrightarrow>
     composition_ok (bt_catalog env) graph \<and> dd_source_asset_id (dc_document graph) = ad_asset_id asset)"

lemma keeps_development_canvas:
  assumes "catalog_codec_ok (bt_catalog env)" and "grows_to K" and "bt_persistent_catalog env"
  shows "keeps (bt_catalog env) a X K (\<lambda>A Q. True) (development_canvas env) (\<lambda>d A Q. development_bound d A)"
proof -
  let ?c = "bt_catalog env"
  have lookup: "keeps ?c a X K (\<lambda>A Q. True) (catalog_call env msg (\<lambda>flt db. (load_binding flt ?c BOOTSTRAP_DEFAULT_CANVAS db, db)))
    (\<lambda>v A Q. v = map_of (ct_bindings A) BOOTSTRAP_DEFAULT_CANVAS)" for msg
    by (rule keeps_catalog_query [OF assms(2)]) (rule load_binding_sound [OF assms(1)])
  have canvas: "keeps ?c a X K (\<lambda>A Q. Some b = map_of (ct_bindings A) BOOTSTRAP_DEFAULT_CANVAS)
      (catalog_call env msg (\<lambda>flt db. (load_canvas flt ?c (bb_canvas_id b) db, db)))
      (\<lambda>v A Q. Some b = map_of (ct_bindings A) BOOTSTRAP_DEFAULT_CANVAS \<and> v = find_canvas (bb_canvas_id b) A)" for b msg
    by (rule keeps_catalog_query [OF assms(2)]) (simp add: load_canvas_sound [OF assms(1)])
  have found: "development_bound d A"
    if "Some b = map_of (ct_bindings A) BOOTSTRAP_DEFAULT_CANVAS" "Some d = find_canvas (bb_canvas_id b) A" "cv_session_id d = bb_session_id b" for b d A
  proof -
    from that(2) have "d \<in> set (ct_canvases A)" "cv_canvas_id d = bb_canvas_id b"
      by (simp_all add: find_canvas_def find_Some_iff eq_commute [of "Some d"]) (metis nth_mem)+
    moreover have "b = \<lparr>bb_session_id = bb_session_id b, bb_canvas_id = bb_canvas_id b\<rparr>" by simp
    ultimately show ?thesis using that(1,3) unfolding development_bound_def by metis
  qed
  have publish: "keeps ?c a X K (\<lambda>A Q. development_canvas_descriptor env = Ok d) (catalog_call env msg (\<lambda>flt db.
      publish_standalone_with_binding flt ?c BOOTSTRAP_DEFAULT_CANVAS d \<lparr>bb_session_id = cv_session_id d, bb_canvas_id = cv_canvas_id d\<rparr> db))
      (\<lambda>v A Q. development_bound d A)" for d msg
  proof (rule keeps_catalog_call [OF assms(2)], goal_cases)
    case (1 flt md A Q r db')
    from publish_with_binding_cases [OF assms(1) 1(1,2) development_canvas_descriptor_ok [OF 1(3)] 1(4)] show ?case by metis
  qed
  have configured: "keeps ?c a X K J (configured_canvas env) (\<lambda>d A Q. development_canvas_descriptor env = Ok d)" for J
    unfolding configured_canvas_def by auto
  show ?thesis
    unfolding development_canvas_def persistent_development_canvas_def if_P [OF assms(3)]
    by (rule keeps_try [OF lookup], split option.split, intro conjI allI impI)
      (auto intro!: keeps_try [OF canvas] keeps_try [OF configured] keeps_try [OF publish] keeps_fail keeps_return split: option.split intro: found)
qed

lemma ingest_keeps:
  assumes "asset_codec_ok a" and "descriptor_valid a d"
  shows "triple (agrees a A) (insert_verified p a d bytes)
    (\<lambda>r w. asset_inv a w \<and> A \<subseteq>\<^sub>m published_asset a w \<and> (\<forall>v. r = Ok v \<longrightarrow> ad_asset_id d \<in> dom (published_asset a w))) (agrees a A)"
  unfolding insert_verified_def
proof (rule triple_conseq [OF ingest_triple [where A = A, OF assms]], goal_cases)
  case (2 r w)
  then have "ad_asset_id d \<in> dom (published_asset a w)" if "r = Ok v" for v
    using that by (cases v) (auto simp: ingest_post_def agrees_def)
  with ingest_post_mono [OF 2] show ?case by blast
qed auto

lemma keeps_ingest:
  assumes "asset_codec_ok (bt_assets env)" and "grows_to K" and "bt_persistent_assets env" and "descriptor_valid (bt_assets env) d"
  shows "keeps c (bt_assets env) X K J (ingest_development_pdf env d bytes) (\<lambda>v A Q. ad_asset_id d \<in> dom Q)"
  unfolding ingest_development_pdf_def if_P [OF assms(3)]
  by (rule keeps_on_assets [OF assms(2)], rule triple_bind [OF ingest_keeps [OF assms(1,4)]]) (auto split: sum.splits)

lemma keeps_bootstrap_pdf:
  assumes "asset_codec_ok (bt_assets env)" and "grows_to K" and "bt_persistent_assets env" and "composer_ok env"
  shows "keeps c (bt_assets env) X K (\<lambda>A Q. True) (bootstrap_development_pdf env file session)
    (\<lambda>graph A Q. composition_ok (bt_catalog env) graph \<and> dd_source_asset_id (dc_document graph) \<in> dom Q)"
proof (cases "pf_length file")
  case None
  then show ?thesis by (auto simp: bootstrap_development_pdf_def)
next
  case (Some len)
  show ?thesis
  proof (cases "pf_bytes file")
    case None
    then show ?thesis by (auto simp: bootstrap_development_pdf_def Some)
  next
    case bytes: (Some bytes)
    let ?d = "\<lparr>ad_asset_id = bt_fresh env ''asset'', ad_media_type = ''application/pdf'', ad_byte_length = len,
                           ad_content_hash = hash_of (bt_assets env) bytes, ad_original_filename = pf_name file\<rparr>"
    let ?J = "\<lambda>A Q. bt_fresh env ''asset'' \<in> dom Q"
    let ?graph = "\<lambda>graph A Q. composition_ok (bt_catalog env) graph \<and> dd_source_asset_id (dc_document graph) \<in> dom Q"
    have ingest: "keeps c (bt_assets env) X K J (ingest_development_pdf env ?d bytes) (\<lambda>v. ?J)" if "descriptor_valid (bt_assets env) ?d" for J
      using keeps_ingest [OF assms(1-3) that, of c X J bytes] by simp
    have inspect: "keeps c (bt_assets env) X K ?J (io_get (\<lambda>s. ok_or e (bt_inspect env (bw_assets s) i))) (\<lambda>v. ?J)" for e i by auto
    have input: "keeps c (bt_assets env) X K ?J (io_return (ok_or e (bt_compose_input env session ?d pdf)))
      (\<lambda>input A Q. ?J A Q \<and> bt_compose_input env session ?d pdf = Some input)" for e pdf
      by (rule keeps_return) (cases "bt_compose_input env session ?d pdf", auto)
    have compose: "keeps c (bt_assets env) X K (\<lambda>A Q. ?J A Q \<and> bt_compose_input env session ?d pdf = Some input)
      (io_return (ok_or e (bt_compose env input))) ?graph" for e pdf input
    proof (rule keeps_return)
      fix graph A Q assume "ok_or e (bt_compose env input) = Ok graph" and j: "?J A Q \<and> bt_compose_input env session ?d pdf = Some input"
      then have "bt_compose env input = Some graph" by (cases "bt_compose env input") auto
      with assms(4) j show "?graph graph A Q" unfolding composer_ok_def by (metis asset_descriptor.select_convs(1))
    qed
    show ?thesis
      unfolding bootstrap_development_pdf_def Some bytes option.case Let_def asset_descriptor.select_convs
      by (auto intro!: keeps_try [OF ingest] keeps_try [OF inspect] keeps_try [OF input] compose keeps_fail)
  qed
qed

text \<open>Knowledge that publications keep is there after a step that does not mention it.\<close>

lemma keeps_frame:
  assumes "keeps c a X (\<lambda>A Q. K A Q \<and> F A Q) J m L"
  shows "keeps c a X K (\<lambda>A Q. F A Q \<and> J A Q) m (\<lambda>v A Q. F A Q \<and> L v A Q)"
  using assms unfolding keeps_def by (rule triple_conseq) (auto elim!: stores_ok_weaken)

lemma keeps_for:
  assumes "\<And>ys x zs. xs = ys @ x # zs \<Longrightarrow> keeps c a X K (I ys) (f x) (\<lambda>_. I (ys @ [x]))"
  shows "keeps c a X K (I []) (io_for f xs) (\<lambda>_. I xs)"
proof -
  have "xs = ys @ zs \<Longrightarrow> keeps c a X K (I ys) (io_for f zs) (\<lambda>_. I xs)" for ys zs
  proof (induction zs arbitrary: ys)
    case (Cons z zs)
    from Cons.IH [of "ys @ [z]"] Cons.prems show ?case by (auto intro!: keeps_try [OF assms [OF Cons.prems]])
  qed auto
  from this [of "[]" xs] show ?thesis by simp
qed

lemma keeps_publish_composition:
  assumes "catalog_codec_ok (bt_catalog env)" and "grows_to K" and "bt_persistent_catalog env"
  shows "keeps (bt_catalog env) a X K (\<lambda>A Q. composition_ok (bt_catalog env) graph \<and> dd_source_asset_id (dc_document graph) \<in> dom Q)
    (publish_composition env graph) (\<lambda>v A Q. True)"
proof -
  have publish: "keeps (bt_catalog env) a X K (\<lambda>A Q. composition_ok (bt_catalog env) graph \<and> dd_source_asset_id (dc_document graph) \<in> dom Q)
    (catalog_call env msg (\<lambda>flt db. publish_document flt (bt_catalog env) graph db)) (\<lambda>v A Q. True)" for msg
  proof (rule keeps_catalog_call [OF assms(2)], goal_cases)
    case (1 flt md A Q r db')
    from publish_document_cases [OF assms(1) 1(1,2) conjunct1 [OF 1(3)] 1(4)] 1(3) show ?case by (metis insertE subsetD)
  qed
  show ?thesis unfolding publish_composition_def if_P [OF assms(3)] by (auto intro!: keeps_try [OF publish] keeps_fail keeps_return)
qed

lemma keeps_development_document:
  assumes "catalog_codec_ok (bt_catalog env)" and "asset_codec_ok (bt_assets env)" and "grows_to K"
    and "bt_persistent_catalog env" and "bt_persistent_assets env" and "composer_ok env"
  shows "keeps (bt_catalog env) (bt_assets env) X K (\<lambda>A Q. True) (development_document env session) (\<lambda>v A Q. True)"
proof -
  have known: "keeps (bt_catalog env) (bt_assets env) X K (\<lambda>A Q. True) (catalog_has_documents env session) (\<lambda>v A Q. True)"
    unfolding catalog_has_documents_def if_P [OF assms(4)] by (auto intro!: keeps_try [OF keeps_catalog_query [OF assms(3)]] keeps_return)
  show ?thesis unfolding development_document_def
    by (auto intro!: keeps_try [OF known] keeps_return keeps_try [OF keeps_bootstrap_pdf [OF assms(2,3,5,6)]]
        keeps_publish_composition [OF assms(1,3,4)] split: option.split)
qed

lemma keeps_validate_document:
  assumes "asset_codec_ok (bt_assets env)" and "bt_persistent_assets env"
  shows "keeps c (bt_assets env) X K J (validate_document env d) (\<lambda>v A Q. J A Q \<and> dd_source_asset_id d \<in> dom Q)"
proof -
  have "keeps c (bt_assets env) X K J (boot_has_asset env i) (\<lambda>v A Q. J A Q \<and> (v \<longrightarrow> i \<in> dom Q))" for i
    unfolding boot_has_asset_def if_P [OF assms(2)]
  proof (rule keeps_get, goal_cases)
    case (1 s v A)
    from 1(1) obtain r where r: "get_asset (bt_plan env ''validate'') (bt_assets env) i (bw_assets s) = Ok r" "v = (r \<noteq> None)"
      by (cases "get_asset (bt_plan env ''validate'') (bt_assets env) i (bw_assets s)") auto
    with get_asset_spec [OF assms(1) 1(2) r(1)] 1(3) show ?case by auto
  qed
  then show ?thesis unfolding validate_document_def by (auto intro!: keeps_try keeps_fail split: if_splits)
qed

lemma keeps_validate_documents:
  assumes "catalog_codec_ok (bt_catalog env)" and "asset_codec_ok (bt_assets env)" and "grows_to K"
    and "bt_persistent_catalog env" and "bt_persistent_assets env"
  shows "keeps (bt_catalog env) (bt_assets env) X K (\<lambda>A Q. True) (validate_documents env canvas)
    (\<lambda>v A Q. \<forall>d \<in> set (ct_documents A). dd_source_asset_id d \<in> dom Q)"
proof -
  let ?I = "\<lambda>ds ys A Q. ct_documents A = ds \<and> (\<forall>d \<in> set ys. d \<in> set ds \<longrightarrow> dd_source_asset_id d \<in> dom Q)"
  have "keeps (bt_catalog env) (bt_assets env) X K (?I ds []) (io_for (validate_document env) ds) (\<lambda>_. ?I ds ds)" for ds
    by (rule keeps_for [where I = "?I ds"]) (rule keeps_conseq [OF keeps_validate_document [OF assms(2,5)]], assumption, auto)
  then have loop: "keeps (bt_catalog env) (bt_assets env) X K (\<lambda>A Q. ct_documents A = ds) (io_for (validate_document env) ds)
      (\<lambda>v A Q. \<forall>d \<in> set (ct_documents A). dd_source_asset_id d \<in> dom Q)" for ds
    by (rule keeps_conseq) auto
  have list: "keeps (bt_catalog env) (bt_assets env) X K (\<lambda>A Q. True) (catalog_call env msg (\<lambda>flt db. (list_all_documents flt (bt_catalog env) db, db)))
    (\<lambda>v A Q. ct_documents A = v)" for msg
    by (rule keeps_catalog_query [OF assms(3)]) (rule list_all_documents_sound [OF assms(1), symmetric])
  show ?thesis unfolding validate_documents_def if_P [OF assms(4)] by (rule keeps_try [OF list loop])
qed

lemma keeps_register_handlers: "keeps c a X K J (register_handlers env) (\<lambda>v. J)"
  unfolding register_handlers_def
  by (intro keeps_try [where L = "\<lambda>v. J"] keeps_check keeps_return) auto

text \<open>The Development Canvas of a composed context is the bound one.\<close>

definition canvas_bound :: "('id :: linorder, 'f, 'h, 's, 'pdf, 'input) boot_env \<Rightarrow> ('id, 'f) canvas_descriptor option \<Rightarrow> ('id, 'f) catalog \<Rightarrow> bool" where
  "canvas_bound env v A \<longleftrightarrow> (case v of None \<Rightarrow> \<not> bt_development env | Some d \<Rightarrow> bt_development env \<and> development_bound d A)"

lemma grows_to_bound: "grows_to K \<Longrightarrow> grows_to (\<lambda>A Q. K A Q \<and> canvas_bound env v A)"
  using development_bound_grows by (fastforce simp: grows_to_def canvas_bound_def split: option.splits)

lemma keeps_development_content:
  assumes "catalog_codec_ok (bt_catalog env)" and "asset_codec_ok (bt_assets env)" and "grows_to K"
    and "bt_persistent_catalog env" and "bt_persistent_assets env" and "composer_ok env"
  shows "keeps (bt_catalog env) (bt_assets env) X K (\<lambda>A Q. True) (development_content env) (\<lambda>(v, ds) A Q. canvas_bound env v A)"
proof (cases "bt_development env")
  case True
  let ?bound = "\<lambda>d A Q. canvas_bound env (Some d) A"
  have canvas: "keeps (bt_catalog env) (bt_assets env) X K (\<lambda>A Q. True) (development_canvas env) ?bound"
    by (rule keeps_conseq [OF keeps_development_canvas [OF assms(1,3,4)]]) (auto simp: canvas_bound_def True)
  have document: "keeps (bt_catalog env) (bt_assets env) X K (?bound d) (development_document env session) (\<lambda>v. ?bound d)" for d session
    by (rule keeps_conseq [OF keeps_frame [OF keeps_development_document [OF assms(1,2) grows_to_bound [OF assms(3)] assms(4-6)]]]) auto
  show ?thesis unfolding development_content_def if_P [OF True]
    by (rule keeps_try [where L = "\<lambda>v A Q. True"], force)
      (rule keeps_try [OF canvas], rule keeps_try [OF document], auto)
qed (auto simp: development_content_def canvas_bound_def)

lemma keeps_compose_context:
  assumes "catalog_codec_ok (bt_catalog env)" and "asset_codec_ok (bt_assets env)" and "grows_to K"
    and "bt_persistent_catalog env" and "bt_persistent_assets env" and "composer_ok env"
  shows "keeps (bt_catalog env) (bt_assets env) X K (\<lambda>A Q. True) (compose_context env)
    (\<lambda>v A Q. canvas_bound env v A \<and> (\<forall>d \<in> set (ct_documents A). dd_source_asset_id d \<in> dom Q))"
proof -
  have validate: "keeps (bt_catalog env) (bt_assets env) X K (\<lambda>A Q. canvas_bound env v A) (validate_documents env v)
     (\<lambda>_ A Q. canvas_bound env v A \<and> (\<forall>d \<in> set (ct_documents A). dd_source_asset_id d \<in> dom Q))" for v
    by (rule keeps_conseq [OF keeps_frame [OF keeps_validate_documents [OF assms(1,2) grows_to_bound [OF assms(3)] assms(4,5)]]]) auto
  have rest: "keeps (bt_catalog env) (bt_assets env) X K (\<lambda>A Q. canvas_bound env v A)
     (io_try (io_return r) (\<lambda>_. io_try (register_handlers env) (\<lambda>_. io_try (validate_documents env v) (\<lambda>_. io_return (Ok v)))))
     (\<lambda>v A Q. canvas_bound env v A \<and> (\<forall>d \<in> set (ct_documents A). dd_source_asset_id d \<in> dom Q))" for r :: "(unit, server_error) result" and v
    by (rule keeps_try [where L = "\<lambda>_ A Q. canvas_bound env v A"], force)
      (rule keeps_try [OF keeps_register_handlers], rule keeps_try [OF validate], force)
  show ?thesis unfolding compose_context_def
    by (rule keeps_try [OF keeps_open_assets [OF assms(2,3)]], rule keeps_try [OF keeps_open_catalog],
        rule keeps_try [OF keeps_development_content [OF assms]]) (auto split: prod.split intro: rest)
qed

lemma keeps_node_call:
  "triple (stores_ok c a X K) (node_call env site call) (\<lambda>r. stores_ok c a X K) (stores_ok c a X K)"
  unfolding node_call_def by (rule triple_step) (auto split: if_splits)

lemma keeps_initialize:
  assumes "catalog_codec_ok (bt_catalog env)" and "asset_codec_ok (bt_assets env)" and "grows_to K"
    and "bt_persistent_catalog env" and "bt_persistent_assets env" and "composer_ok env"
  shows "keeps (bt_catalog env) (bt_assets env) X K (\<lambda>A Q. True) (initialize_with env)
    (\<lambda>v A Q. canvas_bound env v A \<and> (\<forall>d \<in> set (ct_documents A). dd_source_asset_id d \<in> dom Q))"
proof -
  let ?S = "stores_ok (bt_catalog env) (bt_assets env) X"
  let ?L = "\<lambda>v A Q. canvas_bound env v A \<and> (\<forall>d \<in> set (ct_documents A). dd_source_asset_id d \<in> dom Q)"
  let ?Q = "\<lambda>r. ?S (\<lambda>A Q. K A Q \<and> (\<forall>v. r = Ok v \<longrightarrow> ?L v A Q))"
  have compose: "triple (?S K) (compose_context env) ?Q (?S K)"
    using keeps_compose_context [OF assms, of X] unfolding keeps_def by (simp add: simp_thms)
  have undo: "triple (?Q r) (io_bind (node_call env x y) (\<lambda>_. io_bind (node_call env x' y') (\<lambda>_. io_return r))) ?Q (?S K)" for r x y x' y'
    by (rule triple_bind [OF triple_conseq [OF keeps_node_call]], assumption, assumption, erule stores_ok_weaken, force,
        rule triple_bind [OF triple_conseq [OF keeps_node_call]], assumption, assumption, erule stores_ok_weaken, force) auto
  have "triple (?S K) (io_bind (compose_context env) (\<lambda>result. if is_ok result then io_return result
     else io_bind (node_call env ''offline'' (NodeRegistered NodeOffline)) (\<lambda>_.
          io_bind (node_call env ''unregister'' NodeUnregistered) (\<lambda>_. io_return result)))) ?Q (?S K)"
    by (rule triple_bind [OF compose]) (auto intro: undo)
  then have rest: "keeps (bt_catalog env) (bt_assets env) X K (\<lambda>A Q. True) (io_bind (compose_context env) (\<lambda>result. if is_ok result then io_return result
     else io_bind (node_call env ''offline'' (NodeRegistered NodeOffline)) (\<lambda>_.
          io_bind (node_call env ''unregister'' NodeUnregistered) (\<lambda>_. io_return result)))) ?L"
    unfolding keeps_def by simp
  have node: "keeps (bt_catalog env) (bt_assets env) X K (\<lambda>A Q. True) (node_call env site call) (\<lambda>v A Q. True)" for site call
    using keeps_node_call [of "bt_catalog env" "bt_assets env" X K env site call] unfolding keeps_def by simp
  show ?thesis unfolding initialize_with_def
    by (rule keeps_try [where L = "\<lambda>v A Q. True"], force, rule keeps_try [where L = "\<lambda>v A Q. True"], force)
      (rule keeps_try [OF node], rule rest)
qed

section \<open>The promises of the bootstrap\<close>

text \<open>Both stores are well-formed, \<open>A\<close> is what the catalog holds, and the source Asset of every Document is published.\<close>

definition stores_consistent ::
  "('id :: linorder, 'f, 's) catalog_codec \<Rightarrow> ('id, 'h) asset_codec \<Rightarrow> ('id, 'f) catalog \<Rightarrow> 'f boot_world \<Rightarrow> bool" where
  "stores_consistent c a A s \<longleftrightarrow> asset_inv a (bw_assets s) \<and> (\<exists>md. bw_catalog s = encode_catalog c md A) \<and> catalog_ok c A \<and>
     bindings_match A \<and> (\<forall>d \<in> set (ct_documents A). published_asset a (bw_assets s) (dd_source_asset_id d) \<noteq> None)"

text \<open>Environments over the two persistent stores.\<close>

definition boots_on ::
  "('id :: linorder, 'f, 's) catalog_codec \<Rightarrow> ('id, 'h) asset_codec \<Rightarrow> ('id, 'f, 'h, 's, 'pdf, 'input) boot_env \<Rightarrow> bool" where
  "boots_on c a env \<longleftrightarrow> catalog_codec_ok c \<and> asset_codec_ok a \<and> bt_catalog env = c \<and> bt_assets env = a \<and>
     bt_persistent_catalog env \<and> bt_persistent_assets env \<and> composer_ok env"

text \<open>Bootstraps one after the other, each cut off after any number of effects.\<close>

definition boot_once :: "('id :: linorder, 'f, 'h, 's, 'pdf, 'input) boot_env set \<Rightarrow> 'f boot_world \<Rightarrow> 'f boot_world \<Rightarrow> bool" where
  "boot_once envs s s' \<longleftrightarrow> (\<exists>env \<in> envs. \<exists>n out n'. initialize_with env n s = (out, n', s'))"

definition boot_history :: "('id :: linorder, 'f, 'h, 's, 'pdf, 'input) boot_env set \<Rightarrow> 'f boot_world \<Rightarrow> 'f boot_world \<Rightarrow> bool" where
  "boot_history envs = (boot_once envs)\<^sup>*\<^sup>*"

lemma stores_consistent_ok:
  "(\<exists>A. stores_consistent c a A s \<and> K A (published_asset a (bw_assets s))) \<longleftrightarrow> stores_ok c a {} K s"
  unfolding stores_consistent_def stores_ok_def by (auto simp: dom_def)

lemma grows_to_since: "grows_to (\<lambda>B Q. catalog_grows A B \<and> P \<subseteq>\<^sub>m Q)"
  unfolding grows_to_def by (blast intro: catalog_grows_trans map_le_trans)

lemma boot_outcome:
  assumes "boots_on c a env" and "grows_to K" and "stores_ok c a X K s" and "initialize_with env n s = (out, n', s')"
  shows "stores_ok c a X K s' \<and> (\<forall>v. out = Done (Ok v) \<longrightarrow> stores_ok c a {} (\<lambda>A Q. K A Q \<and> canvas_bound env v A) s')"
proof -
  have t: "triple (stores_ok c a X K) (initialize_with env)
    (\<lambda>r. stores_ok c a X (\<lambda>A Q. K A Q \<and> (\<forall>v. r = Ok v \<longrightarrow> canvas_bound env v A \<and> (\<forall>d \<in> set (ct_documents A). dd_source_asset_id d \<in> dom Q))))
    (stores_ok c a X K)"
    using keeps_initialize [of env K X] assms(1,2) unfolding keeps_def boots_on_def by auto
  show ?thesis
  proof (cases out)
    case Crashed
    with tripleD(1) [OF t assms(3)] assms(4) show ?thesis by fastforce
  next
    case (Done r)
    note post = tripleD(2) [OF t assms(3) assms(4) [unfolded Done]]
    have "stores_ok c a {} (\<lambda>A Q. K A Q \<and> canvas_bound env v A) s'" if "r = Ok v" for v
      using post that unfolding stores_ok_def by auto
    with Done stores_ok_weaken [OF post] show ?thesis by auto
  qed
qed

lemma boot_history_keeps:
  assumes "\<forall>env \<in> envs. boots_on c a env" and "grows_to K" and "stores_ok c a X K s" and "boot_history envs s s'"
  shows "stores_ok c a X K s'"
  using assms(4,3) unfolding boot_history_def
proof (induction rule: rtranclp_induct)
  case (step y z)
  then obtain env n out n' where "env \<in> envs" "initialize_with env n y = (out, n', z)" unfolding boot_once_def by blast
  with boot_outcome [OF _ assms(2)] assms(1) step show ?case by blast
qed

text \<open>
  C12. Bootstraps keep the two stores consistent with each other: whatever engine and file
  faults occur, whichever calls fail to be sent and after however many effects each
  bootstrap is cut off, both stores stay well-formed, no published Asset, Canvas, Document or
  binding is lost or changed, and every Document's source Asset is published: a Development
  Document is published only after its Asset.
\<close>

theorem boots_keep_stores:
  assumes "\<forall>env \<in> envs. boots_on c a env" and "stores_consistent c a A s" and "boot_history envs s s'"
  shows "\<exists>B. stores_consistent c a B s' \<and> catalog_grows A B \<and> published_asset a (bw_assets s) \<subseteq>\<^sub>m published_asset a (bw_assets s')"
proof -
  let ?K = "\<lambda>B Q. catalog_grows A B \<and> published_asset a (bw_assets s) \<subseteq>\<^sub>m Q"
  have "stores_ok c a {} ?K s" using assms(2) catalog_grows_refl by (intro stores_consistent_ok [THEN iffD1]) auto
  from boot_history_keeps [OF assms(1) grows_to_since this assms(3)] show ?thesis by (auto simp: stores_consistent_ok [symmetric])
qed

text \<open>
  C16. The Development Canvas is chosen once. After a Development bootstrap that succeeded, and
  any number of later bootstraps, interrupted or not, each successful Development bootstrap
  serves the same Canvas with the same Session and Layers, whatever identities and size
  its configuration says.
\<close>

theorem development_canvas_is_stable:
  assumes "\<forall>env \<in> envs. boots_on c a env" and "stores_consistent c a A s"
    and "env \<in> envs" and "bt_development env" and "initialize_with env n s = (Done (Ok v), m, s1)"
    and "boot_history envs s1 s2"
    and "env' \<in> envs" and "bt_development env'" and "initialize_with env' n' s2 = (Done (Ok v'), m', s3)"
  shows "v' = v \<and> v \<noteq> None"
proof -
  have t: "grows_to (\<lambda>A Q. True)" by (simp add: grows_to_def)
  have b: "boots_on c a env" "boots_on c a env'" using assms(1,3,7) by auto
  have "stores_ok c a {} (\<lambda>A Q. True) s" using assms(2) by (intro stores_consistent_ok [THEN iffD1]) auto
  from boot_outcome [OF b(1) t this assms(5)] have s1: "stores_ok c a {} (\<lambda>A Q. True \<and> canvas_bound env v A) s1" by blast
  note k = grows_to_bound [OF t, of env v]
  from boot_history_keeps [OF assms(1) k s1 assms(6)] have s2: "stores_ok c a {} (\<lambda>A Q. True \<and> canvas_bound env v A) s2" .
  from boot_outcome [OF b(2) k s2 assms(9)]
  have "stores_ok c a {} (\<lambda>A Q. (True \<and> canvas_bound env v A) \<and> canvas_bound env' v' A) s3" by blast
  then obtain B where B: "catalog_ok c B" "canvas_bound env v B" "canvas_bound env' v' B" by (rule stores_okE) auto
  with assms(4,8) obtain d d' where "v = Some d" "v' = Some d'" "development_bound d B" "development_bound d' B"
    by (auto simp: canvas_bound_def split: option.splits)
  with development_bound_unique [OF B(1)] show ?thesis by blast
qed

text \<open>
  C37. A bootstrap that succeeds has checked the stores against each other: even when Assets
  that Documents name were missing before, a successful bootstrap ends with both stores
  well-formed and every source Asset published; otherwise it fails.
\<close>

theorem successful_boot_is_validated:
  assumes "boots_on c a env" and "asset_inv a (bw_assets s)" and "bw_catalog s = encode_catalog c md A" and "catalog_ok c A" and "bindings_match A"
    and "initialize_with env n s = (Done (Ok v), n', s')"
  shows "\<exists>B. stores_consistent c a B s' \<and> catalog_grows A B"
proof -
  have "stores_ok c a UNIV (\<lambda>B Q. catalog_grows A B \<and> Map.empty \<subseteq>\<^sub>m Q) s"
    using assms(2-5) by (intro stores_okI [where A = A and md = md]) (auto simp: catalog_grows_refl)
  from boot_outcome [OF assms(1) grows_to_since this assms(6)]
  have "stores_ok c a {} (\<lambda>B Q. (catalog_grows A B \<and> Map.empty \<subseteq>\<^sub>m Q) \<and> canvas_bound env v B) s'" by blast
  then show ?thesis by (auto simp: stores_consistent_ok [symmetric])
qed

section \<open>The node registry\<close>

text \<open>Steps that do not call the node registry.\<close>

definition quiet :: "node_call list \<Rightarrow> ('f boot_world, 'a) io \<Rightarrow> bool" where
  "quiet ns m \<longleftrightarrow> triple (\<lambda>s. bw_nodes s = ns) m (\<lambda>r s. bw_nodes s = ns) (\<lambda>s. bw_nodes s = ns)"

lemma quiet_try [intro!]: "quiet ns m \<Longrightarrow> (\<And>v. quiet ns (f v)) \<Longrightarrow> quiet ns (io_try m f)"
  unfolding quiet_def by (rule triple_try)

lemma quiet_basic [intro!]:
  "quiet ns (io_return r)" "quiet ns (io_get f)" "quiet ns (boot_fail msg)" "quiet ns (boot_check b msg)"
  unfolding quiet_def boot_fail_def boot_check_def by auto

lemma quiet_on_assets [intro!]: "quiet ns (on_assets m)"
  unfolding quiet_def triple_def on_assets_def by (auto split: prod.split outcome.split)

lemma quiet_catalog_call [intro!]: "quiet ns (catalog_call env msg f)"
  unfolding quiet_def catalog_call_def by (rule triple_step) (auto split: option.splits prod.splits)

lemma quiet_for [intro!]: "(\<And>x. quiet ns (f x)) \<Longrightarrow> quiet ns (io_for f xs)"
  unfolding quiet_def by (rule triple_for)

lemma quiet_open_catalog: "quiet ns (boot_open_catalog env)"
  unfolding quiet_def boot_open_catalog_def by (auto intro!: triple_step split: prod.splits sum.splits)

lemma quiet_open_assets: "quiet ns (boot_open_assets env)"
  unfolding boot_open_assets_def by auto

lemma quiet_development_canvas: "quiet ns (development_canvas env)"
  unfolding development_canvas_def persistent_development_canvas_def configured_canvas_def
  by (auto split: option.split)

lemma quiet_bootstrap_pdf: "quiet ns (bootstrap_development_pdf env file session)"
  unfolding bootstrap_development_pdf_def ingest_development_pdf_def Let_def
  by (auto split: option.split)

lemma quiet_development_document: "quiet ns (development_document env session)"
  unfolding development_document_def catalog_has_documents_def publish_composition_def
  by (auto intro!: quiet_bootstrap_pdf split: option.split)

lemma quiet_validate_documents: "quiet ns (validate_documents env canvas)"
  unfolding validate_documents_def validate_document_def boot_has_asset_def
  by (auto split: option.split)

lemma quiet_compose_context: "quiet ns (compose_context env)"
  unfolding compose_context_def development_content_def register_handlers_def
  by (auto intro!: quiet_open_assets quiet_open_catalog quiet_development_canvas quiet_development_document quiet_validate_documents
      split: prod.split)

text \<open>
  C38. The node registry follows the bootstrap. When the configuration is refused the registry is
  not called. Otherwise the node is registered as starting; a bootstrap that succeeds leaves
  it there, and one that fails, at whatever step, tries to report it offline and then to unregister it,
  the second also when the first fails. (A call the registry refuses leaves no trace.)
\<close>

theorem boot_reports_node_state:
  assumes "initialize_with env n s = (Done r, n', s')"
  shows "bw_nodes s' = bw_nodes s @
    (if \<not> is_ok (bt_valid env) \<or> \<not> bt_registry env ''starting'' then []
     else NodeRegistered NodeStarting # (if is_ok r then [] else
       (if bt_registry env ''offline'' then [NodeRegistered NodeOffline] else []) @ (if bt_registry env ''unregister'' then [NodeUnregistered] else [])))"
proof -
  let ?ns = "bw_nodes s"
  let ?start = "?ns @ [NodeRegistered NodeStarting]"
  let ?tail = "\<lambda>r. if is_ok r then [] else
       (if bt_registry env ''offline'' then [NodeRegistered NodeOffline] else []) @ (if bt_registry env ''unregister'' then [NodeUnregistered] else [])"
  have call: "triple (\<lambda>s. bw_nodes s = ms) (node_call env site call)
      (\<lambda>r s. bw_nodes s = ms @ (if bt_registry env site then [call] else []) \<and> is_ok r = bt_registry env site) (\<lambda>s. True)" for ms site call
    unfolding node_call_def by (rule triple_step) auto
  have undo: "triple (\<lambda>s. bw_nodes s = ?start) (io_bind (node_call env ''offline'' (NodeRegistered NodeOffline)) (\<lambda>_.
      io_bind (node_call env ''unregister'' NodeUnregistered) (\<lambda>_. io_return result))) (\<lambda>r s. r = result \<and> bw_nodes s = ?start @
       (if bt_registry env ''offline'' then [NodeRegistered NodeOffline] else []) @ (if bt_registry env ''unregister'' then [NodeUnregistered] else [])) (\<lambda>s. True)" for result
    by (rule triple_bind [OF call], rule triple_bind [OF triple_pre [OF call]]) auto
  have rest: "triple (\<lambda>s. bw_nodes s = ?start) (io_bind (compose_context env) (\<lambda>result. if is_ok result then io_return result
     else io_bind (node_call env ''offline'' (NodeRegistered NodeOffline)) (\<lambda>_.
          io_bind (node_call env ''unregister'' NodeUnregistered) (\<lambda>_. io_return result)))) (\<lambda>r s. bw_nodes s = ?start @ ?tail r) (\<lambda>s. True)"
  proof (rule triple_bind [where R = "\<lambda>r s. bw_nodes s = ?start"], goal_cases)
    case 1
    show ?case using quiet_compose_context [of ?start env] unfolding quiet_def by (rule triple_conseq) auto
  next
    case (2 result)
    show ?case by (cases "is_ok result") (auto intro: triple_conseq [OF undo])
  qed
  have start: "fst (lifecycle_start lifecycle_new) = Ok ()" by code_simp
  have "triple (\<lambda>s. bw_nodes s = ?ns) (initialize_with env) (\<lambda>r s. bw_nodes s = ?ns @
      (if \<not> is_ok (bt_valid env) \<or> \<not> bt_registry env ''starting'' then [] else NodeRegistered NodeStarting # ?tail r)) (\<lambda>s. True)"
  proof (cases "bt_valid env")
    case (Inl e)
    then show ?thesis by (auto simp: initialize_with_def triple_def io_try_def io_bind_def io_return_def)
  next
    case (Inr u)
    have "triple (\<lambda>s. bw_nodes s = ?ns) (io_try (node_call env ''starting'' (NodeRegistered NodeStarting)) (\<lambda>_.
        io_bind (compose_context env) (\<lambda>result. if is_ok result then io_return result
     else io_bind (node_call env ''offline'' (NodeRegistered NodeOffline)) (\<lambda>_.
          io_bind (node_call env ''unregister'' NodeUnregistered) (\<lambda>_. io_return result)))))
       (\<lambda>r s. bw_nodes s = ?ns @ (if \<not> bt_registry env ''starting'' then [] else NodeRegistered NodeStarting # ?tail r)) (\<lambda>s. True)"
      by (rule triple_try [OF call]) (cases "bt_registry env ''starting''", auto intro: triple_conseq [OF rest] simp: triple_def [of "\<lambda>_. False"])
    moreover have "io_try (io_return (Ok x)) f = f x" for x and f :: "'v \<Rightarrow> ('f boot_world, ('w, server_error) result) io"
      by (simp add: io_try_def io_bind_def io_return_def)
    ultimately show ?thesis unfolding initialize_with_def Inr start by (simp add: io_try_def io_bind_def io_return_def)
  qed
  from tripleD(2) [OF this refl assms] show ?thesis by simp
qed

section \<open>A restart without faults\<close>

text \<open>Metadata that is absent or well-formed, as interrupted and completed initialisations leave it.\<close>

definition catalog_metadata_fine :: "('id, 'f, 's) catalog_codec \<Rightarrow> (string \<times> string) list \<Rightarrow> bool" where
  "catalog_metadata_fine c md \<longleftrightarrow> (\<forall>v. map_of md ''schema_version'' = Some v \<longrightarrow> v = dec_of_nat (nat CATALOG_SCHEMA_VERSION)) \<and>
     (\<forall>v. map_of md ''physical_store_id'' = Some v \<longrightarrow> (\<exists>sid. v = cid_to_string c sid))"

definition asset_metadata_fine :: "('id, 'h) asset_codec \<Rightarrow> world \<Rightarrow> bool" where
  "asset_metadata_fine a w \<longleftrightarrow> (\<forall>v. map_of (w_metadata w) ''schema_version'' = Some v \<longrightarrow> parse_i64 v = Some ASSET_SCHEMA_VERSION) \<and>
     (\<forall>v. map_of (w_metadata w) ''physical_store_id'' = Some v \<longrightarrow> aid_parse a v \<noteq> None)"

definition calm_env :: "('id :: linorder, 'f, 'h, 's, 'pdf, 'input) boot_env \<Rightarrow> bool" where
  "calm_env env \<longleftrightarrow> bt_valid env = Ok () \<and> 0 < bt_queue_capacity env \<and> (\<forall>site. bt_plan env site = calm_plan []) \<and>
     (\<forall>site. bt_faults env site = no_faults \<and> bt_sent env site = None \<and> bt_opens env site \<and> bt_registry env site \<and> bt_handlers env site) \<and>
     bt_quick_check env = ''ok'' \<and> bt_delivery env \<in> {None, Some (Ok ())} \<and> (\<forall>s i. bt_view env s i)"

lemma runs_on_assets: "runs m (bw_assets s) x w \<Longrightarrow> runs (on_assets m) s x (s\<lparr>bw_assets := w\<rparr>)"
proof -
  assume "runs m (bw_assets s) x w"
  then obtain k where "\<And>n. m (k + n) (bw_assets s) = (Done x, n, w)" by (auto simp: runs_def)
  then have "on_assets m (k + n) s = (Done x, n, s\<lparr>bw_assets := w\<rparr>)" for n by (simp add: on_assets_def)
  then show ?thesis unfolding runs_def by blast
qed

lemma insert_metadata_row_runs:
  "runs (insert_metadata_row (calm_plan part) msg key v) w (Ok ()) (w\<lparr>w_metadata := w_metadata w @ [(key, v)]\<rparr>)"
  unfolding insert_metadata_row_def by (rule runs_step) simp

lemma init_asset_schema_runs:
  assumes "asset_metadata_fine a w"
  shows "\<exists>md. runs (init_asset_schema (calm_plan part)) w (Ok ()) (w\<lparr>w_metadata := md\<rparr>) \<and> asset_metadata_fine a (w\<lparr>w_metadata := md\<rparr>)"
proof (cases "map_of (w_metadata w) ''schema_version''")
  case None
  let ?row = "(''schema_version'', dec_of_nat (nat ASSET_SCHEMA_VERSION))"
  have v: "parse_i64 (dec_of_nat (nat ASSET_SCHEMA_VERSION)) = Some ASSET_SCHEMA_VERSION" by code_simp
  have "runs (init_asset_schema (calm_plan part)) w (Ok ()) (w\<lparr>w_metadata := w_metadata w @ [?row]\<rparr>)"
    unfolding init_asset_schema_def
    by (rule runs_try [OF runs_get [where y = "Ok None"]]) (simp_all add: asset_metadata_value_def None insert_metadata_row_runs)
  moreover have "asset_metadata_fine a (w\<lparr>w_metadata := w_metadata w @ [?row]\<rparr>)"
    using assms v None by (auto simp: asset_metadata_fine_def map_add_def split: option.splits)
  ultimately show ?thesis by blast
next
  case (Some v)
  with assms have "runs (init_asset_schema (calm_plan part)) w (Ok ()) w"
    unfolding init_asset_schema_def
    by (intro runs_try [OF runs_get [where y = "Ok (Some v)"]]) (simp_all add: asset_metadata_value_def asset_metadata_fine_def)
  with assms show ?thesis by (intro exI [of _ "w_metadata w"]) simp
qed

lemma init_asset_store_id_runs:
  assumes "asset_metadata_fine a w"
  shows "\<exists>md sid. runs (init_asset_store_id (calm_plan part) (aid_parse a) (aid_to_string a) fresh) w (Ok sid) (w\<lparr>w_metadata := md\<rparr>)"
proof (cases "map_of (w_metadata w) ''physical_store_id''")
  case None
  then have "runs (init_asset_store_id (calm_plan part) (aid_parse a) (aid_to_string a) fresh) w (Ok fresh)
      (w\<lparr>w_metadata := w_metadata w @ [(''physical_store_id'', aid_to_string a fresh)]\<rparr>)"
    unfolding init_asset_store_id_def
    by (intro runs_try [OF runs_get [where y = "Ok None"]]) (auto simp: asset_metadata_value_def intro: runs_try [OF insert_metadata_row_runs])
  then show ?thesis by blast
next
  case (Some v)
  with assms obtain sid where "aid_parse a v = Some sid" by (auto simp: asset_metadata_fine_def)
  with Some have "runs (init_asset_store_id (calm_plan part) (aid_parse a) (aid_to_string a) fresh) w (Ok sid) w"
    unfolding init_asset_store_id_def
    by (intro runs_try [OF runs_get [where y = "Ok (Some v)"]]) (simp_all add: asset_metadata_value_def)
  then show ?thesis by (intro exI [of _ "w_metadata w"] exI [of _ sid]) simp
qed

lemma initialize_storage_runs:
  fixes a :: "('id, 'h) asset_codec"
  assumes "asset_codec_ok a" and "asset_inv a w" and "asset_metadata_fine a w"
  shows "\<exists>sid w'. runs (initialize_storage (calm_plan part) a (aid_parse a) (aid_to_string a) fresh (Some ''ok'')) w (Ok sid) w'"
proof -
  from init_asset_schema_runs [OF assms(3)] obtain md1 where
    r1: "runs (init_asset_schema (calm_plan part)) w (Ok () :: (unit, ('id, 'h) asset_error) result) (w\<lparr>w_metadata := md1\<rparr>)" "asset_metadata_fine a (w\<lparr>w_metadata := md1\<rparr>)" by blast
  from init_asset_store_id_runs [OF r1(2)] obtain md2 sid where
    r2: "runs (init_asset_store_id (calm_plan part) (aid_parse a) (aid_to_string a) fresh) (w\<lparr>w_metadata := md1\<rparr>) (Ok sid :: ('id, ('id, 'h) asset_error) result)
      (w\<lparr>w_metadata := md1\<rparr>\<lparr>w_metadata := md2\<rparr>)" by blast
  have "asset_inv a (w\<lparr>w_metadata := md1\<rparr>\<lparr>w_metadata := md2\<rparr>)" using assms(2) by (simp add: asset_inv_def)
  from recover_runs [OF assms(1) this] obtain w' where
    r3: "runs (recover_storage (calm_plan part) a) (w\<lparr>w_metadata := md1\<rparr>\<lparr>w_metadata := md2\<rparr>) (Ok ()) w'" by blast
  have t: "traverse (\<lambda>msg. sql_call (p_sql (calm_plan part)) msg asset_map_sqlite_error ())
        [''Asset metadata database could not be opened'', ''Asset foreign key configuration failed'',
         ''Asset WAL configuration failed'', ''Asset synchronous configuration failed'',
         ''Asset busy timeout configuration failed'', ''Asset metadata schema creation failed''] = Ok [(), (), (), (), (), ()]" by simp
  have t3: "traverse (\<lambda>n. Ok ()) [0, 1, 2 :: nat] = (Ok [(), (), ()] :: (unit list, ('id, 'h) asset_error) result)" by simp
  have "runs (initialize_storage (calm_plan part) a (aid_parse a) (aid_to_string a) fresh (Some ''ok'')) w (Ok sid) w'"
    unfolding initialize_storage_def fs_check_calm t t3
    by (rule runs_return_try, rule runs_return_try, rule runs_return_try, rule runs_try [OF r1(1)], rule runs_try [OF r2])
      (simp only: simp_thms if_False, rule runs_try [OF r3], simp)
  then show ?thesis by blast
qed

lemma boot_open_assets_runs:
  assumes "boots_on c a env" and "calm_env env" and "asset_inv a (bw_assets s)" and "asset_metadata_fine a (bw_assets s)"
  shows "\<exists>w. runs (boot_open_assets env) s (Ok ()) (s\<lparr>bw_assets := w\<rparr>) \<and> asset_inv a w \<and> published_asset a w = published_asset a (bw_assets s)"
proof -
  have codec: "asset_codec_ok a" using assms(1) by (simp add: boots_on_def)
  from initialize_storage_runs [OF codec assms(3,4)] obtain sid w where
    r: "runs (initialize_storage (calm_plan []) a (aid_parse a) (aid_to_string a) (bt_fresh env ''asset store'') (Some ''ok'')) (bw_assets s) (Ok sid) w" by blast
  from runs_triple [OF initialize_agrees [OF codec] agrees_self [OF assms(3)] r]
  have w: "asset_inv a w" "published_asset a w = published_asset a (bw_assets s)" by (simp_all add: agrees_def)
  have "runs (boot_open_assets env) s (Ok ()) (s\<lparr>bw_assets := w\<rparr>)"
    unfolding boot_open_assets_def open_asset_store_def using assms(1,2)
    by (auto simp: boots_on_def calm_env_def intro!: runs_on_assets runs_bind [OF runs_try [OF r runs_get [OF refl]]])
  with w show ?thesis by blast
qed

lemma boot_open_catalog_runs:
  assumes "boots_on c a env" and "calm_env env" and "bw_catalog s = encode_catalog c md A" and "catalog_ok c A" and "bindings_match A"
    and "catalog_metadata_fine c md"
  shows "\<exists>md'. runs (boot_open_catalog env) s (Ok ()) (s\<lparr>bw_catalog := encode_catalog c md' A\<rparr>)"
proof -
  let ?fresh = "bt_fresh env ''catalog''"
  have codec: "catalog_codec_ok c" using assms(1) by (simp add: boots_on_def)
  let ?md1 = "if map_of md ''schema_version'' = None then md @ [(''schema_version'', dec_of_nat (nat CATALOG_SCHEMA_VERSION))] else md"
  let ?md2 = "if map_of md ''physical_store_id'' = None then ?md1 @ [(''physical_store_id'', cid_to_string c ?fresh)] else ?md1"
  have m1: "map_of ?md1 ''schema_version'' = Some (dec_of_nat (nat CATALOG_SCHEMA_VERSION))" "map_of ?md1 ''physical_store_id'' = map_of md ''physical_store_id''"
    using assms(6) by (auto simp: catalog_metadata_fine_def map_add_def split: option.splits)
  have m2: "\<exists>sid. metadata_ok c ?md2 sid"
    using m1 assms(6) unfolding metadata_ok_def
    by (cases "map_of md ''physical_store_id''") (auto simp: catalog_metadata_fine_def map_add_def split: option.splits)
  then obtain sid where sid: "metadata_ok c ?md2 sid" by blast
  have e1: "(encode_catalog c md A)\<lparr>tb_metadata := x\<rparr> = encode_catalog c x A" for md x by (simp add: encode_catalog_def)
  have "create_schema no_faults c ?fresh (encode_catalog c md A) = (Ok (), encode_catalog c ?md2 A)"
    using m1 by (auto simp: create_schema_def ensure_metadata_def catalog_metadata_value_def e1 split: option.splits)
  with check_catalog_exact [OF codec assms(4) sid] assms(2,5)
  have "open_catalog (bt_queue_capacity env) True no_faults c True ''ok'' ?fresh (encode_catalog c md A) =
    (Ok (sid, worker_open (bt_queue_capacity env) (encode_catalog c ?md2 A)), encode_catalog c ?md2 A)"
    by (simp add: open_catalog_def initialize_catalog_def calm_env_def del: encode_catalog_simps)
  then have "runs (boot_open_catalog env) s (Ok ()) (s\<lparr>bw_catalog := encode_catalog c ?md2 A\<rparr>)"
    unfolding boot_open_catalog_def using assms(1-3) by (auto simp: boots_on_def calm_env_def intro!: runs_step)
  then show ?thesis by blast
qed

lemma catalog_call_runs:
  assumes "calm_env env" and "f no_faults (bw_catalog s) = (Ok v, db)"
  shows "runs (catalog_call env msg f) s (Ok v) (s\<lparr>bw_catalog := db\<rparr>)"
  unfolding catalog_call_def using assms by (auto simp: calm_env_def intro!: runs_step)

lemma catalog_query_runs:
  assumes "calm_env env" and "f no_faults (bw_catalog s) = Ok v"
  shows "runs (catalog_call env msg (\<lambda>flt db. (f flt db, db))) s (Ok v) s"
  using catalog_call_runs [OF assms(1), of "\<lambda>flt db. (f flt db, db)" s v "bw_catalog s" msg] assms(2) by simp

lemma development_content_runs:
  assumes "boots_on c a env" and "calm_env env" and "bw_catalog s = encode_catalog c md A" and "catalog_ok c A"
    and "canvas_bound env v A" and "ct_documents A \<noteq> [] \<or> bt_pdf env = None"
  shows "\<exists>ds. runs (development_content env) s (Ok (v, ds)) s"
proof (cases v)
  case None
  with assms(5) show ?thesis by (auto simp: development_content_def canvas_bound_def)
next
  case (Some d)
  have codec: "catalog_codec_ok c" and env: "bt_catalog env = c" "bt_persistent_catalog env" using assms(1) by (simp_all add: boots_on_def)
  from assms(5) Some have dev: "bt_development env" and bound: "development_bound d A" by (simp_all add: canvas_bound_def)
  let ?b = "\<lparr>bb_session_id = cv_session_id d, bb_canvas_id = cv_canvas_id d\<rparr>"
  from bound have b: "map_of (ct_bindings A) BOOTSTRAP_DEFAULT_CANVAS = Some ?b" and d: "d \<in> set (ct_canvases A)" by (simp_all add: development_bound_def)
  have lb: "load_binding no_faults c BOOTSTRAP_DEFAULT_CANVAS (bw_catalog s) = Ok (Some ?b)"
    unfolding assms(3) by (simp add: load_binding_exact [OF codec] b del: encode_catalog_simps)
  have lc: "load_canvas no_faults c (bb_canvas_id ?b) (bw_catalog s) = Ok (Some d)"
    unfolding assms(3) by (simp add: load_canvas_exact [OF codec assms(4)] find_canvas_member [OF assms(4) d] del: encode_catalog_simps)
  have ld: "list_all_documents no_faults c (bw_catalog s) = Ok (ct_documents A)"
    unfolding assms(3) by (rule list_all_documents_exact [OF codec assms(4)])
  have canvas: "runs (development_canvas env) s (Ok d) s"
    unfolding development_canvas_def persistent_development_canvas_def if_P [OF env(2)] env(1)
    by (rule runs_try [OF catalog_query_runs [where f = "\<lambda>flt. load_binding flt c BOOTSTRAP_DEFAULT_CANVAS", OF assms(2) lb]], simp only: option.case, rule runs_try [OF catalog_query_runs [where f = "\<lambda>flt. load_canvas flt c (bb_canvas_id ?b)", OF assms(2) lc]]) simp
  have known: "runs (catalog_has_documents env session) s (Ok (ct_documents A \<noteq> [])) s" for session
    unfolding catalog_has_documents_def if_P [OF env(2)] env(1) by (rule runs_try [OF catalog_query_runs [where f = "\<lambda>flt. list_all_documents flt c", OF assms(2) ld]]) simp
  have document: "runs (development_document env session) s (Ok []) s" for session
    unfolding development_document_def by (rule runs_try [OF known]) (use assms(6) in auto)
  have check: "runs (boot_check (bt_handlers env x) msg) s (Ok ()) s" for x msg
    using assms(2) by (simp add: boot_check_def calm_env_def)
  have "runs (development_content env) s (Ok (Some d, [d])) s"
    unfolding development_content_def if_P [OF dev] by (rule runs_try [OF check], rule runs_try [OF canvas], rule runs_try [OF document]) simp
  with Some show ?thesis by blast
qed

lemma register_handlers_runs: "calm_env env \<Longrightarrow> runs (register_handlers env) s (Ok ()) s"
  unfolding register_handlers_def
  by (intro runs_try [where x = "()" and ?s1.0 = s]) (auto simp: boot_check_def calm_env_def)

lemma validate_documents_runs:
  assumes "boots_on c a env" and "calm_env env" and "stores_consistent c a A s"
  shows "runs (validate_documents env v) s (Ok ()) s"
proof -
  have codec: "catalog_codec_ok c" "asset_codec_ok a" and env: "bt_catalog env = c" "bt_persistent_catalog env" "bt_assets env = a" "bt_persistent_assets env"
    using assms(1) by (simp_all add: boots_on_def)
  from assms(3) obtain md where s: "bw_catalog s = encode_catalog c md A" "catalog_ok c A" "asset_inv a (bw_assets s)"
    and src: "\<And>d. d \<in> set (ct_documents A) \<Longrightarrow> published_asset a (bw_assets s) (dd_source_asset_id d) \<noteq> None"
    by (auto simp: stores_consistent_def)
  have ld: "list_all_documents no_faults c (bw_catalog s) = Ok (ct_documents A)"
    unfolding s(1) by (rule list_all_documents_exact [OF codec(1) s(2)])
  have has: "get_asset (calm_plan []) a i (bw_assets s) = Ok (map_option fst (published_asset a (bw_assets s) i))"
    if "published_asset a (bw_assets s) i \<noteq> None" for i
  proof -
    from that obtain r where r: "lookup_asset no_faults a i (w_rows (bw_assets s)) = Ok r"
      by (auto simp: published_asset_def split: sum.splits)
    then have "lookup (calm_plan []) a i (bw_assets s) = Ok r" by (simp add: lookup_def)
    then have "\<exists>v. get_asset (calm_plan []) a i (bw_assets s) = Ok v" by (cases r) (simp_all add: get_asset_def)
    then obtain v where "get_asset (calm_plan []) a i (bw_assets s) = Ok v" by blast
    with get_asset_spec [OF codec(2) s(3) this] show ?thesis by simp
  qed
  have doc: "runs (validate_document env d) s (Ok ()) s" if "d \<in> set (ct_documents A)" for d
  proof -
    have "runs (boot_has_asset env (dd_source_asset_id d)) s (Ok True) s"
      unfolding boot_has_asset_def using has [OF src [OF that]] src [OF that] env assms(2) by (auto simp: calm_env_def intro!: runs_get)
    then show ?thesis unfolding validate_document_def
      by (rule runs_try) (use assms(2) in \<open>auto simp: calm_env_def intro!: runs_get\<close>)
  qed
  have "set ds \<subseteq> set (ct_documents A) \<Longrightarrow> runs (io_for (validate_document env) ds) s (Ok ()) s" for ds
    by (induction ds) (auto intro!: runs_try [OF doc])
  then show ?thesis unfolding validate_documents_def if_P [OF env(2)] env(1)
    by (intro runs_try [OF catalog_query_runs [where f = "\<lambda>flt. list_all_documents flt c", OF assms(2) ld]]) simp
qed

text \<open>
  A restart without new faults succeeds: from every consistent pair of stores, as every history of bootstraps
  leaves it, the bootstrap ends after boundedly many effects with success and serves the bound Development Canvas (none outside
  of Development); the stores stay consistent, hold what they held, and the Asset store
  serves the same Assets. (The Document read service is taken to accept the Documents, and
  a configured Development PDF to be published already.)
\<close>

lemma restart_runs:
  assumes "boots_on c a env" and "calm_env env" and "stores_consistent c a A s" and "asset_metadata_fine a (bw_assets s)"
    and "\<forall>md. bw_catalog s = encode_catalog c md A \<longrightarrow> catalog_metadata_fine c md"
    and "canvas_bound env v A" and "ct_documents A \<noteq> [] \<or> bt_pdf env = None"
  shows "\<exists>s'. runs (initialize_with env) s (Ok v) s' \<and> stores_consistent c a A s' \<and>
    published_asset a (bw_assets s') = published_asset a (bw_assets s) \<and> bw_nodes s' = bw_nodes s @ [NodeRegistered NodeStarting]"
proof -
  from assms(3) obtain md where md: "bw_catalog s = encode_catalog c md A" and ok: "catalog_ok c A" "bindings_match A" "asset_inv a (bw_assets s)"
    by (auto simp: stores_consistent_def)
  let ?s0 = "s\<lparr>bw_nodes := bw_nodes s @ [NodeRegistered NodeStarting]\<rparr>"
  have node: "runs (node_call env ''starting'' (NodeRegistered NodeStarting)) s (Ok ()) ?s0"
    unfolding node_call_def using assms(2) by (auto simp: calm_env_def intro!: runs_step)
  from boot_open_assets_runs [OF assms(1,2), of ?s0] ok(3) assms(4) obtain w where
    w: "runs (boot_open_assets env) ?s0 (Ok ()) (?s0\<lparr>bw_assets := w\<rparr>)" "asset_inv a w" "published_asset a w = published_asset a (bw_assets s)" by auto
  let ?s1 = "?s0\<lparr>bw_assets := w\<rparr>"
  have "bw_catalog ?s1 = encode_catalog c md A" using md by (simp del: encode_catalog_simps)
  from boot_open_catalog_runs [OF assms(1,2) this ok(1,2)] assms(5) md obtain md' where
    db: "runs (boot_open_catalog env) ?s1 (Ok ()) (?s1\<lparr>bw_catalog := encode_catalog c md' A\<rparr>)" by blast
  let ?s2 = "?s1\<lparr>bw_catalog := encode_catalog c md' A\<rparr>"
  have s2: "stores_consistent c a A ?s2" "bw_catalog ?s2 = encode_catalog c md' A"
    using assms(3) w(2,3) by (auto simp: stores_consistent_def)
  from development_content_runs [OF assms(1,2) s2(2) ok(1) assms(6,7)] obtain ds where
    content: "runs (development_content env) ?s2 (Ok (v, ds)) ?s2" by blast
  have persistent: "bt_persistent_catalog env" using assms(1) by (simp add: boots_on_def)
  have compose: "runs (compose_context env) ?s0 (Ok v) ?s2"
    unfolding compose_context_def
    by (rule runs_try [OF w(1)], rule runs_try [OF db], rule runs_try [OF content], simp only: prod.case if_P [OF persistent], rule runs_return_try,
        rule runs_try [OF register_handlers_runs [OF assms(2)]], rule runs_try [OF validate_documents_runs [OF assms(1,2) s2(1)]]) simp
  have start: "fst (lifecycle_start lifecycle_new) = Ok ()" by code_simp
  have valid: "bt_valid env = Ok ()" using assms(2) by (simp add: calm_env_def)
  have "runs (initialize_with env) s (Ok v) ?s2"
    unfolding initialize_with_def valid start
    by (rule runs_return_try, rule runs_return_try, rule runs_try [OF node], rule runs_bind [OF compose]) simp
  with s2(1) w(3) show ?thesis by (intro exI [of _ ?s2]) simp
qed

section \<open>A sample bootstrap\<close>

definition unary_asset_codec :: "(nat, string) asset_codec" where
  "unary_asset_codec = \<lparr>aid_to_string = (\<lambda>n. replicate n (CHR ''x'')), aid_parse = (\<lambda>s. Some (length s)), hash_as_str = (\<lambda>h. h), hash_parse = Some,
     hash_of = (\<lambda>bs. ''h'' @ bs), descriptor_valid = (\<lambda>d. ad_media_type d \<noteq> []),
     range_end_offset = (\<lambda>r. checked_add_u64 (ar_offset r) (ar_length r)), chunk_valid = (\<lambda>ch. ch_offset ch + length (ch_bytes ch) \<le> ch_total ch)\<rparr>"

lemma unary_asset_codec_ok: "asset_codec_ok unary_asset_codec"
  by (simp add: asset_codec_ok_def unary_asset_codec_def)

definition sample_ids :: "string \<Rightarrow> nat" where
  "sample_ids what = (if what = ''asset'' then 6 else if what = ''session'' then 9 else if what = ''canvas'' then 7 else 70)"

text \<open>A Development configuration with a PDF file of three bytes; the composer puts two Pages over any Asset.\<close>

definition sample_boot :: "nat \<Rightarrow> (nat, nat, string, string, string, nat) boot_env" where
  "sample_boot width =
     \<lparr>bt_valid = Ok (), bt_development = True, bt_persistent_assets = True, bt_persistent_catalog = True, bt_queue_capacity = 4,
      bt_canvas_session = None, bt_canvas_id = None, bt_canvas_layer = None, bt_canvas_width = width, bt_canvas_height = 8,
      bt_pdf = Some \<lparr>pf_length = Some 3, pf_bytes = Some ''abc'', pf_name = None\<rparr>, bt_max_asset_bytes = 10, bt_delivery = None,
      bt_catalog = unary_codec, bt_assets = unary_asset_codec, bt_plan = (\<lambda>_. calm_plan []), bt_faults = (\<lambda>_. no_faults), bt_sent = (\<lambda>_. None),
      bt_opens = (\<lambda>_. True), bt_quick_check = ''ok'', bt_registry = (\<lambda>_. True), bt_handlers = (\<lambda>_. True), bt_fresh = sample_ids,
      bt_inspect = (\<lambda>w i. Some (i, ''pdf'')), bt_compose_input = (\<lambda>session asset pdf. Some (ad_asset_id asset)),
      bt_compose = (\<lambda>i. Some ((sample_graph ''t'')\<lparr>dc_document := (dc_document (sample_graph ''t''))\<lparr>dd_source_asset_id := i\<rparr>\<rparr>)),
      bt_memory_insert_asset = (\<lambda>_ _. False), bt_memory_has_asset = (\<lambda>_. None), bt_memory_documents = (\<lambda>_. None),
      bt_memory_insert_document = (\<lambda>_. None), bt_view = (\<lambda>_ _. True)\<rparr>"

definition fresh_stores :: "nat boot_world" where
  "fresh_stores = \<lparr>bw_assets = empty_world, bw_catalog = empty_tables, bw_nodes = []\<rparr>"

lemma sample_boot_composer: "composer_ok (sample_boot width)"
  using sample_graph_ok [of "''t''"]
  by (auto simp: composer_ok_def sample_boot_def composition_ok_def sample_graph_def unary_codec_def page_on_canvas_def)

lemma sample_boots_on: "boots_on unary_codec unary_asset_codec (sample_boot width)"
  using unary_codec_ok unary_asset_codec_ok sample_boot_composer [of width] by (simp add: boots_on_def sample_boot_def)

lemma fresh_stores_consistent: "stores_consistent unary_codec unary_asset_codec empty_catalog fresh_stores"
proof -
  have "empty_tables = encode_catalog unary_codec [] empty_catalog" by (simp add: encode_catalog_def empty_catalog_def empty_tables_def)
  then show ?thesis using empty_catalog_ok [of unary_codec] empty_world_inv [of unary_asset_codec]
    by (auto simp: stores_consistent_def fresh_stores_def empty_catalog_def simp del: encode_catalog_simps)
qed

definition served_canvas :: "(nat, nat) canvas_descriptor" where
  "served_canvas = \<lparr>cv_canvas_id = 7, cv_session_id = 9, cv_width = 5, cv_height = 8, cv_layer_ids = [70], cv_default_layer_id = 70\<rparr>"

text \<open>The first bootstrap of empty stores publishes the Canvas, the Asset and the Document.\<close>

definition booted_stores :: "nat boot_world" where
  "booted_stores = snd (snd (initialize_with (sample_boot 5) 40 fresh_stores))"

lemma first_boot: "initialize_with (sample_boot 5) 40 fresh_stores = (Done (Ok (Some served_canvas)), 26, booted_stores)"
proof -
  have "fst (initialize_with (sample_boot 5) 40 fresh_stores) = Done (Ok (Some served_canvas))" by code_simp
  moreover have "fst (snd (initialize_with (sample_boot 5) 40 fresh_stores)) = 26" by code_simp
  ultimately show ?thesis unfolding booted_stores_def by (metis prod.collapse)
qed

text \<open>A second one, configured with another width.\<close>

lemma second_boot: "\<exists>v m s. initialize_with (sample_boot 6) 40 booted_stores = (Done (Ok v), m, s)"
proof -
  have "fst (initialize_with (sample_boot 6) 40 booted_stores) = Done (Ok (Some served_canvas))" by code_simp
  then show ?thesis by (metis prod.collapse)
qed

theorem boots_keep_stores_witness:
  "\<exists>B. stores_consistent unary_codec unary_asset_codec B (snd (snd (initialize_with (sample_boot 5) 18 fresh_stores)))"
proof -
  have envs: "\<forall>env \<in> {sample_boot 5}. boots_on unary_codec unary_asset_codec env" using sample_boots_on by simp
  have "boot_once {sample_boot 5} fresh_stores (snd (snd (initialize_with (sample_boot 5) 18 fresh_stores)))"
    unfolding boot_once_def by (metis prod.collapse singletonI)
  then have "boot_history {sample_boot 5} fresh_stores (snd (snd (initialize_with (sample_boot 5) 18 fresh_stores)))"
    unfolding boot_history_def by (rule r_into_rtranclp)
  from boots_keep_stores [OF envs fresh_stores_consistent this] show ?thesis by blast
qed

theorem development_canvas_is_stable_witness:
  "\<exists>v m s. initialize_with (sample_boot 6) 40 booted_stores = (Done (Ok v), m, s) \<and> v = Some served_canvas"
proof -
  have envs: "\<forall>env \<in> {sample_boot 5, sample_boot 6}. boots_on unary_codec unary_asset_codec env" using sample_boots_on by simp
  have dev: "bt_development (sample_boot w)" for w by (simp add: sample_boot_def)
  have hist: "boot_history {sample_boot 5, sample_boot 6} booted_stores booted_stores" by (simp add: boot_history_def)
  from second_boot obtain v m s where b: "initialize_with (sample_boot 6) 40 booted_stores = (Done (Ok v), m, s)" by blast
  from development_canvas_is_stable [OF envs fresh_stores_consistent _ dev first_boot hist _ dev b] b show ?thesis by simp
qed

theorem successful_boot_is_validated_witness: "\<exists>B. stores_consistent unary_codec unary_asset_codec B booted_stores"
proof -
  have e: "bw_catalog fresh_stores = encode_catalog unary_codec [] empty_catalog" "bw_assets fresh_stores = empty_world"
    by (simp_all add: fresh_stores_def encode_catalog_def empty_catalog_def empty_tables_def)
  from successful_boot_is_validated [OF sample_boots_on _ e(1) conjunct1 [OF empty_catalog_ok] conjunct2 [OF empty_catalog_ok] first_boot]
  show ?thesis unfolding e(2) using empty_world_inv by blast
qed

text \<open>A Canvas of width 0 is refused.\<close>

theorem boot_reports_node_state_witness:
  "bw_nodes (snd (snd (initialize_with (sample_boot 0) 40 fresh_stores))) = [NodeRegistered NodeStarting, NodeRegistered NodeOffline, NodeUnregistered]"
proof -
  have "fst (initialize_with (sample_boot 0) 40 fresh_stores) = Done (Err (BootstrapFailed ''development Canvas configuration is invalid''))"
    by code_simp
  then have "initialize_with (sample_boot 0) 40 fresh_stores = (Done (Err (BootstrapFailed ''development Canvas configuration is invalid'')),
     fst (snd (initialize_with (sample_boot 0) 40 fresh_stores)), snd (snd (initialize_with (sample_boot 0) 40 fresh_stores)))"
    by (metis prod.collapse)
  from boot_reports_node_state [OF this] show ?thesis by (simp add: sample_boot_def fresh_stores_def)
qed

end
