(* ===== verification/Server_Ports.thy ===== *)
theory Server_Ports
  imports Asset_Access
begin

text \<open>
  The ports the server hands to the kernel: who is authenticated and what is authorized in
  Development (\<^verbatim>\<open>development.rs\<close>) and outside of it (\<^verbatim>\<open>dependencies.rs\<close>), and the adapters
  from the Runtime and the event bus to the transport (\<^verbatim>\<open>adapters.rs\<close>). Actions, filters,
  subscriptions and the Runtime itself are the kernel's; what the server reads of them is a field, what
  it calls is an argument.
\<close>

section \<open>What the ports pass\<close>

record inbound_credentials =
  cr_scheme :: string
  cr_credential :: string

record 'id actor_binding =
  ab_actor_id :: 'id
  ab_source :: string

record 'p server_action =
  act_type :: string
  act_payload :: 'p

record 'id subscription_request =
  sr_session_id :: 'id
  sr_event_types :: "string list"

record 'p event_draft =
  ed_type :: string
  ed_payload :: 'p
  ed_metadata :: "(string \<times> string) list"

datatype identity_error = CredentialsRejected string
datatype authorization_error = AuthorizationRejected string
datatype subscription_error = SubscriptionRejected string

section \<open>Development\<close>

definition DEVELOPMENT_IDENTITY_SCHEME :: string where
  "DEVELOPMENT_IDENTITY_SCHEME = ''development''"

definition development_resolve :: "(string \<Rightarrow> 'id option) \<Rightarrow> inbound_credentials \<Rightarrow> ('id actor_binding, identity_error) result" where
  "development_resolve parse_actor cr =
     (if cr_scheme cr \<noteq> DEVELOPMENT_IDENTITY_SCHEME then Err (CredentialsRejected ''unsupported development credential scheme'')
      else map_ok (\<lambda>actor. \<lparr>ab_actor_id = actor, ab_source = DEVELOPMENT_IDENTITY_SCHEME\<rparr>)
        (ok_or (CredentialsRejected ''development credential is not a valid actor ID'') (parse_actor (cr_credential cr))))"

text \<open>The action types of the Canvas crate.\<close>

record stroke_action_types =
  st_begin :: string
  st_append :: string
  st_end :: string
  st_cancel :: string
  st_remove :: string

definition development_authorize_action :: "stroke_action_types \<Rightarrow> 'p server_action \<Rightarrow> (unit, authorization_error) result" where
  "development_authorize_action st action =
     (if act_type action \<in> set [''dev.echo'', st_begin st, st_append st, st_end st, st_cancel st, st_remove st] then Ok ()
      else Err (AuthorizationRejected ''development action type is not enabled''))"

definition development_authorize_subscription :: "'id actor_binding \<Rightarrow> 'id subscription_request \<Rightarrow> (unit, subscription_error) result" where
  "development_authorize_subscription binding request = Ok ()"

definition development_authorize_read :: "'id \<Rightarrow> 'id \<Rightarrow> 'id \<Rightarrow> (unit, document_authorization_error) result" where
  "development_authorize_read allowed actor session_id = (if session_id = allowed then Ok () else Err DocUnauthorized)"

definition echo_validate :: "'p server_action \<Rightarrow> (unit, string) result" where
  "echo_validate action = Ok ()"

definition echo_handle :: "'p server_action \<Rightarrow> ('p event_draft list, string) result" where
  "echo_handle action = Ok [\<lparr>ed_type = ''dev.echoed'', ed_payload = act_payload action, ed_metadata = []\<rparr>]"

section \<open>Dependencies\<close>

record ('id, 'p) server_dependencies =
  sd_action_authorizer :: "'p server_action \<Rightarrow> (unit, authorization_error) result"
  sd_identity_resolver :: "inbound_credentials \<Rightarrow> ('id actor_binding, identity_error) result"
  sd_subscription_authorizer :: "'id actor_binding \<Rightarrow> 'id subscription_request \<Rightarrow> (unit, subscription_error) result"

definition reject_all_actions :: "'p server_action \<Rightarrow> (unit, authorization_error) result" where
  "reject_all_actions action = Err (AuthorizationRejected ''action authorization is not configured'')"

definition reject_all_identities :: "inbound_credentials \<Rightarrow> ('id actor_binding, identity_error) result" where
  "reject_all_identities cr = Err (CredentialsRejected ''identity resolution is not configured'')"

definition reject_all_subscriptions :: "'id actor_binding \<Rightarrow> 'id subscription_request \<Rightarrow> (unit, subscription_error) result" where
  "reject_all_subscriptions binding request = Err (SubscriptionRejected ''subscription authorization is not configured'')"

definition reject_all_reads :: "'id \<Rightarrow> 'id \<Rightarrow> (unit, document_authorization_error) result" where
  "reject_all_reads actor session_id = Err DocUnauthorized"

section \<open>Adapters\<close>

text \<open>The errors of the Runtime; it may have more than the adapter names.\<close>

datatype runtime_error =
    RuntimeHandlerNotFound | RuntimeValidationFailed | RuntimeAuthorizationFailed | RuntimeHandlerFailed
  | RuntimePipelineFailed | RuntimeCoordinationFailed | RuntimeCoordinationUnavailable | RuntimeOther string

datatype execution_error = ExecutionRejected string | ExecutionUnavailable string | ExecutionFailed string

fun map_runtime_error :: "runtime_error \<Rightarrow> execution_error" where
  "map_runtime_error RuntimeHandlerNotFound = ExecutionRejected ''action was rejected by the runtime''"
| "map_runtime_error RuntimeValidationFailed = ExecutionRejected ''action was rejected by the runtime''"
| "map_runtime_error RuntimeAuthorizationFailed = ExecutionRejected ''action was rejected by the runtime''"
| "map_runtime_error RuntimeHandlerFailed = ExecutionRejected ''action was rejected by the action handler''"
| "map_runtime_error RuntimePipelineFailed = ExecutionUnavailable ''event pipeline is unavailable''"
| "map_runtime_error RuntimeCoordinationFailed = ExecutionUnavailable ''event pipeline is unavailable''"
| "map_runtime_error RuntimeCoordinationUnavailable = ExecutionUnavailable ''execution coordination is unavailable''"
| "map_runtime_error (RuntimeOther detail) = ExecutionFailed ''runtime execution failed''"

definition execute_action :: "('p server_action \<Rightarrow> ('ev list, runtime_error) result) \<Rightarrow> 'p server_action \<Rightarrow> ('ev list, execution_error) result" where
  "execute_action runtime action = map_err map_runtime_error (runtime action)"

datatype sync_error = SyncLagged | SyncClosed | SyncInvalidFilter | SyncInvalidQueueCapacity | SyncOther string

datatype event_source_error = SourceLagged | SourceClosed | SourceUnavailable string | SourceFailed string

fun map_sync_error :: "sync_error \<Rightarrow> event_source_error" where
  "map_sync_error SyncLagged = SourceLagged"
| "map_sync_error SyncClosed = SourceClosed"
| "map_sync_error SyncInvalidFilter = SourceUnavailable ''event source rejected the subscription''"
| "map_sync_error SyncInvalidQueueCapacity = SourceUnavailable ''event source rejected the subscription''"
| "map_sync_error (SyncOther detail) = SourceFailed ''event source failed''"

text \<open>\<^verbatim>\<open>EventFilter::for_session\<close> and \<^verbatim>\<open>with_event_type\<close>, and the operations of a subscription.\<close>

record ('id, 'fl) filter_ops =
  fl_for_session :: "'id \<Rightarrow> 'fl"
  fl_with_event_type :: "string \<Rightarrow> 'fl \<Rightarrow> 'fl"

record ('sub, 'ev) subscription_ops =
  su_next_event :: "'sub \<Rightarrow> ('ev option, sync_error) result \<times> 'sub"
  su_close :: "'sub \<Rightarrow> (unit, sync_error) result \<times> 'sub"

record ('sid, 'sub) event_source =
  es_id :: 'sid
  es_subscription :: 'sub

definition subscription_filter :: "('id, 'fl) filter_ops \<Rightarrow> 'id subscription_request \<Rightarrow> 'fl" where
  "subscription_filter fl request = fold (fl_with_event_type fl) (sr_event_types request) (fl_for_session fl (sr_session_id request))"

definition subscribe_events ::
  "('id, 'fl) filter_ops \<Rightarrow> ('fl \<Rightarrow> ('sub, sync_error) result) \<Rightarrow> 'sid \<Rightarrow> 'id subscription_request
   \<Rightarrow> (('sid, 'sub) event_source, event_source_error) result" where
  "subscribe_events fl bus_subscribe fresh request =
     map_ok (\<lambda>sub. \<lparr>es_id = fresh, es_subscription = sub\<rparr>) (map_err map_sync_error (bus_subscribe (subscription_filter fl request)))"

definition source_next_event ::
  "('sub, 'ev) subscription_ops \<Rightarrow> ('sid, 'sub) event_source \<Rightarrow> ('ev option, event_source_error) result \<times> ('sid, 'sub) event_source" where
  "source_next_event su es =
     (case su_next_event su (es_subscription es) of (r, sub) \<Rightarrow> (map_err map_sync_error r, es\<lparr>es_subscription := sub\<rparr>))"

definition source_close ::
  "('sub, 'ev) subscription_ops \<Rightarrow> ('sid, 'sub) event_source \<Rightarrow> (unit, event_source_error) result \<times> ('sid, 'sub) event_source" where
  "source_close su es = (case su_close su (es_subscription es) of (r, sub) \<Rightarrow> (map_err map_sync_error r, es\<lparr>es_subscription := sub\<rparr>))"

section \<open>Lemmas\<close>

lemma development_resolve_iff:
  "development_resolve parse_actor cr = Ok binding \<longleftrightarrow>
     cr_scheme cr = ''development'' \<and> parse_actor (cr_credential cr) = Some (ab_actor_id binding) \<and> ab_source binding = ''development''"
  by (cases binding; cases "parse_actor (cr_credential cr)") (auto simp: development_resolve_def DEVELOPMENT_IDENTITY_SCHEME_def)

text \<open>
  What the filter lets through, for a filter that keeps a Session and a set of types, of which
  the empty one stands for all.
\<close>

definition filter_ok :: "('id, 'fl) filter_ops \<Rightarrow> ('fl \<Rightarrow> 'id) \<Rightarrow> ('fl \<Rightarrow> string set) \<Rightarrow> bool" where
  "filter_ok fl session types \<longleftrightarrow> (\<forall>i. session (fl_for_session fl i) = i \<and> types (fl_for_session fl i) = {}) \<and>
     (\<forall>t f. session (fl_with_event_type fl t f) = session f \<and> types (fl_with_event_type fl t f) = insert t (types f))"

lemma subscription_filter_exact:
  assumes "filter_ok fl session types"
  shows "session (subscription_filter fl request) = sr_session_id request" and "types (subscription_filter fl request) = set (sr_event_types request)"
proof -
  have "session (fold (fl_with_event_type fl) ts f) = session f \<and> types (fold (fl_with_event_type fl) ts f) = set ts \<union> types f" for ts f
    using assms by (induction ts arbitrary: f) (auto simp: filter_ok_def)
  with assms show "session (subscription_filter fl request) = sr_session_id request" "types (subscription_filter fl request) = set (sr_event_types request)"
    by (simp_all add: subscription_filter_def filter_ok_def)
qed

text \<open>A rejected or unavailable action is told apart from a failed one, and nothing of the Runtime's own error text is passed on.\<close>

lemma execute_action_details:
  "execute_action runtime action = Err e \<Longrightarrow> \<exists>r. runtime action = Err r \<and> e = map_runtime_error r \<and>
     e \<in> {ExecutionRejected ''action was rejected by the runtime'', ExecutionRejected ''action was rejected by the action handler'',
       ExecutionUnavailable ''event pipeline is unavailable'', ExecutionUnavailable ''execution coordination is unavailable'',
       ExecutionFailed ''runtime execution failed''}"
proof -
  assume "execute_action runtime action = Err e"
  then obtain r where r: "runtime action = Err r" "e = map_runtime_error r" by (cases "runtime action") (auto simp: execute_action_def)
  then show ?thesis by (cases r) simp_all
qed

end
