(* ===== verification/Server_Main.thy ===== *)
theory Server_Main
  imports Bootstrap_Stores Listeners Server_Ports
begin

text \<open>
  The process, \<^verbatim>\<open>orbitrelay-server/src/main.rs\<close>: the configuration is loaded, the dependencies
  are chosen by its mode, the bootstrap composes the context, and the application is started,
  reports its addresses and runs until its loops end or it is told to stop.
\<close>

section \<open>From the configuration to the parts\<close>

text \<open>What the bootstrap takes from the configuration; \<open>files\<close> is the file system as far as the Development PDF goes.\<close>

definition configure_boot ::
  "('id, 'a, 'l, 'm) config_codec \<Rightarrow> (string \<Rightarrow> pdf_file) \<Rightarrow> ('l \<Rightarrow> nat) \<Rightarrow> ('id, 'a, 'l, 'm) server_config
   \<Rightarrow> ('id, f64, 'h, 's, 'pdf, 'input) boot_env \<Rightarrow> ('id, f64, 'h, 's, 'pdf, 'input) boot_env" where
  "configure_boot k files max_bytes cfg env = env\<lparr>
     bt_valid := validate_server_config k cfg, bt_development := sc_development_mode cfg,
     bt_persistent_assets := sc_asset_store_root cfg \<noteq> None, bt_persistent_catalog := sc_catalog_store_path cfg \<noteq> None,
     bt_queue_capacity := sc_sqlite_command_queue_capacity cfg,
     bt_canvas_session := dv_session_id (sc_development_canvas cfg), bt_canvas_id := dv_canvas_id (sc_development_canvas cfg),
     bt_canvas_layer := dv_layer_id (sc_development_canvas cfg), bt_canvas_width := dv_width (sc_development_canvas cfg),
     bt_canvas_height := dv_height (sc_development_canvas cfg), bt_pdf := map_option files (sc_development_pdf_path cfg),
     bt_max_asset_bytes := max_bytes (sc_development_pdf_inspection_limits cfg),
     bt_delivery := (if dc_enabled (sc_asset_delivery cfg)
       then Some (map_err server_config_error (map_ok (\<lambda>_. ()) (delivery_service_new (sc_asset_delivery cfg) :: ((unit, unit) delivery_service, config_error) result)))
       else None)\<rparr>"

text \<open>The authorizers the bootstrap composes; \<^verbatim>\<open>None\<close> is the panic of its \<^verbatim>\<open>expect\<close>.\<close>

definition document_read_authorizer ::
  "bool \<Rightarrow> ('id, 'f) canvas_descriptor option \<Rightarrow> ('id \<Rightarrow> 'id \<Rightarrow> (unit, document_authorization_error) result) option" where
  "document_read_authorizer development canvas =
     (if development then map_option (\<lambda>d. development_authorize_read (cv_session_id d)) canvas else Some reject_all_reads)"

definition canvas_history_authorizer ::
  "bool \<Rightarrow> ('id, 'f) canvas_descriptor option \<Rightarrow> ('actor \<Rightarrow> 'id \<Rightarrow> (unit, history_authorization_error) result) option" where
  "canvas_history_authorizer development canvas =
     (if development then map_option (\<lambda>d. development_authorizer (cv_session_id d)) canvas else Some reject_all_authorizer)"

definition dependencies_of ::
  "stroke_action_types \<Rightarrow> (string \<Rightarrow> 'id option) \<Rightarrow> ('id, 'a, 'l, 'm) server_config \<Rightarrow> ('id, 'p) server_dependencies" where
  "dependencies_of st parse_actor cfg =
     (if sc_development_mode cfg
      then \<lparr>sd_action_authorizer = development_authorize_action st, sd_identity_resolver = development_resolve parse_actor,
            sd_subscription_authorizer = development_authorize_subscription\<rparr>
      else \<lparr>sd_action_authorizer = reject_all_actions, sd_identity_resolver = reject_all_identities,
            sd_subscription_authorizer = reject_all_subscriptions\<rparr>)"

definition app_config_of :: "('id, 'a, 'l, 'm) config_codec \<Rightarrow> ('id, 'a, 'l, 'm) server_config \<Rightarrow> app_config" where
  "app_config_of k cfg =
     \<lparr>ac_valid = validate_server_config k cfg, ac_asset_delivery = dc_enabled (sc_asset_delivery cfg),
      ac_delivery_composed = dc_enabled (sc_asset_delivery cfg)\<rparr>"

section \<open>The process\<close>

text \<open>
  What surrounds one run: the environment variables, whether the EventStore and the bus open, the outcomes of the
  application's calls, the addresses, the flush of the standard output, and what ends the loops.
\<close>

record process_env =
  pe_variables :: environment
  pe_events_open :: bool
  pe_bus_ok :: bool
  pe_calls :: "nat \<Rightarrow> bool"
  pe_address :: "socket_addr option"
  pe_asset_address :: "socket_addr option"
  pe_flushed :: bool
  pe_ended :: select_end

definition report_addresses :: "process_env \<Rightarrow> app_config \<Rightarrow> (unit, server_error) result" where
  "report_addresses pe ac =
     and_then (websocket_local_addr (pe_address pe)) (\<lambda>_.
     and_then (if ac_asset_delivery ac then map_ok (\<lambda>_. ()) (asset_local_addr (pe_asset_address pe)) else Ok ()) (\<lambda>_.
     if pe_flushed pe then Ok () else Err (BootstrapFailed ''failed to report listener address'')))"

definition run_application :: "process_env \<Rightarrow> app_config \<Rightarrow> unit app" where
  "run_application pe ac =
     app_try (app_start ac (pe_calls pe)) (\<lambda>_.
     app_try (\<lambda>s. (report_addresses pe ac, s)) (\<lambda>_.
     if pe_variables pe ''ORBITRELAY_TEST_SHUTDOWN_STDIN'' \<noteq> None then app_run_with_stdin_shutdown ac (pe_calls pe) (pe_ended pe)
     else app_run ac (pe_calls pe) (pe_ended pe)))"

text \<open>The application is part of the result once there is one.\<close>

definition server_main ::
  "('id :: linorder, 'a, 'l, 'm) config_codec \<Rightarrow> (string \<Rightarrow> pdf_file) \<Rightarrow> ('l \<Rightarrow> nat) \<Rightarrow> ('id, f64, 'h, 's, 'pdf, 'input) boot_env \<Rightarrow> process_env
   \<Rightarrow> (f64 boot_world, (unit, server_error) result \<times> application option) io" where
  "server_main k files max_bytes env pe =
     (case load_server_config k (pe_variables pe) of
        Inl e \<Rightarrow> io_return (Err e, None)
      | Inr cfg \<Rightarrow>
          io_bind (boot_initialize (configure_boot k files max_bytes cfg env) (pe_events_open pe) (pe_bus_ok pe)) (\<lambda>booted.
          io_return (case booted of
              Inl e \<Rightarrow> (Err e, None)
            | Inr canvas \<Rightarrow>
                (case run_application pe (app_config_of k cfg)
                        (app_new (sc_asset_store_root cfg \<noteq> None) (sc_catalog_store_path cfg \<noteq> None)) of
                   (r, s) \<Rightarrow> (r, Some s)))))"


section \<open>What a loaded configuration gives\<close>

text \<open>A configuration that was loaded passes every later check of the bootstrap and of the application.\<close>

lemma configured_boot_calm:
  assumes "load_server_config k vars = Ok cfg" and "calm_env env"
  shows "calm_env (configure_boot k files max_bytes cfg env)"
  using assms(2) validated_config(5,7) [OF load_validates [OF assms(1)]] load_validates [OF assms(1)]
  by (simp add: calm_env_def configure_boot_def delivery_service_new_def)

lemma configured_boots_on:
  assumes "boots_on c a env" and "sc_asset_store_root cfg \<noteq> None" and "sc_catalog_store_path cfg \<noteq> None"
  shows "boots_on c a (configure_boot k files max_bytes cfg env)"
  using assms by (auto simp: boots_on_def configure_boot_def composer_ok_def)

lemma boot_initialize_runs:
  assumes "runs (initialize_with env) s (Ok v) s'" and "bt_valid env = Ok ()"
  shows "runs (boot_initialize env True True) s (Ok v) s'"
  unfolding boot_initialize_def assms(2) boot_check_def if_True by (intro runs_return_try assms(1))

text \<open>The application, from its start to the end of its shutdown.\<close>

definition app_finished :: "application \<Rightarrow> bool" where
  "app_finished s \<longleftrightarrow> lc_state (ap_lifecycle s) = Stopped \<and> ap_registered s = None \<and> ap_event_store s = Closed \<and>
     ap_asset_store s \<noteq> Open \<and> ap_catalog_store s \<noteq> Open \<and> \<not> ap_listener s \<and> \<not> ap_asset_listener s \<and> ap_cancelled s"

lemma calm_app_start:
  assumes "ac_valid ac = Ok ()" and "ac_asset_delivery ac \<longrightarrow> ac_delivery_composed ac" and "\<forall>n. ok n"
  shows "\<exists>s. app_start ac ok (app_new a c) = (Ok (), s) \<and> ap_listener s \<and> lc_state (ap_lifecycle s) = Ready \<and> ap_node_state s = NodeReady"
  using assms by (auto simp: app_start_def app_new_def bind_listener_def bind_asset_listener_def mark_ready_def context_ops lifecycle_ops
      lifecycle_from_state_def Let_def)

lemma calm_app_shutdown:
  assumes "lc_state (ap_lifecycle s) = Ready" and "ap_node_state s = NodeReady" and "\<forall>n. ok n"
  shows "\<exists>s'. app_shutdown ok s = (Ok (), s') \<and> app_finished s'"
  using assms by (auto simp: app_shutdown_def begin_shutdown_def finish_shutdown_def close_event_store_def close_asset_store_def close_catalog_store_def
      context_ops lifecycle_ops app_finished_def)

lemma calm_application_runs:
  assumes "ac_valid ac = Ok ()" and "ac_asset_delivery ac \<longrightarrow> ac_delivery_composed ac" and "\<forall>n. pe_calls pe n"
    and "report_addresses pe ac = Ok ()" and "pe_ended pe = SignalReceived \<or> pe_ended pe = LoopEnded (Ok ())"
  shows "\<exists>s. run_application pe ac (app_new a c) = (Ok (), s) \<and> app_finished s"
proof -
  from calm_app_start [OF assms(1-3)] obtain s where
    s: "app_start ac (pe_calls pe) (app_new a c) = (Ok (), s)" "ap_listener s" "lc_state (ap_lifecycle s) = Ready" "ap_node_state s = NodeReady" by blast
  then have again: "app_start ac (pe_calls pe) s = (Ok (), s)" by (simp add: app_start_def)
  from calm_app_shutdown [OF s(3,4) assms(3)] obtain s' where s': "app_shutdown (pe_calls pe) s = (Ok (), s')" "app_finished s'" by blast
  from s(1,2) s' again assms(4,5) show ?thesis
    by (auto simp: run_application_def app_try_def app_run_def app_run_with_stdin_shutdown_def serve_after_start_def)
qed

text \<open>
  An error between the start and the loops returns at once: the process ends without
  the shutdown that unregisters its node and closes its stores.
\<close>

lemma failed_report_skips_shutdown:
  assumes "ac_valid ac = Ok ()" and "ac_asset_delivery ac \<longrightarrow> ac_delivery_composed ac" and "\<forall>n. pe_calls pe n" and "report_addresses pe ac = Err e"
  shows "\<exists>s. run_application pe ac (app_new a c) = (Err e, s) \<and> lc_state (ap_lifecycle s) = Ready"
  using calm_app_start [OF assms(1-3), of a c] assms(4) by (auto simp: run_application_def app_try_def)

text \<open>The mode has to be asked for.\<close>

definition development_enabled :: "environment \<Rightarrow> bool" where
  "development_enabled vars \<longleftrightarrow> vars ''ORBITRELAY_DEVELOPMENT_MODE'' \<in> {Some (Utf8 ''true''), Some (Utf8 ''1'')}"

lemma override_keeps: "override env name parse set_field c = Ok c' \<Longrightarrow> (\<And>x c. f (set_field x c) = f c) \<Longrightarrow> f c' = f c"
  by (auto simp: override_def split: option.splits)

lemma override_bool:
  assumes "override vars name (parse_bool_env msg) set_field c = Ok c'"
  obtains "vars name = None" "c' = c" | v b where "vars name = Some (Utf8 v)" "c' = set_field b c" "b \<longleftrightarrow> v = ''true'' \<or> v = ''1''"
proof (cases "vars name")
  case None
  with assms show ?thesis by (intro that(1)) (simp_all add: override_def read_utf8_env_def)
next
  case (Some x)
  with assms obtain v where x: "x = Utf8 v" by (cases x) (simp_all add: override_def read_utf8_env_def)
  with assms Some obtain b where b: "parse_bool_env msg v = Ok b" "c' = set_field b c" by (auto simp: override_def read_utf8_env_def)
  then have "b \<longleftrightarrow> v = ''true'' \<or> v = ''1''" by (simp only: parse_bool_env_def split: if_splits) auto
  with Some x b(2) that(2) show ?thesis by blast
qed

lemma override_then_keeps:
  assumes "and_then (override env name parse set_field c) g = Ok c'" and "f c = v" and "\<And>x c. f (set_field x c) = f c"
    and "\<And>c1. g c1 = Ok c' \<Longrightarrow> f c1 = v \<Longrightarrow> f c' = v"
  shows "f c' = v"
proof -
  from assms(1) obtain c1 where c1: "override env name parse set_field c = Ok c1" "g c1 = Ok c'" by auto
  have "f c1 = f c" using c1(1) by (rule override_keeps) (rule assms(3))
  with c1(2) assms(2,4) show ?thesis by simp
qed

lemma override_last_keeps: "override env name parse set_field c = Ok c' \<Longrightarrow> f c = v \<Longrightarrow> (\<And>x c. f (set_field x c) = f c) \<Longrightarrow> f c' = v"
  using override_keeps [where f = f] by fastforce

lemma load_node_mode:
  assumes "load_node k vars c = Ok c'"
  shows "sc_development_mode c' = sc_development_mode c"
  by (rule override_then_keeps [where f = sc_development_mode, OF assms [unfolded load_node_def] refl], simp)
    ((erule override_then_keeps [where f = sc_development_mode], assumption, simp)+, erule override_last_keeps [where f = sc_development_mode], assumption, simp)

lemma load_mode:
  assumes "load_server_config k vars = Ok cfg"
  shows "sc_development_mode cfg \<longleftrightarrow> development_enabled vars"
proof -
  let ?set = "\<lambda>x. sc_development_mode_update (\<lambda>_. x)"
  obtain c1 c2 c3 where c1: "load_node k vars (server_config_default k) = Ok c1"
    and c2: "override vars ''ORBITRELAY_DEVELOPMENT_MODE'' (parse_bool_env ''ORBITRELAY_DEVELOPMENT_MODE'') ?set c1 = Ok c2"
    and c3: "(if sc_development_mode c2 then override vars ''ORBITRELAY_DEVELOPMENT_PDF_PATH'' Ok (\<lambda>x. sc_development_pdf_path_update (\<lambda>_. Some x)) c2 else Ok c2) = Ok c3"
    and c4: "sc_development_mode cfg = sc_development_mode c3"
    using assms unfolding load_server_config_def and_then_Ok Let_def by (elim exE conjE) fastforce
  have 3: "sc_development_mode c3 = sc_development_mode c2"
  proof (cases "sc_development_mode c2")
    case True
    with c3 show ?thesis by (simp only: if_True) (drule override_keeps [where f = sc_development_mode], simp_all)
  next
    case False
    with c3 show ?thesis by simp
  qed
  from load_node_mode [OF c1] have "\<not> sc_development_mode c1" by (simp add: server_config_default_def)
  with 3 c4 show ?thesis by (cases rule: override_bool [OF c2]) (auto simp: development_enabled_def)
qed

section \<open>The whole process\<close>


text \<open>
  C14. Nothing is served outside of Development, and in Development Assets are served to its
  Session only. For any configuration that can be loaded: an actor is authenticated, an action or a
  subscription authorized only if the variable \<^verbatim>\<open>ORBITRELAY_DEVELOPMENT_MODE\<close> asks for Development, actors by the development scheme and
  actions of the six enabled types; and whatever queries and connections the delivery plane
  has served since it was composed with the bootstrap's authorizer, it answers with bytes of an Asset
  only in Development, and only of an Asset that is the source of a Document in the Session of the
  Development Canvas.
\<close>

theorem only_development_serves:
  assumes "load_server_config k vars = Ok cfg" and "delivery_service_new (sc_asset_delivery cfg) = Ok s0"
    and "document_read_authorizer (sc_development_mode cfg) canvas = Some authorize"
    and "(delivery_step dl get_document authorize)\<^sup>*\<^sup>* s0 s" and "deps = dependencies_of st parse_actor cfg"
  shows "(sd_identity_resolver deps cr = Ok binding \<longrightarrow> development_enabled vars \<and> cr_scheme cr = ''development'') \<and>
    (sd_action_authorizer deps action = Ok () \<longrightarrow> development_enabled vars \<and>
       act_type action \<in> {''dev.echo'', st_begin st, st_append st, st_end st, st_cancel st, st_remove st}) \<and>
    (sd_subscription_authorizer deps binding request = Ok () \<longrightarrow> development_enabled vars) \<and>
    (respond dl get permit now req (ds_grants s) = (StreamReply i status headers start len, g') \<longrightarrow> development_enabled vars \<and>
       (\<exists>d doc_id doc. canvas = Some d \<and> get_document doc_id = Ok (Some doc) \<and> di_session_id doc = cv_session_id d \<and> di_source_asset_id doc = i))"
proof -
  have stream: "development_enabled vars \<and>
      (\<exists>d doc_id doc. canvas = Some d \<and> get_document doc_id = Ok (Some doc) \<and> di_session_id doc = cv_session_id d \<and> di_source_asset_id doc = i)"
    if r: "respond dl get permit now req (ds_grants s) = (StreamReply i status headers start len, g')"
  proof -
    have inv: "service_inv get_document authorize s" by (rule delivery_steps_inv [OF assms(4) service_inv_new [OF assms(2)]])
    from r obtain token gr where "fst (validate (dl_clock dl) (dl_digest dl) now token i (ds_grants s)) = Ok gr" by (rule respond_stream)
    then obtain key where "map_of (entries (ds_grants s)) key = Some gr" "grant_asset_id gr = i" unfolding validate_accepts_iff by blast
    with inv have "grant_authorized get_document authorize gr" "grant_asset_id gr = i" by (auto simp: service_inv_def)
    then obtain doc_id doc where "get_document doc_id = Ok (Some doc)" "authorize (grant_actor_id gr) (di_session_id doc) = Ok ()" "di_source_asset_id doc = i"
      unfolding grant_authorized_def by metis
    moreover from this(2) assms(3) obtain d where "sc_development_mode cfg" "canvas = Some d" "di_session_id doc = cv_session_id d"
      by (auto simp: document_read_authorizer_def reject_all_reads_def development_authorize_read_def split: if_splits)
    ultimately show ?thesis using load_mode [OF assms(1)] by blast
  qed
  have ports: "sd_identity_resolver deps cr = Ok binding \<Longrightarrow> development_enabled vars \<and> cr_scheme cr = ''development''"
    "sd_action_authorizer deps action = Ok () \<Longrightarrow> development_enabled vars \<and>
       act_type action \<in> {''dev.echo'', st_begin st, st_append st, st_end st, st_cancel st, st_remove st}"
    "sd_subscription_authorizer deps binding request = Ok () \<Longrightarrow> development_enabled vars"
    using load_mode [OF assms(1)] by (auto simp: assms(5) dependencies_of_def development_resolve_iff reject_all_identities_def reject_all_actions_def reject_all_subscriptions_def
        development_authorize_action_def split: if_splits)
  from ports stream show ?thesis by blast
qed

section \<open>A sample process\<close>

text \<open>Identities are numbers in unary and sizes are numbers of the configuration.\<close>

definition number_config_codec :: "(nat, unit, unit, unit) config_codec" where
  "number_config_codec =
     \<lparr>cc_parse_id = (\<lambda>s. Some (length s)), cc_parse_f64 = (\<lambda>s. Some (F64 (int (length s)) 0)),
      cc_parse_addr = (\<lambda>s. Some \<lparr>sa_ip = IpV4 127 0 0 1, sa_port = length s\<rparr>),
      cc_adapter_default = (), cc_adapter_valid = (\<lambda>_. True), cc_limits_default = (), cc_metadata_new = ()\<rparr>"

definition float_codec :: "(nat, f64, string) catalog_codec" where
  "float_codec =
     \<lparr>cid_to_string = (\<lambda>n. replicate n (CHR ''x'')), cid_parse = (\<lambda>s. Some (length s)),
      space_valid = (\<lambda>w h. is_finite w \<and> is_finite h), rotation_valid = (\<lambda>r. r = 0), geometry_valid = (\<lambda>w h r. True),
      canvas_valid = (\<lambda>d. btree_set (cv_layer_ids d) = cv_layer_ids d \<and> cv_default_layer_id d \<in> set (cv_layer_ids d) \<and>
        is_finite (cv_width d) \<and> is_finite (cv_height d)),
      document_valid = (\<lambda>d. False), summary_of = (\<lambda>d. None)\<rparr>"

lemma float_codec_ok: "catalog_codec_ok float_codec"
  by (simp add: catalog_codec_ok_def float_codec_def)

definition float_boot :: "(nat, f64, string, string, string, nat) boot_env" where
  "float_boot =
     \<lparr>bt_valid = Ok (), bt_development = False, bt_persistent_assets = True, bt_persistent_catalog = True, bt_queue_capacity = 1,
      bt_canvas_session = None, bt_canvas_id = None, bt_canvas_layer = None, bt_canvas_width = F64 1 0, bt_canvas_height = F64 1 0,
      bt_pdf = None, bt_max_asset_bytes = 0, bt_delivery = None,
      bt_catalog = float_codec, bt_assets = unary_asset_codec, bt_plan = (\<lambda>_. calm_plan []), bt_faults = (\<lambda>_. no_faults), bt_sent = (\<lambda>_. None),
      bt_opens = (\<lambda>_. True), bt_quick_check = ''ok'', bt_registry = (\<lambda>_. True), bt_handlers = (\<lambda>_. True), bt_fresh = sample_ids,
      bt_inspect = (\<lambda>w i. None), bt_compose_input = (\<lambda>session asset pdf. None), bt_compose = (\<lambda>i. None),
      bt_memory_insert_asset = (\<lambda>_ _. False), bt_memory_has_asset = (\<lambda>_. None), bt_memory_documents = (\<lambda>_. None),
      bt_memory_insert_document = (\<lambda>_. None), bt_view = (\<lambda>_ _. True)\<rparr>"

definition bound_catalog :: "(nat, f64) catalog" where
  "bound_catalog = \<lparr>ct_canvases = [\<lparr>cv_canvas_id = 7, cv_session_id = 9, cv_width = F64 5 0, cv_height = F64 8 0, cv_layer_ids = [70], cv_default_layer_id = 70\<rparr>],
     ct_documents = [], ct_bindings = [(BOOTSTRAP_DEFAULT_CANVAS, \<lparr>bb_session_id = 9, bb_canvas_id = 7\<rparr>)]\<rparr>"

definition bound_stores :: "f64 boot_world" where
  "bound_stores = \<lparr>bw_assets = empty_world, bw_catalog = encode_catalog float_codec sample_md bound_catalog, bw_nodes = []\<rparr>"

lemma bound_stores_consistent: "stores_consistent float_codec unary_asset_codec bound_catalog bound_stores"
proof -
  have "catalog_ok float_codec bound_catalog"
    by (simp add: catalog_ok_def bound_catalog_def float_codec_def btree_set_def i64_max_def)
  moreover have "bindings_match bound_catalog" by (simp add: bindings_match_def bound_catalog_def)
  ultimately show ?thesis
    using empty_world_inv [of unary_asset_codec] by (auto simp: stores_consistent_def bound_stores_def bound_catalog_def simp del: encode_catalog_simps)
qed

definition sample_process :: process_env where
  "sample_process = \<lparr>pe_variables = map_of [(''ORBITRELAY_DEVELOPMENT_MODE'', Utf8 ''1''), (''ORBITRELAY_ASSET_STORE_DIR'', Utf8 ''/a''),
       (''ORBITRELAY_CATALOG_STORE_PATH'', Utf8 ''/c''), (''ORBITRELAY_ASSET_DELIVERY_ENABLED'', Utf8 ''true'')],
     pe_events_open = True, pe_bus_ok = True, pe_calls = (\<lambda>_. True), pe_address = Some \<lparr>sa_ip = IpV4 127 0 0 1, sa_port = 8080\<rparr>,
     pe_asset_address = Some \<lparr>sa_ip = IpV4 127 0 0 1, sa_port = 8081\<rparr>, pe_flushed = True, pe_ended = SignalReceived\<rparr>"

definition sample_process_config :: "(nat, unit, unit, unit) server_config" where
  "sample_process_config = (server_config_default number_config_codec)\<lparr>sc_development_mode := True, sc_asset_store_root := Some ''/a'',
     sc_catalog_store_path := Some ''/c'', sc_asset_delivery := delivery_config_default\<lparr>dc_enabled := True\<rparr>\<rparr>"

lemma sample_process_loaded: "load_server_config number_config_codec (pe_variables sample_process) = Ok sample_process_config"
  by code_simp


text \<open>Without variables no credential is accepted.\<close>

theorem only_development_serves_witness:
  "sd_identity_resolver ((dependencies_of \<lparr>st_begin = ''b'', st_append = ''a'', st_end = ''e'', st_cancel = ''c'', st_remove = ''r''\<rparr> Some
     (server_config_default sample_config_codec)) :: (string, unit) server_dependencies) \<lparr>cr_scheme = ''development'', cr_credential = ''me''\<rparr> \<noteq>
   Ok \<lparr>ab_actor_id = ''me'', ab_source = ''development''\<rparr>"
proof -
  let ?cfg = "server_config_default sample_config_codec"
  have l: "load_server_config sample_config_codec (\<lambda>_. None) = Ok ?cfg" by code_simp
  have new: "delivery_service_new (sc_asset_delivery ?cfg) =
      Ok (\<lparr>ds_grants = issuer_new 600 4096, ds_public_base_url = None\<rparr> :: (string, int) delivery_service)"
    by code_simp
  have auth: "document_read_authorizer (sc_development_mode ?cfg) (None :: (string, f64) canvas_descriptor option) = Some reject_all_reads"
    by (simp add: document_read_authorizer_def server_config_default_def)
  define deps :: "(string, unit) server_dependencies" where
    "deps = dependencies_of \<lparr>st_begin = ''b'', st_append = ''a'', st_end = ''e'', st_cancel = ''c'', st_remove = ''r''\<rparr> Some ?cfg"
  from only_development_serves [where get = "\<lambda>_ :: string. Ok None :: ((string, string) asset_descriptor option, unit) result", OF l new auth rtranclp.rtrancl_refl [where r = "delivery_step sample_delivery (\<lambda>_. Ok None) reject_all_reads"] deps_def]
  have "sd_identity_resolver deps cr \<noteq> Ok b" for cr b by (auto simp: development_enabled_def)
  then show ?thesis unfolding deps_def by blast
qed

end
