(* ===== verification/Ws_Client.thy ===== *)
theory Ws_Client
  imports Rust_Std
begin

text \<open>
  The acceptance client \<^verbatim>\<open>orbitrelay-server/examples/ws_client.rs\<close>: its command line, and the
  session it runs on one WebSocket. Identities, payloads and the JSON forms of the messages are the
  kernel's; the socket is followed event by event, what it yields for every receive and the
  outcome of every send. A client for which the socket has nothing more to say yet is still waiting.
\<close>

section \<open>Messages\<close>

text \<open>What the client sends (its action carries no metadata), and of what it receives the parts it looks at.\<close>

record ('id, 'p, 'ts) client_action =
  ca_id :: 'id
  ca_session_id :: 'id
  ca_actor_id :: 'id
  ca_type :: string
  ca_created_at :: 'ts
  ca_payload :: 'p

datatype ('id, 'p, 'ts) inbound_message =
    Hello "nat list" "string list"
  | Authenticate 'id string string
  | Subscribe 'id 'id "string list"
  | Ping nat
  | ActionMessage nat 'id string "('id, 'p, 'ts) client_action"
  | CloseMessage "string option"

record 'id outbound_event =
  oe_id :: 'id
  oe_action_id :: 'id
  oe_actor_id :: 'id
  oe_session_id :: 'id
  oe_type :: string

datatype 'id outbound_message =
    HelloAccepted
  | SubscriptionAccepted
  | ActionAcknowledgement 'id "'id list"
  | EventMessage "'id outbound_event"
  | Pong nat
  | ErrorMessage string string
  | OtherMessage

text \<open>The kernel, as the client uses it; \<open>ck_debug\<close> is the text of a message's \<^verbatim>\<open>Debug\<close>.\<close>

record ('id, 'p, 'ts) client_kernel =
  ck_version :: nat
  ck_parse_id :: "string \<Rightarrow> 'id option"
  ck_show_id :: "'id \<Rightarrow> string"
  ck_parse_payload :: "string \<Rightarrow> 'p option"
  ck_encode :: "('id, 'p, 'ts) inbound_message \<Rightarrow> string option"
  ck_decode :: "string \<Rightarrow> 'id outbound_message option"
  ck_debug :: "'id outbound_message \<Rightarrow> string"

section \<open>The command line\<close>

record ('id, 'p) client_options =
  co_url :: string
  co_actor_id :: 'id
  co_session_id :: 'id
  co_action_type :: string
  co_event_types :: "string list"
  co_payload :: 'p
  co_send_action :: bool
  co_receive_events :: nat
  co_ping :: bool

text \<open>The variables of the loop; the identities are made up when they are not given.\<close>

record ('id, 'p) parsed_arguments =
  pa_url :: string
  pa_actor_id :: "'id option"
  pa_session_id :: "'id option"
  pa_action_type :: string
  pa_event_types :: "string list"
  pa_payload :: 'p
  pa_send_action :: bool
  pa_receive_events :: nat
  pa_ping :: bool

definition next_value :: "string list \<Rightarrow> string \<Rightarrow> (string \<times> string list, string) result" where
  "next_value arguments name = (case arguments of [] \<Rightarrow> Err (name @ '' requires a value'') | v # rest \<Rightarrow> Ok (v, rest))"

lemma next_value_length: "next_value arguments name = Ok (v, rest) \<Longrightarrow> length rest < length arguments"
  by (auto simp: next_value_def split: list.splits)

text \<open>One argument with its value: what is left of the arguments, or \<^verbatim>\<open>None\<close> for \<^verbatim>\<open>--help\<close>.\<close>

definition parse_argument ::
  "('id, 'p, 'ts) client_kernel \<Rightarrow> string \<Rightarrow> string list \<Rightarrow> ('id, 'p) parsed_arguments
   \<Rightarrow> ((('id, 'p) parsed_arguments \<times> string list) option, string) result" where
  "parse_argument k argument rest acc =
     (if argument = ''--url'' then map_ok (\<lambda>(v, rest'). Some (acc\<lparr>pa_url := v\<rparr>, rest')) (next_value rest ''--url'')
      else if argument = ''--actor-id'' then and_then (next_value rest ''--actor-id'') (\<lambda>(v, rest').
        map_ok (\<lambda>i. Some (acc\<lparr>pa_actor_id := Some i\<rparr>, rest')) (ok_or ''--actor-id must be a valid ActorId'' (ck_parse_id k v)))
      else if argument = ''--session-id'' then and_then (next_value rest ''--session-id'') (\<lambda>(v, rest').
        map_ok (\<lambda>i. Some (acc\<lparr>pa_session_id := Some i\<rparr>, rest')) (ok_or ''--session-id must be a valid SessionId'' (ck_parse_id k v)))
      else if argument = ''--action-type'' then map_ok (\<lambda>(v, rest'). Some (acc\<lparr>pa_action_type := v\<rparr>, rest')) (next_value rest ''--action-type'')
      else if argument = ''--event-type''
      then map_ok (\<lambda>(v, rest'). Some (acc\<lparr>pa_event_types := pa_event_types acc @ [v]\<rparr>, rest')) (next_value rest ''--event-type'')
      else if argument = ''--payload-json'' then and_then (next_value rest ''--payload-json'') (\<lambda>(v, rest').
        map_ok (\<lambda>p. Some (acc\<lparr>pa_payload := p\<rparr>, rest')) (ok_or ''--payload-json must be a JSON object'' (ck_parse_payload k v)))
      else if argument = ''--send-action'' then Ok (Some (acc\<lparr>pa_send_action := True\<rparr>, rest))
      else if argument = ''--receive-events'' then and_then (next_value rest ''--receive-events'') (\<lambda>(v, rest').
        map_ok (\<lambda>n. Some (acc\<lparr>pa_receive_events := n\<rparr>, rest')) (ok_or ''--receive-events must be a non-negative integer'' (parse_unsigned u64_max v)))
      else if argument = ''--ping'' then Ok (Some (acc\<lparr>pa_ping := True\<rparr>, rest))
      else if argument = ''--help'' \<or> argument = ''-h'' then Ok None
      else Err (''unknown argument `'' @ argument @ ''`''))"

lemma parse_argument_length: "parse_argument k argument rest acc = Ok (Some (acc', rest')) \<Longrightarrow> length rest' \<le> length rest"
  by (auto simp: parse_argument_def dest: next_value_length split: if_splits)

function parse_arguments ::
  "('id, 'p, 'ts) client_kernel \<Rightarrow> string list \<Rightarrow> ('id, 'p) parsed_arguments \<Rightarrow> (('id, 'p) parsed_arguments option, string) result" where
  "parse_arguments k [] acc = Ok (Some acc)"
| "parse_arguments k (argument # rest) acc =
     (case parse_argument k argument rest acc of
        Inl e \<Rightarrow> Err e
      | Inr None \<Rightarrow> Ok None
      | Inr (Some (acc', rest')) \<Rightarrow> parse_arguments k rest' acc')"
  by pat_completeness auto
termination
  by (relation "measure (\<lambda>(k, arguments, acc). length arguments)") (auto dest!: parse_argument_length)

text \<open>\<^verbatim>\<open>ClientOptions::parse\<close>; \<open>fresh_actor\<close> and \<open>fresh_session\<close> are the identities it makes up.\<close>

definition client_options_parse ::
  "('id, 'p, 'ts) client_kernel \<Rightarrow> 'id \<Rightarrow> 'id \<Rightarrow> string list \<Rightarrow> (('id, 'p) client_options option, string) result" where
  "client_options_parse k fresh_actor fresh_session arguments =
     and_then (ok_or ''default payload is invalid'' (ck_parse_payload k ''{\"message\":\"hello from ws_client\"}'')) (\<lambda>payload.
     map_ok (map_option (\<lambda>acc. \<lparr>co_url = pa_url acc,
         co_actor_id = (case pa_actor_id acc of Some i \<Rightarrow> i | None \<Rightarrow> fresh_actor),
         co_session_id = (case pa_session_id acc of Some i \<Rightarrow> i | None \<Rightarrow> fresh_session),
         co_action_type = pa_action_type acc,
         co_event_types = (if pa_event_types acc = [] then [''dev.echoed''] else pa_event_types acc),
         co_payload = pa_payload acc, co_send_action = pa_send_action acc, co_receive_events = pa_receive_events acc, co_ping = pa_ping acc\<rparr>))
       (parse_arguments k arguments
         \<lparr>pa_url = ''ws://127.0.0.1:8080/ws'', pa_actor_id = None, pa_session_id = None, pa_action_type = ''dev.echo'', pa_event_types = [],
          pa_payload = payload, pa_send_action = False, pa_receive_events = 0, pa_ping = False\<rparr>))"

definition print_help :: string where
  "print_help = ''OrbitRelay development WebSocket client'' @ concat (map (\<lambda>line. CHR 0x0A # line)
     [''--url <ws-url>'', ''--actor-id <uuid>'', ''--session-id <uuid>'', ''--action-type <type>       default: dev.echo'',
      ''--event-type <type>        repeatable; default: dev.echoed'', ''--payload-json <object>'', ''--send-action'',
      ''--receive-events <count>'', ''--ping''])"

section \<open>The socket\<close>

text \<open>
  A receive ends with a frame, the end of the stream, an error, or after fifteen seconds
  (\<^verbatim>\<open>within\<close>); a send likewise.
\<close>

datatype receive_outcome = ReceiveTimedOut | StreamEnded | ReceiveFailed string | TextFrame string | OtherFrame

datatype send_outcome = SendTimedOut | SendFailed string | Sent

record client_io =
  ci_frames :: "receive_outcome list"
  ci_sends :: nat
  ci_sent :: "string list"
  ci_output :: "string list"
  ci_closed :: bool

text \<open>\<^verbatim>\<open>None\<close> is a client that still waits.\<close>

type_synonym 'a client = "client_io \<Rightarrow> ('a, string) result option \<times> client_io"

definition client_try :: "'a client \<Rightarrow> ('a \<Rightarrow> 'b client) \<Rightarrow> 'b client" where
  "client_try m f s = (case m s of (None, s') \<Rightarrow> (None, s') | (Some (Inl e), s') \<Rightarrow> (Some (Err e), s') | (Some (Inr x), s') \<Rightarrow> f x s')"

definition client_send :: "('id, 'p, 'ts) client_kernel \<Rightarrow> (nat \<Rightarrow> send_outcome) \<Rightarrow> ('id, 'p, 'ts) inbound_message \<Rightarrow> unit client" where
  "client_send k sends message s =
     (case ck_encode k message of
        None \<Rightarrow> (Some (Err ''JSON encoding failed''), s)
      | Some encoded \<Rightarrow>
          let s' = s\<lparr>ci_sends := Suc (ci_sends s)\<rparr> in
          (case sends (ci_sends s) of
             SendTimedOut \<Rightarrow> (Some (Err ''operation timed out''), s')
           | SendFailed e \<Rightarrow> (Some (Err (''WebSocket send failed: '' @ e)), s')
           | Sent \<Rightarrow> (Some (Ok ()), s'\<lparr>ci_sent := ci_sent s @ [encoded]\<rparr>)))"

fun next_frame :: "receive_outcome list \<Rightarrow> (string, string) result option \<times> receive_outcome list" where
  "next_frame [] = (None, [])"
| "next_frame (ReceiveTimedOut # fs) = (Some (Err ''operation timed out''), fs)"
| "next_frame (StreamEnded # fs) = (Some (Err ''WebSocket closed''), fs)"
| "next_frame (ReceiveFailed e # fs) = (Some (Err (''WebSocket receive failed: '' @ e)), fs)"
| "next_frame (TextFrame text # fs) = (Some (Ok text), fs)"
| "next_frame (OtherFrame # fs) = next_frame fs"

definition next_outbound :: "('id, 'p, 'ts) client_kernel \<Rightarrow> 'id outbound_message client" where
  "next_outbound k s =
     (case next_frame (ci_frames s) of
        (r, fs) \<Rightarrow> (map_option (\<lambda>r. and_then r (\<lambda>text. ok_or ''server returned invalid transport JSON'' (ck_decode k text))) r, s\<lparr>ci_frames := fs\<rparr>))"

definition expect_hello :: "('id, 'p, 'ts) client_kernel \<Rightarrow> unit client" where
  "expect_hello k = client_try (next_outbound k) (\<lambda>message s.
     (Some (case message of HelloAccepted \<Rightarrow> Ok () | _ \<Rightarrow> Err (''expected hello_accepted, received '' @ ck_debug k message)), s))"

definition expect_subscription :: "('id, 'p, 'ts) client_kernel \<Rightarrow> unit client" where
  "expect_subscription k = client_try (next_outbound k) (\<lambda>message s.
     (Some (case message of
        SubscriptionAccepted \<Rightarrow> Ok ()
      | ErrorMessage code text \<Rightarrow> Err (''subscription failed: '' @ code)
      | _ \<Rightarrow> Err (''expected subscription_accepted, received '' @ ck_debug k message)), s))"

definition client_print :: "string \<Rightarrow> client_io \<Rightarrow> client_io" where
  "client_print line s = s\<lparr>ci_output := ci_output s @ [line]\<rparr>"

section \<open>The session\<close>

text \<open>The counters of the loop.\<close>

record progress =
  pr_events :: nat
  pr_acknowledged :: bool
  pr_ponged :: bool

fun join_commas :: "string list \<Rightarrow> string" where
  "join_commas [] = []"
| "join_commas [x] = x"
| "join_commas (x # xs) = x @ '','' @ join_commas xs"

text \<open>One message: the line it prints and the new counters, or the error of the server.\<close>

fun on_outbound ::
  "('id, 'p, 'ts) client_kernel \<Rightarrow> 'id option \<Rightarrow> 'id outbound_message \<Rightarrow> progress \<Rightarrow> (string option \<times> progress, string) result" where
  "on_outbound k expected (ActionAcknowledgement action_id event_ids) pr =
     Ok (Some (''ACK action_id='' @ ck_show_id k action_id @ '' event_ids='' @ join_commas (map (ck_show_id k) event_ids)),
         if expected = Some action_id then pr\<lparr>pr_acknowledged := True\<rparr> else pr)"
| "on_outbound k expected (EventMessage e) pr =
     Ok (Some (''EVENT event_id='' @ ck_show_id k (oe_id e) @ '' action_id='' @ ck_show_id k (oe_action_id e) @ '' actor_id='' @ ck_show_id k (oe_actor_id e) @
          '' session_id='' @ ck_show_id k (oe_session_id e) @ '' event_type='' @ oe_type e), pr\<lparr>pr_events := Suc (pr_events pr)\<rparr>)"
| "on_outbound k expected (Pong nonce) pr = Ok (Some (''PONG nonce='' @ dec_of_nat nonce), pr\<lparr>pr_ponged := True\<rparr>)"
| "on_outbound k expected (ErrorMessage code text) pr = Err (''server error code='' @ code @ '' message='' @ text)"
| "on_outbound k expected message pr = Ok (None, pr)"

definition client_done :: "nat \<Rightarrow> progress \<Rightarrow> bool" where
  "client_done wanted pr \<longleftrightarrow> \<not> (pr_events pr < wanted \<or> \<not> pr_acknowledged pr \<or> \<not> pr_ponged pr)"

lemma next_frame_length: "next_frame fs = (Some r, fs') \<Longrightarrow> length fs' < length fs"
  by (induction fs rule: next_frame.induct) auto

lemma next_outbound_length: "next_outbound k s = (Some r, s') \<Longrightarrow> length (ci_frames s') < length (ci_frames s)"
  by (auto simp: next_outbound_def split: prod.splits dest: next_frame_length)

function client_loop :: "('id, 'p, 'ts) client_kernel \<Rightarrow> 'id option \<Rightarrow> nat \<Rightarrow> progress \<Rightarrow> unit client" where
  "client_loop k expected wanted pr s =
     (if client_done wanted pr then (Some (Ok ()), s)
      else case next_outbound k s of
        (None, s') \<Rightarrow> (None, s')
      | (Some (Inl e), s') \<Rightarrow> (Some (Err e), s')
      | (Some (Inr message), s') \<Rightarrow>
          (case on_outbound k expected message pr of
             Inl e \<Rightarrow> (Some (Err e), s')
           | Inr (line, pr') \<Rightarrow> client_loop k expected wanted pr' (case line of None \<Rightarrow> s' | Some l \<Rightarrow> client_print l s')))"
  by pat_completeness auto
termination
  by (relation "measure (\<lambda>(k, expected, wanted, pr, s). length (ci_frames s))")
    (auto dest!: next_outbound_length [OF sym] simp: client_print_def split: option.splits)

declare client_loop.simps [simp del]

text \<open>The identities and the time of one run.\<close>

record ('id, 'ts) client_fresh =
  fr_authenticate_id :: 'id
  fr_subscribe_id :: 'id
  fr_action_id :: 'id
  fr_envelope_id :: 'id
  fr_now :: 'ts

definition client_action_of :: "('id, 'p) client_options \<Rightarrow> ('id, 'ts) client_fresh \<Rightarrow> ('id, 'p, 'ts) client_action" where
  "client_action_of opts fr = \<lparr>ca_id = fr_action_id fr, ca_session_id = co_session_id opts, ca_actor_id = co_actor_id opts, ca_type = co_action_type opts,
     ca_created_at = fr_now fr, ca_payload = co_payload opts\<rparr>"

definition client_session ::
  "('id, 'p, 'ts) client_kernel \<Rightarrow> (nat \<Rightarrow> send_outcome) \<Rightarrow> ('id, 'p) client_options \<Rightarrow> ('id, 'ts) client_fresh \<Rightarrow> unit client" where
  "client_session k sends opts fr =
     client_try (client_send k sends (Hello [ck_version k] [''json''])) (\<lambda>_.
     client_try (expect_hello k) (\<lambda>_.
     client_try (client_send k sends (Authenticate (fr_authenticate_id fr) ''development'' (ck_show_id k (co_actor_id opts)))) (\<lambda>_.
     client_try (client_send k sends (Subscribe (fr_subscribe_id fr) (co_session_id opts) (co_event_types opts))) (\<lambda>_.
     client_try (expect_subscription k) (\<lambda>_.
     client_try (\<lambda>s. (Some (Ok ()), client_print (''READY actor_id='' @ ck_show_id k (co_actor_id opts) @ '' session_id='' @ ck_show_id k (co_session_id opts)) s)) (\<lambda>_.
     client_try (if co_ping opts then client_send k sends (Ping 1) else (\<lambda>s. (Some (Ok ()), s))) (\<lambda>_.
     client_try (if co_send_action opts
                 then client_send k sends (ActionMessage (ck_version k) (fr_envelope_id fr) ''action'' (client_action_of opts fr))
                 else (\<lambda>s. (Some (Ok ()), s))) (\<lambda>_.
     client_try (client_loop k (if co_send_action opts then Some (fr_action_id fr) else None) (co_receive_events opts)
                   \<lparr>pr_events = 0, pr_acknowledged = \<not> co_send_action opts, pr_ponged = \<not> co_ping opts\<rparr>) (\<lambda>_.
     client_try (client_send k sends (CloseMessage (Some ''client complete''))) (\<lambda>_ s.
     (Some (Ok ()), s\<lparr>ci_closed := True\<rparr>)))))))))))"

text \<open>\<open>connect\<close> is the outcome of \<^verbatim>\<open>connect_async\<close>, \<^verbatim>\<open>None\<close> when it times out. \<^verbatim>\<open>main\<close>: the exit code and what goes to the error output.\<close>

definition client_run ::
  "('id, 'p, 'ts) client_kernel \<Rightarrow> (unit, string) result option \<Rightarrow> (nat \<Rightarrow> send_outcome) \<Rightarrow> ('id, 'p) client_options \<Rightarrow> ('id, 'ts) client_fresh \<Rightarrow> unit client" where
  "client_run k connect sends opts fr s =
     (case connect of
        None \<Rightarrow> (Some (Err ''operation timed out''), s)
      | Some (Inl e) \<Rightarrow> (Some (Err (''connect failed: '' @ e)), s)
      | Some (Inr _) \<Rightarrow> client_session k sends opts fr s)"

definition exit_of :: "(unit, string) result \<Rightarrow> nat \<times> string option" where
  "exit_of r = (case r of Inl e \<Rightarrow> (1, Some (''ws_client failed: '' @ e)) | Inr _ \<Rightarrow> (0, None))"

definition client_main ::
  "('id, 'p, 'ts) client_kernel \<Rightarrow> 'id \<Rightarrow> 'id \<Rightarrow> (string \<Rightarrow> (unit, string) result option) \<Rightarrow> (nat \<Rightarrow> send_outcome) \<Rightarrow> ('id, 'ts) client_fresh
   \<Rightarrow> string list \<Rightarrow> client_io \<Rightarrow> (nat \<times> string option) option \<times> client_io" where
  "client_main k fresh_actor fresh_session connect sends fr arguments s =
     (case client_options_parse k fresh_actor fresh_session arguments of
        Inl e \<Rightarrow> (Some (exit_of (Err e)), s)
      | Inr None \<Rightarrow> (Some (0, None), client_print print_help s)
      | Inr (Some opts) \<Rightarrow> (case client_run k (connect (co_url opts)) sends opts fr s of (r, s') \<Rightarrow> (map_option exit_of r, s')))"

section \<open>What a successful client has seen\<close>

text \<open>The messages in what the socket yielded.\<close>

definition messages_of :: "('id, 'p, 'ts) client_kernel \<Rightarrow> receive_outcome list \<Rightarrow> 'id outbound_message list" where
  "messages_of k fs = List.map_filter (\<lambda>f. case f of TextFrame text \<Rightarrow> ck_decode k text | _ \<Rightarrow> None) fs"

text \<open>Only frames, and every text is a message.\<close>

fun clean_frame :: "('id, 'p, 'ts) client_kernel \<Rightarrow> receive_outcome \<Rightarrow> bool" where
  "clean_frame k (TextFrame text) = (ck_decode k text \<noteq> None)"
| "clean_frame k OtherFrame = True"
| "clean_frame k f = False"

definition is_error :: "'id outbound_message \<Rightarrow> bool" where
  "is_error m \<longleftrightarrow> (\<exists>code text. m = ErrorMessage code text)"

definition is_event :: "'id outbound_message \<Rightarrow> bool" where
  "is_event m \<longleftrightarrow> (\<exists>e. m = EventMessage e)"

definition yields :: "('id, 'p, 'ts) client_kernel \<Rightarrow> client_io \<Rightarrow> 'id outbound_message list \<Rightarrow> client_io \<Rightarrow> bool" where
  "yields k s ms s' \<longleftrightarrow> (\<exists>used. ci_frames s = used @ ci_frames s' \<and> list_all (clean_frame k) used \<and> messages_of k used = ms)"

lemma messages_of_append [simp]: "messages_of k (a @ b) = messages_of k a @ messages_of k b"
  by (simp add: messages_of_def map_filter_def)

lemma yields_refl: "ci_frames s' = ci_frames s \<Longrightarrow> yields k s [] s'"
  unfolding yields_def by (rule exI [of _ "[]"]) (simp add: messages_of_def map_filter_def)

lemma yields_trans: "yields k s ms s1 \<Longrightarrow> yields k s1 ms' s2 \<Longrightarrow> yields k s (ms @ ms') s2"
  unfolding yields_def by (elim exE conjE) (rule_tac x = "used @ useda" in exI, simp)

lemma next_frame_text:
  "next_frame fs = (Some (Ok text), fs') \<Longrightarrow> \<exists>skipped. fs = skipped @ TextFrame text # fs' \<and> set skipped \<subseteq> {OtherFrame}"
proof (induction fs rule: next_frame.induct)
  case (6 fs)
  then obtain skipped where "fs = skipped @ TextFrame text # fs'" "set skipped \<subseteq> {OtherFrame}" by auto
  then show ?case by (intro exI [of _ "OtherFrame # skipped"]) simp
qed (auto intro: exI [of _ "[]"])

lemma next_outbound_Ok:
  assumes "next_outbound k s = (Some (Ok m), s')"
  shows "yields k s [m] s' \<and> ci_sent s' = ci_sent s"
proof -
  from assms obtain body fs where f: "next_frame (ci_frames s) = (Some (Ok body), fs)" "ck_decode k body = Some m" "s' = s\<lparr>ci_frames := fs\<rparr>"
    by (auto simp: next_outbound_def split: prod.splits)
  from next_frame_text [OF f(1)] obtain skipped where sk: "ci_frames s = skipped @ TextFrame body # fs" "set skipped \<subseteq> {OtherFrame}" by blast
  from sk(2) have "messages_of k skipped = []" by (induction skipped) (auto simp: messages_of_def map_filter_def)
  moreover have "list_all (clean_frame k) skipped" using sk(2) by (auto simp: list_all_iff)
  ultimately show ?thesis using sk(1) f(2,3) unfolding yields_def
    by (intro conjI exI [of _ "skipped @ [TextFrame body]"]) (simp_all add: messages_of_def map_filter_def)
qed

lemma client_send_Ok:
  "client_send k sends m s = (Some (Ok u), s') \<Longrightarrow> ci_frames s' = ci_frames s \<and> (\<exists>text. ck_encode k m = Some text \<and> ci_sent s' = ci_sent s @ [text])"
  by (auto simp: client_send_def Let_def split: option.splits send_outcome.splits)

lemma client_try_Ok:
  assumes "client_try m f s = (Some (Ok y), s')"
  obtains x s1 where "m s = (Some (Ok x), s1)" "f x s1 = (Some (Ok y), s')"
  using assms by (auto simp: client_try_def split: prod.splits option.splits sum.splits)

text \<open>The loop ends once the messages account for everything that was asked for, and none is an error.\<close>

definition served :: "'id option \<Rightarrow> nat \<Rightarrow> progress \<Rightarrow> 'id outbound_message list \<Rightarrow> bool" where
  "served expected wanted pr ms \<longleftrightarrow> wanted \<le> pr_events pr + length (filter is_event ms) \<and>
     (pr_acknowledged pr \<or> (\<exists>i ids. expected = Some i \<and> ActionAcknowledgement i ids \<in> set ms)) \<and>
     (pr_ponged pr \<or> (\<exists>nonce. Pong nonce \<in> set ms)) \<and> \<not> list_ex is_error ms"

lemma served_Cons_iff:
  "served expected wanted pr (m # ms) \<longleftrightarrow> (\<exists>line pr'. on_outbound k expected m pr = Ok (line, pr') \<and> served expected wanted pr' ms)"
  by (cases m) (auto simp: served_def is_event_def is_error_def)

lemma client_loop_served:
  "client_loop k expected wanted pr s = (Some (Ok u), s') \<Longrightarrow> \<exists>ms. yields k s ms s' \<and> served expected wanted pr ms \<and> ci_sent s' = ci_sent s"
proof (induction k expected wanted pr s rule: client_loop.induct)
  case (1 k expected wanted pr s)
  show ?case
  proof (cases "client_done wanted pr")
    case True
    with "1.prems" have "s' = s" by (simp add: client_loop.simps)
    with True show ?thesis by (intro exI [of _ "[]"]) (auto simp: served_def client_done_def yields_refl)
  next
    case False
    with "1.prems" obtain m s1 where m: "next_outbound k s = (Some (Ok m), s1)"
      by (subst (asm) client_loop.simps) (auto split: prod.splits option.splits sum.splits)
    with "1.prems" False obtain line pr' where o: "on_outbound k expected m pr = Ok (line, pr')"
      by (subst (asm) client_loop.simps) (auto split: sum.splits)
    let ?s = "case line of None \<Rightarrow> s1 | Some l \<Rightarrow> client_print l s1"
    have "client_loop k expected wanted pr' ?s = (Some (Ok u), s')"
      using "1.prems" False m o by (subst (asm) client_loop.simps) simp
    with "1.IH" [OF False m [symmetric] refl refl o refl] obtain ms where
      ms: "yields k ?s ms s'" "served expected wanted pr' ms" "ci_sent s' = ci_sent ?s" by auto
    have s: "ci_frames ?s = ci_frames s1" "ci_sent ?s = ci_sent s1" by (simp_all add: client_print_def split: option.split)
    have "yields k s1 ms s'" using ms(1) s(1) by (simp add: yields_def)
    with next_outbound_Ok [OF m] served_Cons_iff [of expected wanted pr m ms k] o ms(2,3) s(2) show ?thesis
      by (intro exI [of _ "m # ms"]) (auto dest: yields_trans)
  qed
qed

text \<open>What the client is to send, in order.\<close>

definition client_messages ::
  "('id, 'p, 'ts) client_kernel \<Rightarrow> ('id, 'p) client_options \<Rightarrow> ('id, 'ts) client_fresh \<Rightarrow> ('id, 'p, 'ts) inbound_message list" where
  "client_messages k opts fr =
     [Hello [ck_version k] [''json''], Authenticate (fr_authenticate_id fr) ''development'' (ck_show_id k (co_actor_id opts)),
      Subscribe (fr_subscribe_id fr) (co_session_id opts) (co_event_types opts)] @
     (if co_ping opts then [Ping 1] else []) @
     (if co_send_action opts then [ActionMessage (ck_version k) (fr_envelope_id fr) ''action'' (client_action_of opts fr)] else []) @
     [CloseMessage (Some ''client complete'')]"

text \<open>A part of the session: the messages it received and those it sent.\<close>

definition exchanges ::
  "('id, 'p, 'ts) client_kernel \<Rightarrow> client_io \<Rightarrow> 'id outbound_message list \<Rightarrow> ('id, 'p, 'ts) inbound_message list \<Rightarrow> client_io \<Rightarrow> bool" where
  "exchanges k s received sent s' \<longleftrightarrow> yields k s received s' \<and>
     (\<exists>texts. map (ck_encode k) sent = map Some texts \<and> ci_sent s' = ci_sent s @ texts)"

lemma exchanges_trans:
  assumes "exchanges k s ms is s1" and "exchanges k s1 ms' is' s2"
  shows "exchanges k s (ms @ ms') (is @ is') s2"
proof -
  from assms obtain ts ts' where "map (ck_encode k) is = map Some ts" "ci_sent s1 = ci_sent s @ ts"
    "map (ck_encode k) is' = map Some ts'" "ci_sent s2 = ci_sent s1 @ ts'" by (auto simp: exchanges_def)
  with assms show ?thesis by (auto simp: exchanges_def yields_trans intro!: exI [of _ "ts @ ts'"])
qed

lemma exchanges_receive: "yields k s ms s' \<Longrightarrow> ci_sent s' = ci_sent s \<Longrightarrow> exchanges k s ms [] s'"
  by (simp add: exchanges_def)

lemma exchanges_skip: "ci_frames s' = ci_frames s \<Longrightarrow> ci_sent s' = ci_sent s \<Longrightarrow> exchanges k s [] [] s'"
  by (simp add: exchanges_receive yields_refl)

text \<open>A client program whose success means that it sent \<open>sent\<close> and received what \<open>P\<close> says.\<close>

definition conducts ::
  "('id, 'p, 'ts) client_kernel \<Rightarrow> 'a client \<Rightarrow> ('id, 'p, 'ts) inbound_message list \<Rightarrow> ('id outbound_message list \<Rightarrow> bool) \<Rightarrow> bool" where
  "conducts k m sent P \<longleftrightarrow> (\<forall>s u s'. m s = (Some (Ok u), s') \<longrightarrow> (\<exists>ms. exchanges k s ms sent s' \<and> P ms))"

lemma conducts_seq:
  assumes "conducts k m sent P" and "conducts k m' sent' Q"
  shows "conducts k (client_try m (\<lambda>_. m')) (sent @ sent') (\<lambda>ms. \<exists>a b. ms = a @ b \<and> P a \<and> Q b)"
  unfolding conducts_def
proof (intro allI impI)
  fix s u s'
  assume "client_try m (\<lambda>_. m') s = (Some (Ok u), s')"
  then obtain x s1 where "m s = (Some (Ok x), s1)" "m' s1 = (Some (Ok u), s')" by (rule client_try_Ok)
  with assms obtain a b where "exchanges k s a sent s1" "P a" "exchanges k s1 b sent' s'" "Q b" unfolding conducts_def by metis
  then show "\<exists>ms. exchanges k s ms (sent @ sent') s' \<and> (\<exists>a b. ms = a @ b \<and> P a \<and> Q b)" by (blast intro: exchanges_trans)
qed

lemma conducts_conseq: "conducts k m sent P \<Longrightarrow> sent = sent' \<Longrightarrow> (\<And>ms. P ms \<Longrightarrow> Q ms) \<Longrightarrow> conducts k m sent' Q"
  unfolding conducts_def by blast

lemma conducts_skip:
  "conducts k (\<lambda>s. (Some (Ok ()), s)) [] (\<lambda>ms. ms = [])" "conducts k (\<lambda>s. (Some (Ok ()), client_print line s)) [] (\<lambda>ms. ms = [])"
  "conducts k (\<lambda>s. (Some (Ok ()), s\<lparr>ci_closed := b\<rparr>)) [] (\<lambda>ms. ms = [])"
  by (auto simp: conducts_def client_print_def intro!: exchanges_skip)

lemma conducts_send: "conducts k (client_send k sends m) [m] (\<lambda>ms. ms = [])"
  unfolding conducts_def
proof (intro allI impI)
  fix s u s'
  assume "client_send k sends m s = (Some (Ok u), s')"
  from client_send_Ok [OF this] obtain encoded where "ci_frames s' = ci_frames s" "ck_encode k m = Some encoded" "ci_sent s' = ci_sent s @ [encoded]" by blast
  then show "\<exists>ms. exchanges k s ms [m] s' \<and> ms = []" by (auto simp: exchanges_def yields_refl intro!: exI [of _ "[encoded]"])
qed

lemma conducts_send_if:
  "conducts k (if b then client_send k sends m else (\<lambda>s. (Some (Ok ()), s))) (if b then [m] else []) (\<lambda>ms. ms = [])"
  by (cases b) (simp_all add: conducts_send conducts_skip)

lemma conducts_expect:
  "conducts k (expect_hello k) [] (\<lambda>ms. ms = [HelloAccepted])" "conducts k (expect_subscription k) [] (\<lambda>ms. ms = [SubscriptionAccepted])"
  unfolding conducts_def expect_hello_def expect_subscription_def
  by (auto elim!: client_try_Ok dest!: next_outbound_Ok intro!: exchanges_receive split: outbound_message.splits)

lemma conducts_loop: "conducts k (client_loop k expected wanted pr) [] (served expected wanted pr)"
  unfolding conducts_def by (blast dest: client_loop_served intro: exchanges_receive)

lemma client_session_exchanges:
  assumes "client_session k sends opts fr s = (Some (Ok ()), s')"
  shows "\<exists>ms. exchanges k s (HelloAccepted # SubscriptionAccepted # ms) (client_messages k opts fr) s' \<and>
    served (if co_send_action opts then Some (fr_action_id fr) else None) (co_receive_events opts)
      \<lparr>pr_events = 0, pr_acknowledged = \<not> co_send_action opts, pr_ponged = \<not> co_ping opts\<rparr> ms"
proof -
  let ?served = "served (if co_send_action opts then Some (fr_action_id fr) else None) (co_receive_events opts)
      \<lparr>pr_events = 0, pr_acknowledged = \<not> co_send_action opts, pr_ponged = \<not> co_ping opts\<rparr>"
  have "conducts k (client_session k sends opts fr) (client_messages k opts fr) (\<lambda>ms. \<exists>rest. ms = HelloAccepted # SubscriptionAccepted # rest \<and> ?served rest)"
    unfolding client_session_def
    by (rule conducts_conseq, (rule conducts_seq conducts_send conducts_send_if conducts_expect conducts_loop conducts_skip)+)
      (auto simp: client_messages_def)
  with assms show ?thesis unfolding conducts_def by blast
qed

lemma exit_of_zero: "exit_of r = (0, err) \<Longrightarrow> r = Ok ()"
  by (cases r) (simp_all add: exit_of_def)

section \<open>A served client succeeds\<close>

lemma next_outbound_clean:
  assumes "ci_frames s = used @ rest" and "list_all (clean_frame k) used" and "messages_of k used = m # ms"
  obtains used' where "next_outbound k s = (Some (Ok m), s\<lparr>ci_frames := used' @ rest\<rparr>)" "list_all (clean_frame k) used'" "messages_of k used' = ms"
  using assms
proof (induction used arbitrary: s thesis)
  case Nil
  then show ?case by (simp add: messages_of_def map_filter_def)
next
  case (Cons f used)
  show ?case
  proof (cases f)
    case OtherFrame
    let ?s = "s\<lparr>ci_frames := used @ rest\<rparr>"
    from OtherFrame Cons.prems(4) have "messages_of k used = m # ms" by (simp add: messages_of_def map_filter_def)
    with Cons.IH [of ?s] Cons.prems(3) OtherFrame obtain used' where
      "next_outbound k ?s = (Some (Ok m), ?s\<lparr>ci_frames := used' @ rest\<rparr>)" "list_all (clean_frame k) used'" "messages_of k used' = ms" by auto
    moreover have "next_outbound k s = (fst (next_outbound k ?s), s\<lparr>ci_frames := ci_frames (snd (next_outbound k ?s))\<rparr>)"
      using Cons.prems(2) OtherFrame by (auto simp: next_outbound_def split: prod.split)
    ultimately show ?thesis using Cons.prems(1) [of used'] by simp
  next
    case (TextFrame body)
    with Cons.prems(3,4) have "ck_decode k body = Some m" "messages_of k used = ms" by (auto simp: messages_of_def map_filter_def)
    with Cons.prems TextFrame show ?thesis by (auto simp: next_outbound_def)
  qed (use Cons.prems in auto)
qed

lemma client_loop_completes:
  "served expected wanted pr (messages_of k used) \<Longrightarrow> ci_frames s = used @ rest \<Longrightarrow> list_all (clean_frame k) used \<Longrightarrow>
   \<exists>s'. client_loop k expected wanted pr s = (Some (Ok ()), s') \<and> ci_sends s' = ci_sends s"
proof (induction "messages_of k used" arbitrary: used pr s)
  case Nil
  then have "client_done wanted pr" by (auto simp: served_def client_done_def)
  then show ?case by (simp add: client_loop.simps)
next
  case (Cons m ms)
  show ?case
  proof (cases "client_done wanted pr")
    case False
    from next_outbound_clean [OF Cons.prems(2,3) Cons.hyps(2) [symmetric]] obtain used' where
      n: "next_outbound k s = (Some (Ok m), s\<lparr>ci_frames := used' @ rest\<rparr>)" "list_all (clean_frame k) used'" "messages_of k used' = ms" by metis
    from Cons.prems(1) [folded Cons.hyps(2)] obtain line pr' where
      o: "on_outbound k expected m pr = Ok (line, pr')" "served expected wanted pr' ms"
      unfolding served_Cons_iff [where k = k] by blast
    let ?s = "case line of None \<Rightarrow> s\<lparr>ci_frames := used' @ rest\<rparr> | Some l \<Rightarrow> client_print l (s\<lparr>ci_frames := used' @ rest\<rparr>)"
    have "ci_frames ?s = used' @ rest" "ci_sends ?s = ci_sends s" by (simp_all add: client_print_def split: option.split)
    with Cons.hyps(1) [OF n(3) [symmetric], of pr' ?s] o(2) n(2,3) obtain s' where
      "client_loop k expected wanted pr' ?s = (Some (Ok ()), s')" "ci_sends s' = ci_sends s" by auto
    with False n(1) o(1) show ?thesis by (subst client_loop.simps) auto
  qed (simp add: client_loop.simps)
qed

text \<open>Conversely, a client whose sends go through succeeds as soon as the server has sent what it promises.\<close>

lemma served_client_succeeds:
  assumes "\<And>n. sends n = Sent" and "\<And>m. ck_encode k m \<noteq> None" and "ci_frames s = used @ rest" and "list_all (clean_frame k) used"
    and "messages_of k used = HelloAccepted # SubscriptionAccepted # ms"
    and "served (if co_send_action opts then Some (fr_action_id fr) else None) (co_receive_events opts)
      \<lparr>pr_events = 0, pr_acknowledged = \<not> co_send_action opts, pr_ponged = \<not> co_ping opts\<rparr> ms"
  shows "\<exists>s'. client_run k (Some (Ok ())) sends opts fr s = (Some (Ok ()), s')"
proof -
  define sent where "sent m s = s\<lparr>ci_sends := Suc (ci_sends s), ci_sent := ci_sent s @ [the (ck_encode k m)]\<rparr>" for m and s :: client_io
  have send [simp]: "client_send k sends m s = (Some (Ok ()), sent m s)" for m s
    using assms(1) [of "ci_sends s"] assms(2) [of m] by (auto simp: client_send_def sent_def Let_def)
  have frames [simp]: "ci_frames (sent m s) = ci_frames s" "ci_frames (client_print line s) = ci_frames s" for m s line
    by (simp_all add: sent_def client_print_def)
  let ?s1 = "sent (Hello [ck_version k] [''json'']) s"
  obtain used1 where 1: "next_outbound k ?s1 = (Some (Ok HelloAccepted), ?s1\<lparr>ci_frames := used1 @ rest\<rparr>)"
    "list_all (clean_frame k) used1" "messages_of k used1 = SubscriptionAccepted # ms"
    using next_outbound_clean [OF _ assms(4,5), of ?s1 rest] assms(3) by auto
  let ?s4 = "sent (Subscribe (fr_subscribe_id fr) (co_session_id opts) (co_event_types opts))
      (sent (Authenticate (fr_authenticate_id fr) ''development'' (ck_show_id k (co_actor_id opts))) (?s1\<lparr>ci_frames := used1 @ rest\<rparr>))"
  obtain used2 where 2: "next_outbound k ?s4 = (Some (Ok SubscriptionAccepted), ?s4\<lparr>ci_frames := used2 @ rest\<rparr>)"
    "list_all (clean_frame k) used2" "messages_of k used2 = ms"
    using next_outbound_clean [OF _ 1(2,3), of ?s4 rest] by auto
  define s6 where "s6 = client_print (''READY actor_id='' @ ck_show_id k (co_actor_id opts) @ '' session_id='' @ ck_show_id k (co_session_id opts)) (?s4\<lparr>ci_frames := used2 @ rest\<rparr>)"
  define s7 where "s7 = (if co_ping opts then sent (Ping 1) s6 else s6)"
  define s8 where "s8 = (if co_send_action opts then sent (ActionMessage (ck_version k) (fr_envelope_id fr) ''action'' (client_action_of opts fr)) s7 else s7)"
  have "ci_frames s8 = used2 @ rest" by (simp add: s6_def s7_def s8_def)
  from client_loop_completes [OF assms(6) [folded 2(3)] this 2(2)] obtain s9 where
    9: "client_loop k (if co_send_action opts then Some (fr_action_id fr) else None) (co_receive_events opts)
      \<lparr>pr_events = 0, pr_acknowledged = \<not> co_send_action opts, pr_ponged = \<not> co_ping opts\<rparr> s8 = (Some (Ok ()), s9)" by blast
  have 7: "(if co_ping opts then client_send k sends (Ping 1) else (\<lambda>s. (Some (Ok ()), s))) s6 = (Some (Ok ()), s7)" by (simp add: s7_def)
  have 8: "(if co_send_action opts then client_send k sends (ActionMessage (ck_version k) (fr_envelope_id fr) ''action'' (client_action_of opts fr))
      else (\<lambda>s. (Some (Ok ()), s))) s7 = (Some (Ok ()), s8)" by (simp add: s8_def)
  have hello: "expect_hello k ?s1 = (Some (Ok ()), ?s1\<lparr>ci_frames := used1 @ rest\<rparr>)" by (simp add: expect_hello_def client_try_def 1(1))
  have subscribed: "expect_subscription k ?s4 = (Some (Ok ()), ?s4\<lparr>ci_frames := used2 @ rest\<rparr>)"
    by (simp add: expect_subscription_def client_try_def 2(1))
  have "client_run k (Some (Ok ())) sends opts fr s =
      (Some (Ok ()), (sent (CloseMessage (Some ''client complete'')) s9)\<lparr>ci_closed := True\<rparr>)"
    by (simp only: client_run_def client_session_def client_try_def send hello subscribed s6_def [symmetric] 7 8 9 prod.case option.case sum.case)
  then show ?thesis by blast
qed

text \<open>
  C34. A client that exits successfully was served. Its process ends with the exit code 0 only
  after the help text, or after a session in which it sent exactly \<^verbatim>\<open>hello\<close>,
  \<^verbatim>\<open>authenticate\<close>, \<^verbatim>\<open>subscribe\<close>, the ping and the action it was asked for, and \<^verbatim>\<open>close\<close>, in
  this order; and in which the server accepted first the greeting, then the subscription, then delivered at
  least the requested number of events, acknowledged the very action that was sent, answered the
  ping, and reported no error.
\<close>

theorem client_success_was_served:
  assumes "client_main k fresh_actor fresh_session connect sends fr arguments s = (Some (0, err), s')"
  shows "client_options_parse k fresh_actor fresh_session arguments = Ok None \<or>
    (\<exists>opts ms. client_options_parse k fresh_actor fresh_session arguments = Ok (Some opts) \<and>
       exchanges k s (HelloAccepted # SubscriptionAccepted # ms) (client_messages k opts fr) s' \<and>
       co_receive_events opts \<le> length (filter is_event ms) \<and>
       (co_send_action opts \<longrightarrow> (\<exists>ids. ActionAcknowledgement (fr_action_id fr) ids \<in> set ms)) \<and>
       (co_ping opts \<longrightarrow> (\<exists>nonce. Pong nonce \<in> set ms)) \<and> \<not> list_ex is_error ms)"
proof (cases "client_options_parse k fresh_actor fresh_session arguments")
  case (Inr parsed)
  show ?thesis
  proof (cases parsed)
    case (Some opts)
    with Inr assms have "client_run k (connect (co_url opts)) sends opts fr s = (Some (Ok ()), s')"
      by (auto simp: client_main_def split: prod.splits dest: exit_of_zero)
    then have run: "client_session k sends opts fr s = (Some (Ok ()), s')"
      by (auto simp: client_run_def split: option.splits sum.splits)
    from client_session_exchanges [OF run] Inr Some show ?thesis by (auto simp: served_def split: if_splits)
  qed (use Inr in simp)
qed (use assms in \<open>simp add: client_main_def exit_of_def\<close>)

section \<open>A sample session\<close>

text \<open>A kernel whose messages are single letters.\<close>

definition letter_kernel :: "(nat, string, unit) client_kernel" where
  "letter_kernel = \<lparr>ck_version = 1, ck_parse_id = parse_unsigned u64_max, ck_show_id = dec_of_nat, ck_parse_payload = Some,
     ck_encode = (\<lambda>m. Some (case m of Hello _ _ \<Rightarrow> ''h'' | Authenticate _ _ _ \<Rightarrow> ''a'' | Subscribe _ _ _ \<Rightarrow> ''s'' | Ping _ \<Rightarrow> ''p''
       | ActionMessage _ _ _ _ \<Rightarrow> ''x'' | CloseMessage _ \<Rightarrow> ''c'')),
     ck_decode = (\<lambda>t. if t = ''H'' then Some HelloAccepted else if t = ''S'' then Some SubscriptionAccepted
       else if t = ''P'' then Some (Pong 1) else if t = ''A'' then Some (ActionAcknowledgement 12 [5]) else None),
     ck_debug = (\<lambda>_. [])\<rparr>"

definition letter_fresh :: "(nat, unit) client_fresh" where
  "letter_fresh = \<lparr>fr_authenticate_id = 10, fr_subscribe_id = 11, fr_action_id = 12, fr_envelope_id = 13, fr_now = ()\<rparr>"

definition letter_io :: client_io where
  "letter_io = \<lparr>ci_frames = [TextFrame ''H'', OtherFrame, TextFrame ''S'', TextFrame ''P'', TextFrame ''A'', StreamEnded],
     ci_sends = 0, ci_sent = [], ci_output = [], ci_closed = False\<rparr>"

lemma letter_session:
  "fst (client_main letter_kernel 1 2 (\<lambda>_. Some (Ok ())) (\<lambda>_. Sent) letter_fresh [''--ping'', ''--send-action'', ''--session-id'', ''7''] letter_io) = Some (0, None)"
  by code_simp

theorem client_success_was_served_witness:
  "\<exists>ms s'. exchanges letter_kernel letter_io (HelloAccepted # SubscriptionAccepted # ms)
     (client_messages letter_kernel \<lparr>co_url = ''ws://127.0.0.1:8080/ws'', co_actor_id = 1, co_session_id = 7, co_action_type = ''dev.echo'',
        co_event_types = [''dev.echoed''], co_payload = ''{\"message\":\"hello from ws_client\"}'', co_send_action = True, co_receive_events = 0, co_ping = True\<rparr>
        letter_fresh) s' \<and> (\<exists>ids. ActionAcknowledgement 12 ids \<in> set ms) \<and> (\<exists>nonce. Pong nonce \<in> set ms)"
proof -
  let ?o = "\<lparr>co_url = ''ws://127.0.0.1:8080/ws'', co_actor_id = 1, co_session_id = 7, co_action_type = ''dev.echo'',
        co_event_types = [''dev.echoed''], co_payload = ''{\"message\":\"hello from ws_client\"}'', co_send_action = True, co_receive_events = 0, co_ping = True\<rparr>"
  have "client_options_parse letter_kernel 1 2 [''--ping'', ''--send-action'', ''--session-id'', ''7''] = Ok (Some ?o)" by code_simp
  moreover obtain s' where "client_main letter_kernel 1 2 (\<lambda>_. Some (Ok ())) (\<lambda>_. Sent) letter_fresh
      [''--ping'', ''--send-action'', ''--session-id'', ''7''] letter_io = (Some (0, None), s')"
    using letter_session by (metis prod.collapse)
  ultimately show ?thesis
    using client_success_was_served [of letter_kernel 1 2 "\<lambda>_. Some (Ok ())" "\<lambda>_. Sent" letter_fresh
        "[''--ping'', ''--send-action'', ''--session-id'', ''7'']" letter_io None s']
    by (auto simp: letter_fresh_def)
qed

end
