(* ===== verification/Spec2Isabelle.thy ===== *)
theory Spec2Isabelle
  imports Canvas_History Asset_Recovery Store_Close Store_Clients Coordinator Delivery_History Server_Context Server_Main Ws_Client
begin

text \<open>
  A verification development of the OrbitRelay server: the three storage crates
  \<^verbatim>\<open>orbitrelay-storage-sqlite\<close>, \<^verbatim>\<open>orbitrelay-asset-local-store\<close> and \<^verbatim>\<open>orbitrelay-catalog-sqlite\<close>, and
  \<^verbatim>\<open>orbitrelay-server\<close>, which composes them into a process (all under \<^verbatim>\<open>src/crates\<close>). Unless a crate is
  named, a file below is a file of \<^verbatim>\<open>orbitrelay-server/src\<close>.

  \<^bold>\<open>The program.\<close> A process loads its configuration from environment variables, opens its
  stores, finds or publishes the Development Canvas and Document, checks every Document
  against the Asset store, and serves two listeners. On the WebSocket listener the kernel's
  transport authenticates actors and executes actions; an action produces events, which the
  pipeline appends to the EventStore before it publishes them, and queries read them back.
  An \<^verbatim>\<open>asset.access.resolve\<close> query turns a Document the actor may read into a bearer token, with which the
  Asset HTTP listener delivers the bytes of the Document's source Asset. Each store has one
  worker thread that owns its SQLite connection.

  \<^bold>\<open>Shared ground.\<close>
  \<^item> \<open>Prelude\<close>: results, the named collections, 64-bit bounds. \<open>Rust_Std\<close>: the text functions of the
    standard library. \<open>Sqlite\<close>: tables as lists of rows and fault plans of the engine. \<open>Crash_Io\<close>:
    programs that can be cut off at every effect, with \<open>triple\<close> for what holds wherever
    they stop and \<open>runs\<close> for total correctness.
  \<^item> \<open>Worker\<close>: the worker thread of the three crates. Its calls are linearizable in the order of
    acceptance, and closing executes what was accepted and then stops. \<open>Store_Close\<close>: the \<^verbatim>\<open>close\<close> methods with several
    callers at once, dropped calls and a panicking worker; a first close that succeeds has drained the store, and it
    returns. \<open>Store_Clients\<close>: the methods of the EventStore and of the
    Catalog as calls on the worker that may be refused or lose their reply; an acknowledged append or publication is durable.

  \<^bold>\<open>Events.\<close>
  \<^item> \<open>Event_Log\<close>: the EventStore port as an abstract log and the locale \<open>event_port\<close>.
    \<open>Event_Store\<close>: \<^verbatim>\<open>orbitrelay-storage-sqlite/src/lib.rs\<close>, all statements, opening and the integrity
    gate. Appends refine the log under every fault plan, paginated queries return
    exactly the matching events, foreign cursors are refused, reopening is the identity.
  \<^item> \<open>Canvas_State\<close>: the reader that replays a stroke (\<^verbatim>\<open>canvas.rs\<close>) and the pipeline
    (\<^verbatim>\<open>pipeline.rs\<close>), proved over \<open>event_port\<close>. \<open>Canvas_History\<close>: \<^verbatim>\<open>canvas_history.rs\<close>, a client that follows
    the pages receives the Canvas' events exactly.
  \<^item> \<open>Coordinator\<close>: the keyed leases of \<^verbatim>\<open>canvas.rs\<close> as interleaved steps of threads; leases are
    exclusive, and the one way in which threads can deadlock is characterised.

  \<^bold>\<open>Assets.\<close>
  \<^item> \<open>Asset_Port\<close>: the ports as a locale. \<open>Asset_Store\<close> and \<open>Asset_Recovery\<close>:
    \<^verbatim>\<open>orbitrelay-asset-local-store/src/lib.rs\<close>, the publication protocol over directories and table,
    recovery and reads. An ingest is atomic under crashes, published Assets are immutable,
    recovery ends and loses nothing.
  \<^item> \<open>Byte_Range\<close>, \<open>Grant\<close>, \<open>Asset_Http\<close>, \<open>Asset_Access\<close>: \<^verbatim>\<open>asset_delivery/\<close>. Tokens are accepted only
    if they were issued and have not expired, bytes are sent only under a grant of an authorized reader, response
    heads are well-formed, requests bounded. \<open>Delivery_History\<close>: queries and the events of the HTTP listener in one history; every
    download goes back to a query of an authorized reader.

  \<^bold>\<open>Documents.\<close>
  \<^item> \<open>Catalog_Store\<close>, \<open>Catalog_Graph\<close>, \<open>Catalog_Service\<close>: \<^verbatim>\<open>orbitrelay-catalog-sqlite/src/lib.rs\<close>. The five tables
    encode an abstract graph; every command refines an operation on it, and every reachable
    database can be opened again.

  \<^bold>\<open>The process.\<close>
  \<^item> \<open>Server_Config\<close>: \<^verbatim>\<open>config.rs\<close>. Loading what a valid configuration is written to returns it.
  \<^item> \<open>Server_Context\<close>: \<^verbatim>\<open>context.rs\<close> with its constructors, over a registry that other nodes share, and the bootstrap's registrations.
    It shows the registry this node as it is, and refines the model of \<open>Server_Lifecycle\<close>.
  \<^item> \<open>Server_Lifecycle\<close>: \<^verbatim>\<open>lifecycle.rs\<close>, \<^verbatim>\<open>health.rs\<close>, \<^verbatim>\<open>context.rs\<close>, \<^verbatim>\<open>application.rs\<close>. A process that reports ready
    has everything it promises.
  \<^item> \<open>Task_Pool\<close> and \<open>Listeners\<close>: the accept loops of \<^verbatim>\<open>listener.rs\<close> and \<^verbatim>\<open>asset_delivery/http.rs\<close>, event by event.
    The locale \<open>task_pool\<close> is the contract of an owner of connection tasks and is interpreted on both listeners; connections and
    downloads stay within their limits, no permit leaks, and shutdown ends within a bound on the number of tasks.
  \<^item> \<open>Server_Ports\<close>: \<^verbatim>\<open>development.rs\<close>, \<^verbatim>\<open>dependencies.rs\<close>, \<^verbatim>\<open>adapters.rs\<close>.
  \<^item> \<open>Bootstrap\<close> and \<open>Bootstrap_Stores\<close>: \<^verbatim>\<open>bootstrap.rs\<close> over the models of the Asset store and the Catalog. Every
    history of bootstraps, cut off anywhere, keeps both stores consistent with each other.
  \<^item> \<open>Ws_Client\<close>: \<^verbatim>\<open>examples/ws_client.rs\<close>, command line and session. A client that exits successfully was served, and
    one that is served exits successfully.
  \<^item> \<open>Server_Main\<close>: \<^verbatim>\<open>main.rs\<close>. A process runs from its environment variables to its end,
    and serves nothing that Development mode was not asked for.
  \<^item> This theory: what was ingested is what is delivered.

  \<^bold>\<open>How state and effects are modelled.\<close> Structs are records, enums datatypes, errors sums; an operation takes the
  state and returns its result with the new state. Threads, tasks and network peers are steps of
  relations or explicit sequences of events, so that statements hold for every
  interleaving. Locks that protect a single access make that access a step. Machine
  integers are words where the code computes with them (byte ranges, base64) and naturals
  with explicit bounds where it checks them. Time is an argument of each call.

  \<^bold>\<open>Bounds and fuel.\<close> Programs of \<open>Crash_Io\<close> run on a number of steps: a theorem about crashes quantifies over
  all numbers, and a theorem that a program succeeds states a number from which on it does. Loops
  over pages and chunks are functions with termination proofs, or run for a number of requests
  for which the theorem gives a bound. The drain of the listeners is a relation; the bound is two steps for a WebSocket task, three for
  an HTTP task and four more.

  \<^bold>\<open>What is an argument.\<close> SQLite and the file system, as fault plans; the kernel's crates (identities,
  descriptors and their constructors, payload codecs, projector, Document composer and read service, memory stores, query
  registry, Runtime, event bus, transport), with the laws used of them as named hypotheses (\<open>catalog_codec_ok\<close>, \<open>asset_codec_ok\<close>,
  \<open>composer_ok\<close>, \<open>semaphore_ok\<close>, \<open>handshake_ok\<close>, \<open>filter_ok\<close>, \<open>timestamp_ok\<close>); SHA-256, random bytes and the clock;
  tokio's semaphore. Each hypothesis is met by a concrete instance in a witness.

  \<^bold>\<open>Not modelled.\<close> \<^verbatim>\<open>lib.rs\<close> (re-exports), tracing output, getters that return a field of a
  record, the tests. Timers appear only as the event that they elapse. The kernel's crates are not part of the
  sources: the frames of a WebSocket session, the dispatch of actions to handlers and the fan-out of the event bus are outcomes or
  arguments.
\<close>

section \<open>From ingest to delivery\<close>

text \<open>
  C6. What was ingested is what is delivered. Take an ingest that reported \<^verbatim>\<open>Inserted\<close>, and any
  later history of the store, in which ingests and reopenings with faults and crashes
  continue even between the reads of one download. A connection that is granted the Asset
  sends a head that announces the length of the requested part and then bytes of that part
  of the ingested stream, in order; a connection that finishes without being cancelled has sent all of it.
\<close>

theorem ingested_bytes_are_delivered:
  assumes "asset_codec_ok c" and "asset_inv c w0" and "descriptor_valid c d"
    and "ingest p c d source n w0 = (Done (Ok Inserted), n', w)" and "\<And>k. asset_history c w (ws k)"
    and "read_request chunks = Ok req"
    and "respond dl (\<lambda>i. get_asset (ps 0) c i (ws 0)) permit now req g = (StreamReply (ad_asset_id d) status headers start len, g')"
    and "handle_connection wfail dl (\<lambda>i. get_asset (ps 0) c i (ws 0)) (\<lambda>k i r. read_range (ps k) c i r (ws k)) valid cancelled permit now chunks g = (res, out, g'')"
  shows "start + len \<le> length (stream_content source) \<and> map_of headers ''Content-Length'' = Some (dec_of_nat len) \<and>
    (\<exists>k. hs_out out = take k (response_head status headers @ slice start len (stream_content source))) \<and>
    (res = Ok () \<longrightarrow> (\<forall>m. \<not> cancelled m) \<longrightarrow> hs_out out = response_head status headers @ slice start len (stream_content source))"
proof -
  let ?s = "\<lambda>k. (ps k, ws k)"
  from ingest_outcome [OF assms(1,3) agrees_self [OF assms(2)] assms(4)]
  have w: "asset_inv c w" "published_asset c w (ad_asset_id d) = Some (d, stream_content source)"
    by (auto simp: ingest_post_def agrees_def)
  have ws: "readable c (?s k) \<and> asset_content c (?s k) (ad_asset_id d) = Some (stream_content source)" for k
    using asset_history_mono [OF assms(5) assms(1) w(1)] assms(1) w(2)
    by (auto simp: readable_def asset_content_def map_le_def dom_def)
  have "\<not> i64_max < int (ad_byte_length d)"
    using assms(4) by (auto simp: ingest_def io_return_def split: if_splits)
  then have len: "length (stream_content source) \<le> u64_max"
    using published_asset_matches [OF assms(1) w] i64_max_le_u64_max [of "ad_byte_length d"] by (simp add: blob_matches_def)
  show ?thesis
    using assets.connection_serves_slice [where s = ?s, OF ws len assms(6)] assms(7,8) by (simp add: port_get_def port_read_def)
qed

theorem ingested_bytes_are_delivered_witness:
  "\<exists>status headers. map_of headers ''Content-Length'' = Some (dec_of_nat 2) \<and>
     (\<exists>k. hs_out (fst (snd (handle_connection (\<lambda>_. None) (sample_delivery :: (string, string, int) delivery)
        (\<lambda>i. get_asset (calm_plan []) text_asset_codec i note_world)
        (\<lambda>k i r. read_range (calm_plan []) text_asset_codec i r note_world) (\<lambda>_ _. True) (\<lambda>_. False) True 699 [get_request] note_grants))) =
       take k (response_head status headers @ ''bc''))"
proof -
  have "get_asset (calm_plan []) text_asset_codec ''n'' note_world = Ok (Some note_asset)" by code_simp
  then obtain status headers where resp:
    "respond (sample_delivery :: (string, string, int) delivery) (\<lambda>i. get_asset (calm_plan []) text_asset_codec i note_world) True 699 note_request note_grants =
     (StreamReply ''n'' status headers 1 2, note_grants)"
    using note_response [where get = "\<lambda>i. get_asset (calm_plan []) text_asset_codec i note_world"] by (simp add: note_asset_def note_descriptor_def)
  obtain res out g'' where h: "handle_connection (\<lambda>_. None) (sample_delivery :: (string, string, int) delivery)
        (\<lambda>i. get_asset (calm_plan []) text_asset_codec i note_world)
        (\<lambda>k i r. read_range (calm_plan []) text_asset_codec i r note_world) (\<lambda>_ _. True) (\<lambda>_. False) True 699 [get_request] note_grants = (res, out, g'')"
    by (metis prod_cases3)
  have hist: "asset_history text_asset_codec note_world note_world" by (simp add: asset_history_def)
  have id: "ad_asset_id note_asset = ''n''" by (simp add: note_asset_def)
  have sc: "slice 1 2 (stream_content [Some ''ab'', Some ''c'']) = ''bc''" by (simp add: slice_def)
  from ingested_bytes_are_delivered [where ws = "\<lambda>_. note_world" and ps = "\<lambda>_. calm_plan []", OF text_asset_codec_ok empty_world_inv note_asset_valid sample_ingest hist
      get_request_parsed resp [folded id] h] show ?thesis
    unfolding h sc by auto
qed

end
